(* ===== verification/Prelude.thy ===== *)
theory Prelude
  imports Main "HOL-Library.Word"
begin

unbundle bit_operations_syntax

text \<open>
  The prelude of the lmaOS development: the machine integer types of
  \<^verbatim>\<open>student-distrib/types.h\<close>, the flat byte memory the C code addresses through
  pointers, and the generic facts on addresses, address ranges and byte strings that the
  component theories share.  An address is a 32-bit word and address arithmetic wraps
  around, as it does on the i386.
\<close>

type_synonym u8 = "8 word"
type_synonym u16 = "16 word"
type_synonym u32 = "32 word"
type_synonym mem = "u32 \<Rightarrow> u8"

named_theorems mem_simps \<open>reading a byte of an updated memory\<close>
named_theorems frame_simps \<open>fields and bytes an operation leaves alone\<close>
named_theorems inv_intros \<open>operations keep a component's invariant\<close>

declare upt_rec_numeral [simp del]

section \<open>Words as numbers\<close>

lemma u32_of_nat_inj [simp]:
  "i < 2 ^ 32 \<Longrightarrow> j < 2 ^ 32 \<Longrightarrow> ((of_nat i :: u32) = of_nat j) = (i = j)"
  by (simp add: word_of_nat_eq_iff take_bit_nat_eq_self)

lemma unat_u32_of_nat: "i < 2 ^ 32 \<Longrightarrow> unat (of_nat i :: u32) = i"
  by (simp add: unat_of_nat take_bit_nat_eq_self)

lemma unat_u32_less: "unat (x :: u32) < 2 ^ 32"
  using unsigned_less [of x] by simp

lemma unat_u32_bound: "unat (w :: u32) < 4294967296"
  using unat_u32_less [of w] by simp

lemma unat_u8_less: "unat (x :: u8) < 256"
  using unsigned_less [of x] by simp

lemma u32_of_nat_unat [simp]: "of_nat (unat (x :: u32)) = x"
  by simp

lemma unat_diff_plus_of_nat:
  "i < 2 ^ 32 \<Longrightarrow> unat ((a :: u32) + of_nat i - a) = i"
  by (simp add: unat_u32_of_nat)

lemma unat_u32_minus:
  "unat ((x :: u32) - y) = (if unat y \<le> unat x then unat x - unat y
     else unat x + 2 ^ 32 - unat y)"
  by (simp add: unat_sub_if')

lemma unat_u32_plus:
  "unat ((x :: u32) + y) = (if unat x + unat y < 2 ^ 32 then unat x + unat y
     else unat x + unat y - 2 ^ 32)"
  by (simp add: unat_plus_if')

lemma sint_u32_of_int: "- (2 ^ 31) \<le> i \<Longrightarrow> i < 2 ^ 31 \<Longrightarrow> sint (of_int i :: u32) = i"
  by (simp add: sint_sbintrunc' signed_take_bit_int_eq_self)

section \<open>Address ranges\<close>

text \<open>
  \<open>inr a n p\<close>: the address \<open>p\<close> is one of the \<open>n\<close> bytes that start at \<open>a\<close>
  (the range wraps around at the end of the address space).
\<close>

definition inr :: "u32 \<Rightarrow> nat \<Rightarrow> u32 \<Rightarrow> bool" where
  "inr a n p = (unat (p - a) < n)"

text \<open>Two ranges have no byte in common.\<close>

definition apart :: "u32 \<Rightarrow> nat \<Rightarrow> u32 \<Rightarrow> nat \<Rightarrow> bool" where
  "apart a n b k = (n = 0 \<or> k = 0 \<or> (n \<le> unat (b - a) \<and> k \<le> unat (a - b)))"

lemma inr_0 [simp]: "\<not> inr a 0 p"
  by (simp add: inr_def)

lemma inr_start [simp]: "inr a n a = (0 < n)"
  by (simp add: inr_def)

lemma inr_offset [simp]: "i < 2 ^ 32 \<Longrightarrow> inr a n (a + of_nat i) = (i < n)"
  by (simp add: inr_def unat_u32_of_nat)

lemma inrE:
  assumes "inr a n p"
  obtains i where "i < n" and "i < 2 ^ 32" and "p = a + of_nat i"
proof
  show "unat (p - a) < n" using assms by (simp add: inr_def)
  show "unat (p - a) < 2 ^ 32" by (rule unat_u32_less)
  show "p = a + of_nat (unat (p - a))" by simp
qed

lemma inr_mono: "inr a n p \<Longrightarrow> n \<le> k \<Longrightarrow> inr a k p"
  by (simp add: inr_def)

lemma inr_sub:
  assumes "inr (a + of_nat i) n p" and "i + n \<le> k" and "k \<le> 2 ^ 32"
  shows "inr a k p"
proof -
  from assms(1) obtain j where j: "j < n" "p = a + of_nat i + of_nat j"
    by (rule inrE)
  then have "p = a + of_nat (i + j)" by (simp add: add.assoc)
  moreover have "i + j < k" "i + j < 2 ^ 32" using assms j(1) by auto
  ultimately show ?thesis by (simp del: of_nat_add)
qed

lemma apartD: "apart a n b k \<Longrightarrow> inr a n p \<Longrightarrow> \<not> inr b k p"
proof (rule notI)
  assume ap: "apart a n b k" and pa: "inr a n p" and pb: "inr b k p"
  from ap pa pb have "n \<le> unat (b - a)" "k \<le> unat (a - b)"
    by (auto simp: apart_def)
  with pa pb have "unat (p - a) < unat (b - a)" "unat (p - b) < unat (a - b)"
    by (auto simp: inr_def)
  then show False
    using unat_u32_less [of p] unat_u32_less [of a] unat_u32_less [of b]
    by (auto simp: unat_u32_minus split: if_splits)
qed

lemma apart_sym: "apart a n b k = apart b k a n"
  by (auto simp: apart_def)

lemma apartI:
  assumes "n \<le> 2 ^ 32" and "k \<le> 2 ^ 32" and "\<And>p. inr a n p \<Longrightarrow> \<not> inr b k p"
  shows "apart a n b k"
proof (cases "n = 0 \<or> k = 0")
  case False
  from False assms(3) [of a] have "\<not> inr b k a" by auto
  moreover from False assms(3) [of b] have "\<not> inr a n b" by auto
  ultimately show ?thesis by (simp add: apart_def inr_def not_less)
qed (auto simp: apart_def)

lemma apart_mono: "apart a n b k \<Longrightarrow> n' \<le> n \<Longrightarrow> apart a n' b k"
  by (auto simp: apart_def)

lemma apart_sub: "apart b k a n \<Longrightarrow> i + l \<le> n \<Longrightarrow> n \<le> 2 ^ 32 \<Longrightarrow> k \<le> 2 ^ 32 \<Longrightarrow> apart b k (a + of_nat i) l"
  by (rule apartI) (auto dest: apartD inr_sub)

section \<open>Byte memory\<close>

text \<open>The \<open>n\<close> bytes that start at an address, and a byte string stored at an address.\<close>

definition rd :: "mem \<Rightarrow> u32 \<Rightarrow> nat \<Rightarrow> u8 list" where
  "rd m a n = map (\<lambda>i. m (a + of_nat i)) [0..<n]"

fun wr :: "u32 \<Rightarrow> u8 list \<Rightarrow> mem \<Rightarrow> mem" where
  "wr a [] m = m"
| "wr a (x # xs) m = wr (a + 1) xs (m(a := x))"

lemma length_rd [simp]: "length (rd m a n) = n"
  by (simp add: rd_def)

lemma nth_rd [simp]: "i < n \<Longrightarrow> rd m a n ! i = m (a + of_nat i)"
  by (simp add: rd_def)

lemma rd_0 [simp]: "rd m a 0 = []"
  by (simp add: rd_def)

lemma rd_Suc: "rd m a (Suc n) = m a # rd m (a + 1) n"
  by (rule nth_equalityI) (auto simp: nth_Cons add.assoc split: nat.split)

lemma rd_cong: "(\<And>p. inr a n p \<Longrightarrow> m p = m' p) \<Longrightarrow> n \<le> 2 ^ 32 \<Longrightarrow> rd m a n = rd m' a n"
  by (rule nth_equalityI) auto

lemma take_rd: "k \<le> n \<Longrightarrow> take k (rd m a n) = rd m a k"
  by (rule nth_equalityI) auto

lemma rd_add: "rd m a (n + k) = rd m a n @ rd m (a + of_nat n) k"
  by (induction n arbitrary: a) (simp_all add: rd_Suc add.assoc)

lemma unat_minus_Suc:
  assumes "p \<noteq> (a :: u32)"
  shows "unat (p - a) = Suc (unat (p - (a + 1)))"
proof -
  have "p - a \<noteq> 0" using assms by simp
  then have "unat (p - a) = Suc (unat (p - a - 1))"
    by (metis Suc_pred' unat_gt_0 unat_minus_one)
  then show ?thesis by (simp add: diff_diff_eq)
qed

lemma wr_apply [mem_simps]:
  "length xs \<le> 2 ^ 32 \<Longrightarrow>
    wr a xs m p = (if inr a (length xs) p then xs ! unat (p - a) else m p)"
proof (induction xs arbitrary: a m)
  case (Cons x xs)
  have last: "unat (a - (a + 1)) = 2 ^ 32 - 1" by (simp add: unat_eq_nat_uint uint_word_ariths)
  show ?case
  proof (cases "p = a")
    case True
    then show ?thesis using Cons last by (simp add: inr_def)
  next
    case False
    then show ?thesis
      using Cons unat_minus_Suc [OF False] by (simp add: inr_def)
  qed
qed simp

lemma wr_other [mem_simps]:
  "\<not> inr a (length xs) p \<Longrightarrow> length xs \<le> 2 ^ 32 \<Longrightarrow> wr a xs m p = m p"
  by (simp add: wr_apply)

lemma rd_wr_same: "length xs \<le> 2 ^ 32 \<Longrightarrow> rd (wr a xs m) a (length xs) = xs"
  by (rule nth_equalityI) (auto simp: wr_apply unat_u32_of_nat)

lemma rd_wr_apart:
  "apart a (length xs) b n \<Longrightarrow> length xs \<le> 2 ^ 32 \<Longrightarrow> n \<le> 2 ^ 32 \<Longrightarrow>
    rd (wr a xs m) b n = rd m b n"
  by (rule rd_cong) (auto simp: wr_apply dest: apartD)

lemma wr_append: "wr a (xs @ ys) m = wr (a + of_nat (length xs)) ys (wr a xs m)"
  by (induction xs arbitrary: a m) (simp_all add: add.assoc)

section \<open>Little-endian words in memory\<close>

definition byte_of :: "nat \<Rightarrow> u32 \<Rightarrow> u8" where
  "byte_of k w = ucast (drop_bit (8 * k) w)"

definition le32 :: "u8 \<Rightarrow> u8 \<Rightarrow> u8 \<Rightarrow> u8 \<Rightarrow> u32" where
  "le32 b0 b1 b2 b3 = ucast b0 OR push_bit 8 (ucast b1) OR push_bit 16 (ucast b2)
     OR push_bit 24 (ucast b3)"

definition ld32 :: "mem \<Rightarrow> u32 \<Rightarrow> u32" where
  "ld32 m a = le32 (m a) (m (a + 1)) (m (a + 2)) (m (a + 3))"

definition bytes32 :: "u32 \<Rightarrow> u8 list" where
  "bytes32 w = [byte_of 0 w, byte_of 1 w, byte_of 2 w, byte_of 3 w]"

definition st32 :: "u32 \<Rightarrow> u32 \<Rightarrow> mem \<Rightarrow> mem" where
  "st32 a w m = wr a (bytes32 w) m"

lemma byte_of_le32:
  "byte_of 0 (le32 a b c d) = a" "byte_of 1 (le32 a b c d) = b"
  "byte_of 2 (le32 a b c d) = c" "byte_of 3 (le32 a b c d) = d"
  by (rule bit_word_eqI; auto simp: byte_of_def le32_def bit_simps dest: bit_imp_le_length)+

lemma le32_bytes: "le32 (byte_of 0 w) (byte_of 1 w) (byte_of 2 w) (byte_of 3 w) = w"
proof (rule bit_word_eqI)
  fix n assume "n < LENGTH(32)"
  then have "n < 8 \<or> (8 \<le> n \<and> n < 16) \<or> (16 \<le> n \<and> n < 24) \<or> (24 \<le> n \<and> n < 32)" by auto
  then show "bit (le32 (byte_of 0 w) (byte_of 1 w) (byte_of 2 w) (byte_of 3 w)) n = bit w n"
    by (auto simp: le32_def byte_of_def bit_simps)
qed

lemma bytes32_ld32: "bytes32 (ld32 m a) = rd m a 4"
proof -
  have "rd m a 4 = rd m a (Suc (Suc (Suc (Suc 0))))" by (simp add: eval_nat_numeral)
  then show ?thesis
    unfolding bytes32_def ld32_def byte_of_le32 by (simp add: rd_Suc add.assoc)
qed

lemma bytes32_le32 [simp]: "bytes32 (le32 a b c d) = [a, b, c, d]"
  by (simp only: bytes32_def byte_of_le32)

lemma byte_of_bytes32: "byte_of 0 w = bytes32 w ! 0"
  by (simp add: bytes32_def)

lemma length_bytes32 [simp]: "length (bytes32 w) = 4"
  by (simp add: bytes32_def)

lemma ld32_rd: "ld32 m a = (let bs = rd m a 4 in le32 (bs ! 0) (bs ! 1) (bs ! 2) (bs ! 3))"
  by (simp add: ld32_def Let_def)

lemma ld32_cong: "rd m a 4 = rd m' b 4 \<Longrightarrow> ld32 m a = ld32 m' b"
  by (simp add: ld32_rd)

lemma ld32_st32: "ld32 (st32 a w m) a = w"
proof -
  have "rd (st32 a w m) a 4 = bytes32 w"
    using rd_wr_same [of "bytes32 w" a m] by (simp add: st32_def)
  then show ?thesis using le32_bytes [of w] by (simp add: ld32_rd bytes32_def)
qed

end
