(* ===== verification/Machine.thy ===== *)
theory Machine
  imports Prelude
begin

text \<open>
  The machine the kernel runs on, as far as the C code touches it, and the port primitives
  of \<^verbatim>\<open>student-distrib/lib.h\<close>.  \<open>mem\<close> is the memory reached through pointers,
  \<open>out\<close> the bytes written to the I/O ports (newest first), \<open>iflag\<close> the interrupt
  flag.  The devices are not part of the repository: \<open>dev\<close> is a parameter, the byte a
  port delivers after a given history of port writes.  \<open>wild\<close> is a ghost flag: it is set
  when the code stores outside the array it indexes, which C leaves undefined.
\<close>

record machine =
  mem :: mem
  out :: "(u16 \<times> u8) list"
  dev :: "(u16 \<times> u8) list \<Rightarrow> u16 \<Rightarrow> u8"
  iflag :: bool
  wild :: bool

definition outb :: "u8 \<Rightarrow> u16 \<Rightarrow> 'a machine_scheme \<Rightarrow> 'a machine_scheme" where
  "outb data port s = s\<lparr>out := (port, data) # out s\<rparr>"

definition inb :: "u16 \<Rightarrow> 'a machine_scheme \<Rightarrow> u32" where
  "inb port s = ucast (dev s (out s) port)"

definition cli :: "'a machine_scheme \<Rightarrow> 'a machine_scheme" where
  "cli s = s\<lparr>iflag := False\<rparr>"

definition sti :: "'a machine_scheme \<Rightarrow> 'a machine_scheme" where
  "sti s = s\<lparr>iflag := True\<rparr>"

text \<open>A C integer or character that is written to a port is cut to its low byte.\<close>

definition low8 :: "u32 \<Rightarrow> u8" where
  "low8 w = ucast w"

lemma low8_ucast [simp]: "low8 (ucast (b :: u8)) = b"
  by (rule bit_word_eqI) (simp add: low8_def bit_simps)

text \<open>The byte a port received last.\<close>

definition last_out :: "u16 \<Rightarrow> 'a machine_scheme \<Rightarrow> u8 option" where
  "last_out p s = map_of (out s) p"

text \<open>A store to one byte of memory.\<close>

definition poke :: "u32 \<Rightarrow> u8 \<Rightarrow> 'a machine_scheme \<Rightarrow> 'a machine_scheme" where
  "poke a b s = s\<lparr>mem := (mem s)(a := b)\<rparr>"

lemma outb_fields [frame_simps, simp]:
  "mem (outb d p s) = mem s" "dev (outb d p s) = dev s" "iflag (outb d p s) = iflag s"
  "wild (outb d p s) = wild s" "out (outb d p s) = (p, d) # out s"
  by (simp_all add: outb_def)

lemma cli_sti_fields [frame_simps, simp]:
  "mem (cli s) = mem s" "out (cli s) = out s" "dev (cli s) = dev s" "wild (cli s) = wild s"
  "iflag (cli s) = False"
  "mem (sti s) = mem s" "out (sti s) = out s" "dev (sti s) = dev s" "wild (sti s) = wild s"
  "iflag (sti s) = True"
  by (simp_all add: cli_def sti_def)

lemma poke_fields [frame_simps, simp]:
  "mem (poke a b s) = (mem s)(a := b)" "out (poke a b s) = out s" "dev (poke a b s) = dev s"
  "iflag (poke a b s) = iflag s" "wild (poke a b s) = wild s"
  by (simp_all add: poke_def)

lemma last_out_outb [simp]:
  "last_out q (outb d p s) = (if q = p then Some d else last_out q s)"
  by (simp add: last_out_def)

lemma last_out_other [simp]:
  "last_out q (cli s) = last_out q s" "last_out q (sti s) = last_out q s"
  "last_out q (poke a b s) = last_out q s"
  by (simp_all add: last_out_def)

end
