(* ===== verification/Pic.thy ===== *)
theory Pic
  imports Machine
begin

text \<open>
  The 8259 interrupt controllers, \<^verbatim>\<open>student-distrib/i8259.c\<close>: the two mask variables,
  \<open>i8259_init\<close>, \<open>enable_irq\<close>, \<open>disable_irq\<close> and \<open>send_eoi\<close>.  The locale
  \<open>irq_lines\<close> is what the drivers rely on: enabling a line unmasks it and no other.
  For an \<open>irq_num\<close> of 40 or more the C shift is undefined; the model shifts the bit
  out, and the lemmas are about the sixteen lines there are.
\<close>

record pic = machine +
  master_mask :: u8
  slave_mask :: u8

definition enable_irq :: "u32 \<Rightarrow> 'a pic_scheme \<Rightarrow> 'a pic_scheme" where
  "enable_irq irq_num s =
     (if irq_num < 8
      then let m = master_mask s AND ucast (NOT (push_bit (unat irq_num) (1 :: u32)))
           in outb m 0x21 (s\<lparr>master_mask := m\<rparr>)
      else let m = slave_mask s AND ucast (NOT (push_bit (unat (irq_num - 8)) (1 :: u32)))
           in outb m 0xA1 (s\<lparr>slave_mask := m\<rparr>))"

definition disable_irq :: "u32 \<Rightarrow> 'a pic_scheme \<Rightarrow> 'a pic_scheme" where
  "disable_irq irq_num s =
     (if irq_num < 8
      then let m = master_mask s OR ucast (push_bit (unat irq_num) (1 :: u32))
           in outb m 0x21 (s\<lparr>master_mask := m\<rparr>)
      else let m = slave_mask s OR ucast (push_bit (unat (irq_num - 8)) (1 :: u32))
           in outb m 0xA1 (s\<lparr>slave_mask := m\<rparr>))"

definition send_eoi :: "u32 \<Rightarrow> 'a machine_scheme \<Rightarrow> 'a machine_scheme" where
  "send_eoi irq_num s =
     (if 8 \<le> irq_num
      then outb (low8 (0x60 OR 0x02)) 0x20 (outb (low8 ((irq_num - 8) OR 0x60)) 0xA0 s)
      else outb (low8 (irq_num OR 0x60)) 0x20 s)"

definition i8259_init :: "'a pic_scheme \<Rightarrow> 'a pic_scheme" where
  "i8259_init s =
     (let s = outb 0xFF 0x21 s; s = outb 0xFF 0xA1 s;
          s = outb 0x11 0x20 s; s = outb 0x11 0xA0 s;
          s = outb 0x20 0x21 s; s = outb 0x28 0xA1 s;
          s = outb 0x04 0x21 s; s = outb 0x02 0xA1 s;
          s = outb 0x01 0x21 s; s = outb 0x01 0xA1 s;
          s = outb (master_mask s) 0x21 s; s = enable_irq 2 s
      in outb (slave_mask s) 0xA1 s)"

section \<open>Masked lines\<close>

definition irq_masked :: "u32 \<Rightarrow> 'a pic_scheme \<Rightarrow> bool" where
  "irq_masked j s = (if j < 8 then bit (master_mask s) (unat j)
     else bit (slave_mask s) (unat (j - 8)))"

text \<open>The controllers' own mask registers hold what the kernel's variables say.\<close>

definition masks_synced :: "'a pic_scheme \<Rightarrow> bool" where
  "masks_synced s = (last_out 0x21 s = Some (master_mask s)
     \<and> last_out 0xA1 s = Some (slave_mask s))"

lemma bit_ucast_single: "j < 8 \<Longrightarrow>
    bit (ucast (2 ^ n :: u32) :: u8) j = (j = n)"
  by (auto simp: bit_simps bit_1_iff)

lemma bit_ucast_not_single: "j < 8 \<Longrightarrow>
    bit (ucast (NOT (2 ^ n :: u32)) :: u8) j = (j \<noteq> n)"
  by (auto simp: bit_simps bit_1_iff)

lemma unat_u32_less8: "(x :: u32) < 8 \<Longrightarrow> unat x < 8"
  by (simp add: word_less_nat_alt)

lemma unat_slave_line: "(j :: u32) < 16 \<Longrightarrow> \<not> j < 8 \<Longrightarrow> unat (j - 8) = unat j - 8 \<and> unat j - 8 < 8"
  by (auto simp: word_less_nat_alt unat_u32_minus)

lemma unat_eq_u32: "(unat (x :: u32) = unat y) = (x = y)"
  by (simp add: word_unat_eq_iff)

lemmas irq_bits = bit_ucast_single bit_ucast_not_single unat_u32_less8 unat_slave_line unat_eq_u32

lemma slave_line_eq:
  "(i :: u32) < 16 \<Longrightarrow> j < 16 \<Longrightarrow> \<not> i < 8 \<Longrightarrow> \<not> j < 8 \<Longrightarrow> (unat (j - 8) = unat (i - 8)) = (j = i)"
  using unat_slave_line [of i] unat_slave_line [of j]
  by (auto simp: word_unat_eq_iff word_less_nat_alt)

lemma enable_irq_fields [frame_simps, simp]:
  "mem (enable_irq i s) = mem s" "dev (enable_irq i s) = dev s" "iflag (enable_irq i s) = iflag s"
  "wild (enable_irq i s) = wild s"
  by (simp_all add: enable_irq_def Let_def)

lemma disable_irq_fields [frame_simps, simp]:
  "mem (disable_irq i s) = mem s" "dev (disable_irq i s) = dev s"
  "iflag (disable_irq i s) = iflag s" "wild (disable_irq i s) = wild s"
  by (simp_all add: disable_irq_def Let_def)

lemma outb_pic [frame_simps, simp]:
  "master_mask (outb d p s) = master_mask s" "slave_mask (outb d p s) = slave_mask s"
  "master_mask (cli s) = master_mask s" "slave_mask (cli s) = slave_mask s"
  "master_mask (sti s) = master_mask s" "slave_mask (sti s) = slave_mask s"
  by (simp_all add: outb_def cli_def sti_def)

lemma irq_masked_enable:
  assumes "i < 16" and "j < 16"
  shows "irq_masked j (enable_irq i s) = (irq_masked j s \<and> j \<noteq> i)"
proof (cases "i < 8")
  case True
  then show ?thesis
    using assms by (auto simp: irq_masked_def enable_irq_def Let_def bit_and_iff irq_bits)
next
  case False
  then show ?thesis
    using assms slave_line_eq [OF assms False]
    by (auto simp: irq_masked_def enable_irq_def Let_def bit_and_iff bit_ucast_not_single
        dest: unat_slave_line)
qed

lemma irq_masked_disable:
  assumes "i < 16" and "j < 16"
  shows "irq_masked j (disable_irq i s) = (irq_masked j s \<or> j = i)"
proof (cases "i < 8")
  case True
  then show ?thesis
    using assms by (auto simp: irq_masked_def disable_irq_def Let_def bit_or_iff irq_bits)
next
  case False
  then show ?thesis
    using assms slave_line_eq [OF assms False]
    by (auto simp: irq_masked_def disable_irq_def Let_def bit_or_iff bit_ucast_single
        dest: unat_slave_line)
qed

lemma masks_synced_enable [inv_intros]: "masks_synced s \<Longrightarrow> masks_synced (enable_irq i s)"
  by (auto simp: masks_synced_def enable_irq_def Let_def last_out_def)

lemma masks_synced_disable [inv_intros]: "masks_synced s \<Longrightarrow> masks_synced (disable_irq i s)"
  by (auto simp: masks_synced_def disable_irq_def Let_def last_out_def)

lemma masks_synced_eoi [inv_intros]: "masks_synced s \<Longrightarrow> masks_synced (send_eoi i s)"
  by (auto simp: masks_synced_def send_eoi_def)

lemma masks_synced_init: "masks_synced (i8259_init s)"
  by (auto simp: masks_synced_def i8259_init_def enable_irq_def Let_def last_out_def)

section \<open>The interface the drivers use\<close>

locale irq_lines =
  fixes enable :: "u32 \<Rightarrow> 's \<Rightarrow> 's"
    and disable :: "u32 \<Rightarrow> 's \<Rightarrow> 's"
    and masked :: "u32 \<Rightarrow> 's \<Rightarrow> bool"
    and ok :: "'s \<Rightarrow> bool"
  assumes masked_enable: "i < 16 \<Longrightarrow> j < 16 \<Longrightarrow> masked j (enable i s) = (masked j s \<and> j \<noteq> i)"
    and masked_disable: "i < 16 \<Longrightarrow> j < 16 \<Longrightarrow> masked j (disable i s) = (masked j s \<or> j = i)"
    and ok_enable: "ok s \<Longrightarrow> ok (enable i s)"
    and ok_disable: "ok s \<Longrightarrow> ok (disable i s)"
begin

text \<open>Enabling a list of lines unmasks exactly these lines.\<close>

lemma masked_enables:
  "\<forall>i \<in> set lines. i < 16 \<Longrightarrow> j < 16 \<Longrightarrow>
    masked j (fold enable lines s) = (masked j s \<and> j \<notin> set lines)"
  by (induction lines arbitrary: s) (auto simp: masked_enable)

lemma ok_enables: "ok s \<Longrightarrow> ok (fold enable lines s)"
  by (induction lines arbitrary: s) (auto intro: ok_enable)

text \<open>A sequence of commands leaves every line as the last command about it says.\<close>

lemma masked_commands:
  "\<forall>(e, i) \<in> set cmds. i < 16 \<Longrightarrow> j < 16 \<Longrightarrow>
    masked j (fold (\<lambda>(e, i). if e then enable i else disable i) cmds s) =
      (case map_of (map (\<lambda>(e, i). (i, \<not> e)) (rev cmds)) j of None \<Rightarrow> masked j s | Some b \<Rightarrow> b)"
  by (induction cmds arbitrary: s)
    (auto simp: masked_enable masked_disable map_add_def split: option.splits if_splits)

lemma ok_commands: "ok s \<Longrightarrow> ok (fold (\<lambda>(e, i). if e then enable i else disable i) cmds s)"
  by (induction cmds arbitrary: s) (auto simp: ok_enable ok_disable)

lemma enable_disable:
  "i < 16 \<Longrightarrow> j < 16 \<Longrightarrow> masked i s \<Longrightarrow> masked j (disable i (enable i s)) = masked j s"
  by (auto simp: masked_enable masked_disable)

end

interpretation i8259: irq_lines enable_irq disable_irq irq_masked masks_synced
  by unfold_locales
    (auto simp: irq_masked_enable irq_masked_disable masks_synced_enable masks_synced_disable)

section \<open>Properties\<close>

text \<open>A sequence of calls: \<open>(True, i)\<close> is \<open>enable_irq(i)\<close>, \<open>(False, i)\<close> is
  \<open>disable_irq(i)\<close>.\<close>

definition irq_calls :: "(bool \<times> u32) list \<Rightarrow> 'a pic_scheme \<Rightarrow> 'a pic_scheme" where
  "irq_calls cmds s = fold (\<lambda>(e, i). if e then enable_irq i else disable_irq i) cmds s"

text \<open>C29: after \<open>i8259_init\<close> and any sequence of enable and disable calls on the sixteen
  lines, each line is masked exactly when the last call about it disabled it (or none named it
  and it was masked by the initialisation), and the mask registers of both controllers hold the
  kernel's mask variables.\<close>
theorem irq_calls_correct:
  assumes "\<forall>(e, i) \<in> set cmds. i < 16" and "j < 16"
  shows "irq_masked j (irq_calls cmds (i8259_init s)) =
      (case map_of (map (\<lambda>(e, i). (i, \<not> e)) (rev cmds)) j of
         None \<Rightarrow> irq_masked j s \<and> j \<noteq> 2 | Some b \<Rightarrow> b)
    \<and> last_out 0x21 (irq_calls cmds (i8259_init s)) =
        Some (master_mask (irq_calls cmds (i8259_init s)))
    \<and> last_out 0xA1 (irq_calls cmds (i8259_init s)) =
        Some (slave_mask (irq_calls cmds (i8259_init s)))"
proof -
  have "irq_masked j (i8259_init s) = (irq_masked j s \<and> j \<noteq> 2)" for s :: "'a pic_scheme"
  proof -
    have "irq_masked j (i8259_init s) = irq_masked j (enable_irq 2 s)"
      by (simp add: i8259_init_def Let_def irq_masked_def enable_irq_def)
    then show ?thesis using irq_masked_enable [of 2 j s] assms(2) by simp
  qed
  moreover have "masks_synced (irq_calls cmds (i8259_init s))"
    unfolding irq_calls_def by (rule i8259.ok_commands) (rule masks_synced_init)
  ultimately show ?thesis
    using i8259.masked_commands [OF assms, of "i8259_init s"]
    by (auto simp: irq_calls_def masks_synced_def split: option.splits)
qed

theorem irq_calls_correct_witness:
  "irq_masked 1 (irq_calls [(True, 1), (True, 8), (False, 1)]
     (i8259_init (\<lparr>mem = \<lambda>_. 0, out = [], dev = \<lambda>_ _. 0, iflag = False, wild = False,
       master_mask = 0xFF, slave_mask = 0xFF\<rparr> :: pic)))"
  using irq_calls_correct [of "[(True, 1), (True, 8), (False, 1)]" 1
    "\<lparr>mem = \<lambda>_. 0, out = [], dev = \<lambda>_ _. 0, iflag = False, wild = False,
       master_mask = 0xFF, slave_mask = 0xFF\<rparr> :: pic"] by simp

end
