(* ===== verification/Rtc.thy ===== *)
theory Rtc
  imports Pic
begin

text \<open>
  The real-time clock driver, \<^verbatim>\<open>student-distrib/rtc.c\<close>: \<open>rtc_init\<close>,
  \<open>set_frequency\<close>, the interrupt handler and the four file operations.  \<open>rtc_read\<close>
  spins on \<open>int_flag\<close> until the handler runs: its extra argument is the schedule, one
  entry per poll, telling whether an RTC interrupt is taken before that poll; \<open>None\<close> is
  \<open>still spinning when the schedule ends\<close>.
\<close>

record rtc = pic +
  int_flag :: int

definition rtc_init :: "'a pic_scheme \<Rightarrow> 'a pic_scheme" where
  "rtc_init s =
     (let s = cli s;
          s = outb 0x8A 0x70 s; prev = low8 (inb 0x71 s);
          s = outb 0x8A 0x70 s; s = outb ((prev AND 0xF0) OR 0x0F) 0x71 s;
          s = outb 0x8B 0x70 s; prev = low8 (inb 0x71 s);
          s = outb 0x8B 0x70 s; s = outb (prev OR 0x40) 0x71 s;
          s = enable_irq 8 s
      in sti s)"

definition rtc_intr :: "'a rtc_scheme \<Rightarrow> 'a rtc_scheme" where
  "rtc_intr s =
     (let s = cli s; s = send_eoi 8 s; s = s\<lparr>int_flag := 1\<rparr>;
          s = outb 0x0C 0x70 s; s = enable_irq 8 s
      in sti s)"

definition freq_hexcode :: "int \<Rightarrow> u8 option" where
  "freq_hexcode target_frequency =
     (if target_frequency = 2 then Some 0x0F
      else if target_frequency = 4 then Some 0x0E
      else if target_frequency = 8 then Some 0x0D
      else if target_frequency = 16 then Some 0x0C
      else if target_frequency = 32 then Some 0x0B
      else if target_frequency = 64 then Some 0x0A
      else if target_frequency = 128 then Some 0x09
      else if target_frequency = 256 then Some 0x08
      else if target_frequency = 512 then Some 0x07
      else if target_frequency = 1024 then Some 0x06
      else None)"

definition set_frequency :: "int \<Rightarrow> 'a machine_scheme \<Rightarrow> int \<times> 'a machine_scheme" where
  "set_frequency target_frequency s =
     (case freq_hexcode target_frequency of
        None \<Rightarrow> (- 1, s)
      | Some code \<Rightarrow>
          (let s = cli s; s = outb 0x8A 0x70 s; prev = low8 (inb 0x71 s);
               s = outb 0x8A 0x70 s; s = outb ((prev AND 0xF0) OR code) 0x71 s
           in (0, sti s)))"

fun rtc_spin :: "bool list \<Rightarrow> 'a rtc_scheme \<Rightarrow> 'a rtc_scheme option" where
  "rtc_spin [] s = None"
| "rtc_spin (irq # polls) s =
     (let s' = (if irq then rtc_intr s else s)
      in if int_flag s' \<noteq> 0 then Some s' else rtc_spin polls s')"

definition rtc_read :: "bool list \<Rightarrow> int \<Rightarrow> u32 \<Rightarrow> int \<Rightarrow> 'a rtc_scheme \<Rightarrow> (int \<times> 'a rtc_scheme) option" where
  "rtc_read polls fd buf nbytes s =
     (case rtc_spin polls (s\<lparr>int_flag := 0\<rparr>) of
        None \<Rightarrow> None
      | Some s' \<Rightarrow> Some (0, s'\<lparr>int_flag := 0\<rparr>))"

definition rtc_write :: "int \<Rightarrow> u32 \<Rightarrow> int \<Rightarrow> 'a machine_scheme \<Rightarrow> int \<times> 'a machine_scheme" where
  "rtc_write fd buf nbytes s =
     (let s = cli s
      in if fd = 0 \<or> fd = 1 \<or> nbytes \<noteq> 4 \<or> buf = 0 then (- 1, s)
         else let freq = sint (ld32 (mem s) buf); (r, s') = set_frequency freq s
              in if r \<noteq> 0 then (- 1, s') else (nbytes, sti s'))"

definition rtc_open :: "u32 \<Rightarrow> 'a machine_scheme \<Rightarrow> int \<times> 'a machine_scheme" where
  "rtc_open filename s = (if filename = 0 then (- 1, s) else set_frequency 2 s)"

definition rtc_close :: "int \<Rightarrow> int" where
  "rtc_close fd = (if fd < 2 then - 1 else 0)"

section \<open>Frequencies\<close>

definition rtc_rates :: "int list" where
  "rtc_rates = [2, 4, 8, 16, 32, 64, 128, 256, 512, 1024]"

lemma freq_hexcode_rates: "freq_hexcode f \<noteq> None \<longleftrightarrow> f \<in> set rtc_rates"
  by (auto simp: freq_hexcode_def rtc_rates_def)

lemma rtc_rates_powers: "f \<in> set rtc_rates \<longleftrightarrow> (\<exists>k \<in> {1..10}. f = 2 ^ k)"
proof -
  have "{1..10::nat} = {1, 2, 3, 4, 5, 6, 7, 8, 9, 10}"
    unfolding set_eq_iff by (simp, presburger)
  then show ?thesis by (simp add: rtc_rates_def)
qed

text \<open>
  The low nibble of register A is the rate selector \<open>rs\<close>; the chip documents the
  interrupt rate \<open>32768 >> (rs - 1)\<close>.
\<close>

definition rs_rate :: "u8 \<Rightarrow> int" where
  "rs_rate w = 32768 div 2 ^ (unat (w AND 0x0F) - 1)"

lemma freq_hexcode_rate:
  "freq_hexcode f = Some code \<Longrightarrow>
    rs_rate ((prev AND 0xF0) OR code) = f \<and> ((prev AND 0xF0) OR code) AND 0xF0 = prev AND 0xF0"
proof -
  assume "freq_hexcode f = Some code"
  then have c: "code AND 0x0F = code" "code AND 0xF0 = 0" "32768 div 2 ^ (unat code - 1) = f"
    by (auto simp: freq_hexcode_def split: if_splits)
  have "(prev AND 0xF0) AND 0x0F = (0 :: u8)"
    by (simp add: and.assoc)
  moreover have "((prev AND 0xF0) OR code) AND 0x0F = ((prev AND 0xF0) AND 0x0F) OR (code AND 0x0F)"
    by (rule bit.conj_disj_distrib2)
  moreover have "((prev AND 0xF0) OR code) AND 0xF0 = ((prev AND 0xF0) AND 0xF0) OR (code AND 0xF0)"
    by (rule bit.conj_disj_distrib2)
  ultimately show ?thesis using c by (simp add: rs_rate_def and.assoc)
qed

lemma set_frequency_fail: "f \<notin> set rtc_rates \<Longrightarrow> set_frequency f s = (- 1, s)"
  using freq_hexcode_rates [of f] by (simp add: set_frequency_def)

lemma set_frequency_result: "fst (set_frequency f s) = (if f \<in> set rtc_rates then 0 else - 1)"
  using freq_hexcode_rates [of f]
  by (auto simp: set_frequency_def Let_def split: option.splits)

lemma set_frequency_ok:
  assumes "f \<in> set rtc_rates"
  shows "\<exists>w. set_frequency f s = (0, s\<lparr>out := (0x71, w) # (0x70, 0x8A) # (0x70, 0x8A) # out s,
      iflag := True\<rparr>)
    \<and> rs_rate w = f
    \<and> w AND 0xF0 = dev s ((0x70, 0x8A) # out s) 0x71 AND 0xF0"
proof -
  obtain code where code: "freq_hexcode f = Some code"
    using assms freq_hexcode_rates [of f] by auto
  let ?prev = "low8 (inb 0x71 (outb 0x8A 0x70 (cli s)))"
  have p: "?prev = dev s ((0x70, 0x8A) # out s) 0x71"
    by (simp add: inb_def)
  show ?thesis
    using freq_hexcode_rate [OF code, of ?prev] code
    by (intro exI [of _ "(?prev AND 0xF0) OR code"])
      (simp add: set_frequency_def Let_def outb_def cli_def sti_def flip: p)
qed

section \<open>Waiting for an interrupt\<close>

lemma int_flag_fields [frame_simps, simp]:
  "int_flag (outb d p s) = int_flag s" "int_flag (cli s) = int_flag s"
  "int_flag (sti s) = int_flag s" "int_flag (enable_irq i s) = int_flag s"
  "int_flag (send_eoi i s) = int_flag s"
  by (simp_all add: outb_def cli_def sti_def enable_irq_def send_eoi_def Let_def)

lemma rtc_intr_flag [simp]: "int_flag (rtc_intr s) = 1"
  by (simp add: rtc_intr_def Let_def)

lemma rtc_intr_synced [inv_intros]: "masks_synced s \<Longrightarrow> masks_synced (rtc_intr s)"
proof -
  assume "masks_synced s"
  then have "masks_synced (enable_irq 8 (outb 0x0C 0x70 ((send_eoi 8 (cli s))\<lparr>int_flag := 1\<rparr>)))"
    by (intro masks_synced_enable) (simp add: masks_synced_def send_eoi_def last_out_def outb_def cli_def)
  then show ?thesis by (simp add: rtc_intr_def Let_def masks_synced_def)
qed

lemma rtc_spin_None: "int_flag s = 0 \<Longrightarrow> rtc_spin polls s = None \<longleftrightarrow> True \<notin> set polls"
  by (induction polls arbitrary: s) (auto simp: Let_def)

lemma rtc_spin_first:
  "int_flag s = 0 \<Longrightarrow> True \<notin> set waits \<Longrightarrow> rtc_spin (waits @ True # polls) s = Some (rtc_intr s)"
  by (induction waits) (auto simp: Let_def)

section \<open>Properties\<close>

text \<open>\<open>set_frequency\<close> succeeds exactly for the powers of two from 2 to 1024; then the
  last byte programmed into register A selects that rate (32768 >> (rs - 1)), keeps the upper
  nibble the chip delivered, and interrupts are on; otherwise no port is touched.\<close>
theorem set_frequency_correct:
  "if \<exists>k \<in> {1..10}. f = 2 ^ k
   then \<exists>w. set_frequency f s = (0, s\<lparr>out := (0x71, w) # (0x70, 0x8A) # (0x70, 0x8A) # out s,
            iflag := True\<rparr>)
          \<and> rs_rate w = f \<and> w AND 0xF0 = dev s ((0x70, 0x8A) # out s) 0x71 AND 0xF0
   else set_frequency f s = (- 1, s)"
  unfolding rtc_rates_powers [symmetric]
  using set_frequency_ok [of f s] set_frequency_fail [of f s] by (cases "f \<in> set rtc_rates") simp_all

text \<open>\<open>rtc_read\<close> returns if and only if an RTC interrupt is taken while it polls, also
  when one was pending before the call; it then returns 0 with the flag cleared, after exactly
  one run of the interrupt handler.\<close>
theorem rtc_read_waits:
  "(rtc_read polls fd buf nbytes s = None \<longleftrightarrow> True \<notin> set polls)
    \<and> (rtc_read polls fd buf nbytes s = None
       \<or> rtc_read polls fd buf nbytes s = Some (0, (rtc_intr (s\<lparr>int_flag := 0\<rparr>))\<lparr>int_flag := 0\<rparr>))"
proof (cases "True \<in> set polls")
  case True
  then obtain waits rest where "polls = waits @ True # rest" "True \<notin> set waits"
    by (meson split_list_first)
  then show ?thesis by (simp add: rtc_read_def rtc_spin_first)
next
  case False
  then have "rtc_spin polls (s\<lparr>int_flag := 0\<rparr>) = None" by (subst rtc_spin_None) simp_all
  then show ?thesis using False by (simp add: rtc_read_def)
qed

text \<open>\<open>rtc_write\<close> accepts exactly a 4-byte buffer holding a supported rate on a
  descriptor other than 0 and 1, returning 4 with interrupts on; every refusal returns -1 and
  leaves interrupts disabled.\<close>
theorem rtc_write_correct:
  "if fd \<noteq> 0 \<and> fd \<noteq> 1 \<and> nbytes = 4 \<and> buf \<noteq> 0 \<and> sint (ld32 (mem s) buf) \<in> set rtc_rates
   then fst (rtc_write fd buf nbytes s) = 4 \<and> iflag (snd (rtc_write fd buf nbytes s))
   else rtc_write fd buf nbytes s = (- 1, s\<lparr>iflag := False\<rparr>)"
  using set_frequency_result [of "sint (ld32 (mem s) buf)" "cli s"]
    set_frequency_fail [of "sint (ld32 (mem s) buf)" "cli s"]
  by (auto simp: rtc_write_def Let_def cli_def split: prod.splits)

end
