(* ===== verification/Str_Lib.thy ===== *)
theory Str_Lib
  imports Prelude
begin

text \<open>
  The string routines of \<^verbatim>\<open>student-distrib/lib.c\<close> over the flat memory: \<open>strlen\<close>,
  \<open>strcpy\<close>, \<open>strncpy\<close>, \<open>strncmp\<close>, \<open>strrev\<close> and \<open>itoa\<close>.  A routine that
  scans for a terminator may not return, so it is a partial function into \<open>option\<close>.
  \<open>cstr m s xs\<close> says that the NUL-terminated string at \<open>s\<close> is \<open>xs\<close>.
\<close>

definition str :: "string \<Rightarrow> u8 list" where
  "str cs = map of_char cs"

text \<open>The bytes of a C string constant or array as a function of the index.\<close>

definition arr :: "u8 list \<Rightarrow> nat \<Rightarrow> u8" where
  "arr xs i = (if i < length xs then xs ! i else 0)"

definition cstr :: "mem \<Rightarrow> u32 \<Rightarrow> u8 list \<Rightarrow> bool" where
  "cstr m s xs = (length xs < 2 ^ 32 \<and> 0 \<notin> set xs \<and> rd m s (length xs) = xs
     \<and> m (s + of_nat (length xs)) = 0)"

text \<open>The string at an address, cut after \<open>n\<close> bytes: what the \<open>strn\<close> routines look at.\<close>

definition cstrn :: "mem \<Rightarrow> u32 \<Rightarrow> nat \<Rightarrow> u8 list" where
  "cstrn m s n = takeWhile (\<lambda>b. b \<noteq> 0) (rd m s n)"

section \<open>The routines\<close>

partial_function (option) strlen_from :: "mem \<Rightarrow> u32 \<Rightarrow> u32 \<Rightarrow> u32 option" where
  "strlen_from m s len =
     (if m (s + len) = 0 then Some len else strlen_from m s (len + 1))"

definition strlen :: "mem \<Rightarrow> u32 \<Rightarrow> u32 option" where
  "strlen m s = strlen_from m s 0"

partial_function (option) strcpy_from :: "u32 \<Rightarrow> u32 \<Rightarrow> u32 \<Rightarrow> mem \<Rightarrow> mem option" where
  "strcpy_from dest src i m =
     (if m (src + i) = 0 then Some (m(dest + i := 0))
      else strcpy_from dest src (i + 1) (m(dest + i := m (src + i))))"

definition strcpy :: "u32 \<Rightarrow> u32 \<Rightarrow> mem \<Rightarrow> mem option" where
  "strcpy dest src m = strcpy_from dest src 0 m"

fun strncpy_pad :: "nat \<Rightarrow> u32 \<Rightarrow> mem \<Rightarrow> mem" where
  "strncpy_pad 0 dest m = m"
| "strncpy_pad (Suc k) dest m = strncpy_pad k (dest + 1) (m(dest := 0))"

fun strncpy_loop :: "nat \<Rightarrow> u32 \<Rightarrow> u32 \<Rightarrow> mem \<Rightarrow> mem" where
  "strncpy_loop 0 dest src m = m"
| "strncpy_loop (Suc k) dest src m =
     (if m src = 0 then strncpy_pad (Suc k) dest m
      else strncpy_loop k (dest + 1) (src + 1) (m(dest := m src)))"

definition strncpy :: "u32 \<Rightarrow> u32 \<Rightarrow> u32 \<Rightarrow> mem \<Rightarrow> mem" where
  "strncpy dest src n m = strncpy_loop (unat n) dest src m"

fun strncmp_loop :: "nat \<Rightarrow> nat \<Rightarrow> (nat \<Rightarrow> u8) \<Rightarrow> (nat \<Rightarrow> u8) \<Rightarrow> int" where
  "strncmp_loop 0 i s1 s2 = 0"
| "strncmp_loop (Suc k) i s1 s2 =
     (if s1 i \<noteq> s2 i \<or> s1 i = 0 then sint (s1 i) - sint (s2 i)
      else strncmp_loop k (Suc i) s1 s2)"

definition strncmp :: "(nat \<Rightarrow> u8) \<Rightarrow> (nat \<Rightarrow> u8) \<Rightarrow> u32 \<Rightarrow> int" where
  "strncmp s1 s2 n = strncmp_loop (unat n) 0 s1 s2"

text \<open>The bytes behind a pointer, as an argument of \<open>strncmp\<close>.\<close>

definition at :: "mem \<Rightarrow> u32 \<Rightarrow> nat \<Rightarrow> u8" where
  "at m a i = m (a + of_nat i)"

function strrev_loop :: "int \<Rightarrow> int \<Rightarrow> u32 \<Rightarrow> mem \<Rightarrow> mem" where
  "strrev_loop beg en s m =
     (if beg < en
      then strrev_loop (beg + 1) (en - 1) s
             (m(s + of_int en := m (s + of_int beg), s + of_int beg := m (s + of_int en)))
      else m)"
  by pat_completeness auto
termination
  by (relation "measure (\<lambda>(beg, en, s, m). nat (en - beg))") auto

declare strrev_loop.simps [simp del]

definition strrev :: "u32 \<Rightarrow> mem \<Rightarrow> mem option" where
  "strrev s m =
     (case strlen m s of
        None \<Rightarrow> None
      | Some len \<Rightarrow> Some (strrev_loop 0 (sint (len - 1)) s m))"

definition itoa_lookup :: "u8 list" where
  "itoa_lookup = str ''0123456789ABCDEFGHIJKLMNOPQRSTUVWXYZ''"

text \<open>
  A zero radix traps in the division and an index past the table reads outside it: neither
  gives a result.  Radix 1 never leaves the loop.
\<close>

partial_function (option) itoa_loop :: "u32 \<Rightarrow> u32 \<Rightarrow> u32 \<Rightarrow> mem \<Rightarrow> (u32 \<times> mem) option" where
  "itoa_loop newval radix newbuf m =
     (if newval = 0 then Some (newbuf, m)
      else if radix = 0 \<or> 36 \<le> unat (newval mod radix) then None
      else itoa_loop (newval div radix) radix (newbuf + 1)
             (m(newbuf := itoa_lookup ! unat (newval mod radix))))"

definition itoa :: "u32 \<Rightarrow> u32 \<Rightarrow> u32 \<Rightarrow> mem \<Rightarrow> mem option" where
  "itoa value buf radix m =
     (if value = 0 then Some (m(buf := 0x30, buf + 1 := 0))
      else case itoa_loop value radix buf m of
             None \<Rightarrow> None
           | Some (newbuf, m') \<Rightarrow> strrev buf (m'(newbuf := 0)))"

section \<open>strlen and strcpy\<close>

lemma cstr_nth:
  assumes "cstr m s xs" and "i < length xs"
  shows "m (s + of_nat i) = xs ! i" and "xs ! i \<noteq> 0"
proof -
  show "m (s + of_nat i) = xs ! i" using assms nth_rd [of i "length xs" m s] by (simp add: cstr_def)
  show "xs ! i \<noteq> 0" using assms by (auto simp: cstr_def in_set_conv_nth)
qed

lemma strlen_from_cstr:
  assumes "cstr m s xs" and "i \<le> length xs"
  shows "strlen_from m s (of_nat i) = Some (of_nat (length xs))"
  using assms(2)
proof (induction "length xs - i" arbitrary: i)
  case 0
  then show ?case using assms(1) by (simp add: strlen_from.simps [of m s] cstr_def)
next
  case (Suc k)
  then have "i < length xs" by simp
  then have "strlen_from m s (of_nat i) = strlen_from m s (of_nat (Suc i))"
    using cstr_nth [OF assms(1)] by (simp add: strlen_from.simps [of m s "of_nat i"] add.commute)
  also have "\<dots> = Some (of_nat (length xs))" by (rule Suc.hyps) (use Suc.hyps(2) in auto)
  finally show ?case .
qed

lemma strlen_cstr: "cstr m s xs \<Longrightarrow> strlen m s = Some (of_nat (length xs))"
  using strlen_from_cstr [of m s xs 0] by (simp add: strlen_def)

lemma cstr_exists:
  assumes "m p = 0"
  shows "\<exists>xs. cstr m s xs"
proof -
  let ?P = "\<lambda>i. m (s + of_nat i) = 0"
  define n where "n = (LEAST i. ?P i)"
  have w: "?P (unat (p - s))" using assms by simp
  then have n: "?P n" unfolding n_def by (rule LeastI)
  have "n \<le> unat (p - s)" unfolding n_def using w by (rule Least_le)
  then have lt: "n < 2 ^ 32" using unat_u32_less [of "p - s"] by simp
  have "0 \<notin> set (rd m s n)"
  proof
    assume "0 \<in> set (rd m s n)"
    then obtain i where "i < n" "?P i" by (auto simp: in_set_conv_nth)
    then show False using not_less_Least unfolding n_def by blast
  qed
  with n lt have "cstr m s (rd m s n)" by (simp add: cstr_def)
  then show ?thesis ..
qed

lemma strlen_from_zero: "strlen_from m s i = Some n \<Longrightarrow> m (s + n) = 0"
proof (rule strlen_from.raw_induct [where P = "\<lambda>m s i n. m (s + n) = 0"])
  fix f m s i n
  assume IH: "\<And>m s i n. f m s i = Some n \<Longrightarrow> m (s + n) = 0"
    and eq: "(if m (s + i) = 0 then Some i else f m s (i + 1)) = Some n"
  then show "m (s + n) = 0" by (auto split: if_splits)
qed

lemma strlen_Some_iff: "strlen m s = Some n \<longleftrightarrow> cstr m s (rd m s (unat n))"
proof
  assume a: "strlen m s = Some n"
  then have "m (s + n) = 0" using strlen_from_zero by (simp add: strlen_def)
  then obtain xs where xs: "cstr m s xs" using cstr_exists by blast
  with a have "n = of_nat (length xs)" by (simp add: strlen_cstr)
  with xs have "rd m s (unat n) = xs" by (simp add: cstr_def unat_u32_of_nat)
  with xs show "cstr m s (rd m s (unat n))" by simp
next
  assume "cstr m s (rd m s (unat n))"
  then show "strlen m s = Some n" using strlen_cstr by fastforce
qed

lemma strlen_None_iff: "strlen m s = None \<longleftrightarrow> (\<forall>p. m p \<noteq> 0)"
proof
  assume "strlen m s = None"
  then show "\<forall>p. m p \<noteq> 0" using cstr_exists strlen_cstr by (metis option.distinct(1))
next
  assume nz: "\<forall>p. m p \<noteq> 0"
  show "strlen m s = None"
  proof (cases "strlen m s")
    case (Some n)
    then have "m (s + n) = 0" using strlen_from_zero by (simp add: strlen_def)
    with nz show ?thesis by simp
  qed
qed

lemma cstr_update:
  assumes "cstr m s xs" and "\<And>i. i \<le> length xs \<Longrightarrow> m' (s + of_nat i) = m (s + of_nat i)"
  shows "cstr m' s xs"
proof -
  have "rd m' s (length xs) = rd m s (length xs)" by (rule nth_equalityI) (simp_all add: assms(2))
  then show ?thesis using assms by (simp add: cstr_def)
qed

lemma cstr_wr: "0 \<notin> set xs \<Longrightarrow> length xs < 2 ^ 32 \<Longrightarrow> cstr (wr d (xs @ [0]) m) d xs"
proof -
  assume a: "0 \<notin> set xs" "length xs < 2 ^ 32"
  have "rd (wr d (xs @ [0]) m) d (length xs) = xs"
    using rd_wr_same [of "xs @ [0]" d m] a take_rd [of "length xs" "Suc (length xs)" _ d]
    by (metis Suc_leI append_eq_conv_conj le_add1 length_append_singleton plus_1_eq_Suc add.commute)
  then show ?thesis using a by (simp add: cstr_def wr_apply unat_u32_of_nat nth_append)
qed

lemma strcpy_from_wr:
  assumes "cstr m src xs" and "apart dest (Suc (length xs)) src (Suc (length xs))"
    and "i \<le> length xs"
  shows "strcpy_from dest src (of_nat i) (wr dest (take i xs) m) = Some (wr dest (xs @ [0]) m)"
  using assms(3)
proof (induction "length xs - i" arbitrary: i)
  case 0
  then have i: "i = length xs" by simp
  have l: "length xs < 2 ^ 32" using assms(1) by (simp add: cstr_def)
  have "inr src (Suc (length xs)) (src + of_nat i)" using i l by simp
  with assms(2) have "\<not> inr dest (Suc (length xs)) (src + of_nat i)"
    by (meson apartD apart_sym)
  then have "\<not> inr dest (length xs) (src + of_nat i)" using inr_mono by fastforce
  then have "wr dest xs m (src + of_nat i) = 0"
    using i l assms(1) by (simp add: wr_other cstr_def)
  then show ?case using i by (simp add: strcpy_from.simps [of dest src "of_nat (length xs)"] wr_append fun_upd_def)
next
  case (Suc k)
  then have i: "i < length xs" by simp
  have l: "length xs < 2 ^ 32" using assms(1) by (simp add: cstr_def)
  have "inr src (Suc (length xs)) (src + of_nat i)" using i l by simp
  with assms(2) have "\<not> inr dest (Suc (length xs)) (src + of_nat i)"
    by (meson apartD apart_sym)
  then have "\<not> inr dest i (src + of_nat i)" using inr_mono i by fastforce
  then have src: "wr dest (take i xs) m (src + of_nat i) = xs ! i"
    using i l cstr_nth(1) [OF assms(1) i] by (simp add: wr_other)
  have "wr dest (take (Suc i) xs) m = (wr dest (take i xs) m)(dest + of_nat i := xs ! i)"
    using i by (simp add: take_Suc_conv_app_nth wr_append)
  then have "strcpy_from dest src (of_nat i) (wr dest (take i xs) m)
      = strcpy_from dest src (of_nat (Suc i)) (wr dest (take (Suc i) xs) m)"
    using src cstr_nth(2) [OF assms(1) i]
    by (simp add: strcpy_from.simps [of dest src "of_nat i"] add.commute)
  also have "\<dots> = Some (wr dest (xs @ [0]) m)" by (rule Suc.hyps) (use Suc.hyps(2) in auto)
  finally show ?case .
qed

lemma strcpy_wr:
  "cstr m src xs \<Longrightarrow> apart dest (Suc (length xs)) src (Suc (length xs)) \<Longrightarrow>
    strcpy dest src m = Some (wr dest (xs @ [0]) m)"
  using strcpy_from_wr [of m src xs dest 0] by (simp add: strcpy_def)

section \<open>strncpy\<close>

lemma strncpy_pad_wr: "strncpy_pad k d m = wr d (replicate k 0) m"
  by (induction k arbitrary: d m) simp_all

lemma cstrn_0 [simp]: "cstrn m s 0 = []"
  by (simp add: cstrn_def)

lemma cstrn_Suc: "cstrn m s (Suc n) = (if m s = 0 then [] else m s # cstrn m (s + 1) n)"
  by (simp add: cstrn_def rd_Suc)

lemma length_cstrn: "length (cstrn m s n) \<le> n"
  using length_takeWhile_le [of _ "rd m s n"] by (simp add: cstrn_def)

lemma cstrn_nonzero: "0 \<notin> set (cstrn m s n)"
  by (auto simp: cstrn_def dest: set_takeWhileD)

lemma cstrn_cong:
  "(\<And>i. i < n \<Longrightarrow> i \<le> length (cstrn m s n) \<Longrightarrow> m' (s + of_nat i) = m (s + of_nat i)) \<Longrightarrow>
    cstrn m' s n = cstrn m s n"
proof (induction n arbitrary: s)
  case (Suc n)
  have 0: "m' s = m s" using Suc.prems [of 0] by simp
  show ?case
  proof (cases "m s = 0")
    case False
    have "cstrn m' (s + 1) n = cstrn m (s + 1) n"
    proof (rule Suc.IH)
      fix i assume "i < n" "i \<le> length (cstrn m (s + 1) n)"
      then show "m' (s + 1 + of_nat i) = m (s + 1 + of_nat i)"
        using Suc.prems [of "Suc i"] False by (simp add: cstrn_Suc add.assoc)
    qed
    with 0 False show ?thesis by (simp add: cstrn_Suc)
  qed (simp add: 0 cstrn_Suc)
qed simp

lemma cstrn_cstr: "cstr m s xs \<Longrightarrow> cstrn m s n = take n xs"
proof (induction n arbitrary: s xs)
  case (Suc n)
  show ?case
  proof (cases xs)
    case Nil
    with Suc.prems show ?thesis by (simp add: cstr_def cstrn_Suc)
  next
    case (Cons x ys)
    with Suc.prems have "cstr m (s + 1) ys" and "m s = x" "x \<noteq> 0"
      by (auto simp: cstr_def rd_Suc add.assoc)
    with Suc.IH Cons show ?thesis by (simp add: cstrn_Suc)
  qed
qed simp

text \<open>The bytes \<open>strncpy\<close> stores: the string, cut or padded with NULs to \<open>n\<close> bytes.\<close>

definition padded :: "nat \<Rightarrow> u8 list \<Rightarrow> u8 list" where
  "padded n xs = xs @ replicate (n - length xs) 0"

lemma length_padded [simp]: "length xs \<le> n \<Longrightarrow> length (padded n xs) = n"
  by (simp add: padded_def)

lemma strncpy_loop_wr:
  assumes "\<And>i j. i < j \<Longrightarrow> j < k \<Longrightarrow> j \<le> length (cstrn m s k) \<Longrightarrow> d + of_nat i \<noteq> s + of_nat j"
  shows "strncpy_loop k d s m = wr d (padded k (cstrn m s k)) m"
  using assms
proof (induction k arbitrary: d s m)
  case (Suc k)
  show ?case
  proof (cases "m s = 0")
    case True
    then show ?thesis by (simp add: cstrn_Suc padded_def strncpy_pad_wr)
  next
    case False
    let ?m = "m(d := m s)"
    have c: "cstrn ?m (s + 1) k = cstrn m (s + 1) k"
    proof (rule cstrn_cong)
      fix i assume "i < k" "i \<le> length (cstrn m (s + 1) k)"
      then show "?m (s + 1 + of_nat i) = m (s + 1 + of_nat i)"
        using Suc.prems [of 0 "Suc i"] False by (auto simp: cstrn_Suc add.assoc)
    qed
    have "strncpy_loop k (d + 1) (s + 1) ?m = wr (d + 1) (padded k (cstrn ?m (s + 1) k)) ?m"
    proof (rule Suc.IH)
      fix i j assume "i < j" "j < k" "j \<le> length (cstrn ?m (s + 1) k)"
      then show "d + 1 + of_nat i \<noteq> s + 1 + of_nat j"
        using Suc.prems [of "Suc i" "Suc j"] False c by (auto simp: cstrn_Suc add.assoc)
    qed
    then show ?thesis using False c by (simp add: cstrn_Suc padded_def)
  qed
qed (simp add: padded_def)

lemma strncpy_wr:
  assumes "apart d (unat n) s (min (unat n) (Suc (length (cstrn m s (unat n)))))"
  shows "strncpy d s n m = wr d (padded (unat n) (cstrn m s (unat n))) m"
  unfolding strncpy_def
proof (rule strncpy_loop_wr)
  fix i j assume ij: "i < j" "j < unat n" "j \<le> length (cstrn m s (unat n))"
  have n: "unat n < 2 ^ 32" by (rule unat_u32_less)
  have "inr d (unat n) (d + of_nat i)" using ij n by simp
  then have "\<not> inr s (min (unat n) (Suc (length (cstrn m s (unat n))))) (d + of_nat i)"
    by (rule apartD [OF assms])
  moreover have "inr s (min (unat n) (Suc (length (cstrn m s (unat n))))) (s + of_nat j)"
    using ij n by simp
  ultimately show "d + of_nat i \<noteq> s + of_nat j" by metis
qed

section \<open>strncmp\<close>

text \<open>The first \<open>n\<close> bytes of an array, up to its terminator.\<close>

definition upto0 :: "(nat \<Rightarrow> u8) \<Rightarrow> nat \<Rightarrow> nat \<Rightarrow> u8 list" where
  "upto0 f i n = takeWhile (\<lambda>b. b \<noteq> 0) (map f [i..<i + n])"

lemma upto0_0 [simp]: "upto0 f i 0 = []"
  by (simp add: upto0_def)

lemma upto0_Suc: "upto0 f i (Suc n) = (if f i = 0 then [] else f i # upto0 f (Suc i) n)"
  unfolding upto0_def by (simp only: add_Suc_right upt_conv_Cons [of i "Suc (i + n)"]) simp

lemma upto0_at: "upto0 (at m a) 0 n = cstrn m a n"
  by (simp add: upto0_def cstrn_def at_def [abs_def] rd_def)

lemma sint_u8_eq_iff: "(sint (a :: u8) = sint b) = (a = b)"
  by (auto intro: signed_word_eqI)

lemma sint_u8_0_iff: "(sint (a :: u8) = 0) = (a = 0)"
  using sint_u8_eq_iff [of a 0] by simp

lemma strncmp_loop_0_iff: "strncmp_loop k i f g = 0 \<longleftrightarrow> upto0 f i k = upto0 g i k"
  by (induction k i f g rule: strncmp_loop.induct)
    (auto simp: upto0_Suc sint_u8_eq_iff sint_u8_0_iff)

lemma strncmp_0_iff: "strncmp f g n = 0 \<longleftrightarrow> upto0 f 0 (unat n) = upto0 g 0 (unat n)"
  by (simp add: strncmp_def strncmp_loop_0_iff)

text \<open>
  A non-zero result is the difference of the first two bytes that differ, both read as
  signed characters.
\<close>

lemma strncmp_loop_diff:
  "strncmp_loop k i f g = d \<Longrightarrow> d \<noteq> 0 \<Longrightarrow>
    \<exists>j. i \<le> j \<and> j < i + k \<and> d = sint (f j) - sint (g j)
      \<and> (\<forall>l. i \<le> l \<and> l < j \<longrightarrow> f l = g l \<and> f l \<noteq> 0)"
proof (induction k i f g rule: strncmp_loop.induct)
  case (2 k i f g)
  show ?case
  proof (cases "f i \<noteq> g i \<or> f i = 0")
    case True
    with "2.prems" show ?thesis by (intro exI [of _ i]) auto
  next
    case False
    with 2 obtain j where j: "Suc i \<le> j" "j < Suc i + k" "d = sint (f j) - sint (g j)"
      "\<forall>l. Suc i \<le> l \<and> l < j \<longrightarrow> f l = g l \<and> f l \<noteq> 0" by auto
    have "\<forall>l. i \<le> l \<and> l < j \<longrightarrow> f l = g l \<and> f l \<noteq> 0"
      using j(4) False by (metis le_antisym not_less_eq_eq)
    with j show ?thesis by (intro exI [of _ j]) auto
  qed
qed simp

section \<open>strrev\<close>

lemma strrev_loop_apply:
  "0 \<le> beg \<Longrightarrow> en < 2 ^ 32 \<Longrightarrow>
    strrev_loop beg en s m p =
      (if beg \<le> uint (p - s) \<and> uint (p - s) \<le> en
       then m (s + of_int (beg + en - uint (p - s))) else m p)"
proof (induction beg en s m arbitrary: p rule: strrev_loop.induct)
  case (1 beg en s m)
  let ?k = "uint (p - s)"
  have p: "s + of_int ?k = p" by simp
  show ?case
  proof (cases "beg < en")
    case False
    have "beg + en - ?k = ?k" if "beg \<le> ?k" "?k \<le> en" using that False by simp
    then have "m (s + of_int (beg + en - ?k)) = m p" if "beg \<le> ?k" "?k \<le> en"
      using that p by metis
    then show ?thesis using False by (simp add: strrev_loop.simps [of beg])
  next
    case True
    let ?m = "m(s + of_int en := m (s + of_int beg), s + of_int beg := m (s + of_int en))"
    have inj: "(s + of_int x = s + of_int y) = (x = y)"
      if "0 \<le> x" "x < 2 ^ 32" "0 \<le> y" "y < 2 ^ 32" for x y
      using that by (simp add: word_of_int_eq_iff take_bit_int_eq_self)
    have pk: "(p = s + of_int x) = (?k = x)" if "0 \<le> x" "x < 2 ^ 32" for x
      using inj [of ?k x] that unsigned_less [of "p - s"] by simp
    have "strrev_loop beg en s m p = strrev_loop (beg + 1) (en - 1) s ?m p"
      using True by (simp add: strrev_loop.simps [of beg en])
    also have "\<dots> = (if beg + 1 \<le> ?k \<and> ?k \<le> en - 1
        then ?m (s + of_int (beg + 1 + (en - 1) - ?k)) else ?m p)"
      by (rule "1.IH" [OF True]) (use "1.prems" True in auto)
    also have "\<dots> = (if beg \<le> ?k \<and> ?k \<le> en then m (s + of_int (beg + en - ?k)) else m p)"
    proof (cases "beg + 1 \<le> ?k \<and> ?k \<le> en - 1")
      case in_range: True
      then show ?thesis
        using inj [of "beg + en - ?k" beg] inj [of "beg + en - ?k" en] "1.prems" by auto
    next
      case out: False
      then show ?thesis
        using "1.prems" True pk [of beg] pk [of en] by auto
    qed
    finally show ?thesis .
  qed
qed

lemma strrev_wr:
  assumes c: "cstr m s xs" and len: "length xs \<le> 2 ^ 31"
  shows "strrev s m = Some (wr s (rev xs) m)"
proof -
  let ?n = "length xs"
  have l: "?n < 2 ^ 32" using c by (simp add: cstr_def)
  have "strrev_loop 0 (int ?n - 1) s m = wr s (rev xs) m"
  proof (rule ext)
    fix p
    have loop: "strrev_loop 0 (int ?n - 1) s m p =
        (if uint (p - s) \<le> int ?n - 1 then m (s + of_int (int ?n - 1 - uint (p - s))) else m p)"
      using l by (subst strrev_loop_apply) auto
    show "strrev_loop 0 (int ?n - 1) s m p = wr s (rev xs) m p"
    proof (cases "inr s ?n p")
      case True
      then obtain i where i: "i < ?n" "p = s + of_nat i" by (rule inrE)
      have u: "uint (p - s) = int i" using i l by (simp add: uint_nat unat_u32_of_nat)
      have e: "int ?n - 1 - int i = int (?n - Suc i)" using i by simp
      have "m (s + of_nat (?n - Suc i)) = xs ! (?n - Suc i)"
        by (rule cstr_nth(1) [OF c]) (use i in simp)
      moreover have "strrev_loop 0 (int ?n - 1) s m p = m (s + of_int (int (?n - Suc i)))"
        using loop i(1) unfolding u e by (simp only: if_split)
      ultimately have "strrev_loop 0 (int ?n - 1) s m p = xs ! (?n - Suc i)"
        by (simp only: of_int_of_nat_eq)
      moreover have "unat (p - s) = i" unfolding i(2) using i(1) l
        by (intro unat_diff_plus_of_nat) linarith
      then have "wr s (rev xs) m p = xs ! (?n - Suc i)"
        using True l i(1) by (simp add: wr_apply rev_nth)
      ultimately show ?thesis by (simp only:)
    next
      case False
      then have "\<not> uint (p - s) \<le> int ?n - 1"
        using uint_nat [of "p - s"] by (simp only: inr_def)
      then have "strrev_loop 0 (int ?n - 1) s m p = m p" using loop by (simp only: if_False)
      then show ?thesis using False l by (simp add: wr_other)
    qed
  qed
  moreover have "sint (of_nat ?n - 1 :: u32) = int ?n - 1" using sint_u32_of_int [of "int ?n - 1"] len by simp
  ultimately show ?thesis by (simp add: strrev_def strlen_cstr [OF c])
qed

section \<open>itoa\<close>

text \<open>The digits of a number, least significant first, and the text \<open>itoa\<close> leaves.\<close>

fun to_digits :: "nat \<Rightarrow> nat \<Rightarrow> nat list" where
  "to_digits r v = (if v = 0 \<or> r < 2 then [] else v mod r # to_digits r (v div r))"

declare to_digits.simps [simp del]

definition itoa_str :: "nat \<Rightarrow> nat \<Rightarrow> u8 list" where
  "itoa_str v r = (if v = 0 then [0x30] else map (\<lambda>d. itoa_lookup ! d) (rev (to_digits r v)))"

text \<open>Reading a number back: the value of a digit character and of a numeral.\<close>

definition digit_val :: "u8 \<Rightarrow> nat" where
  "digit_val b = (if b \<le> 0x39 then unat b - 0x30 else unat b - 0x41 + 10)"

definition parse_num :: "nat \<Rightarrow> u8 list \<Rightarrow> nat" where
  "parse_num r bs = foldl (\<lambda>acc b. acc * r + digit_val b) 0 bs"

lemma length_itoa_lookup: "length itoa_lookup = 36"
  by (simp add: itoa_lookup_def str_def)

lemma itoa_lookup_table:
  "list_all (\<lambda>d. itoa_lookup ! d \<noteq> 0 \<and> digit_val (itoa_lookup ! d) = d) [0..<36]"
  by code_simp

lemma itoa_lookup_digit:
  "d < 36 \<Longrightarrow> itoa_lookup ! d \<noteq> 0" "d < 36 \<Longrightarrow> digit_val (itoa_lookup ! d) = d"
  using itoa_lookup_table by (auto simp: list_all_iff)

lemma to_digits_less: "d \<in> set (to_digits r v) \<Longrightarrow> d < r"
proof (induction r v rule: to_digits.induct)
  case (1 r v)
  then show ?case by (subst (asm) (2) to_digits.simps) (auto split: if_splits)
qed

lemma to_digits_length: "v < r ^ k \<Longrightarrow> length (to_digits r v) \<le> k"
proof (induction r v arbitrary: k rule: to_digits.induct)
  case (1 r v)
  show ?case
  proof (cases "v = 0 \<or> r < 2")
    case True
    then show ?thesis by (simp add: to_digits.simps [of r v])
  next
    case False
    then obtain j where k: "k = Suc j" using "1.prems" by (cases k) auto
    then have "v div r < r ^ j" using "1.prems" False by (simp add: less_mult_imp_div_less mult.commute)
    then show ?thesis using "1.IH" [OF False] k False by (simp add: to_digits.simps [of r v])
  qed
qed

lemma parse_num_snoc: "parse_num r (bs @ [b]) = parse_num r bs * r + digit_val b"
  by (simp add: parse_num_def)

lemma parse_num_to_digits:
  "2 \<le> r \<Longrightarrow> r \<le> 36 \<Longrightarrow>
    parse_num r (map (\<lambda>d. itoa_lookup ! d) (rev (to_digits r v))) = v"
proof (induction r v rule: to_digits.induct)
  case (1 r v)
  show ?case
  proof (cases "v = 0")
    case False
    have "v mod r < r" using "1.prems" by simp
    then have "v mod r < 36" using "1.prems" by linarith
    then show ?thesis using False 1
      by (simp add: to_digits.simps [of r v] parse_num_snoc itoa_lookup_digit)
  qed (simp add: to_digits.simps parse_num_def)
qed

text \<open>Printing and reading back gives the number, in every radix of the table.\<close>

lemma parse_itoa_str: "2 \<le> r \<Longrightarrow> r \<le> 36 \<Longrightarrow> parse_num r (itoa_str v r) = v"
  by (simp add: itoa_str_def parse_num_to_digits)
    (simp add: parse_num_def digit_val_def)

lemma digits_nonzero:
  assumes "r \<le> 36"
  shows "0 \<notin> (\<lambda>d. itoa_lookup ! d) ` set (to_digits r v)"
proof
  assume "0 \<in> (\<lambda>d. itoa_lookup ! d) ` set (to_digits r v)"
  then obtain d where d: "d \<in> set (to_digits r v)" "itoa_lookup ! d = 0" by auto
  from to_digits_less [OF d(1)] assms have "d < 36" by simp
  with d(2) itoa_lookup_digit(1) show False by blast
qed

lemma itoa_str_nonzero: "r \<le> 36 \<Longrightarrow> 0 \<notin> set (itoa_str v r)"
  using digits_nonzero by (simp add: itoa_str_def)

lemma itoa_str_length:
  assumes "v < r ^ k" and "0 < k"
  shows "length (itoa_str v r) \<le> k"
  using to_digits_length [OF assms(1)] assms(2) by (simp add: itoa_str_def)

lemma itoa_loop_wr:
  assumes "2 \<le> unat radix" and "unat radix \<le> 36"
  shows "itoa_loop v radix b m = Some (b + of_nat (length (to_digits (unat radix) (unat v))),
    wr b (map (\<lambda>d. itoa_lookup ! d) (to_digits (unat radix) (unat v))) m)"
proof (induction "unat v" arbitrary: v b m rule: less_induct)
  case less
  show ?case
  proof (cases "v = 0")
    case True
    then show ?thesis by (simp add: itoa_loop.simps to_digits.simps)
  next
    case False
    then have v: "0 < unat v" by (simp add: unat_gt_0)
    then have div: "unat (v div radix) < unat v" using assms by (simp add: unat_div)
    have "unat (v mod radix) < unat radix" using assms by (simp add: unat_mod)
    then have ok: "\<not> (radix = 0 \<or> 36 \<le> unat (v mod radix))" using assms by auto
    have "itoa_loop v radix b m
        = itoa_loop (v div radix) radix (b + 1) (m(b := itoa_lookup ! unat (v mod radix)))"
      using False ok by (simp add: itoa_loop.simps [of v])
    then show ?thesis
      using less.hyps [OF div, of "b + 1"] assms v
      by (simp add: to_digits.simps [of "unat radix" "unat v"] unat_div unat_mod add.assoc)
  qed
qed

text \<open>\<open>itoa\<close> leaves exactly the numeral and its terminator at \<open>buf\<close>.\<close>

lemma itoa_wr:
  assumes r: "2 \<le> unat radix" "unat radix \<le> 36"
  shows "itoa value buf radix m = Some (wr buf (itoa_str (unat value) (unat radix) @ [0]) m)"
proof (cases "value = 0")
  case True
  then show ?thesis by (simp add: itoa_def itoa_str_def)
next
  case False
  then have nz: "unat value \<noteq> 0" by (simp add: unat_eq_0)
  let ?ds = "map (\<lambda>d. itoa_lookup ! d) (to_digits (unat radix) (unat value))"
  have "(2::nat) ^ 32 \<le> unat radix ^ 32" using r(1) by (rule power_mono) simp
  then have "unat value < unat radix ^ 32"
    using unat_u32_less [of "value"] by (rule less_le_trans [rotated])
  then have len: "length ?ds \<le> 32" using to_digits_length by simp
  have "0 \<notin> set ?ds" using digits_nonzero [OF r(2)] by simp
  then have c: "cstr (wr buf (?ds @ [0]) m) buf ?ds" using len by (intro cstr_wr) auto
  have "wr buf (rev ?ds) (wr buf (?ds @ [0]) m) = wr buf (rev ?ds @ [0]) m"
    by (rule ext) (use len in \<open>auto simp: wr_apply nth_append rev_nth inr_def less_Suc_eq\<close>)
  moreover have "rev ?ds = itoa_str (unat value) (unat radix)"
    using nz by (simp add: itoa_str_def rev_map)
  ultimately show ?thesis
    using False strrev_wr [OF c] len by (simp add: itoa_def itoa_loop_wr [OF r] wr_append)
qed

section \<open>Properties\<close>

text \<open>\<open>strlen\<close> returns the offset of the first NUL byte, and fails to return exactly on a
  memory without a NUL byte.\<close>
theorem strlen_correct:
  "(strlen m s = Some n \<longleftrightarrow> cstr m s (rd m s (unat n))) \<and> (strlen m s = None \<longleftrightarrow> (\<forall>p. m p \<noteq> 0))"
  using strlen_Some_iff strlen_None_iff by blast

lemma rd_padded:
  "rd (wr d (padded (unat (n::u32)) (cstrn m s (unat n))) m') d (unat n) =
    padded (unat n) (cstrn m s (unat n))"
  using rd_wr_same [of "padded (unat n) (cstrn m s (unat n))" d m'] unat_u32_less [of n]
  by (simp add: length_cstrn)

text \<open>\<open>strncpy\<close> fills all \<open>n\<close> bytes of the destination: the source up to its NUL byte or
  up to \<open>n\<close> bytes, the rest padded with NUL bytes (a source of \<open>n\<close> or more bytes leaves no
  NUL byte at all), and changes nothing else.\<close>
theorem strncpy_correct:
  assumes "cstr m src xs" and "apart dest (unat n) src (min (unat n) (Suc (length xs)))"
  shows "rd (strncpy dest src n m) dest (unat n) = padded (unat n) (take (unat n) xs)
    \<and> (0 \<in> set (rd (strncpy dest src n m) dest (unat n)) \<longleftrightarrow> length xs < unat n)
    \<and> (\<forall>p. inr dest (unat n) p \<or> strncpy dest src n m p = m p)"
proof -
  have c: "cstrn m src (unat n) = take (unat n) xs" using assms(1) by (rule cstrn_cstr)
  have "min (unat n) (Suc (length (take (unat n) xs))) = min (unat n) (Suc (length xs))"
    by (auto simp: min_def)
  then have w: "strncpy dest src n m = wr dest (padded (unat n) (take (unat n) xs)) m"
    using strncpy_wr [where d = dest and s = src and n = n and m = m] assms(2) c by simp
  have "rd (strncpy dest src n m) dest (unat n) = padded (unat n) (take (unat n) xs)"
    using rd_padded [where d = dest and n = n and m = m and s = src and m' = m] by (simp add: w c)
  moreover have "0 \<notin> set (take (unat n) xs)" using assms(1) by (auto simp: cstr_def dest: in_set_takeD)
  then have "0 \<in> set (padded (unat n) (take (unat n) xs)) \<longleftrightarrow> length xs < unat n"
    by (auto simp: padded_def)
  moreover have "inr dest (unat n) p \<or> strncpy dest src n m p = m p" for p
    using unat_u32_less [of n] by (auto simp: w wr_apply)
  ultimately show ?thesis by simp
qed

definition sample_mem :: mem where
  "sample_mem = wr 0x1000 (str ''abc'' @ [0]) (\<lambda>_. 7)"

lemma sample_cstr: "cstr sample_mem 0x1000 (str ''abc'')"
  unfolding sample_mem_def by (rule cstr_wr) (simp_all add: str_def)

theorem strncpy_correct_witness:
  "rd (strncpy 0x2000 0x1000 2 sample_mem) 0x2000 (unat (2::u32)) = str ''ab''"
proof -
  have "apart 0x2000 (unat (2::u32)) 0x1000 (min (unat (2::u32)) (Suc (length (str ''abc''))))"
    by (simp add: apart_def str_def)
  from strncpy_correct [OF sample_cstr this]
  have "rd (strncpy 0x2000 0x1000 2 sample_mem) 0x2000 (unat (2::u32)) =
      padded (unat (2::u32)) (take (unat (2::u32)) (str ''abc''))" by (rule conjunct1)
  then show ?thesis by (simp add: padded_def str_def)
qed

text \<open>\<open>strncmp\<close> returns 0 exactly when the strings, cut at their NUL byte and at \<open>n\<close>
  bytes, are equal; any other result is the difference, as signed characters, of the first
  two bytes that differ.\<close>
theorem strncmp_correct:
  "(strncmp f g n = 0 \<longleftrightarrow> upto0 f 0 (unat n) = upto0 g 0 (unat n))
    \<and> (strncmp f g n = 0 \<or> (\<exists>j < unat n. strncmp f g n = sint (f j) - sint (g j)
          \<and> map f [0..<j] = map g [0..<j] \<and> f j \<noteq> g j))"
proof (cases "strncmp f g n = 0")
  case False
  then obtain j where "j < unat n" "strncmp f g n = sint (f j) - sint (g j)"
      "\<And>l. l < j \<Longrightarrow> f l = g l"
    using strncmp_loop_diff [of "unat n" 0 f g "strncmp f g n"] by (auto simp: strncmp_def)
  moreover from this False have "f j \<noteq> g j" by auto
  ultimately show ?thesis using strncmp_0_iff [of f g n] False by auto
qed (simp add: strncmp_0_iff)

text \<open>\<open>strrev\<close> reverses a string in place and changes nothing outside it.\<close>
theorem strrev_correct:
  assumes "cstr m s xs" "length xs \<le> 2 ^ 31"
  shows "\<exists>m'. strrev s m = Some m' \<and> cstr m' s (rev xs)
    \<and> (\<forall>p. inr s (length xs) p \<or> m' p = m p)"
proof (intro exI conjI allI)
  have l: "length xs < 2 ^ 32" "0 \<notin> set xs" "m (s + of_nat (length xs)) = 0"
    using assms(1) by (auto simp: cstr_def)
  have f: "wr s (rev xs) m p = m p" if "\<not> inr s (length xs) p" for p
    using that l(1) by (simp add: wr_apply)
  show "strrev s m = Some (wr s (rev xs) m)" by (rule strrev_wr [OF assms])
  show "cstr (wr s (rev xs) m) s (rev xs)"
    using l rd_wr_same [of "rev xs" s m] f [of "s + of_nat (length xs)"] by (simp add: cstr_def)
  show "inr s (length xs) p \<or> wr s (rev xs) m p = m p" for p using f by auto
qed

theorem strrev_correct_witness:
  "\<exists>m'. strrev 0x1000 sample_mem = Some m' \<and> cstr m' 0x1000 (str ''cba'')"
  using strrev_correct [OF sample_cstr] by (auto simp: str_def)

text \<open>C27: for every radix from 2 to 36 \<open>itoa\<close> returns, the buffer holds a C string of digits
  that reads back as the value, of at most \<open>k\<close> characters for a value below \<open>radix ^ k\<close>, and
  only these characters and the NUL byte are written.\<close>
theorem itoa_correct:
  assumes "2 \<le> unat radix" and "unat radix \<le> 36"
    and "unat value < unat radix ^ k" and "0 < k" and "k < 2 ^ 32"
  shows "\<exists>m' ds. itoa value buf radix m = Some m' \<and> cstr m' buf ds
    \<and> parse_num (unat radix) ds = unat value \<and> length ds \<le> k
    \<and> (\<forall>p. inr buf (Suc k) p \<or> m' p = m p)"
proof (intro exI conjI allI)
  let ?ds = "itoa_str (unat value) (unat radix)"
  have l: "length ?ds \<le> k" by (rule itoa_str_length [OF assms(3,4)])
  show "itoa value buf radix m = Some (wr buf (?ds @ [0]) m)" by (rule itoa_wr [OF assms(1,2)])
  show "cstr (wr buf (?ds @ [0]) m) buf ?ds"
    by (rule cstr_wr) (use l assms itoa_str_nonzero in auto)
  show "parse_num (unat radix) ?ds = unat value" by (rule parse_itoa_str [OF assms(1,2)])
  show "length ?ds \<le> k" by (rule l)
  show "inr buf (Suc k) p \<or> wr buf (?ds @ [0]) m p = m p" for p
    using l assms(5) by (auto simp: wr_apply inr_def)
qed

theorem itoa_correct_witness:
  "\<exists>m' ds. itoa 255 0x3000 16 sample_mem = Some m' \<and> cstr m' 0x3000 ds
    \<and> parse_num 16 ds = 255 \<and> length ds \<le> 2"
  using itoa_correct [of 16 255 2 "0x3000" sample_mem] by auto

end
