(* ===== verification/Console.thy ===== *)
theory Console
  imports Rtc Str_Lib
begin

text \<open>
  The text console of \<^verbatim>\<open>student-distrib/lib.c\<close>: the cursor \<open>screen_x\<close>,
  \<open>screen_y\<close>, the character cells in video memory at 0xB8000, \<open>putc\<close> with line wrap
  and scrolling, \<open>clear\<close>, the hardware cursor, \<open>puts\<close> and \<open>printf\<close>.  The abstract
  view is a list of 2000 cells with a cursor; \<open>putc\<close> refines a step on it, and the locale
  \<open>char_sink\<close> lifts that to whole texts for the routines that print.
\<close>

record console = rtc +
  screen_x :: int
  screen_y :: int

abbreviation VIDEO :: u32 where
  "VIDEO \<equiv> 0xB8000"

definition video_addr :: "int \<Rightarrow> int \<Rightarrow> u32" where
  "video_addr x y = VIDEO + of_int ((80 * y + x) * 2)"

definition cell_addr :: "nat \<Rightarrow> u32" where
  "cell_addr i = VIDEO + of_nat (2 * i)"

definition update_cursor :: "int \<Rightarrow> int \<Rightarrow> 'a machine_scheme \<Rightarrow> 'a machine_scheme" where
  "update_cursor x y s =
     (let pos = of_int (y * 80 + x) :: u32;
          s = outb 0x0F 0x3D4 s; s = outb (low8 (pos AND 0xFF)) 0x3D5 s;
          s = outb 0x0E 0x3D4 s
      in outb (low8 (drop_bit 8 pos AND 0xFF)) 0x3D5 s)"

definition clear :: "'a machine_scheme \<Rightarrow> 'a machine_scheme" where
  "clear s = s\<lparr>mem := fold (\<lambda>i m. m(cell_addr i := 0x20, cell_addr i + 1 := 7)) [0..<2000] (mem s)\<rparr>"

definition test_interrupts :: "'a machine_scheme \<Rightarrow> 'a machine_scheme" where
  "test_interrupts s =
     s\<lparr>mem := fold (\<lambda>i m. m(cell_addr i := m (cell_addr i) + 1)) [0..<2000] (mem s)\<rparr>"

definition move_up :: "nat \<Rightarrow> mem \<Rightarrow> mem" where
  "move_up i m = m(cell_addr (i - 80) := m (cell_addr i))"

definition scroll_rows :: "mem \<Rightarrow> mem" where
  "scroll_rows m = fold move_up [80..<2000] m"

definition clear_last_row :: "mem \<Rightarrow> mem" where
  "clear_last_row m = fold (\<lambda>i m. m(cell_addr (i + 1920) := 0)) [0..<80] m"

definition scroll_down :: "'a console_scheme \<Rightarrow> 'a console_scheme" where
  "scroll_down s =
     (let s = s\<lparr>screen_x := 0\<rparr>;
          s = s\<lparr>mem := clear_last_row (scroll_rows (mem s))\<rparr>
      in update_cursor (screen_x s) (screen_y s) s)"

definition putc :: "u8 \<Rightarrow> 'a console_scheme \<Rightarrow> 'a console_scheme" where
  "putc c s =
     (let s =
        (if c = 0x0A \<or> c = 0x0D
         then let s = (if 0 \<le> screen_y s \<and> screen_y s < 24
                       then s\<lparr>screen_y := screen_y s + 1\<rparr> else scroll_down s)
              in s\<lparr>screen_x := 0\<rparr>
         else let a = video_addr (screen_x s) (screen_y s);
                  s = poke (a + 1) 7 (poke a c s);
                  s = s\<lparr>screen_x := screen_x s + 1\<rparr>
              in if screen_x s > 79
                 then let s = s\<lparr>screen_x := screen_x s mod 80\<rparr>
                      in if screen_y s < 24 then s\<lparr>screen_y := screen_y s + 1\<rparr>
                         else scroll_down s
                 else s)
      in update_cursor (screen_x s) (screen_y s) s)"

definition get_screen_x :: "'a console_scheme \<Rightarrow> u8" where
  "get_screen_x s = of_int (screen_x s)"

definition get_screen_y :: "'a console_scheme \<Rightarrow> u8" where
  "get_screen_y s = of_int (screen_y s)"

definition set_screen_x :: "u8 \<Rightarrow> 'a console_scheme \<Rightarrow> 'a console_scheme" where
  "set_screen_x x s = s\<lparr>screen_x := uint x\<rparr>"

definition set_screen_y :: "u8 \<Rightarrow> 'a console_scheme \<Rightarrow> 'a console_scheme" where
  "set_screen_y y s = s\<lparr>screen_y := uint y\<rparr>"

partial_function (option) puts_from ::
  "u32 \<Rightarrow> nat \<Rightarrow> 'a console_scheme \<Rightarrow> (nat \<times> 'a console_scheme) option" where
  "puts_from a index s =
     (if mem s (a + of_nat index) = 0 then Some (index, s)
      else puts_from a (Suc index) (putc (mem s (a + of_nat index)) s))"

definition puts :: "u32 \<Rightarrow> 'a console_scheme \<Rightarrow> (nat \<times> 'a console_scheme) option" where
  "puts a s = puts_from a 0 s"

text \<open>
  \<open>printf\<close>: \<open>arg\<close> is the word \<open>esp\<close> points at.  The conversion buffers are private to
  the call and hold what \<open>itoa\<close> leaves there (\<open>itoa_wr\<close>), so the text printed is given
  directly.  The result tells whether the conversion consumed its argument.
\<close>

definition conv_text :: "bool \<Rightarrow> u8 \<Rightarrow> u32 \<Rightarrow> u8 list" where
  "conv_text alternate c arg =
     (if c = 0x78
      then let ds = itoa_str (unat arg) 16
           in if alternate then replicate (8 - length ds) 0x30 @ ds else ds
      else if c = 0x75 then itoa_str (unat arg) 10
      else if sint arg < 0 then 0x2D # itoa_str (unat (- arg)) 10
      else itoa_str (unat arg) 10)"

definition printf_conv ::
  "bool \<Rightarrow> u8 \<Rightarrow> u32 \<Rightarrow> 'a console_scheme \<Rightarrow> (bool \<times> 'a console_scheme) option" where
  "printf_conv alternate c arg s =
     (if c = 0x25 then Some (False, putc 0x25 s)
      else if c = 0x78 \<or> c = 0x75 \<or> c = 0x64
      then Some (True, fold putc (conv_text alternate c arg) s)
      else if c = 0x63 then Some (True, putc (low8 arg) s)
      else if c = 0x73
      then (case puts arg s of None \<Rightarrow> None | Some (_, s') \<Rightarrow> Some (True, s'))
      else Some (False, s))"

text \<open>
  The loop has two program points: the head of the \<open>while\<close> (\<open>None\<close>) and the label
  \<open>format_char_switch\<close> with the value of \<open>alternate\<close>.
\<close>

partial_function (option) printf_loop ::
  "(nat \<Rightarrow> u32) \<Rightarrow> bool option \<Rightarrow> u32 \<Rightarrow> nat \<Rightarrow> 'a console_scheme \<Rightarrow> (u32 \<times> 'a console_scheme) option"
where
  "printf_loop args point buf esp s =
     (case point of
        None \<Rightarrow>
          (if mem s buf = 0 then Some (buf, s)
           else if mem s buf = 0x25 then printf_loop args (Some False) (buf + 1) esp s
           else printf_loop args None (buf + 1) esp (putc (mem s buf) s))
      | Some alternate \<Rightarrow>
          (if mem s buf = 0x23 then printf_loop args (Some True) (buf + 1) esp s
           else case printf_conv alternate (mem s buf) (args esp) s of
                  None \<Rightarrow> None
                | Some (used, s') \<Rightarrow>
                    printf_loop args None (buf + 1) (if used then Suc esp else esp) s'))"

definition printf ::
  "u32 \<Rightarrow> (nat \<Rightarrow> u32) \<Rightarrow> 'a console_scheme \<Rightarrow> (u32 \<times> 'a console_scheme) option" where
  "printf format args s =
     (case printf_loop args None format 0 s of
        None \<Rightarrow> None
      | Some (buf, s') \<Rightarrow> Some (buf - format, s'))"

section \<open>Cells\<close>

lemma cell_addr_eq [simp]: "i < 2000 \<Longrightarrow> j < 2000 \<Longrightarrow> (cell_addr i = cell_addr j) = (i = j)"
  using u32_of_nat_inj [of "2 * i" "2 * j"] by (simp add: cell_addr_def del: of_nat_mult)

lemma attr_addr: "cell_addr i + 1 = VIDEO + of_nat (2 * i + 1)"
  by (simp add: cell_addr_def)

lemma cell_addr_attr [simp]:
  assumes "i < 2000" and "j < 2000"
  shows "cell_addr i + 1 \<noteq> cell_addr j"
proof
  assume "cell_addr i + 1 = cell_addr j"
  then have "(of_nat (2 * i + 1) :: u32) = of_nat (2 * j)"
    unfolding attr_addr by (simp only: cell_addr_def add_left_cancel)
  then have "2 * i + 1 = 2 * j" using assms by (subst (asm) u32_of_nat_inj) auto
  then show False by presburger
qed

lemma cell_addr_attr' [simp]: "i < 2000 \<Longrightarrow> j < 2000 \<Longrightarrow> cell_addr j \<noteq> cell_addr i + 1"
  using cell_addr_attr by metis

lemma cell_in_video: "i < 2000 \<Longrightarrow> inr VIDEO 4000 (cell_addr i) \<and> inr VIDEO 4000 (cell_addr i + 1)"
  unfolding attr_addr unfolding cell_addr_def
  by (intro conjI inr_offset [THEN iffD2]) simp_all

lemma not_video_cell: "\<not> inr VIDEO 4000 p \<Longrightarrow> i < 2000 \<Longrightarrow> p \<noteq> cell_addr i \<and> p \<noteq> cell_addr i + 1"
  using cell_in_video by blast

lemma video_addr_cell:
  "0 \<le> x \<Longrightarrow> 0 \<le> y \<Longrightarrow> video_addr x y = cell_addr (80 * nat y + nat x)"
proof -
  assume "0 \<le> x" "0 \<le> y"
  then have "(80 * y + x) * 2 = int (2 * (80 * nat y + nat x))" by simp
  then show ?thesis unfolding video_addr_def cell_addr_def by (simp only: of_int_of_nat_eq)
qed

definition text_cells :: "mem \<Rightarrow> u8 list" where
  "text_cells m = map (\<lambda>i. m (cell_addr i)) [0..<2000]"

definition attrs_ok :: "mem \<Rightarrow> bool" where
  "attrs_ok m = (\<forall>i < 2000. m (cell_addr i + 1) = 7)"

lemma length_text_cells [simp]: "length (text_cells m) = 2000"
  by (simp add: text_cells_def)

lemma nth_text_cells [simp]: "i < 2000 \<Longrightarrow> text_cells m ! i = m (cell_addr i)"
  by (simp add: text_cells_def)

lemma fold_fill_other:
  "(\<And>i. i \<in> set is \<Longrightarrow> p \<noteq> f i) \<Longrightarrow> fold (\<lambda>i m. m(f i := g i m)) is m p = m p"
  by (induction "is" arbitrary: m) auto

lemma move_up_apply:
  "move_up i m p = (if p = cell_addr (i - 80) then m (cell_addr i) else m p)"
  by (simp add: move_up_def)

lemma scroll_fold:
  assumes "b \<le> 2000" and "80 \<le> b"
  shows "j < 2000 \<Longrightarrow> fold move_up [80..<b] m (cell_addr j)
    = m (cell_addr (if j + 80 < b then j + 80 else j))"
  using assms(2,1)
proof (induction b arbitrary: j rule: dec_induct)
  case (step b)
  let ?r = "fold move_up [80..<b] m"
  have unroll: "fold move_up [80..<Suc b] m = move_up b ?r" using step.hyps(1) by simp
  have b: "?r (cell_addr b) = m (cell_addr b)" using step.IH [of b] step.prems by simp
  show ?case
  proof (cases "j = b - 80")
    case True
    then show ?thesis
      unfolding unroll by (subst move_up_apply) (use b step.hyps(1) in simp)
  next
    case False
    then have "fold move_up [80..<Suc b] m (cell_addr j) = ?r (cell_addr j)"
      unfolding unroll by (subst move_up_apply) (use step.prems in simp)
    also have "\<dots> = m (cell_addr (if j + 80 < b then j + 80 else j))"
      using step.IH [of j] step.prems by simp
    finally show ?thesis using False by (auto simp: less_Suc_eq simp del: upt_Suc)
  qed
qed simp

lemma scroll_rows_cell:
  "j < 2000 \<Longrightarrow> scroll_rows m (cell_addr j) = m (cell_addr (if j < 1920 then j + 80 else j))"
  using scroll_fold [of 2000 j m] by (simp add: scroll_rows_def)

lemma scroll_rows_other:
  assumes "\<And>i. i < 2000 \<Longrightarrow> p \<noteq> cell_addr i"
  shows "scroll_rows m p = m p"
proof -
  have "p \<noteq> cell_addr (i - 80)" if "i \<in> set [80..<2000::nat]" for i
  proof -
    have "i - 80 < 2000" using that by simp arith
    then show ?thesis by (rule assms)
  qed
  then show ?thesis
    using fold_fill_other [of "[80..<2000]" p "\<lambda>i. cell_addr (i - 80)" "\<lambda>i m. m (cell_addr i)" m]
    by (simp add: scroll_rows_def move_up_def [abs_def])
qed

lemma clear_last_row_cell:
  assumes "j < 2000"
  shows "clear_last_row m (cell_addr j) = (if j < 1920 then m (cell_addr j) else 0)"
proof -
  have "b \<le> 80 \<Longrightarrow> fold (\<lambda>i m. m(cell_addr (i + 1920) := 0)) [0..<b] m (cell_addr j)
    = (if 1920 \<le> j \<and> j < 1920 + b then 0 else m (cell_addr j))" for b
    using assms by (induction b) (auto simp: less_Suc_eq)
  from this [of 80] show ?thesis using assms by (simp add: clear_last_row_def)
qed

lemma clear_last_row_other: "(\<And>i. i < 2000 \<Longrightarrow> p \<noteq> cell_addr i) \<Longrightarrow> clear_last_row m p = m p"
  unfolding clear_last_row_def by (rule fold_fill_other) auto

definition scroll_text :: "u8 list \<Rightarrow> u8 list" where
  "scroll_text cs = drop 80 cs @ replicate 80 0"

lemma scroll_text_cells: "text_cells (clear_last_row (scroll_rows m)) = scroll_text (text_cells m)"
  by (rule nth_equalityI)
    (auto simp: scroll_text_def clear_last_row_cell scroll_rows_cell nth_append add.commute)

lemma scroll_frame:
  "\<not> inr VIDEO 4000 p \<Longrightarrow> clear_last_row (scroll_rows m) p = m p"
  by (simp add: not_video_cell clear_last_row_other scroll_rows_other)

lemma scroll_attrs: "attrs_ok m \<Longrightarrow> attrs_ok (clear_last_row (scroll_rows m))"
  by (simp add: attrs_ok_def clear_last_row_other scroll_rows_other)

section \<open>The abstract screen\<close>

record tscreen =
  cells :: "u8 list"
  cx :: nat
  cy :: nat

definition screen_view :: "'a console_scheme \<Rightarrow> tscreen" where
  "screen_view s = \<lparr>cells = text_cells (mem s), cx = nat (screen_x s), cy = nat (screen_y s)\<rparr>"

definition newline :: "tscreen \<Rightarrow> tscreen" where
  "newline v = (if cy v < 24 then v\<lparr>cx := 0, cy := cy v + 1\<rparr>
     else v\<lparr>cells := scroll_text (cells v), cx := 0\<rparr>)"

definition put_char :: "u8 \<Rightarrow> tscreen \<Rightarrow> tscreen" where
  "put_char c v =
     (if c = 0x0A \<or> c = 0x0D then newline v
      else let v' = v\<lparr>cells := (cells v)[80 * cy v + cx v := c]\<rparr>
           in if cx v = 79 then newline v' else v'\<lparr>cx := cx v + 1\<rparr>)"

definition cursor_ok :: "'a console_scheme \<Rightarrow> bool" where
  "cursor_ok s = (0 \<le> screen_x s \<and> screen_x s < 80 \<and> 0 \<le> screen_y s \<and> screen_y s < 25)"

lemma update_cursor_fields [frame_simps, simp]:
  "mem (update_cursor x y s) = mem s" "dev (update_cursor x y s) = dev s"
  "iflag (update_cursor x y s) = iflag s" "wild (update_cursor x y s) = wild s"
  by (simp_all add: update_cursor_def Let_def)

lemma outb_console [frame_simps, simp]:
  "screen_x (outb d p s) = screen_x s" "screen_y (outb d p s) = screen_y s"
  "screen_x (poke a d s) = screen_x s" "screen_y (poke a d s) = screen_y s"
  by (simp_all add: outb_def poke_def)

lemma update_cursor_console [frame_simps, simp]:
  "screen_x (update_cursor x y s) = screen_x s" "screen_y (update_cursor x y s) = screen_y s"
  by (simp_all add: update_cursor_def Let_def)

lemma scroll_down_fields [frame_simps, simp]:
  "mem (scroll_down s) = clear_last_row (scroll_rows (mem s))"
  "screen_x (scroll_down s) = 0" "screen_y (scroll_down s) = screen_y s"
  "dev (scroll_down s) = dev s" "iflag (scroll_down s) = iflag s" "wild (scroll_down s) = wild s"
  by (simp_all add: scroll_down_def Let_def)

lemma text_cells_poke:
  "i < 2000 \<Longrightarrow> text_cells (m(cell_addr i := c, cell_addr i + 1 := b)) = (text_cells m)[i := c]"
  by (rule nth_equalityI) (auto simp: nth_list_update)

lemma cursor_ok_cell: "cursor_ok s \<Longrightarrow> 80 * nat (screen_y s) + nat (screen_x s) < 2000"
  by (auto simp: cursor_ok_def)

lemma cursor_ok_putc [inv_intros]: "cursor_ok s \<Longrightarrow> cursor_ok (putc c s)"
  by (auto simp: cursor_ok_def putc_def Let_def)

lemma putc_mem:
  "mem (putc c s) =
     (if c = 0x0A \<or> c = 0x0D
      then if 0 \<le> screen_y s \<and> screen_y s < 24 then mem s
           else clear_last_row (scroll_rows (mem s))
      else let a = video_addr (screen_x s) (screen_y s); m = (mem s)(a := c, a + 1 := 7)
           in if screen_x s + 1 > 79 \<and> \<not> screen_y s < 24 then clear_last_row (scroll_rows m) else m)"
  by (simp add: putc_def Let_def)

lemma putc_view: "cursor_ok s \<Longrightarrow> screen_view (putc c s) = put_char c (screen_view s)"
proof -
  assume ok: "cursor_ok s"
  note cell = cursor_ok_cell [OF ok]
  have a: "video_addr (screen_x s) (screen_y s) = cell_addr (80 * nat (screen_y s) + nat (screen_x s))"
    using ok by (simp add: cursor_ok_def video_addr_cell)
  have x: "(nat (screen_x s) = 79) = (screen_x s + 1 > 79)" using ok by (auto simp: cursor_ok_def)
  have y: "(nat (screen_y s) < 24) = (screen_y s < 24)" using ok by (auto simp: cursor_ok_def)
  have wrap: "(screen_x s + 1) mod 80 = 0" if "79 \<le> screen_x s"
  proof -
    have "screen_x s = 79" using that ok by (simp add: cursor_ok_def)
    then show ?thesis by simp
  qed
  show ?thesis
    using ok cell
    by (auto simp: screen_view_def put_char_def newline_def x y putc_mem a text_cells_poke
        scroll_text_cells Let_def)
      (auto simp: putc_def Let_def cursor_ok_def wrap)
qed

lemma putc_frame:
  assumes "cursor_ok s" and "\<not> inr VIDEO 4000 p"
  shows "mem (putc c s) p = mem s p"
proof -
  have a: "video_addr (screen_x s) (screen_y s) = cell_addr (80 * nat (screen_y s) + nat (screen_x s))"
    using assms(1) by (simp add: cursor_ok_def video_addr_cell)
  show ?thesis
    using not_video_cell [OF assms(2) cursor_ok_cell [OF assms(1)]] assms(2)
    by (simp add: putc_mem a Let_def scroll_frame)
qed

lemma attrs_ok_putc [inv_intros]:
  assumes "cursor_ok s" and "attrs_ok (mem s)"
  shows "attrs_ok (mem (putc c s))"
proof -
  have a: "video_addr (screen_x s) (screen_y s) = cell_addr (80 * nat (screen_y s) + nat (screen_x s))"
    using assms(1) by (simp add: cursor_ok_def video_addr_cell)
  have "attrs_ok ((mem s)(cell_addr i := c, cell_addr i + 1 := 7))" if "i < 2000" for i
    using assms(2) that by (auto simp: attrs_ok_def)
  from this [OF cursor_ok_cell [OF assms(1)]] show ?thesis
    using assms(2) by (auto simp: putc_mem a Let_def intro: scroll_attrs)
qed

text \<open>\<open>clear\<close> blanks every cell and resets every attribute.\<close>

definition blank_cell :: "nat \<Rightarrow> mem \<Rightarrow> mem" where
  "blank_cell i m = m(cell_addr i := 0x20, cell_addr i + 1 := 7)"

lemma clear_fold: "clear s = s\<lparr>mem := fold blank_cell [0..<2000] (mem s)\<rparr>"
  by (simp add: clear_def blank_cell_def [abs_def])

lemma blank_fold:
  "b \<le> 2000 \<Longrightarrow> i < 2000 \<Longrightarrow>
    fold blank_cell [0..<b] m (cell_addr i) = (if i < b then 0x20 else m (cell_addr i))
    \<and> fold blank_cell [0..<b] m (cell_addr i + 1) = (if i < b then 7 else m (cell_addr i + 1))"
proof (induction b)
  case (Suc b)
  have "fold blank_cell [0..<Suc b] m = blank_cell b (fold blank_cell [0..<b] m)" by simp
  then show ?case using Suc by (auto simp: blank_cell_def less_Suc_eq)
qed simp

lemma clear_text: "text_cells (mem (clear s)) = replicate 2000 0x20"
  by (rule nth_equalityI) (simp_all add: clear_fold blank_fold)

lemma clear_attrs: "attrs_ok (mem (clear s))"
  by (simp add: attrs_ok_def clear_fold blank_fold)

lemma clear_console [frame_simps, simp]:
  "screen_x (clear s) = screen_x s" "screen_y (clear s) = screen_y s" "out (clear s) = out s"
  "dev (clear s) = dev s" "iflag (clear s) = iflag s" "wild (clear s) = wild s"
  by (simp_all add: clear_def)

text \<open>The position the hardware cursor registers hold after the last two index/data pairs.\<close>

fun hw_cursor :: "(u16 \<times> u8) list \<Rightarrow> nat option" where
  "hw_cursor ((p1, hi) # (q1, i1) # (p2, lo) # (q2, i2) # _) =
     (if p1 = 0x3D5 \<and> q1 = 0x3D4 \<and> i1 = 0x0E \<and> p2 = 0x3D5 \<and> q2 = 0x3D4 \<and> i2 = 0x0F
      then Some (256 * unat hi + unat lo) else None)"
| "hw_cursor _ = None"

lemma low_byte: "n < 65536 \<Longrightarrow> unat (low8 ((of_nat n :: u32) AND 0xFF)) = n mod 256"
proof -
  assume "n < 65536"
  have "low8 ((of_nat n :: u32) AND 0xFF) = (of_nat n :: u8)"
  proof (rule bit_word_eqI)
    fix k assume "k < LENGTH(8)"
    have m: "(0xFF :: u32) = mask 8" by (simp add: mask_eq_exp_minus_1)
    show "bit (low8 ((of_nat n :: u32) AND 0xFF)) k = bit (of_nat n :: u8) k"
      using \<open>k < LENGTH(8)\<close> unfolding m low8_def by (auto simp: bit_simps)
  qed
  then show ?thesis by (simp add: unat_of_nat take_bit_eq_mod)
qed

lemma high_byte: "n < 65536 \<Longrightarrow> unat (low8 (drop_bit 8 (of_nat n :: u32) AND 0xFF)) = n div 256"
proof -
  assume n: "n < 65536"
  have "drop_bit 8 (of_nat n :: u32) = of_nat (n div 256)"
    using n by (intro word_unat_eq_iff [THEN iffD2])
      (simp add: unat_drop_bit_eq unat_u32_of_nat drop_bit_eq_div unat_div)
  then show ?thesis using n low_byte [of "n div 256"] by simp
qed

lemma update_cursor_hw:
  assumes "0 \<le> x" "x < 80" "0 \<le> y" "y < 25"
  shows "hw_cursor (out (update_cursor x y s)) = Some (80 * nat y + nat x)"
proof -
  let ?n = "80 * nat y + nat x"
  have n: "?n < 2000" using assms by auto
  have "y * 80 + x = int ?n" using assms by simp
  then have "(of_int (y * 80 + x) :: u32) = of_nat ?n" by (simp only: of_int_of_nat_eq)
  then show ?thesis
    using low_byte [of ?n] high_byte [of ?n] n by (simp add: update_cursor_def Let_def)
qed

lemma putc_hw:
  assumes "cursor_ok s"
  shows "hw_cursor (out (putc c s)) = Some (80 * nat (screen_y (putc c s)) + nat (screen_x (putc c s)))"
proof -
  have "\<exists>t. putc c s = update_cursor (screen_x t) (screen_y t) t" by (simp only: putc_def Let_def) blast
  then obtain t where t: "putc c s = update_cursor (screen_x t) (screen_y t) t" ..
  have "cursor_ok t" using cursor_ok_putc [OF assms, of c] unfolding t by (simp add: cursor_ok_def)
  then show ?thesis unfolding t by (simp add: cursor_ok_def update_cursor_hw)
qed

section \<open>Printing a text\<close>

locale char_sink =
  fixes put :: "u8 \<Rightarrow> 's \<Rightarrow> 's"
    and ok :: "'s \<Rightarrow> bool"
    and view :: "'s \<Rightarrow> 'v"
    and step :: "u8 \<Rightarrow> 'v \<Rightarrow> 'v"
    and bytes :: "'s \<Rightarrow> mem"
    and own :: "u32 \<Rightarrow> bool"
  assumes ok_put: "ok s \<Longrightarrow> ok (put c s)"
    and view_put: "ok s \<Longrightarrow> view (put c s) = step c (view s)"
    and frame_put: "ok s \<Longrightarrow> \<not> own p \<Longrightarrow> bytes (put c s) p = bytes s p"
begin

lemma ok_text: "ok s \<Longrightarrow> ok (fold put cs s)"
  by (induction cs arbitrary: s) (auto intro: ok_put)

lemma view_text: "ok s \<Longrightarrow> view (fold put cs s) = fold step cs (view s)"
  by (induction cs arbitrary: s) (auto simp: ok_put view_put)

lemma frame_text: "ok s \<Longrightarrow> \<not> own p \<Longrightarrow> bytes (fold put cs s) p = bytes s p"
  by (induction cs arbitrary: s) (auto simp: ok_put frame_put)

text \<open>A string outside the sink's own memory survives the printing of any text.\<close>

lemma cstr_text:
  assumes "ok s" and "cstr (bytes s) a xs" and "\<And>i. i \<le> length xs \<Longrightarrow> \<not> own (a + of_nat i)"
  shows "cstr (bytes (fold put cs s)) a xs"
  using assms(2) by (rule cstr_update) (simp add: frame_text assms)

end

interpretation con: char_sink putc cursor_ok screen_view put_char mem "inr VIDEO 4000"
  by unfold_locales (auto simp: cursor_ok_putc putc_view putc_frame)

lemma puts_from_cstr:
  assumes "cursor_ok s" and "cstr (mem s) a xs"
    and "\<And>i. i \<le> length xs \<Longrightarrow> \<not> inr VIDEO 4000 (a + of_nat i)" and "i \<le> length xs"
  shows "puts_from a i (fold putc (take i xs) s) = Some (length xs, fold putc xs s)"
  using assms(4)
proof (induction "length xs - i" arbitrary: i)
  case 0
  then have "i = length xs" by simp
  then show ?case
    using con.cstr_text [OF assms(1-3), of xs] by (simp add: puts_from.simps cstr_def)
next
  case (Suc k)
  then have i: "i < length xs" by simp
  have "cstr (mem (fold putc (take i xs) s)) a xs" by (rule con.cstr_text [OF assms(1-3)])
  from cstr_nth [OF this i] have "puts_from a i (fold putc (take i xs) s)
      = puts_from a (Suc i) (fold putc (take (Suc i) xs) s)"
    using i by (simp add: puts_from.simps [of a i] take_Suc_conv_app_nth)
  also have "\<dots> = Some (length xs, fold putc xs s)" by (rule Suc.hyps) (use Suc.hyps(2) in auto)
  finally show ?case .
qed

lemma puts_cstr:
  "cursor_ok s \<Longrightarrow> cstr (mem s) a xs \<Longrightarrow>
    (\<And>i. i \<le> length xs \<Longrightarrow> \<not> inr VIDEO 4000 (a + of_nat i)) \<Longrightarrow>
    puts a s = Some (length xs, fold putc xs s)"
  using puts_from_cstr [of s a xs 0] by (simp add: puts_def)

section \<open>Properties\<close>

text \<open>C25: printing any text with \<open>putc\<close> from a cursor on the screen acts on the screen as the
  abstract terminal does (line wrap, carriage return, scrolling at the last row), keeps the
  cursor on the screen, and writes no byte outside the 4000 bytes of video memory.\<close>
theorem putc_refines:
  assumes "cursor_ok s"
  shows "screen_view (fold putc cs s) = fold put_char cs (screen_view s)
    \<and> cursor_ok (fold putc cs s)
    \<and> (\<forall>p. inr VIDEO 4000 p \<or> mem (fold putc cs s) p = mem s p)"
  using con.view_text [OF assms] con.ok_text [OF assms] con.frame_text [OF assms] by blast

definition sample_console :: console where
  "sample_console = \<lparr>mem = \<lambda>_. 0x41, out = [], dev = \<lambda>_ _. 0, iflag = True, wild = False,
     master_mask = 0xFF, slave_mask = 0xFF, int_flag = 0, screen_x = 79, screen_y = 24\<rparr>"

lemma sample_console_ok: "cursor_ok sample_console"
  by (simp add: cursor_ok_def sample_console_def)

theorem putc_refines_witness:
  "cursor_ok (fold putc (str ''ab'') sample_console) \<and>
   mem (fold putc (str ''ab'') sample_console) 0x1000 = 0x41"
proof -
  have "\<not> inr VIDEO 4000 0x1000" by (simp add: inr_def unat_u32_minus)
  then show ?thesis
    using putc_refines [OF sample_console_ok, of "str ''ab''"] by (auto simp: sample_console_def)
qed

text \<open>After \<open>putc\<close> the hardware cursor registers hold the position of the cursor, from
  the low and high byte written to the CRT controller.\<close>
theorem putc_hw_cursor:
  assumes "cursor_ok s"
  shows "hw_cursor (out (putc c s)) =
    Some (80 * cy (put_char c (screen_view s)) + cx (put_char c (screen_view s)))"
  using putc_hw [OF assms, of c] putc_view [OF assms, of c, symmetric] by (simp add: screen_view_def)

theorem putc_hw_cursor_witness: "hw_cursor (out (putc 0x41 sample_console)) = Some 1920"
  using putc_hw_cursor [OF sample_console_ok, of "0x41"]
  by (simp add: screen_view_def put_char_def newline_def sample_console_def Let_def)

text \<open>\<open>puts\<close> of a C string outside video memory returns its length and leaves the screen
  as printing its characters does.\<close>
theorem puts_correct:
  assumes "cursor_ok s" and "cstr (mem s) a xs" and "apart a (Suc (length xs)) VIDEO 4000"
  shows "\<exists>s'. puts a s = Some (length xs, s') \<and> screen_view s' = fold put_char xs (screen_view s)
    \<and> cursor_ok s'"
proof -
  have "\<not> inr VIDEO 4000 (a + of_nat i)" if "i \<le> length xs" for i
  proof -
    have "inr a (Suc (length xs)) (a + of_nat i)"
      using that assms(2) by (subst inr_offset) (auto simp: cstr_def)
    then show ?thesis by (rule apartD [OF assms(3)])
  qed
  then have "puts a s = Some (length xs, fold putc xs s)" by (rule puts_cstr [OF assms(1,2)])
  then show ?thesis using con.view_text [OF assms(1)] con.ok_text [OF assms(1)] by blast
qed

theorem puts_correct_witness:
  "\<exists>s'. puts 0x1000 (sample_console\<lparr>mem := sample_mem\<rparr>) = Some (3, s') \<and> cursor_ok s'"
proof -
  have "cursor_ok (sample_console\<lparr>mem := sample_mem\<rparr>)"
    by (simp add: cursor_ok_def sample_console_def)
  moreover have "cstr (mem (sample_console\<lparr>mem := sample_mem\<rparr>)) 0x1000 (str ''abc'')"
    using sample_cstr by simp
  moreover have "apart 0x1000 (Suc (length (str ''abc''))) VIDEO 4000"
    by (simp add: apart_def str_def unat_u32_minus)
  ultimately have "\<exists>s'. puts 0x1000 (sample_console\<lparr>mem := sample_mem\<rparr>) =
      Some (length (str ''abc''), s') \<and> cursor_ok s'"
    using puts_correct by blast
  then show ?thesis by (simp add: str_def eval_nat_numeral)
qed

end
