(* ===== verification/Filesys.thy ===== *)
theory Filesys
  imports Console
begin

text \<open>
  The read-only file system of \<^verbatim>\<open>student-distrib/filesys.c\<close>.  The image is a block of
  memory loaded by the boot loader; the structures \<open>boot_block_t\<close>, \<open>dentry_t\<close> and
  \<open>inode_t\<close> are read from it at the offsets of \<^verbatim>\<open>filesys.h\<close>.  \<open>read_data\<close> is shown to
  copy a slice of the abstract contents of a file, and the two directory lookups to meet the
  contract of the locale \<open>directory\<close>, on which \<open>open\<close> and \<open>execute\<close> rest.
\<close>

record fs = console +
  boot_block :: u32
  boot_block_end :: u32
  len_inodes :: u32
  data_block_start :: u32

record dentry =
  file_name :: "u8 list"
  file_type :: int
  inode_num :: int

section \<open>The structures of the image\<close>

definition dir_count :: "'a fs_scheme \<Rightarrow> u32" where
  "dir_count s = ld32 (mem s) (boot_block s)"

definition inode_count :: "'a fs_scheme \<Rightarrow> u32" where
  "inode_count s = ld32 (mem s) (boot_block s + 4)"

definition dir_entry_addr :: "'a fs_scheme \<Rightarrow> u32 \<Rightarrow> u32" where
  "dir_entry_addr s i = boot_block s + 64 + i * 64"

definition dentry_at :: "mem \<Rightarrow> u32 \<Rightarrow> dentry" where
  "dentry_at m a = \<lparr>file_name = padded 32 (cstrn m a 32), file_type = sint (ld32 m (a + 32)),
     inode_num = sint (ld32 m (a + 36))\<rparr>"

section \<open>Operations\<close>

definition fs_init :: "u32 \<Rightarrow> 'a fs_scheme \<Rightarrow> 'a fs_scheme" where
  "fs_init file_sys_boot s =
     (let mod_start = ld32 (mem s) file_sys_boot;
          s = s\<lparr>boot_block := mod_start\<rparr>;
          s = s\<lparr>boot_block_end := mod_start + 4096\<rparr>;
          s = s\<lparr>len_inodes := inode_count s * 4096\<rparr>
      in s\<lparr>data_block_start := boot_block s + (inode_count s + 1) * 4096\<rparr>)"

definition read_dentry_by_index :: "u32 \<Rightarrow> 'a fs_scheme \<Rightarrow> dentry option" where
  "read_dentry_by_index index s =
     (if dir_count s \<le> index then None
      else Some (dentry_at (mem s) (dir_entry_addr s index)))"

fun dentry_loop :: "nat \<Rightarrow> u32 \<Rightarrow> (nat \<Rightarrow> u8) \<Rightarrow> 'a fs_scheme \<Rightarrow> u32 option" where
  "dentry_loop 0 dir_entry_idx fname s = None"
| "dentry_loop (Suc k) dir_entry_idx fname s =
     (if strncmp (at (mem s) (dir_entry_addr s dir_entry_idx)) fname 32 = 0
      then Some dir_entry_idx
      else dentry_loop k (dir_entry_idx + 1) fname s)"

definition read_dentry_by_name :: "(nat \<Rightarrow> u8) \<Rightarrow> 'a fs_scheme \<Rightarrow> dentry option" where
  "read_dentry_by_name fname s =
     (case dentry_loop (unat (dir_count s)) 0 fname s of
        None \<Rightarrow> None
      | Some dir_entry_idx \<Rightarrow> read_dentry_by_index dir_entry_idx s)"

definition block_addr :: "mem \<Rightarrow> u32 \<Rightarrow> u32 \<Rightarrow> u32 \<Rightarrow> u32" where
  "block_addr m curr_inode dbs datablock =
     dbs + ld32 m (curr_inode + 4 + 4 * datablock) * 4096"

fun read_data_loop ::
  "nat \<Rightarrow> nat \<Rightarrow> u32 \<Rightarrow> u32 \<Rightarrow> u32 \<Rightarrow> u32 \<Rightarrow> u32 \<Rightarrow> u32 \<Rightarrow> u32 \<Rightarrow> mem \<Rightarrow> nat \<times> mem"
where
  "read_data_loop 0 i curr_inode dbs offset buf datablock byte_offset loc m = (i, m)"
| "read_data_loop (Suc k) i curr_inode dbs offset buf datablock byte_offset loc m =
     (if ld32 m curr_inode \<le> of_nat i + offset then (i, m)
      else let (datablock, byte_offset, loc) =
                 (if 4096 \<le> byte_offset
                  then (datablock + 1, 0, block_addr m curr_inode dbs (datablock + 1))
                  else (datablock, byte_offset, loc));
               m = m(buf + of_nat i := m loc)
           in read_data_loop k (Suc i) curr_inode dbs offset buf datablock (byte_offset + 1)
                (loc + 1) m)"

definition inode_addr :: "'a fs_scheme \<Rightarrow> u32 \<Rightarrow> u32" where
  "inode_addr s inode = boot_block_end s + inode * 4096"

definition read_data :: "u32 \<Rightarrow> u32 \<Rightarrow> u32 \<Rightarrow> u32 \<Rightarrow> 'a fs_scheme \<Rightarrow> nat \<times> 'a fs_scheme" where
  "read_data inode offset buf nbytes s =
     (if inode_count s \<le> inode then (0, s)
      else let curr_inode = inode_addr s inode;
               datablock = offset div 4096;
               byte_offset = offset mod 4096;
               loc = block_addr (mem s) curr_inode (data_block_start s) datablock + byte_offset;
               (i, m) = read_data_loop (unat nbytes) 0 curr_inode (data_block_start s) offset buf
                          datablock byte_offset loc (mem s)
           in (i, s\<lparr>mem := m\<rparr>))"

section \<open>Directory lookups\<close>

text \<open>The name of directory entry \<open>i\<close> and the match \<open>read_dentry_by_name\<close> tests.\<close>

definition entry_name :: "'a fs_scheme \<Rightarrow> nat \<Rightarrow> u8 list" where
  "entry_name s i = cstrn (mem s) (dir_entry_addr s (of_nat i)) 32"

definition entry_named :: "(nat \<Rightarrow> u8) \<Rightarrow> 'a fs_scheme \<Rightarrow> nat \<Rightarrow> bool" where
  "entry_named fname s i = (entry_name s i = upto0 fname 0 32)"

definition dir_size :: "'a fs_scheme \<Rightarrow> nat" where
  "dir_size s = unat (dir_count s)"

definition dir_entry :: "'a fs_scheme \<Rightarrow> nat \<Rightarrow> dentry option" where
  "dir_entry s i = (if i < dir_size s then Some (dentry_at (mem s) (dir_entry_addr s (of_nat i)))
     else None)"

locale directory =
  fixes entries :: "'s \<Rightarrow> nat"
    and entry :: "'s \<Rightarrow> nat \<Rightarrow> 'd option"
    and named :: "'n \<Rightarrow> 's \<Rightarrow> nat \<Rightarrow> bool"
    and lookup :: "'n \<Rightarrow> 's \<Rightarrow> 'd option"
  assumes entry_None: "(entry s i = None) = (entries s \<le> i)"
    and lookup_first: "i < entries s \<Longrightarrow> named f s i \<Longrightarrow> (\<And>j. j < i \<Longrightarrow> \<not> named f s j) \<Longrightarrow>
          lookup f s = entry s i"
    and lookup_none: "(\<And>i. i < entries s \<Longrightarrow> \<not> named f s i) \<Longrightarrow> lookup f s = None"
begin

lemma first_match:
  assumes "i < entries s" and "named f s i"
  obtains k where "k < entries s" "named f s k" "\<And>j. j < k \<Longrightarrow> \<not> named f s j"
proof
  let ?k = "LEAST i. named f s i"
  show "named f s ?k" by (rule LeastI) (rule assms(2))
  show "?k < entries s" using Least_le [of "named f s", OF assms(2)] assms(1) by simp
  show "\<And>j. j < ?k \<Longrightarrow> \<not> named f s j" by (rule not_less_Least)
qed

lemma lookup_None_iff: "lookup f s = None \<longleftrightarrow> (\<forall>i < entries s. \<not> named f s i)"
proof
  assume none: "lookup f s = None"
  show "\<forall>i < entries s. \<not> named f s i"
  proof (intro allI impI notI)
    fix i assume "i < entries s" "named f s i"
    then obtain k where k: "k < entries s" "named f s k" "\<And>j. j < k \<Longrightarrow> \<not> named f s j"
      by (rule first_match) blast
    then have "lookup f s = entry s k" by (rule lookup_first)
    with none k(1) entry_None [of s k] show False by simp
  qed
qed (auto intro: lookup_none)

lemma lookup_SomeD:
  assumes "lookup f s = Some d"
  obtains k where "k < entries s" "named f s k" "\<And>j. j < k \<Longrightarrow> \<not> named f s j" "entry s k = Some d"
proof -
  from assms obtain i where "i < entries s" "named f s i"
    using lookup_None_iff [of f s] by auto
  then obtain k where k: "k < entries s" "named f s k" "\<And>j. j < k \<Longrightarrow> \<not> named f s j"
    by (rule first_match) blast
  with assms that show thesis using lookup_first [of k s f] by simp
qed

end

lemma strncmp_entry: "strncmp (at (mem s) (dir_entry_addr s (of_nat i))) fname 32 = 0
    \<longleftrightarrow> entry_named fname s i"
  by (simp add: strncmp_0_iff upto0_at entry_named_def entry_name_def)

lemma dentry_loop_None:
  assumes "i + k < 2 ^ 32" "\<And>j. i \<le> j \<Longrightarrow> j < i + k \<Longrightarrow> \<not> entry_named f s j"
  shows "dentry_loop k (of_nat i) f s = None"
  using assms
proof (induction k arbitrary: i)
  case (Suc k)
  have "dentry_loop k (of_nat (Suc i)) f s = None"
    by (rule Suc.IH) (use Suc.prems in auto)
  then show ?case using Suc.prems(2) [of i] by (simp add: strncmp_entry add.commute)
qed simp

lemma dentry_loop_Some:
  assumes "i + k < 2 ^ 32" "i \<le> j" "j < i + k" "entry_named f s j"
    and "\<And>l. i \<le> l \<Longrightarrow> l < j \<Longrightarrow> \<not> entry_named f s l"
  shows "dentry_loop k (of_nat i) f s = Some (of_nat j)"
  using assms
proof (induction k arbitrary: i)
  case (Suc k)
  show ?case
  proof (cases "i = j")
    case True
    then show ?thesis using Suc.prems(4) by (simp add: strncmp_entry)
  next
    case False
    have "dentry_loop k (of_nat (Suc i)) f s = Some (of_nat j)"
      by (rule Suc.IH) (use Suc.prems False in auto)
    then show ?thesis using Suc.prems(5) [of i] Suc.prems(2) False
      by (simp add: strncmp_entry add.commute)
  qed
qed simp

lemma read_dentry_by_index_entry:
  "i < 2 ^ 32 \<Longrightarrow> read_dentry_by_index (of_nat i) s = dir_entry s i"
  by (simp add: read_dentry_by_index_def dir_entry_def dir_size_def word_le_nat_alt unat_u32_of_nat
      not_le not_less)

interpretation root_dir: directory dir_size dir_entry entry_named read_dentry_by_name
proof
  fix s :: "'a fs_scheme" and i f
  show "(dir_entry s i = None) = (dir_size s \<le> i)" by (auto simp: dir_entry_def)
  have sz: "dir_size s < 2 ^ 32" by (simp only: dir_size_def unat_u32_less)
  show "i < dir_size s \<Longrightarrow> entry_named f s i \<Longrightarrow> (\<And>j. j < i \<Longrightarrow> \<not> entry_named f s j) \<Longrightarrow>
      read_dentry_by_name f s = dir_entry s i"
    using dentry_loop_Some [of 0 "dir_size s" i f s] sz
    by (simp add: read_dentry_by_name_def read_dentry_by_index_entry flip: dir_size_def)
  show "(\<And>i. i < dir_size s \<Longrightarrow> \<not> entry_named f s i) \<Longrightarrow> read_dentry_by_name f s = None"
    using dentry_loop_None [of 0 "dir_size s" f s] sz
    by (simp add: read_dentry_by_name_def flip: dir_size_def)
qed

section \<open>The contents of a file\<close>

definition file_byte :: "mem \<Rightarrow> u32 \<Rightarrow> u32 \<Rightarrow> nat \<Rightarrow> u8" where
  "file_byte m curr_inode dbs p =
     m (block_addr m curr_inode dbs (of_nat (p div 4096)) + of_nat (p mod 4096))"

definition file_length :: "mem \<Rightarrow> u32 \<Rightarrow> nat" where
  "file_length m curr_inode = unat (ld32 m curr_inode)"

definition contents :: "'a fs_scheme \<Rightarrow> u32 \<Rightarrow> u8 list" where
  "contents s inode = map (file_byte (mem s) (inode_addr s inode) (data_block_start s))
     [0..<file_length (mem s) (inode_addr s inode)]"

text \<open>A buffer that overlaps neither the inode nor a data block of the file, of a file that fits
  the 1023 block numbers an inode holds.\<close>

definition blocks_apart :: "u32 \<Rightarrow> nat \<Rightarrow> mem \<Rightarrow> u32 \<Rightarrow> u32 \<Rightarrow> bool" where
  "blocks_apart buf n m curr_inode dbs \<longleftrightarrow>
     file_length m curr_inode \<le> 1023 * 4096 \<and> apart buf n curr_inode 4096 \<and>
     (\<forall>b < (file_length m curr_inode + 4095) div 4096.
        apart buf n (block_addr m curr_inode dbs (of_nat b)) 4096)"

definition buffer_apart :: "u32 \<Rightarrow> nat \<Rightarrow> u32 \<Rightarrow> 'a fs_scheme \<Rightarrow> bool" where
  "buffer_apart buf n inode s =
     blocks_apart buf n (mem s) (inode_addr s inode) (data_block_start s)"

lemma blocks_apart_inode:
  assumes "blocks_apart buf n m ci dbs" "length xs \<le> n" "b < 1023" "n < 2 ^ 32"
  shows "ld32 (wr buf xs m) ci = ld32 m ci"
    and "block_addr (wr buf xs m) ci dbs (of_nat b) = block_addr m ci dbs (of_nat b)"
proof -
  have *: "ld32 (wr buf xs m) (ci + of_nat j) = ld32 m (ci + of_nat j)" if "j + 4 \<le> 4096" for j
  proof (rule ld32_cong, rule rd_cong)
    fix p assume "inr (ci + of_nat j) 4 p"
    then have "inr ci 4096 p" by (rule inr_sub) (use that in auto)
    then have "\<not> inr buf n p"
      using assms(1) apart_sym apartD unfolding blocks_apart_def by metis
    then have "\<not> inr buf (length xs) p" using assms(2) inr_mono by blast
    then show "wr buf xs m p = m p" by (rule wr_other) (use assms in auto)
  qed simp
  from * [of 0] show "ld32 (wr buf xs m) ci = ld32 m ci" by simp
  from * [of "4 + 4 * b"] assms(3)
  show "block_addr (wr buf xs m) ci dbs (of_nat b) = block_addr m ci dbs (of_nat b)"
    by (simp add: block_addr_def add.assoc)
qed

lemma blocks_apart_data:
  assumes "blocks_apart buf n m ci dbs" "length xs \<le> n" "p < file_length m ci" "n < 2 ^ 32"
  shows "wr buf xs m (block_addr m ci dbs (of_nat (p div 4096)) + of_nat (p mod 4096)) =
    file_byte m ci dbs p"
proof -
  let ?a = "block_addr m ci dbs (of_nat (p div 4096))"
  have "p div 4096 < (file_length m ci + 4095) div 4096" using assms(3) by linarith
  then have "apart buf n ?a 4096" using assms(1) by (simp add: blocks_apart_def)
  moreover have "inr ?a 4096 (?a + of_nat (p mod 4096))"
    using mod_less_divisor [of 4096 p] by (subst inr_offset) (simp_all del: mod_less_divisor)
  ultimately have "\<not> inr buf n (?a + of_nat (p mod 4096))" using apart_sym apartD by metis
  then have "\<not> inr buf (length xs) (?a + of_nat (p mod 4096))" using assms(2) inr_mono by blast
  then show ?thesis unfolding file_byte_def by (rule wr_other) (use assms in auto)
qed

definition slice :: "nat \<Rightarrow> nat \<Rightarrow> 'a list \<Rightarrow> 'a list" where
  "slice p n xs = take n (drop p xs)"

lemma nat_add_min: "(p :: nat) \<le> l \<Longrightarrow> p + min n (l - p) = min (p + n) l"
  by (auto simp: min_def)

lemma slice_map_upt: "slice p n (map f [0..<L]) = map f [p..<min (p + n) L]"
  by (cases "p \<le> L"; rule nth_equalityI) (auto simp: slice_def min_def split: if_splits)

text \<open>The loop keeps \<open>datablock * 4096 + byte_offset\<close> equal to the position in the file.\<close>

lemma read_data_loop_correct:
  assumes ba: "blocks_apart buf n m ci dbs" "n < 2 ^ 32"
    and "i + k \<le> n" "off + i \<le> file_length m ci"
    and "d * 4096 + b = off + i" "b \<le> 4096"
  shows "read_data_loop k i ci dbs (of_nat off) buf (of_nat d) (of_nat b)
      (block_addr m ci dbs (of_nat d) + of_nat b)
      (wr buf (map (file_byte m ci dbs) [off..<off + i]) m) =
    (let j = min (i + k) (file_length m ci - off)
     in (j, wr buf (map (file_byte m ci dbs) [off..<off + j]) m))"
  using assms(3-)
proof (induction k arbitrary: i d b)
  case 0
  then show ?case by (simp add: Let_def min_def)
next
  case (Suc k)
  let ?m = "wr buf (map (file_byte m ci dbs) [off..<off + i]) m"
  have L: "file_length m ci < 2 ^ 32" "file_length m ci \<le> 1023 * 4096"
    using ba(1) by (auto simp: blocks_apart_def)
  have len: "ld32 ?m ci = ld32 m ci"
    by (rule blocks_apart_inode(1) [OF ba(1) _ _ ba(2), of _ 0]) (use Suc.prems in auto)
  have test: "ld32 ?m ci \<le> of_nat i + of_nat off \<longleftrightarrow> file_length m ci \<le> off + i"
    using Suc.prems L unfolding len file_length_def
    by (simp add: word_le_nat_alt unat_u32_of_nat add.commute flip: of_nat_add)
  show ?case
  proof (cases "file_length m ci \<le> off + i")
    case True
    then have "min (i + Suc k) (file_length m ci - off) = i" using Suc.prems by simp
    then show ?thesis using True test by (simp add: Let_def)
  next
    case False
    define d' b' where "d' = (off + i) div 4096" and "b' = (off + i) mod 4096"
    have d': "d' < 1023" "d' * 4096 + b' = off + i" "b' < 4096"
      using False L unfolding d'_def b'_def by auto
    have eq: "d' * 4096 + b' = d * 4096 + b" using d'(2) Suc.prems(3) by simp
    have "d' = d + 1" if "b = 4096" using eq that d'(3) by linarith
    moreover have "d' = d" if "b < 4096" using eq that d'(3) by linarith
    ultimately have db: "d' = (if 4096 \<le> b then d + 1 else d)" "b' = (if 4096 \<le> b then 0 else b)"
      using Suc.prems(4) eq by (auto simp: le_less)
    have blk: "block_addr ?m ci dbs (of_nat d') = block_addr m ci dbs (of_nat d')"
      by (rule blocks_apart_inode(2) [OF ba(1) _ _ ba(2)]) (use Suc.prems d' in auto)
    have byte: "?m (block_addr m ci dbs (of_nat d') + of_nat b') = file_byte m ci dbs (off + i)"
      unfolding d'_def b'_def
      by (rule blocks_apart_data [OF ba(1) _ _ ba(2)]) (use Suc.prems False in auto)
    have bt: "(4096::u32) \<le> of_nat b \<longleftrightarrow> 4096 \<le> b"
      using Suc.prems by (simp add: word_le_nat_alt unat_u32_of_nat)
    have st: "?m(buf + of_nat i := file_byte m ci dbs (off + i)) =
        wr buf (map (file_byte m ci dbs) [off..<off + Suc i]) m"
      by (simp add: wr_append)
    have "read_data_loop (Suc k) i ci dbs (of_nat off) buf (of_nat d) (of_nat b)
        (block_addr m ci dbs (of_nat d) + of_nat b) ?m =
      read_data_loop k (Suc i) ci dbs (of_nat off) buf (of_nat d') (of_nat (Suc b'))
        (block_addr m ci dbs (of_nat d') + of_nat (Suc b'))
        (wr buf (map (file_byte m ci dbs) [off..<off + Suc i]) m)"
    proof -
      let ?l = "block_addr m ci dbs (of_nat d') + of_nat b'"
      have "read_data_loop (Suc k) i ci dbs (of_nat off) buf (of_nat d) (of_nat b)
          (block_addr m ci dbs (of_nat d) + of_nat b) ?m =
        read_data_loop k (Suc i) ci dbs (of_nat off) buf (of_nat d') (of_nat b' + 1) (?l + 1)
          (?m(buf + of_nat i := ?m ?l))"
        using False test bt db blk by (auto simp: Let_def add.commute)
      then show ?thesis unfolding byte st by (simp add: algebra_simps)
    qed
    then show ?thesis
      using Suc.IH [of "Suc i" d' "Suc b'"] Suc.prems False d' by simp
  qed
qed

text \<open>\<open>read_data\<close> stores the slice of the file and returns how long it is.\<close>

lemma read_data_slice:
  assumes "inode < inode_count s" "buffer_apart buf (unat nbytes) inode s"
  shows "read_data inode offset buf nbytes s =
    (let bytes = slice (unat offset) (unat nbytes) (contents s inode)
     in (length bytes, s\<lparr>mem := wr buf bytes (mem s)\<rparr>))"
proof -
  let ?ci = "inode_addr s inode" and ?L = "file_length (mem s) (inode_addr s inode)"
  define o' where "o' = unat offset"
  have off: "offset = of_nat o'" "o' < 2 ^ 32" by (simp_all only: o'_def unat_u32_less of_nat_unat ucast_id)
  show ?thesis
  proof (cases "o' \<le> ?L")
    case True
    have "o' div 4096 < 2 ^ 32" "o' mod 4096 < 2 ^ 32" using off(2) by linarith+
    then have "offset div 4096 = of_nat (o' div 4096)" "offset mod 4096 = of_nat (o' mod 4096)"
      unfolding o'_def word_unat_eq_iff by (simp_all only: unat_u32_of_nat unat_div unat_mod)
        simp_all
    moreover have "slice (unat offset) (unat nbytes) (contents s inode) =
        map (file_byte (mem s) ?ci (data_block_start s)) [o'..<o' + min (unat nbytes) (?L - o')]"
      using True by (simp add: contents_def slice_map_upt o'_def nat_add_min)
    moreover have "\<not> inode_count s \<le> inode" using assms(1) by (simp add: not_le)
    ultimately show ?thesis
      using read_data_loop_correct [of buf "unat nbytes" "mem s" ?ci "data_block_start s" 0
        "unat nbytes" o' "o' div 4096" "o' mod 4096"] assms(2) True
      by (simp add: read_data_def buffer_apart_def Let_def unat_u32_bound flip: off(1))
  next
    case False
    then have nil: "slice o' (unat nbytes) (contents s inode) = []"
      by (simp add: contents_def slice_def)
    have "ld32 (mem s) ?ci \<le> offset" using False
      by (simp add: word_le_nat_alt file_length_def o'_def)
    then show ?thesis using assms(1) nil
      by (cases "unat nbytes") (simp_all add: read_data_def Let_def not_le o'_def [symmetric])
  qed
qed

section \<open>Properties\<close>

text \<open>C20: \<open>read_dentry_by_name\<close> copies the first directory entry whose name (cut at 32 bytes)
  is the name asked for (cut at 32 bytes), and fails exactly when there is none.\<close>
theorem read_dentry_by_name_correct:
  "read_dentry_by_name fname s =
    (case filter (entry_named fname s) [0..<dir_size s] of
       [] \<Rightarrow> None
     | i # _ \<Rightarrow> Some (dentry_at (mem s) (dir_entry_addr s (of_nat i))))"
proof (cases "read_dentry_by_name fname s")
  case None
  then have "filter (entry_named fname s) [0..<dir_size s] = []"
    by (simp add: root_dir.lookup_None_iff filter_empty_conv)
  with None show ?thesis by simp
next
  case (Some d)
  then obtain k where k: "k < dir_size s" "entry_named fname s k"
      "\<And>j. j < k \<Longrightarrow> \<not> entry_named fname s j" "dir_entry s k = Some d"
    by (rule root_dir.lookup_SomeD) blast
  have "[0..<dir_size s] = [0..<k] @ k # [Suc k..<dir_size s]"
    using k(1) upt_add_eq_append [of 0 k "dir_size s - k"] upt_conv_Cons [of k "dir_size s"] by simp
  then have "filter (entry_named fname s) [0..<dir_size s] =
      k # filter (entry_named fname s) [Suc k..<dir_size s]"
    using k(2,3) by (simp add: filter_empty_conv)
  with Some k(1,4) show ?thesis by (simp add: dir_entry_def)
qed

text \<open>The contents of a file survive every store outside its blocks.\<close>

lemma contents_wr:
  assumes "buffer_apart buf n inode s" "length xs \<le> n" "n < 2 ^ 32"
  shows "contents (s\<lparr>mem := wr buf xs (mem s)\<rparr>) inode = contents s inode"
proof -
  let ?ci = "inode_addr s inode" and ?dbs = "data_block_start s"
  have ba: "blocks_apart buf n (mem s) ?ci ?dbs" using assms(1) by (simp add: buffer_apart_def)
  have len: "file_length (wr buf xs (mem s)) ?ci = file_length (mem s) ?ci"
    using blocks_apart_inode(1) [OF ba assms(2) _ assms(3), of 0] by (simp add: file_length_def)
  have "file_byte (wr buf xs (mem s)) ?ci ?dbs p = file_byte (mem s) ?ci ?dbs p"
    if "p < file_length (mem s) ?ci" for p
  proof -
    have "p div 4096 < 1023" using ba that unfolding blocks_apart_def by linarith
    then show ?thesis
      using blocks_apart_inode(2) [OF ba assms(2) _ assms(3)]
        blocks_apart_data [OF ba assms(2) that assms(3)] by (simp add: file_byte_def)
  qed
  moreover have "inode_addr (s\<lparr>mem := wr buf xs (mem s)\<rparr>) inode = ?ci"
    by (simp add: inode_addr_def)
  ultimately show ?thesis unfolding contents_def by (simp add: len)
qed

text \<open>C19: \<open>read_data\<close> copies the slice of the file's contents (its inode's data blocks, in
  order, up to its length) that starts at the offset, cut at the end of the file; it returns the
  length of the slice, 0 for an inode out of range, and changes neither the file nor a byte
  outside the buffer.\<close>
theorem read_data_correct:
  assumes "buffer_apart buf (unat nbytes) inode s"
  shows "let (n, s') = read_data inode offset buf nbytes s;
             bytes = (if inode < inode_count s
                      then slice (unat offset) (unat nbytes) (contents s inode) else [])
         in n = length bytes \<and> rd (mem s') buf n = bytes \<and> contents s' inode = contents s inode
            \<and> (\<forall>p. inr buf n p \<or> mem s' p = mem s p)"
proof (cases "inode < inode_count s")
  case True
  let ?bytes = "slice (unat offset) (unat nbytes) (contents s inode)"
  have l: "length ?bytes \<le> unat nbytes" by (simp add: slice_def)
  then have l': "length ?bytes \<le> 2 ^ 32" using unat_u32_less [of nbytes] by linarith
  have "contents (s\<lparr>mem := wr buf ?bytes (mem s)\<rparr>) inode = contents s inode"
    by (rule contents_wr [OF assms l unat_u32_less])
  then show ?thesis
    using True read_data_slice [OF True assms, of offset] rd_wr_same [OF l', of buf "mem s"]
      wr_other [OF _ l', of buf _ "mem s"]
    by (auto simp: Let_def)
qed (simp_all add: read_data_def not_less Let_def not_le [symmetric])

text \<open>An image at 0x400000 with one file \<open>note\<close> of three bytes.\<close>

definition sample_bytes :: mem where
  "sample_bytes a = (case map_of [(0x400000, 1), (0x400004, 1), (0x400008, 1),
     (0x400040, 0x6E), (0x400041, 0x6F), (0x400042, 0x74), (0x400043, 0x65), (0x400060, 2),
     (0x401000, 3), (0x402000, 0x78), (0x402001, 0x79), (0x402002, 0x7A)] a of
       None \<Rightarrow> 0 | Some b \<Rightarrow> b)"

definition sample_fs :: fs where
  "sample_fs = \<lparr>mem = sample_bytes, out = [], dev = \<lambda>_ _. 0, iflag = True, wild = False,
     master_mask = 0xFF, slave_mask = 0xFF, int_flag = 0, screen_x = 0, screen_y = 0,
     boot_block = 0x400000, boot_block_end = 0x401000, len_inodes = 4096,
     data_block_start = 0x402000\<rparr>"

lemma sample_words:
  "ld32 sample_bytes 0x400000 = 1" "ld32 sample_bytes 0x400004 = 1"
  "ld32 sample_bytes 0x401000 = 3" "ld32 sample_bytes 0x401004 = 0"
  by (simp_all add: ld32_def le32_def sample_bytes_def)

lemma sample_fs_apart: "buffer_apart 0x2000 (unat (8 :: u32)) 0 sample_fs"
  by (simp add: buffer_apart_def blocks_apart_def sample_fs_def inode_addr_def file_length_def
      sample_words block_addr_def apart_def unat_u32_minus)

lemma sample_fs_contents: "contents sample_fs 0 = str ''xyz''"
proof -
  have "[0..<3] = [0, 1, 2 :: nat]" by (simp add: upt_rec)
  moreover have "file_byte sample_bytes 0x401000 0x402000 p = sample_bytes (0x402000 + of_nat p)"
    if "p < 4096" for p
    using that by (simp add: file_byte_def block_addr_def sample_words)
  ultimately show ?thesis
    by (simp add: contents_def file_length_def inode_addr_def sample_fs_def sample_words)
      (simp add: sample_bytes_def str_def)
qed

lemma sample_fs_inodes: "inode_count sample_fs = 1"
  by (simp add: inode_count_def sample_fs_def sample_words)

theorem read_data_correct_witness:
  "fst (read_data 0 1 0x2000 8 sample_fs) = 2
    \<and> rd (mem (snd (read_data 0 1 0x2000 8 sample_fs))) 0x2000 (Suc (Suc 0)) = str ''yz''"
  using read_data_correct [OF sample_fs_apart, of 1]
  by (auto simp: sample_fs_inodes sample_fs_contents Let_def slice_def str_def split: prod.splits)

end
