(* ===== verification/Keyboard.thy ===== *)
theory Keyboard
  imports Filesys
begin

text \<open>
  The keyboard driver, \<^verbatim>\<open>student-distrib/keyboard.c\<close>: the line buffer, the modifier flags,
  the four key maps, and what the handler does for each kind of key.  The dispatch on the
  scan code, which can also switch terminals, is in \<^verbatim>\<open>Kb_Handler\<close>.  A store to
  \<open>kb_buffer\<close> outside its 128 bytes sets \<open>wild\<close>.
\<close>

record kbd = fs +
  kb_buffer :: "u8 list"
  kb_buffer_index :: u8
  cursor_x :: u8
  enter_flag :: u8
  cl_flag :: u8
  lshift_flag :: u8
  rshift_flag :: u8
  ctrl_flag :: u8
  alt_flag :: u8
  shell_flag :: int

section \<open>Key maps\<close>

text \<open>0x22, 0x27, 0x5C, 0x60, 0x7C and 0x7E are the double quote, the single quote, the backslash,
  the back quote, the bar and the tilde; 0x2A is the star of the number pad.\<close>

definition keypad :: "u8 list" where
  "keypad = [0, 0x2A, 0, 0x20, 0] @ replicate 12 0 @ str ''789-456+1230.''"

definition scancode_shift_caps_lock :: "u8 list" where
  "scancode_shift_caps_lock = [0, 0] @ str ''!@#$%^&*()_+'' @ [0, 0] @ str ''qwertyuiop{}'' @ [0, 0]
     @ str ''asdfghjkl:'' @ [0x22, 0x7E, 0, 0x7C] @ str ''zxcvbnm<>?'' @ keypad"

definition scancode_caps_lock :: "u8 list" where
  "scancode_caps_lock = [0, 0] @ str ''1234567890-='' @ [0, 0] @ str ''QWERTYUIOP[]'' @ [0, 0]
     @ str ''ASDFGHJKL;'' @ [0x27, 0x60, 0, 0x5C] @ str ''ZXCVBNM,./'' @ keypad"

definition scancode_shift :: "u8 list" where
  "scancode_shift = [0, 0] @ str ''!@#$%^&*()_+'' @ [0, 0] @ str ''QWERTYUIOP{}'' @ [0, 0]
     @ str ''ASDFGHJKL:'' @ [0x22, 0x7E, 0, 0x7C] @ str ''ZXCVBNM<>?'' @ keypad"

definition scancode_normal :: "u8 list" where
  "scancode_normal = [0, 0] @ str ''1234567890-='' @ [0, 0] @ str ''qwertyuiop[]'' @ [0, 0]
     @ str ''asdfghjkl;'' @ [0x27, 0x60, 0, 0x5C] @ str ''zxcvbnm,./'' @ keypad"

section \<open>The line buffer\<close>

definition keyboard_init :: "'a kbd_scheme \<Rightarrow> 'a kbd_scheme" where
  "keyboard_init s = enable_irq 1 s"

definition get_kb_buffer :: "'a kbd_scheme \<Rightarrow> u8 list" where
  "get_kb_buffer s = map (\<lambda>i. kb_buffer s ! i) [0..<128]"

definition set_kb_buffer :: "u8 list \<Rightarrow> 'a kbd_scheme \<Rightarrow> 'a kbd_scheme" where
  "set_kb_buffer buf s = s\<lparr>kb_buffer := map (\<lambda>i. buf ! i) [0..<128]\<rparr>"

definition check_enter_pressed :: "'a kbd_scheme \<Rightarrow> u8" where
  "check_enter_pressed s = enter_flag s"

definition set_stop_x :: "u8 \<Rightarrow> 'a kbd_scheme \<Rightarrow> 'a kbd_scheme" where
  "set_stop_x current_screen_x s = s\<lparr>cursor_x := current_screen_x\<rparr>"

definition reset_keyboard :: "'a kbd_scheme \<Rightarrow> 'a kbd_scheme" where
  "reset_keyboard s = s\<lparr>kb_buffer := replicate 128 0, enter_flag := 0, kb_buffer_index := 0\<rparr>"

definition get_kb_index :: "'a kbd_scheme \<Rightarrow> u8" where
  "get_kb_index s = kb_buffer_index s"

definition set_kb_index :: "u8 \<Rightarrow> 'a kbd_scheme \<Rightarrow> 'a kbd_scheme" where
  "set_kb_index index s = s\<lparr>kb_buffer_index := index\<rparr>"

definition kb_store :: "u8 \<Rightarrow> 'a kbd_scheme \<Rightarrow> 'a kbd_scheme" where
  "kb_store b s =
     (let i = unat (kb_buffer_index s)
      in if i < 128 then s\<lparr>kb_buffer := (kb_buffer s)[i := b]\<rparr> else s\<lparr>wild := True\<rparr>)"

section \<open>The handler, by kind of key\<close>

definition kb_enter :: "'a kbd_scheme \<Rightarrow> 'a kbd_scheme" where
  "kb_enter s =
     (let current_screen_y = get_screen_y s;
          s = s\<lparr>enter_flag := 1, kb_buffer_index := 0\<rparr>
      in if current_screen_y = 24 then scroll_down s
         else let s = set_screen_x 0 (set_screen_y (current_screen_y + 1) s)
              in update_cursor (uint (get_screen_x s)) (uint (get_screen_y s)) s)"

definition kb_backspace :: "'a kbd_scheme \<Rightarrow> 'a kbd_scheme" where
  "kb_backspace s =
     (let current_screen_x = get_screen_x s; current_screen_y = get_screen_y s
      in if current_screen_x \<noteq> 0 \<and> current_screen_x \<noteq> cursor_x s
         then let x = current_screen_x - 1;
                  s = poke (video_addr (uint x) (uint current_screen_y)) 0 s;
                  s = kb_store 0 s;
                  s = s\<lparr>kb_buffer_index := kb_buffer_index s - 1\<rparr>;
                  s = kb_store 0 s;
                  s = set_screen_x x s
              in update_cursor (uint (get_screen_x s)) (uint (get_screen_y s)) s
         else if current_screen_y \<noteq> 0 \<and> current_screen_x \<noteq> cursor_x s
         then let x = 79; y = current_screen_y - 1;
                  s = poke (video_addr (uint x) (uint y)) 0 s;
                  s = kb_store 0 s;
                  s = s\<lparr>kb_buffer_index := kb_buffer_index s - 1\<rparr>;
                  s = set_screen_y y (set_screen_x x s)
              in update_cursor (uint (get_screen_x s)) (uint (get_screen_y s)) s
         else s)"

definition kb_clear :: "'a kbd_scheme \<Rightarrow> 'a kbd_scheme" where
  "kb_clear s =
     (let s = set_screen_y 0 (set_screen_x 0 (clear s));
          s = update_cursor (uint (get_screen_x s)) (uint (get_screen_y s)) s;
          s = (if shell_flag s = 1
               then let s = fold putc (str ''391OS> '') s;
                        s = set_screen_y 0 (set_screen_x 7 s)
                    in update_cursor (uint (get_screen_x s)) (uint (get_screen_y s)) s
               else s)
      in s\<lparr>kb_buffer_index := 0\<rparr>)"

definition key_map :: "'a kbd_scheme \<Rightarrow> u8 list option" where
  "key_map s =
     (if cl_flag s = 0 \<and> lshift_flag s = 0 \<and> rshift_flag s = 0 then Some scancode_normal
      else if cl_flag s = 1 \<and> lshift_flag s = 0 \<and> rshift_flag s = 0 then Some scancode_caps_lock
      else if cl_flag s = 0 \<and> (lshift_flag s = 1 \<or> rshift_flag s = 1) then Some scancode_shift
      else if cl_flag s = 1 \<and> (lshift_flag s = 1 \<or> rshift_flag s = 1)
      then Some scancode_shift_caps_lock
      else None)"

definition kb_type :: "u8 \<Rightarrow> 'a kbd_scheme \<Rightarrow> 'a kbd_scheme" where
  "kb_type c s =
     (let s = putc c s; s = kb_store c s
      in s\<lparr>kb_buffer_index := kb_buffer_index s + 1\<rparr>)"

text \<open>The result tells whether the handler has already returned (buffer full).\<close>

definition kb_key :: "u8 \<Rightarrow> 'a kbd_scheme \<Rightarrow> bool \<times> 'a kbd_scheme" where
  "kb_key idx s =
     (if ctrl_flag s \<noteq> 0 \<and> (idx = 0x26 \<or> idx = 0x2E) then (False, kb_clear s)
      else if 128 \<le> kb_buffer_index s then (True, send_eoi 1 s)
      else case key_map s of
             None \<Rightarrow> (False, s)
           | Some keys \<Rightarrow> (False, kb_type (arr keys (unat idx)) s))"

definition kb_modifier :: "u8 \<Rightarrow> 'a kbd_scheme \<Rightarrow> 'a kbd_scheme option" where
  "kb_modifier idx s =
     (if idx = 0x2A then Some (s\<lparr>lshift_flag := 1\<rparr>)
      else if idx = 0x36 then Some (s\<lparr>rshift_flag := 1\<rparr>)
      else if idx = 0xAA then Some (s\<lparr>lshift_flag := 0\<rparr>)
      else if idx = 0xB6 then Some (s\<lparr>rshift_flag := 0\<rparr>)
      else if idx = 0x3A then Some (s\<lparr>cl_flag := cl_flag s XOR 1\<rparr>)
      else if idx = 0x38 then Some (s\<lparr>alt_flag := 1\<rparr>)
      else if idx = 0xB8 then Some (s\<lparr>alt_flag := 0\<rparr>)
      else None)"

definition kb_ctrl :: "u8 \<Rightarrow> 'a kbd_scheme \<Rightarrow> 'a kbd_scheme option" where
  "kb_ctrl idx s =
     (if idx = 0x1D then Some (s\<lparr>ctrl_flag := 1\<rparr>)
      else if idx = 0x9D then Some (s\<lparr>ctrl_flag := 0\<rparr>)
      else None)"

text \<open>The end of the handler, reached by every key that does not return early.\<close>

definition kb_done :: "'a kbd_scheme \<Rightarrow> 'a kbd_scheme" where
  "kb_done s = send_eoi 1 (update_cursor (uint (get_screen_x s)) (uint (get_screen_y s)) s)"

section \<open>Frames\<close>

lemma outb_kbd [frame_simps, simp]:
  "kb_buffer (outb d p s) = kb_buffer s" "kb_buffer_index (outb d p s) = kb_buffer_index s"
  "cursor_x (outb d p s) = cursor_x s" "enter_flag (outb d p s) = enter_flag s"
  "kb_buffer (poke a d s) = kb_buffer s" "kb_buffer_index (poke a d s) = kb_buffer_index s"
  "cursor_x (poke a d s) = cursor_x s" "enter_flag (poke a d s) = enter_flag s"
  by (simp_all add: outb_def poke_def)

lemma update_cursor_kbd [frame_simps, simp]:
  "kb_buffer (update_cursor x y s) = kb_buffer s"
  "kb_buffer_index (update_cursor x y s) = kb_buffer_index s"
  "cursor_x (update_cursor x y s) = cursor_x s" "enter_flag (update_cursor x y s) = enter_flag s"
  by (simp_all add: update_cursor_def Let_def)

lemma scroll_down_kbd [frame_simps, simp]:
  "kb_buffer (scroll_down s) = kb_buffer s" "kb_buffer_index (scroll_down s) = kb_buffer_index s"
  "cursor_x (scroll_down s) = cursor_x s" "enter_flag (scroll_down s) = enter_flag s"
  by (simp_all add: scroll_down_def Let_def)

lemma putc_kbd [frame_simps, simp]:
  "kb_buffer (putc c s) = kb_buffer s" "kb_buffer_index (putc c s) = kb_buffer_index s"
  "cursor_x (putc c s) = cursor_x s" "enter_flag (putc c s) = enter_flag s"
  by (simp_all add: putc_def Let_def)

lemma kb_store_fields [frame_simps, simp]:
  "mem (kb_store b s) = mem s" "screen_x (kb_store b s) = screen_x s"
  "screen_y (kb_store b s) = screen_y s" "kb_buffer_index (kb_store b s) = kb_buffer_index s"
  "cursor_x (kb_store b s) = cursor_x s"
  by (simp_all add: kb_store_def Let_def)

lemma kb_store_buffer:
  "kb_buffer (kb_store b s) = (if unat (kb_buffer_index s) < 128
     then (kb_buffer s)[unat (kb_buffer_index s) := b] else kb_buffer s)"
  "wild (kb_store b s) = (wild s \<or> 128 \<le> unat (kb_buffer_index s))"
  by (simp_all add: kb_store_def Let_def)

section \<open>Editing a line\<close>

text \<open>
  While a line is typed after a prompt that ends at column \<open>cursor_x\<close>, the buffer holds the
  line followed by NUL bytes, the screen shows it after the prompt and the cursor is behind it.
\<close>

definition line_start :: "'a kbd_scheme \<Rightarrow> nat" where
  "line_start s = 80 * nat (screen_y s) + unat (cursor_x s)"

definition editing :: "'a kbd_scheme \<Rightarrow> u8 list \<Rightarrow> bool" where
  "editing s line \<longleftrightarrow>
     kb_buffer s = padded 128 line \<and> unat (kb_buffer_index s) = length line
     \<and> screen_x s = int (unat (cursor_x s) + length line) \<and> cursor_ok s
     \<and> take (length line) (drop (line_start s) (text_cells (mem s))) = line"

datatype edit = Type u8 | Erase

fun edit_step :: "edit \<Rightarrow> 'a kbd_scheme \<Rightarrow> 'a kbd_scheme" where
  "edit_step (Type c) s = kb_type c s"
| "edit_step Erase s = kb_backspace s"

fun edit_line :: "edit \<Rightarrow> u8 list \<Rightarrow> u8 list" where
  "edit_line (Type c) line = line @ [c]"
| "edit_line Erase line = butlast line"

lemma padded_snoc: "length xs < n \<Longrightarrow> (padded n xs)[length xs := c] = padded n (xs @ [c])"
proof -
  assume "length xs < n"
  then obtain m where "n - length xs = Suc m" by (metis Suc_diff_Suc)
  then show ?thesis by (simp add: padded_def)
qed

lemma padded_butlast:
  assumes "length xs = Suc k" "Suc k < n"
  shows "(padded n xs)[Suc k := 0, k := 0] = padded n (butlast xs)"
proof -
  from assms(1) obtain ys y where xs: "xs = ys @ [y]" "length ys = k"
    by (metis length_Suc_conv_rev)
  have "(padded n xs)[Suc k := 0] = padded n xs"
    using assms xs by (intro list_update_same_conv [THEN iffD2]) (simp_all add: padded_def nth_append)
  moreover have "(padded n xs)[k := 0] = padded n (ys @ [0])"
    by (simp add: padded_def list_update_append xs(1) flip: xs(2))
  moreover have "padded n (ys @ [0]) = padded n ys" using assms(2) xs(2)
    by (simp add: padded_def) (metis Suc_diff_Suc Suc_lessD replicate_Suc)
  ultimately show ?thesis by (simp add: xs)
qed

lemma unat_u8_Suc: "unat (w :: u8) < 255 \<Longrightarrow> unat (w + 1) = Suc (unat w)"
  by (simp add: unat_word_ariths)

lemma unat_u8_pred: "(w :: u8) \<noteq> 0 \<Longrightarrow> unat (w - 1) = unat w - 1"
  by (simp add: unat_minus_one)

lemma editing_type:
  assumes "editing s line" "unat (cursor_x s) + length line < 79" "c \<noteq> 0x0A" "c \<noteq> 0x0D"
  shows "editing (kb_type c s) (line @ [c])" "cursor_x (kb_type c s) = cursor_x s"
    "screen_y (kb_type c s) = screen_y s" "wild (kb_type c s) = wild s"
proof -
  have e: "kb_buffer s = padded 128 line" "unat (kb_buffer_index s) = length line"
      "length line < 128" "cursor_ok s"
      "screen_x s = int (unat (cursor_x s) + length line)"
      "take (length line) (drop (line_start s) (text_cells (mem s))) = line"
    using assms(1,2) by (auto simp: editing_def)
  let ?p = "putc c s" and ?n = "line_start s + length line"
  have v: "screen_view ?p = put_char c (screen_view s)" by (rule putc_view [OF e(4)])
  have pos: "80 * nat (screen_y s) + nat (screen_x s) = ?n" 
    unfolding e(5) line_start_def by (simp only: nat_int)
  have n: "?n < 2000" using cursor_ok_cell [OF e(4)] unfolding pos .
  have nx: "nat (screen_x s) \<noteq> 79" unfolding e(5) nat_int using assms(2) by simp
  have cells: "text_cells (mem ?p) = (text_cells (mem s))[?n := c]"
    and x: "nat (screen_x ?p) = Suc (nat (screen_x s))" and y: "nat (screen_y ?p) = nat (screen_y s)"
    using v assms(3,4) nx pos by (simp_all add: screen_view_def put_char_def Let_def)
  have ok: "cursor_ok ?p" by (rule cursor_ok_putc [OF e(4)])
  then have x': "screen_x ?p = screen_x s + 1" and y': "screen_y ?p = screen_y s"
    using x y e(4) by (auto simp: cursor_ok_def)
  have idx: "unat (kb_buffer_index s + 1) = Suc (length line)"
    using e(2) assms(2) by (subst unat_u8_Suc) auto
  have "take (length line) (drop (line_start s) (text_cells (mem ?p))) = line"
    using e(6) by (simp add: cells drop_update_swap)
  then have "take (Suc (length line)) (drop (line_start s) (text_cells (mem ?p))) = line @ [c]"
    using n by (simp add: take_Suc_conv_app_nth cells)
  then show "editing (kb_type c s) (line @ [c])"
    using e ok x' y' idx assms(2)
    by (simp add: editing_def kb_type_def Let_def kb_store_buffer line_start_def cursor_ok_def
        padded_snoc)
  show "cursor_x (kb_type c s) = cursor_x s" "screen_y (kb_type c s) = screen_y s"
    "wild (kb_type c s) = wild s"
    using e(2) assms(2) y' by (simp_all add: kb_type_def Let_def kb_store_buffer putc_def)
qed

lemma poke_cell_text:
  "i < 2000 \<Longrightarrow> text_cells (m(cell_addr i := b)) = (text_cells m)[i := b]"
  by (rule nth_equalityI) (auto simp: nth_list_update)

lemma butlast_take_Suc: "length line = Suc k \<Longrightarrow> take (Suc k) ys = line \<Longrightarrow> take k ys = butlast line"
  by (metis butlast_conv_take diff_Suc_1 min.absorb1 le_SucI le_refl take_take)

lemma editing_erase:
  assumes "editing s line" "unat (cursor_x s) + length line < 80"
  shows "editing (kb_backspace s) (butlast line)" "cursor_x (kb_backspace s) = cursor_x s"
    "screen_y (kb_backspace s) = screen_y s" "wild (kb_backspace s) = wild s"
proof -
  have e: "kb_buffer s = padded 128 line" "unat (kb_buffer_index s) = length line"
      "length line < 128" "cursor_ok s"
      "screen_x s = int (unat (cursor_x s) + length line)"
      "take (length line) (drop (line_start s) (text_cells (mem s))) = line"
    using assms(1,2) by (auto simp: editing_def)
  have x: "unat (get_screen_x s) = unat (cursor_x s) + length line"
  proof -
    have "get_screen_x s = of_nat (unat (cursor_x s) + length line)"
      unfolding get_screen_x_def e(5) by (rule of_int_of_nat_eq)
    then show ?thesis using assms(2) by (simp add: unat_of_nat take_bit_eq_mod del: of_nat_add)
  qed
  have "editing (kb_backspace s) (butlast line) \<and> cursor_x (kb_backspace s) = cursor_x s
    \<and> screen_y (kb_backspace s) = screen_y s \<and> wild (kb_backspace s) = wild s"
  proof (cases "length line")
    case 0
    then have "get_screen_x s = cursor_x s" using x by (simp add: word_unat_eq_iff)
    then have "kb_backspace s = s" by (simp add: kb_backspace_def Let_def)
    then show ?thesis using assms(1) 0 by simp
  next
    case (Suc k)
    let ?x = "get_screen_x s - 1"
    have ne: "get_screen_x s \<noteq> 0" "get_screen_x s \<noteq> cursor_x s"
      using x Suc by (auto simp: word_unat_eq_iff)
    have ux: "unat ?x = unat (cursor_x s) + k" using unat_u8_pred [OF ne(1)] x Suc by simp
    have "int (unat ?x) = int (unat (cursor_x s)) + int k" unfolding ux by simp
    then have ux': "uint ?x = uint (cursor_x s) + int k" by simp
    have y: "uint (get_screen_y s) = screen_y s"
      using e(4) by (simp add: get_screen_y_def cursor_ok_def uint_word_of_int)
    have a: "video_addr (uint ?x) (uint (get_screen_y s)) = cell_addr (line_start s + k)"
    proof -
      have "nat (uint ?x) = unat (cursor_x s) + k" using ux by simp
      moreover have "0 \<le> screen_y s" using e(4) by (simp add: cursor_ok_def)
      ultimately show ?thesis by (simp add: video_addr_cell y line_start_def add.assoc)
    qed
    have n: "line_start s + k < 2000"
      using e(4) assms(2) Suc by (auto simp: line_start_def cursor_ok_def)
    have i0: "kb_buffer_index s \<noteq> 0" using e(2) Suc by auto
    have i1: "unat (kb_buffer_index s - 1) = k" using unat_u8_pred [OF i0] e(2) Suc by simp
    have k: "Suc k \<le> 128" "unat (kb_buffer_index s) < 128"
      using e(2) Suc assms(2) by auto
    let ?t = "kb_store 0 ((kb_store 0 (poke (cell_addr (line_start s + k)) 0 s))
        \<lparr>kb_buffer_index := kb_buffer_index s - 1\<rparr>)"
    have b: "kb_backspace s = update_cursor (uint ?x) (uint (get_screen_y s)) (set_screen_x ?x ?t)"
      using ne a by (simp add: kb_backspace_def Let_def get_screen_x_def set_screen_x_def get_screen_y_def)
    have buf: "kb_buffer ?t = (kb_buffer s)[Suc k := 0, k := 0]" "wild ?t = wild s"
      using e(2,3) k i1 Suc by (simp_all add: kb_store_buffer)
    have "take k (drop (line_start s) (text_cells (mem ?t))) = butlast line"
      using butlast_take_Suc [OF Suc, of "drop (line_start s) (text_cells (mem s))"] e(6) Suc n
      by (simp add: poke_cell_text drop_update_swap)
    moreover have "kb_buffer ?t = padded 128 (butlast line)"
      using padded_butlast [OF Suc] e(1,3) Suc by (simp add: buf)
    ultimately show ?thesis
      using e Suc ux' i1 buf assms(2)
      by (simp add: b editing_def set_screen_x_def line_start_def cursor_ok_def)
  qed
  then show "editing (kb_backspace s) (butlast line)" "cursor_x (kb_backspace s) = cursor_x s"
    "screen_y (kb_backspace s) = screen_y s" "wild (kb_backspace s) = wild s" by auto
qed

lemma editing_steps:
  assumes "editing s line" "unat (cursor_x s) + length line + length evs < 80"
    and "Type 0x0A \<notin> set evs" "Type 0x0D \<notin> set evs"
  shows "editing (fold edit_step evs s) (fold edit_line evs line)
    \<and> wild (fold edit_step evs s) = wild s"
  using assms
proof (induction evs arbitrary: s line)
  case (Cons ev evs)
  show ?case
  proof (cases ev)
    case (Type c)
    then have c: "c \<noteq> 0x0A" "c \<noteq> 0x0D" using Cons.prems by auto
    have "unat (cursor_x s) + length line < 79" using Cons.prems(2) by simp
    note st = editing_type [OF Cons.prems(1) this c]
    have "unat (cursor_x (kb_type c s)) + length (line @ [c]) + length evs < 80"
      using Cons.prems(2) by (simp add: st(2))
    then show ?thesis using Cons.IH [OF st(1)] Cons.prems(3,4) st(4) Type by simp
  next
    case Erase
    have "unat (cursor_x s) + length line < 80" using Cons.prems(2) by simp
    note st = editing_erase [OF Cons.prems(1) this]
    have "unat (cursor_x (kb_backspace s)) + length (butlast line) + length evs < 80"
      using Cons.prems(2) by (simp add: st(2))
    then show ?thesis using Cons.IH [OF st(1)] Cons.prems(3,4) st(4) Erase by simp
  qed
qed simp

section \<open>Properties\<close>

text \<open>Typing characters and erasing them, in any order, on one row behind a prompt keeps
  the line buffer, the characters displayed after the prompt and the cursor equal to the line
  an editor would hold; erasing an empty line changes nothing, and no store leaves the buffer.\<close>
theorem line_editing_correct:
  assumes "editing s []" "unat (cursor_x s) + length evs < 80"
    and "Type 0x0A \<notin> set evs" "Type 0x0D \<notin> set evs"
  shows "let s' = fold edit_step evs s; line = fold edit_line evs [];
             start = 80 * nat (screen_y s') + unat (cursor_x s')
         in take (unat (kb_buffer_index s')) (kb_buffer s') = line
            \<and> take (length line) (drop start (text_cells (mem s'))) = line
            \<and> screen_x s' = int (unat (cursor_x s') + length line)
            \<and> wild s' = wild s"
  using editing_steps [of s "[]" evs] assms by (simp add: Let_def editing_def line_start_def padded_def)

definition sample_kbd :: kbd where
  "sample_kbd = \<lparr>mem = \<lambda>_. 0, out = [], dev = \<lambda>_ _. 0, iflag = False, wild = False,
     master_mask = 0xFF, slave_mask = 0xFF, int_flag = 0, screen_x = 7, screen_y = 24,
     boot_block = 0, boot_block_end = 0, len_inodes = 0, data_block_start = 0,
     kb_buffer = replicate 128 0, kb_buffer_index = 0, cursor_x = 7, enter_flag = 0,
     cl_flag = 0, lshift_flag = 0, rshift_flag = 0, ctrl_flag = 0, alt_flag = 0, shell_flag = 1\<rparr>"

theorem line_editing_correct_witness:
  "take (unat (kb_buffer_index (fold edit_step [Type 0x6C, Type 0x78, Erase, Type 0x73] sample_kbd)))
     (kb_buffer (fold edit_step [Type 0x6C, Type 0x78, Erase, Type 0x73] sample_kbd)) = str ''ls''"
proof -
  have "editing sample_kbd []" by (simp add: editing_def sample_kbd_def cursor_ok_def padded_def)
  moreover have "unat (cursor_x sample_kbd) + length [Type 0x6C, Type 0x78, Erase, Type 0x73] < 80"
    by (simp add: sample_kbd_def)
  ultimately show ?thesis
    using line_editing_correct [of sample_kbd "[Type 0x6C, Type 0x78, Erase, Type 0x73]"]
    by (simp add: Let_def str_def)
qed



end
