(* ===== verification/Paging.thy ===== *)
theory Paging
  imports Keyboard
begin

text \<open>
  Paging, \<^verbatim>\<open>student-distrib/paging.c\<close> and \<^verbatim>\<open>paging_asm.S\<close>: the page directory, the
  table of the first 4 MB and the table of the video window at 132 MB, as lists of 1024
  entries.  The addresses the linker gives the three arrays are fields of the state.  The page
  walk of the processor (documented hardware behaviour) is the function \<open>walk\<close>.

  \<open>mem\<close> is memory as the kernel sees it through its pointers: below 8 MB addresses are
  physical ones, and the 4 MB at 128 MB (\<open>USER\<close>) show the frame the TLB holds for them.
  \<open>frames\<close> keeps the contents of the frames that are not shown; \<open>flush_tlb\<close> is the point
  where a new directory entry takes effect.
\<close>

record paging = kbd +
  page_directory :: "u32 list"
  page_table :: "u32 list"
  vidmem_pagetable :: "u32 list"
  page_directory_addr :: u32
  page_table_addr :: u32
  vidmem_table_addr :: u32
  cr0 :: u32
  cr3 :: u32
  cr4 :: u32
  tlb_user :: u32
  frames :: "u32 \<Rightarrow> u32 \<Rightarrow> u8"

abbreviation USER :: u32 where
  "USER \<equiv> 0x08000000"

section \<open>Operations\<close>

definition user_frame :: "u32 \<Rightarrow> u32" where
  "user_frame pde = pde AND 0xFFC00000"

definition flush_tlb :: "'a paging_scheme \<Rightarrow> 'a paging_scheme" where
  "flush_tlb s =
     (let pde = page_directory s ! 32;
          fr = (frames s)(user_frame (tlb_user s) := (\<lambda>i. mem s (USER + i)))
      in s\<lparr>frames := fr, tlb_user := pde,
           mem := (\<lambda>p. if inr USER 0x400000 p then fr (user_frame pde) (p - USER) else mem s p)\<rparr>)"

definition pagedir_cr3 :: "u32 \<Rightarrow> 'a paging_scheme \<Rightarrow> 'a paging_scheme" where
  "pagedir_cr3 a s = s\<lparr>cr3 := a\<rparr>"

definition enablePaging :: "'a paging_scheme \<Rightarrow> 'a paging_scheme" where
  "enablePaging s = s\<lparr>cr4 := cr4 s OR 0x10, cr0 := cr0 s OR 0x80000000\<rparr>"

definition table_entry :: "nat \<Rightarrow> u32" where
  "table_entry i = (if 0xB8 \<le> i \<and> i \<le> 0xB8 + 3 then (of_nat i * 0x1000) OR 7
     else (of_nat i * 0x1000) OR 2)"

definition initPaging :: "'a paging_scheme \<Rightarrow> 'a paging_scheme" where
  "initPaging s =
     (let s = s\<lparr>page_directory := map (\<lambda>i. 2) [0..<1024]\<rparr>;
          s = s\<lparr>page_directory := (page_directory s)[1 := 0x400000 OR 0x83]\<rparr>;
          s = s\<lparr>page_table := map table_entry [0..<1024]\<rparr>;
          s = s\<lparr>page_directory := (page_directory s)[0 := page_table_addr s OR 7]\<rparr>;
          s = pagedir_cr3 (page_directory_addr s) s
      in enablePaging s)"

definition set_process_page :: "u32 \<Rightarrow> 'a paging_scheme \<Rightarrow> 'a paging_scheme" where
  "set_process_page addr s =
     flush_tlb (s\<lparr>page_directory := (page_directory s)[32 := addr OR 0x87]\<rparr>)"

definition map2user :: "u32 \<Rightarrow> u32 \<Rightarrow> u8 \<Rightarrow> 'a paging_scheme \<Rightarrow> 'a paging_scheme" where
  "map2user phys_addr dest_page type s =
     (let s = (if type = 1
               then s\<lparr>vidmem_pagetable := (vidmem_pagetable s)[unat dest_page := phys_addr OR 7],
                      page_directory := (page_directory s)[33 := vidmem_table_addr s OR 7]\<rparr>
               else s)
      in flush_tlb s)"

section \<open>The page walk\<close>

definition table_at :: "'a paging_scheme \<Rightarrow> u32 \<Rightarrow> u32 list option" where
  "table_at s a = (if a = page_table_addr s then Some (page_table s)
     else if a = vidmem_table_addr s then Some (vidmem_pagetable s) else None)"

definition present :: "bool \<Rightarrow> u32 \<Rightarrow> bool" where
  "present user e = (e AND 1 \<noteq> 0 \<and> (user \<longrightarrow> e AND 4 \<noteq> 0))"

text \<open>The physical address of an access in user or supervisor mode; \<open>None\<close> is a page fault.\<close>

definition walk :: "bool \<Rightarrow> 'a paging_scheme \<Rightarrow> u32 \<Rightarrow> u32 option" where
  "walk user s va =
     (let pde = page_directory s ! unat (drop_bit 22 va)
      in if \<not> present user pde then None
         else if pde AND 0x80 \<noteq> 0 then Some ((pde AND 0xFFC00000) OR (va AND 0x3FFFFF))
         else case table_at s (pde AND 0xFFFFF000) of
                None \<Rightarrow> None
              | Some table \<Rightarrow>
                  (let pte = table ! unat (drop_bit 12 va AND 0x3FF)
                   in if present user pte then Some ((pte AND 0xFFFFF000) OR (va AND 0xFFF))
                      else None))"

section \<open>Entries\<close>

lemma masks: "(0x3FFFFF :: u32) = mask 22" "(0xFFF :: u32) = mask 12" "(0x3FF :: u32) = mask 10"
  "(0xFFC00000 :: u32) = NOT (mask 22)" "(0xFFFFF000 :: u32) = NOT (mask 12)"
  by (simp_all add: mask_eq_exp_minus_1)

text \<open>An entry is an aligned address with flags below its alignment.\<close>

lemma entry_flag:
  assumes "a AND mask n = (0 :: u32)" "k AND mask n = k"
  shows "(a OR f) AND k = f AND k"
proof -
  have "a AND k = (a AND mask n) AND k" using assms(2) by (metis and.assoc and.commute)
  then have "a AND k = 0" using assms(1) by simp
  then show ?thesis by (simp add: bit.conj_disj_distrib2)
qed

lemma entry_frame:
  assumes "a AND mask n = (0 :: u32)" "f AND NOT (mask n) = 0"
  shows "(a OR f) AND NOT (mask n) = a"
proof -
  have "(a OR f) AND NOT (mask n) = a AND NOT (mask n)"
    using assms(2) by (simp add: bit.conj_disj_distrib2)
  also have "\<dots> = (a AND NOT (mask n)) OR (a AND mask n)" using assms(1) by simp
  also have "\<dots> = a" by (simp flip: bit.conj_disj_distrib)
  finally show ?thesis .
qed

lemma unat_mask: "unat (w AND mask n :: u32) = unat w mod 2 ^ n"
  by (simp only: take_bit_eq_mask [symmetric] unsigned_take_bit_eq) (simp only: take_bit_eq_mod)

lemma entry_offset:
  assumes "a AND mask n = (0 :: u32)"
  shows "unat (a OR (va AND mask n)) = unat a + unat va mod 2 ^ n"
proof -
  have "a AND (va AND mask n) = (a AND mask n) AND va" by (simp add: ac_simps)
  then have z: "a AND (va AND mask n) = 0" using assms by simp
  have "unat a AND unat (va AND mask n) = unat (a AND (va AND mask n))"
    by (simp only: unsigned_and_eq)
  then have "unat (a OR (va AND mask n)) = unat a + unat (va AND mask n)"
    using z by (simp add: unsigned_or_eq disjunctive_add_eq_or)
  then show ?thesis by (simp only: unat_mask)
qed

lemma unat_drop: "unat (drop_bit n (va :: u32)) = unat va div 2 ^ n"
  by (simp only: unat_drop_bit_eq) (simp only: drop_bit_eq_div)

lemma dir_index: "unat (drop_bit 22 (va :: u32)) = unat va div 0x400000"
  by (simp add: unat_drop)

lemma dir_index_less: "unat (va :: u32) div 0x400000 < 1024"
  using unat_u32_bound [of va] by (simp add: div_less_iff_less_mult)

lemma table_index: "unat (va :: u32) < 0x400000 \<Longrightarrow> unat (drop_bit 12 va AND 0x3FF) = unat va div 0x1000"
proof -
  assume "unat va < 0x400000"
  then have "unat va div 4096 < 1024" by (simp add: div_less_iff_less_mult)
  moreover have "unat (drop_bit 12 va AND 0x3FF) = unat (drop_bit 12 va) mod 2 ^ 10"
    unfolding masks(3) by (rule unat_mask)
  ultimately show ?thesis by (simp add: unat_drop)
qed

text \<open>A 4 MB entry and an entry of a table.\<close>

lemma aligned_of_nat:
  assumes "k * 2 ^ n < 2 ^ 32"
  shows "of_nat (k * 2 ^ n) AND mask n = (0 :: u32)"
proof -
  have "unat (of_nat (k * 2 ^ n) AND mask n :: u32) = k * 2 ^ n mod 2 ^ n"
    unfolding unat_mask using assms by (simp only: unat_u32_of_nat)
  then show ?thesis by (simp only: mod_mult_self2_is_0 unat_eq_zero)
qed

text \<open>A 4 MB entry and an entry of a table.\<close>

lemma entry_4MB:
  assumes "a AND mask 22 = (0 :: u32)"
  shows "present user (a OR 0x87)" "present False (a OR 0x83)" "\<not> present True (a OR 0x83)"
    "(a OR 0x87) AND 0x80 \<noteq> 0" "(a OR 0x83) AND 0x80 \<noteq> 0"
    "(a OR 0x87) AND NOT (mask 22) = a" "(a OR 0x83) AND NOT (mask 22) = a"
  using entry_frame [OF assms, of "0x87"] entry_frame [OF assms, of "0x83"]
  by (simp_all add: present_def entry_flag [OF assms] mask_eq_exp_minus_1)

lemma entry_4KB:
  assumes "a AND mask 12 = (0 :: u32)"
  shows "present user (a OR 7)" "\<not> present user (a OR 2)" "(a OR 7) AND 0x80 = 0"
    "(a OR 7) AND NOT (mask 12) = a"
  using entry_frame [OF assms, of 7]
  by (simp_all add: present_def entry_flag [OF assms] mask_eq_exp_minus_1)

section \<open>The address map\<close>

definition tables_ok :: "'a paging_scheme \<Rightarrow> bool" where
  "tables_ok s = (page_table_addr s AND 0xFFF = 0 \<and> vidmem_table_addr s AND 0xFFF = 0
     \<and> page_table_addr s \<noteq> vidmem_table_addr s)"

lemma initPaging_fields [frame_simps, simp]:
  "page_directory (initPaging s) = (map (\<lambda>i. 2) [0..<1024])[1 := 0x400000 OR 0x83,
     0 := page_table_addr s OR 7]"
  "page_table (initPaging s) = map table_entry [0..<1024]"
  "page_table_addr (initPaging s) = page_table_addr s"
  "vidmem_table_addr (initPaging s) = vidmem_table_addr s"
  "vidmem_pagetable (initPaging s) = vidmem_pagetable s"
  by (simp_all add: initPaging_def pagedir_cr3_def enablePaging_def Let_def)

lemma init_dir:
  "page_directory (initPaging s) ! (unat (va :: u32) div 0x400000) =
    (if unat va div 0x400000 = 0 then page_table_addr s OR 7
     else if unat va div 0x400000 = 1 then 0x400000 OR 0x83 else 2)"
  using dir_index_less [of va] by (simp add: nth_list_update)

lemma walk_4MB:
  assumes "page_directory s ! (unat va div 0x400000) = a OR 0x87" "a AND mask 22 = 0"
  shows "walk user s va = Some (a OR (va AND mask 22))"
  using assms by (simp add: walk_def dir_index entry_4MB Let_def masks)

lemma same_page:
  assumes "a = of_nat (unat va div 2 ^ n * 2 ^ n)" "n \<le> 32"
  shows "a OR (va AND mask n) = (va :: u32)"
proof -
  have le: "unat va div 2 ^ n * 2 ^ n < 2 ^ 32"
    by (rule le_less_trans [OF div_times_less_eq_dividend unat_u32_less])
  then have "a AND mask n = 0" using aligned_of_nat by (simp only: assms(1))
  then have "unat (a OR (va AND mask n)) = unat va div 2 ^ n * 2 ^ n + unat va mod 2 ^ n"
    using le by (simp only: entry_offset) (simp only: assms(1) unat_u32_of_nat)
  then show ?thesis by (simp only: div_mult_mod_eq word_unat_eq_iff)
qed

lemma table_entry_alt: "i < 1024 \<Longrightarrow> table_entry i =
    (if 0xB8 \<le> i \<and> i \<le> 0xBB then of_nat (i * 2 ^ 12) OR 7 else of_nat (i * 2 ^ 12) OR 2)"
  by (simp add: table_entry_def)

text \<open>The pages the kernel set up: the first table and the kernel page map their addresses to
  themselves, the video pages are open to user programs.\<close>

lemma walk_table:
  assumes "page_directory s ! 0 = page_table_addr s OR 7" "page_table s = map table_entry [0..<1024]"
    and "tables_ok s" "unat va < 0x400000"
  shows "walk user s va =
    (if 0xB8 \<le> unat va div 0x1000 \<and> unat va div 0x1000 \<le> 0xBB then Some va else None)"
proof -
  let ?i = "unat va div 0x1000"
  have pt: "page_table_addr s AND mask 12 = 0" using assms(3) by (simp add: tables_ok_def masks)
  have i: "?i < 1024" using assms(4) by (simp add: div_less_iff_less_mult)
  define A where "A = (of_nat (?i * 2 ^ 12) :: u32)"
  have a: "A AND mask 12 = 0" unfolding A_def by (rule aligned_of_nat) (use i in simp)
  have v: "A OR (va AND mask 12) = va" by (rule same_page) (simp_all add: A_def)
  have te: "table_entry ?i = (if 0xB8 \<le> ?i \<and> ?i \<le> 0xBB then A OR 7 else A OR 2)"
    unfolding A_def by (rule table_entry_alt [OF i])
  have d: "unat (drop_bit 22 va) = 0" using assms(4) by (simp add: dir_index)
  have "walk user s va = (if present user (table_entry ?i)
      then Some ((table_entry ?i AND NOT (mask 12)) OR (va AND mask 12)) else None)"
    using i table_index [OF assms(4)] unfolding walk_def d
    by (simp add: assms(1,2) entry_4KB [OF pt] Let_def table_at_def masks(2,5) nth_map)
  then show ?thesis
    using v by (simp add: te entry_4KB [OF a])
qed

lemma walk_kernel:
  assumes "page_directory s ! 1 = 0x400000 OR 0x83" "unat va div 0x400000 = 1"
  shows "walk user s va = (if user then None else Some va)"
proof -
  define K :: u32 where "K = 0x400000"
  have a: "K AND mask 22 = 0" by (simp add: K_def mask_eq_exp_minus_1)
  have v: "K OR (va AND mask 22) = va"
    by (rule same_page) (use assms(2) in \<open>simp_all add: K_def\<close>)
  have d: "page_directory s ! 1 = K OR 0x83" unfolding K_def by (rule assms(1))
  show ?thesis
    unfolding walk_def dir_index assms(2) d masks Let_def
    by (cases user) (simp_all only: entry_4MB [OF a] v not_False_eq_True not_True_eq_False if_True
        if_False)
qed

text \<open>The directory the kernel runs on: what \<open>initPaging\<close> sets up, the page of a process and
  the video window.\<close>

definition kernel_map :: "'a paging_scheme \<Rightarrow> bool" where
  "kernel_map s \<longleftrightarrow> length (page_directory s) = 1024
     \<and> page_directory s ! 0 = page_table_addr s OR 7
     \<and> page_directory s ! 1 = 0x400000 OR 0x83
     \<and> page_table s = map table_entry [0..<1024] \<and> tables_ok s
     \<and> (\<forall>i < 1024. i \<noteq> 0 \<and> i \<noteq> 1 \<and> i \<noteq> 32 \<and> i \<noteq> 33 \<longrightarrow> page_directory s ! i = 2)"

lemma flush_tlb_fields [frame_simps, simp]:
  "page_directory (flush_tlb s) = page_directory s" "page_table (flush_tlb s) = page_table s"
  "vidmem_pagetable (flush_tlb s) = vidmem_pagetable s"
  "page_table_addr (flush_tlb s) = page_table_addr s"
  "vidmem_table_addr (flush_tlb s) = vidmem_table_addr s"
  "tlb_user (flush_tlb s) = page_directory s ! 32"
  by (simp_all add: flush_tlb_def Let_def)

lemma kernel_map_init: "tables_ok s \<Longrightarrow> kernel_map (initPaging s)"
  by (auto simp: kernel_map_def tables_ok_def nth_list_update)

lemma kernel_map_process [inv_intros]: "kernel_map s \<Longrightarrow> kernel_map (set_process_page a s)"
  by (simp add: kernel_map_def set_process_page_def tables_ok_def)

lemma kernel_map_map2user [inv_intros]: "kernel_map s \<Longrightarrow> kernel_map (map2user a d t s)"
  by (simp add: kernel_map_def map2user_def tables_ok_def Let_def)

lemma walk_kernel_map:
  assumes "kernel_map s" "unat va < 0x8000000 \<or> 0x8800000 \<le> unat va"
  shows "walk user s va =
    (if (0xB8000 \<le> unat va \<and> unat va < 0xBC000)
        \<or> (\<not> user \<and> 0x400000 \<le> unat va \<and> unat va < 0x800000) then Some va else None)"
proof -
  let ?d = "unat va div 0x400000"
  have i: "?d < 1024" "?d \<noteq> 32" "?d \<noteq> 33"
    using dir_index_less [of va] assms(2) by arith+
  show ?thesis
  proof (cases "?d = 0")
    case True
    then have "unat va < 0x400000" by (simp add: div_eq_0_iff)
    moreover have "(0xB8 \<le> unat va div 0x1000 \<and> unat va div 0x1000 \<le> 0xBB) =
        (0xB8000 \<le> unat va \<and> unat va < 0xBC000)" by auto
    ultimately show ?thesis
      using walk_table [of s va user] assms(1) by (auto simp: kernel_map_def)
  next
    case False
    then have ge: "0x400000 \<le> unat va" by (simp add: div_eq_0_iff)
    show ?thesis
    proof (cases "?d = 1")
      case True
      then have "unat va < 0x800000" by auto
      then show ?thesis
        using walk_kernel [of s va user] assms(1) ge True by (auto simp: kernel_map_def)
    next
      case neq: False
      then have "page_directory s ! ?d = 2" using assms(1) i False by (simp add: kernel_map_def)
      moreover have "0x800000 \<le> unat va" using neq ge by auto
      ultimately show ?thesis by (simp add: walk_def dir_index present_def Let_def)
    qed
  qed
qed

text \<open>The page of a process: 4 MB at 8 MB + 4 MB * pid.\<close>

definition process_frame :: "nat \<Rightarrow> u32" where
  "process_frame pid = 0x800000 + of_nat pid * 0x400000"

lemma process_frame_mult: "process_frame pid = of_nat ((pid + 2) * 2 ^ 22)"
  by (simp add: process_frame_def)

lemma process_frame_aligned: "pid < 6 \<Longrightarrow> process_frame pid AND mask 22 = 0"
  unfolding process_frame_mult by (rule aligned_of_nat) simp

lemma unat_process_frame: "pid < 6 \<Longrightarrow> unat (process_frame pid) = 0x800000 + pid * 0x400000"
  unfolding process_frame_mult by (subst unat_u32_of_nat) simp_all

lemma user_frame_process: "pid < 6 \<Longrightarrow> user_frame (process_frame pid OR 0x87) = process_frame pid"
  by (simp only: user_frame_def masks entry_4MB [OF process_frame_aligned])

lemma process_frame_inj: "p < 6 \<Longrightarrow> q < 6 \<Longrightarrow> process_frame p = process_frame q \<Longrightarrow> p = q"
proof -
  assume a: "p < 6" "q < 6" "process_frame p = process_frame q"
  then have "unat (process_frame p) = unat (process_frame q)" by simp
  then have "0x800000 + p * 0x400000 = 0x800000 + q * (0x400000 :: nat)"
    unfolding unat_process_frame [OF a(1)] unat_process_frame [OF a(2)] .
  then show ?thesis by linarith
qed

lemma walk_process_page:
  assumes "kernel_map s" "pid < 6" "0x8000000 \<le> unat va" "unat va < 0x8400000"
  shows "walk user (set_process_page (process_frame pid) s) va =
    Some (process_frame pid + (va - USER))"
proof -
  let ?s = "set_process_page (process_frame pid) s"
  have d: "unat va div 0x400000 = 32" using assms(3,4) by arith
  have "page_directory ?s ! 32 = process_frame pid OR 0x87"
    using assms(1) by (simp add: set_process_page_def kernel_map_def)
  then have "walk user ?s va = Some (process_frame pid OR (va AND mask 22))"
    using process_frame_aligned [OF assms(2)] by (intro walk_4MB) (simp_all only: d)
  moreover have "process_frame pid OR (va AND mask 22) = process_frame pid + (va - USER)"
  proof -
    have "unat (va - USER) = unat va - 0x8000000"
      using assms(3) by (simp add: unat_u32_minus)
    moreover have "unat va mod 2 ^ 22 = unat va - 0x8000000" using d by (simp add: modulo_nat_def)
    ultimately have "unat (process_frame pid OR (va AND mask 22)) =
        unat (process_frame pid) + unat (va - USER)"
      using entry_offset [OF process_frame_aligned [OF assms(2)]] by simp
    also have "\<dots> = unat (process_frame pid + (va - USER))"
      using assms(2,4) \<open>unat (va - USER) = unat va - 0x8000000\<close>
      by (simp add: unat_u32_plus unat_process_frame)
    finally show ?thesis by (simp only: word_unat_eq_iff)
  qed
  ultimately show ?thesis by simp
qed

section \<open>Properties\<close>

text \<open>After \<open>initPaging\<close> the kernel's page and the four video pages map to themselves, the
  kernel's page for the kernel only; every other access below 128 MB (a null pointer among
  them) and from 136 MB on faults.\<close>
theorem initPaging_map:
  assumes "tables_ok s" "unat va < 0x8000000 \<or> 0x8800000 \<le> unat va"
  shows "walk user (initPaging s) va =
    (if (0xB8000 \<le> unat va \<and> unat va < 0xBC000)
        \<or> (\<not> user \<and> 0x400000 \<le> unat va \<and> unat va < 0x800000) then Some va else None)"
  by (rule walk_kernel_map [OF kernel_map_init [OF assms(1)] assms(2)])

definition sample_paging :: paging where
  "sample_paging = \<lparr>mem = \<lambda>_. 0, out = [], dev = \<lambda>_ _. 0, iflag = False, wild = False,
     master_mask = 0xFF, slave_mask = 0xFF, int_flag = 0, screen_x = 7, screen_y = 24,
     boot_block = 0, boot_block_end = 0, len_inodes = 0, data_block_start = 0,
     kb_buffer = replicate 128 0, kb_buffer_index = 0, cursor_x = 7, enter_flag = 0,
     cl_flag = 0, lshift_flag = 0, rshift_flag = 0, ctrl_flag = 0, alt_flag = 0, shell_flag = 1,
     page_directory = [], page_table = [], vidmem_pagetable = replicate 1024 0,
     page_directory_addr = 0x410000, page_table_addr = 0x411000, vidmem_table_addr = 0x412000,
     cr0 = 0, cr3 = 0, cr4 = 0, tlb_user = 0, frames = \<lambda>_ _. 0\<rparr>"

lemma sample_tables_ok: "tables_ok sample_paging"
  by (simp add: tables_ok_def sample_paging_def)

theorem initPaging_map_witness:
  "walk True (initPaging sample_paging) 0 = None
    \<and> walk False (initPaging sample_paging) 0x400010 = Some 0x400010"
  using initPaging_map [OF sample_tables_ok, of 0 True]
    initPaging_map [OF sample_tables_ok, of "0x400010" False] by simp



text \<open>What a process keeps in its page survives the time another process runs: after
  switching to another page, any stores there, and switching back, every byte of the page is
  as it was.\<close>
theorem process_memory_isolated:
  assumes "kernel_map s" "p < 6" "q < 6" "p \<noteq> q" "unat i < 0x400000"
  shows "mem (set_process_page (process_frame p)
        ((set_process_page (process_frame q) (set_process_page (process_frame p) s))\<lparr>mem := m\<rparr>))
      (USER + i) = mem (set_process_page (process_frame p) s) (USER + i)"
proof -
  have "inr USER 0x400000 (USER + i)" using assms(5) by (simp add: inr_def)
  moreover have "process_frame p \<noteq> process_frame q" using process_frame_inj assms(2-4) by metis
  moreover have "32 < length (page_directory s)" using assms(1) by (simp add: kernel_map_def)
  ultimately show ?thesis
    using assms(2,3)
    by (simp add: set_process_page_def flush_tlb_def Let_def user_frame_process)
qed

theorem process_memory_isolated_witness:
  "mem (set_process_page (process_frame 0) ((set_process_page (process_frame 1)
      (set_process_page (process_frame 0) (initPaging sample_paging)))\<lparr>mem := (\<lambda>_. 0xFF)\<rparr>))
    0x8000010 = 0"
  using process_memory_isolated [OF kernel_map_init [OF sample_tables_ok], of 0 1 "0x10" "\<lambda>_. 0xFF"]
  by (simp add: set_process_page_def flush_tlb_def Let_def initPaging_def pagedir_cr3_def
      enablePaging_def sample_paging_def)

end
