(* ===== verification/Process.thy ===== *)
theory Process
  imports Paging
begin

text \<open>
  Processes and terminals: the structures of \<^verbatim>\<open>syscall.h\<close> and \<^verbatim>\<open>terminal.h\<close>, the
  kernel's global variables, and the functions of \<^verbatim>\<open>syscall.c\<close> and \<^verbatim>\<open>scheduling.c\<close> that
  find a process control block.  The PCBs at 8 MB - 8 KB * (pid + 1) are records found by
  address.  Fields that stand for what the repository does not fix: \<open>before_processes\<close>, the
  byte of memory before the \<open>processes\<close> array of a terminal (\<open>get_pcb_address\<close> reads it for a
  terminal without a process), \<open>op_addr\<close>, the addresses of the jump tables, and
  \<open>file_data_addr\<close>, where \<open>execute\<close> has its variable-length array.
\<close>

section \<open>Structures\<close>

text \<open>The jump tables of \<^verbatim>\<open>syscall.c\<close>; \<open>None\<close> in a descriptor is a pointer never set.\<close>

datatype file_ops = File_op | Rtc_op | Dir_op | Stdin_op | Stdout_op | Do_nothing

record fd_t =
  fd_op :: "file_ops option"
  fd_inode :: u32
  fd_pos :: u32
  fd_flags :: u32

record pcb_t =
  pcb_file :: "fd_t list"
  pcb_arg :: "u8 list"
  pcb_pid :: int
  parent_pid :: int
  parent_ebp :: u32
  parent_esp :: u32
  pcb_ebp :: u32
  pcb_esp :: u32
  pcb_cr3 :: u32
  sche_enable :: u32

record terminal_t =
  processes :: "int list"
  term_proc :: u32
  num_proc :: int
  term_x :: int
  term_y :: int
  first_run :: u8
  term_kb_buffer :: "u8 list"
  term_kb_index :: u8

record kernel = paging +
  pcbs :: "u32 \<Rightarrow> pcb_t"
  terminals :: "terminal_t list"
  cur_term :: nat
  running_term :: nat
  process_state :: "u8 list"
  last_shell :: "int list"
  exception_status :: u32
  tss_ss0 :: u32
  tss_esp0 :: u32
  cpu_ebp :: u32
  cpu_esp :: u32
  before_processes :: "nat \<Rightarrow> int"
  op_addr :: "file_ops \<Rightarrow> u32"
  file_data_addr :: u32

section \<open>Finding a process\<close>

definition get_current_terminal :: "'a kernel_scheme \<Rightarrow> u8" where
  "get_current_terminal s = of_nat (cur_term s)"

definition get_running :: "'a kernel_scheme \<Rightarrow> u8" where
  "get_running s = of_nat (running_term s)"

definition get_pcb :: "u32 \<Rightarrow> u32" where
  "get_pcb pid = 0x800000 - 0x2000 * (pid + 1)"

fun free_slot :: "int list \<Rightarrow> nat" where
  "free_slot [] = 0"
| "free_slot (p # ps) = (if p = - 1 then 0 else Suc (free_slot ps))"

definition get_pcb_address :: "'a kernel_scheme \<Rightarrow> u32" where
  "get_pcb_address s =
     (let t = unat (get_current_terminal s); ps = processes (terminals s ! t); i = free_slot ps;
          cur_pid = (if i = 0 then before_processes s t else ps ! (i - 1))
      in get_pcb (of_int cur_pid))"

definition get_pcb_args :: "u8 \<Rightarrow> 'a kernel_scheme \<Rightarrow> u32" where
  "get_pcb_args tm s = (if tm < 3 then term_proc (terminals s ! unat tm) else 0)"

definition upd_pcb :: "u32 \<Rightarrow> (pcb_t \<Rightarrow> pcb_t) \<Rightarrow> 'a kernel_scheme \<Rightarrow> 'a kernel_scheme" where
  "upd_pcb a f s = s\<lparr>pcbs := (pcbs s)(a := f (pcbs s a))\<rparr>"

definition upd_term :: "nat \<Rightarrow> (terminal_t \<Rightarrow> terminal_t) \<Rightarrow> 'a kernel_scheme \<Rightarrow> 'a kernel_scheme" where
  "upd_term t f s = s\<lparr>terminals := (terminals s)[t := f (terminals s ! t)]\<rparr>"

definition cur_pcb :: "'a kernel_scheme \<Rightarrow> pcb_t" where
  "cur_pcb s = pcbs s (get_pcb_address s)"

text \<open>
  Descriptor 8 does not exist: indexing \<open>file\<close> with 8 reaches the first 16 bytes of \<open>arg\<close>,
  which follows it in the structure.
\<close>

definition get_fd :: "nat \<Rightarrow> pcb_t \<Rightarrow> fd_t" where
  "get_fd i p =
     (if i < 8 then pcb_file p ! i
      else let b = pcb_arg p
           in \<lparr>fd_op = None, fd_inode = le32 (b ! 4) (b ! 5) (b ! 6) (b ! 7),
               fd_pos = le32 (b ! 8) (b ! 9) (b ! 10) (b ! 11),
               fd_flags = le32 (b ! 12) (b ! 13) (b ! 14) (b ! 15)\<rparr>)"

definition set_fd :: "(file_ops \<Rightarrow> u32) \<Rightarrow> nat \<Rightarrow> file_ops \<Rightarrow> u32 \<Rightarrow> u32 \<Rightarrow> u32 \<Rightarrow> pcb_t \<Rightarrow> pcb_t" where
  "set_fd addr i ops ino ps fl p =
     (if i < 8
      then p\<lparr>pcb_file := (pcb_file p)
               [i := \<lparr>fd_op = Some ops, fd_inode = ino, fd_pos = ps, fd_flags = fl\<rparr>]\<rparr>
      else p\<lparr>pcb_arg := bytes32 (addr ops) @ bytes32 ino @ bytes32 ps @ bytes32 fl
               @ drop 16 (pcb_arg p)\<rparr>)"

definition upd_fd :: "u32 \<Rightarrow> nat \<Rightarrow> (fd_t \<Rightarrow> fd_t) \<Rightarrow> 'a kernel_scheme \<Rightarrow> 'a kernel_scheme" where
  "upd_fd a i f s = upd_pcb a (\<lambda>p. p\<lparr>pcb_file := (pcb_file p)[i := f (pcb_file p ! i)]\<rparr>) s"

text \<open>\<open>bad_call\<close> fills the entries of the jump tables that make no sense.\<close>

definition bad_call :: int where
  "bad_call = - 1"

text \<open>A constant text without conversions, printed by \<open>printf\<close>.\<close>

definition print :: "string \<Rightarrow> 'a console_scheme \<Rightarrow> 'a console_scheme" where
  "print cs s = fold putc (str cs) s"

section \<open>PCB addresses\<close>

lemma unat_get_pcb: "p < 6 \<Longrightarrow> unat (get_pcb (of_nat p)) + 0x2000 * (p + 1) = 0x800000"
proof -
  assume p: "p < 6"
  have lt: "0x800000 - 0x2000 * (p + 1) < 2 ^ 32" by simp
  have "get_pcb (of_nat p) = of_nat (0x800000 - 0x2000 * (p + 1))"
    using p by (simp add: get_pcb_def of_nat_diff algebra_simps)
  then have "unat (get_pcb (of_nat p)) = 0x800000 - 0x2000 * (p + 1)"
    using lt by (simp only: unat_u32_of_nat)
  then show ?thesis using p by simp
qed

lemma get_pcb_inj: "p < 6 \<Longrightarrow> q < 6 \<Longrightarrow> get_pcb (of_nat p) = get_pcb (of_nat q) \<Longrightarrow> p = q"
proof -
  assume a: "p < 6" "q < 6" "get_pcb (of_nat p) = get_pcb (of_nat q)"
  then have "unat (get_pcb (of_nat p)) = unat (get_pcb (of_nat q))" by simp
  with unat_get_pcb [OF a(1)] unat_get_pcb [OF a(2)] have "0x2000 * (p + 1) = 0x2000 * (q + 1)"
    by (metis add_left_cancel)
  then show ?thesis by simp
qed

lemma free_slot_le: "free_slot ps \<le> length ps"
  by (induction ps) auto

lemma free_slot_first: "i < free_slot ps \<Longrightarrow> ps ! i \<noteq> - 1"
  by (induction ps arbitrary: i) (auto simp: nth_Cons split: if_splits nat.splits)

lemma free_slot_here: "free_slot ps < length ps \<Longrightarrow> ps ! free_slot ps = - 1"
  by (induction ps) auto

lemma upd_pcb_fields [frame_simps, simp]:
  "mem (upd_pcb a f s) = mem s" "terminals (upd_pcb a f s) = terminals s"
  "cur_term (upd_pcb a f s) = cur_term s" "process_state (upd_pcb a f s) = process_state s"
  "pcbs (upd_pcb a f s) = (pcbs s)(a := f (pcbs s a))" "wild (upd_pcb a f s) = wild s"
  "boot_block (upd_pcb a f s) = boot_block s" "boot_block_end (upd_pcb a f s) = boot_block_end s"
  "data_block_start (upd_pcb a f s) = data_block_start s"
  by (simp_all add: upd_pcb_def)

lemma get_pcb_address_upd [simp]: "get_pcb_address (upd_pcb a f s) = get_pcb_address s"
  by (simp add: get_pcb_address_def get_current_terminal_def upd_pcb_def Let_def)

lemma get_pcb_address_mem [simp]: "get_pcb_address (s\<lparr>mem := m\<rparr>) = get_pcb_address s"
  by (simp add: get_pcb_address_def get_current_terminal_def Let_def)

section \<open>Frames\<close>

text \<open>
  The lower layers do not touch the fields above them: \<open>more\<close>, the part of a state record
  above a layer, is unchanged, and with it every field of the process layer.
\<close>

lemma kernel_more:
  assumes "paging.more s' = paging.more s"
  shows "pcbs s' = pcbs s" "terminals s' = terminals s" "cur_term s' = cur_term s"
    "running_term s' = running_term s" "process_state s' = process_state s"
    "last_shell s' = last_shell s" "exception_status s' = exception_status s"
    "tss_ss0 s' = tss_ss0 s" "tss_esp0 s' = tss_esp0 s" "cpu_ebp s' = cpu_ebp s"
    "cpu_esp s' = cpu_esp s" "before_processes s' = before_processes s"
    "op_addr s' = op_addr s" "file_data_addr s' = file_data_addr s"
  using assms by (cases s; cases s'; simp)+

lemma paging_more:
  assumes "console.more s' = console.more s"
  shows "paging.more s' = paging.more s" "boot_block s' = boot_block s"
    "boot_block_end s' = boot_block_end s" "len_inodes s' = len_inodes s"
    "data_block_start s' = data_block_start s" "page_directory s' = page_directory s"
    "page_table s' = page_table s" "vidmem_pagetable s' = vidmem_pagetable s"
    "page_table_addr s' = page_table_addr s" "vidmem_table_addr s' = vidmem_table_addr s"
    "tlb_user s' = tlb_user s" "frames s' = frames s" "kb_buffer s' = kb_buffer s"
    "kb_buffer_index s' = kb_buffer_index s" "cursor_x s' = cursor_x s"
    "enter_flag s' = enter_flag s" "shell_flag s' = shell_flag s"
  using assms by (cases s; cases s'; simp)+

lemma putc_more: "console.more (putc c s) = console.more s"
  by (simp add: putc_def Let_def scroll_down_def update_cursor_def outb_def poke_def)

lemma print_more: "console.more (print cs s) = console.more s"
proof -
  have "console.more (fold putc xs s) = console.more s" for xs and s :: "'a console_scheme"
    by (induction xs arbitrary: s) (simp_all add: putc_more)
  then show ?thesis by (simp add: print_def)
qed

lemma set_process_page_more: "paging.more (set_process_page a s) = paging.more s"
  by (simp add: set_process_page_def flush_tlb_def Let_def)

lemma map2user_more: "paging.more (map2user a d t s) = paging.more s"
  by (simp add: map2user_def flush_tlb_def Let_def)

lemma send_eoi_more: "console.more (send_eoi i s) = console.more s"
  by (simp add: send_eoi_def outb_def)

lemma outb_more: "console.more (outb d p s) = console.more s"
  by (simp add: outb_def)

lemma cli_sti_more: "console.more (cli s) = console.more s" "console.more (sti s) = console.more s"
  by (simp_all add: cli_def sti_def)

lemma read_data_more:
  "read_data ino off buf n s = (k, s') \<Longrightarrow> console.more s' = console.more s"
  by (auto simp: read_data_def Let_def split: if_splits prod.splits)

lemmas print_kernel [simp, frame_simps] = kernel_more [OF paging_more(1) [OF print_more]]
lemmas print_paging [simp, frame_simps] = paging_more(2-) [OF print_more]
lemmas page_kernel [simp, frame_simps] = kernel_more [OF set_process_page_more]
lemmas map2user_kernel [simp, frame_simps] = kernel_more [OF map2user_more]
lemmas eoi_kernel [simp, frame_simps] = kernel_more [OF paging_more(1) [OF send_eoi_more]]
lemmas outb_kernel [simp, frame_simps] = kernel_more [OF paging_more(1) [OF outb_more]]
lemmas cli_kernel [simp, frame_simps] = kernel_more [OF paging_more(1) [OF cli_sti_more(1)]]
lemmas sti_kernel [simp, frame_simps] = kernel_more [OF paging_more(1) [OF cli_sti_more(2)]]
lemmas cli_paging [simp, frame_simps] = paging_more(2-) [OF cli_sti_more(1)]
lemmas sti_paging [simp, frame_simps] = paging_more(2-) [OF cli_sti_more(2)]
lemmas read_data_kernel = kernel_more [OF paging_more(1) [OF read_data_more]]
lemmas read_data_paging = paging_more(2-) [OF read_data_more]

lemma get_pcb_address_cong:
  "terminals s' = terminals s \<Longrightarrow> cur_term s' = cur_term s \<Longrightarrow>
    before_processes s' = before_processes s \<Longrightarrow> get_pcb_address s' = get_pcb_address s"
  by (simp add: get_pcb_address_def get_current_terminal_def Let_def)

section \<open>The process table\<close>

text \<open>
  The abstract process table is a list of pids for each terminal, the running process last:
  each terminal's array holds its list followed by -1, \<open>num_proc\<close> counts it, no pid is
  used twice, and \<open>process_state\<close> marks exactly the pids in use.
\<close>

definition term_ok :: "int list \<Rightarrow> terminal_t \<Rightarrow> bool" where
  "term_ok g tm \<longleftrightarrow> processes tm = g @ replicate (4 - length g) (- 1) \<and> length g \<le> 4
     \<and> num_proc tm = int (length g) \<and> (first_run tm \<noteq> 0 \<longrightarrow> g = []) \<and> - 1 \<notin> set g"

definition pid_ok :: "(u32 \<Rightarrow> pcb_t) \<Rightarrow> int \<Rightarrow> bool" where
  "pid_ok ps p \<longleftrightarrow> 0 \<le> p \<and> p < 6 \<and> pcb_pid (ps (get_pcb (of_int p))) = p"

definition procs :: "'a kernel_scheme \<Rightarrow> int list list \<Rightarrow> bool" where
  "procs s gs \<longleftrightarrow> list_all2 term_ok gs (terminals s) \<and> length gs = 3 \<and> cur_term s < 3
     \<and> distinct (concat gs) \<and> (\<forall>p \<in> set (concat gs). pid_ok (pcbs s) p)
     \<and> process_state s = map (\<lambda>p. if int p \<in> set (concat gs) then 1 else 0) [0..<6]"

lemma procs_cong:
  assumes "procs s gs" "list_all2 term_ok gs (terminals s')" "cur_term s' = cur_term s"
    "process_state s' = process_state s"
    "\<And>p. pcb_pid (pcbs s' (get_pcb (of_int p))) = pcb_pid (pcbs s (get_pcb (of_int p)))"
  shows "procs s' gs"
  using assms by (simp add: procs_def pid_ok_def)

lemma free_slot_take: "free_slot (g @ replicate k (- 1)) = length g" if "- 1 \<notin> set g"
  using that by (induction g) (auto, cases k, auto)

lemma term_of: "procs s gs \<Longrightarrow> t < 3 \<Longrightarrow> term_ok (gs ! t) (terminals s ! t)"
  by (auto simp: procs_def list_all2_conv_all_nth)

lemma procs_terms: "procs s gs \<Longrightarrow> length (terminals s) = 3"
  by (auto simp: procs_def dest: list_all2_lengthD)

text \<open>Every function works on the last process of the displayed terminal.\<close>

lemma get_pcb_address_last:
  assumes "procs s gs" "gs ! cur_term s \<noteq> []"
  shows "get_pcb_address s = get_pcb (of_int (last (gs ! cur_term s)))"
proof -
  have t: "cur_term s < 3" using assms(1) by (simp add: procs_def)
  then have u: "unat (get_current_terminal s) = cur_term s"
    by (simp add: get_current_terminal_def unat_of_nat take_bit_eq_mod)
  let ?g = "gs ! cur_term s"
  have ok: "processes (terminals s ! cur_term s) = ?g @ replicate (4 - length ?g) (- 1)" "- 1 \<notin> set ?g"
    using term_of [OF assms(1) t] by (auto simp: term_ok_def)
  then have "free_slot (processes (terminals s ! cur_term s)) = length ?g"
    by (simp add: free_slot_take)
  then show ?thesis
    using assms(2) ok(1) by (simp add: get_pcb_address_def u Let_def nth_append last_conv_nth)
qed

end
