(* ===== verification/File_Ops.thy ===== *)
theory File_Ops
  imports Process
begin

text \<open>
  The file and directory operations of \<^verbatim>\<open>student-distrib/filesys.c\<close> behind the jump
  tables: \<open>open\<close>, \<open>close\<close>, \<open>read\<close> and \<open>write\<close> of a regular file and of the directory.
  They find their descriptor in the PCB of the displayed terminal's last process.
\<close>

section \<open>Regular files\<close>

definition read_file :: "int \<Rightarrow> u32 \<Rightarrow> u32 \<Rightarrow> 'a kernel_scheme \<Rightarrow> int \<times> 'a kernel_scheme" where
  "read_file fd buf nbytes s =
     (let current_process = get_pcb_address s;
          f = pcb_file (pcbs s current_process) ! nat fd;
          (nbytes_read, s) = read_data (fd_inode f) (fd_pos f) buf nbytes s
      in (int nbytes_read,
          upd_fd current_process (nat fd) (\<lambda>f. f\<lparr>fd_pos := fd_pos f + of_nat nbytes_read\<rparr>) s))"

definition write_file :: "int \<Rightarrow> u32 \<Rightarrow> u32 \<Rightarrow> int" where
  "write_file fd buf nbytes = - 1"

definition close_file :: "int \<Rightarrow> int" where
  "close_file fd = 0"

fun first_closed :: "nat \<Rightarrow> nat \<Rightarrow> pcb_t \<Rightarrow> int" where
  "first_closed 0 i p = - 1"
| "first_closed (Suc k) i p =
     (if fd_flags (pcb_file p ! i) = 0 then int i else first_closed k (Suc i) p)"

definition open_file :: "u32 \<Rightarrow> 'a kernel_scheme \<Rightarrow> int" where
  "open_file filename s =
     (case read_dentry_by_name (at (mem s) filename) s of
        None \<Rightarrow> - 1
      | Some _ \<Rightarrow> first_closed 8 0 (cur_pcb s))"

section \<open>The directory\<close>

text \<open>
  The bytes of the local \<open>dentry\<close>: a name of 32 characters has no NUL byte of its own and runs
  on into the type and the inode number.  (The 24 reserved bytes after them are not
  initialised; they are reached only when neither the type nor the inode number has a zero
  byte, and the type is 0, 1 or 2.)
\<close>

definition dentry_bytes :: "dentry \<Rightarrow> u8 list" where
  "dentry_bytes d = file_name d @ bytes32 (of_int (file_type d)) @ bytes32 (of_int (inode_num d))"

text \<open>\<open>strncpy\<close> from a local array.\<close>

fun strncpy_arr :: "nat \<Rightarrow> nat \<Rightarrow> u32 \<Rightarrow> (nat \<Rightarrow> u8) \<Rightarrow> mem \<Rightarrow> mem" where
  "strncpy_arr 0 i dest f m = m"
| "strncpy_arr (Suc k) i dest f m =
     (if f i = 0 then strncpy_pad (Suc k) dest m
      else strncpy_arr k (Suc i) (dest + 1) f (m(dest := f i)))"

definition clear_bytes :: "nat \<Rightarrow> u32 \<Rightarrow> mem \<Rightarrow> mem" where
  "clear_bytes n buf m = fold (\<lambda>i m. m(buf + of_nat i := 0)) [0..<n] m"

definition read_dir :: "int \<Rightarrow> u32 \<Rightarrow> u32 \<Rightarrow> 'a kernel_scheme \<Rightarrow> int \<times> 'a kernel_scheme" where
  "read_dir fd buf nbytes s =
     (let cur_process = get_pcb_address s;
          f = pcb_file (pcbs s cur_process) ! nat fd
      in case read_dentry_by_index (fd_pos f) s of
           None \<Rightarrow> (0, s)
         | Some dentry \<Rightarrow>
             (let m = clear_bytes 33 buf (mem s);
                  m = strncpy_arr (unat nbytes) 0 buf (arr (dentry_bytes dentry)) m;
                  s = upd_fd cur_process (nat fd) (\<lambda>f. f\<lparr>fd_pos := fd_pos f + 1\<rparr>) (s\<lparr>mem := m\<rparr>);
                  len = length (takeWhile (\<lambda>b. b \<noteq> 0) (dentry_bytes dentry))
              in (if len > 32 then 32 else int len, s)))"

definition write_dir :: "int \<Rightarrow> u32 \<Rightarrow> u32 \<Rightarrow> int" where
  "write_dir fd buf nbytes = - 1"

definition close_dir :: "int \<Rightarrow> int" where
  "close_dir fd = 0"

definition open_dir :: "u32 \<Rightarrow> 'a kernel_scheme \<Rightarrow> int" where
  "open_dir filename s =
     (case read_dentry_by_name (at (mem s) filename) s of
        None \<Rightarrow> - 1
      | Some _ \<Rightarrow> first_closed 8 0 (cur_pcb s))"

section \<open>Reading a file in pieces\<close>

lemma upd_fd_fields [frame_simps, simp]:
  "mem (upd_fd a i f s) = mem s" "boot_block (upd_fd a i f s) = boot_block s"
  "boot_block_end (upd_fd a i f s) = boot_block_end s"
  "data_block_start (upd_fd a i f s) = data_block_start s"
  "get_pcb_address (upd_fd a i f s) = get_pcb_address s"
  "pcbs (upd_fd a i f s) a = (pcbs s a)\<lparr>pcb_file := (pcb_file (pcbs s a))
     [i := f (pcb_file (pcbs s a) ! i)]\<rparr>"
  by (simp_all add: upd_fd_def)

lemma image_cong:
  assumes "mem t = mem s" "boot_block t = boot_block s" "boot_block_end t = boot_block_end s"
    "data_block_start t = data_block_start s"
  shows "contents t ino = contents s ino" "inode_count t = inode_count s"
    "buffer_apart buf n ino t = buffer_apart buf n ino s" "dir_size t = dir_size s"
    "entry_name t i = entry_name s i" "read_dentry_by_index j t = read_dentry_by_index j s"
  using assms by (simp_all add: contents_def inode_count_def buffer_apart_def inode_addr_def
      dir_size_def dir_count_def entry_name_def dir_entry_addr_def read_dentry_by_index_def)

lemma blocks_apart_mono: "blocks_apart buf n m ci dbs \<Longrightarrow> n' \<le> n \<Longrightarrow> blocks_apart buf n' m ci dbs"
  unfolding blocks_apart_def using apart_mono by blast

lemma buffer_apart_mono: "buffer_apart buf n ino s \<Longrightarrow> n' \<le> n \<Longrightarrow> buffer_apart buf n' ino s"
  unfolding buffer_apart_def by (rule blocks_apart_mono)

lemma blocks_apart_wr:
  assumes "blocks_apart buf n m ci dbs" "length xs \<le> n" "n < 2 ^ 32"
  shows "blocks_apart buf n (wr buf xs m) ci dbs"
proof -
  have len: "file_length (wr buf xs m) ci = file_length m ci"
    using blocks_apart_inode(1) [OF assms(1,2) _ assms(3), of 0] by (simp add: file_length_def)
  have "b < 1023" if "b < (file_length m ci + 4095) div 4096" for b
    using assms(1) that unfolding blocks_apart_def by auto
  then show ?thesis
    using assms(1) blocks_apart_inode(2) [OF assms(1,2) _ assms(3)]
    unfolding blocks_apart_def len by auto
qed

lemma slice_slice: "slice p n xs @ slice (p + length (slice p n xs)) k xs = slice p (n + k) xs"
proof (cases "p + n \<le> length xs")
  case True
  then show ?thesis by (simp add: slice_def take_add add.commute [of p n])
next
  case False
  then have "length (slice p n xs) = length xs - p" by (simp add: slice_def)
  then show ?thesis using False by (simp add: slice_def)
qed

text \<open>A program that reads pieces of the given sizes into one buffer, and what it sees there.\<close>

fun read_chunks :: "int \<Rightarrow> u32 \<Rightarrow> u32 list \<Rightarrow> 'a kernel_scheme \<Rightarrow> u8 list list \<times> 'a kernel_scheme" where
  "read_chunks fd buf [] s = ([], s)"
| "read_chunks fd buf (n # ns) s =
     (let (r, s) = read_file fd buf n s; bytes = rd (mem s) buf (nat r);
          (rest, s) = read_chunks fd buf ns s
      in (bytes # rest, s))"

lemma read_file_slice:
  assumes "f = pcb_file (cur_pcb s) ! nat fd" "fd_inode f < inode_count s"
    and "buffer_apart buf (unat n) (fd_inode f) s"
  shows "read_file fd buf n s =
    (let bytes = slice (unat (fd_pos f)) (unat n) (contents s (fd_inode f))
     in (int (length bytes), upd_fd (get_pcb_address s) (nat fd)
           (\<lambda>f. f\<lparr>fd_pos := fd_pos f + of_nat (length bytes)\<rparr>) (s\<lparr>mem := wr buf bytes (mem s)\<rparr>)))"
  using read_data_slice [OF assms(2,3), of "fd_pos f"] assms(1)
  by (simp add: read_file_def cur_pcb_def Let_def)

lemma slice_bound: "length (slice p n xs) \<le> n" "p \<le> length xs \<Longrightarrow> p + length (slice p n xs) \<le> length xs"
  by (auto simp: slice_def)

lemma slice_beyond: "length xs \<le> p \<Longrightarrow> slice p n xs = []"
  by (simp add: slice_def)

lemma length_contents: "length (contents s ino) < 2 ^ 32"
  by (simp add: contents_def file_length_def unat_u32_bound)

lemma slice_pos:
  assumes "length xs < 2 ^ 32"
  shows "slice (unat (p + of_nat (length (slice (unat p) n xs)) :: u32)) k xs =
    slice (unat p + length (slice (unat p) n xs)) k xs"
proof (cases "unat p \<le> length xs")
  case True
  then have "unat p + length (slice (unat p) n xs) < 2 ^ 32" using slice_bound(2) assms by (metis le_less_trans)
  moreover from this have "unat (of_nat (length (slice (unat p) n xs)) :: u32) = length (slice (unat p) n xs)"
    by (intro unat_u32_of_nat) simp
  ultimately show ?thesis by (simp add: unat_u32_plus)
next
  case False
  then show ?thesis by (simp add: slice_beyond)
qed

lemma rd_apart:
  assumes "apart buf n b k" "length xs \<le> n" "n < 2 ^ 32" "j + l \<le> k" "k \<le> 2 ^ 32"
  shows "rd (wr buf xs m) (b + of_nat j) l = rd m (b + of_nat j) l"
proof (rule rd_cong)
  fix p assume "inr (b + of_nat j) l p"
  then have "inr b k p" by (rule inr_sub) (use assms in auto)
  then have "\<not> inr buf n p" using assms(1) apart_sym apartD by metis
  then have "\<not> inr buf (length xs) p" using assms(2) inr_mono by blast
  then show "wr buf xs m p = m p" by (rule wr_other) (use assms in auto)
qed (use assms in auto)

text \<open>A buffer that does not overlap the boot block.\<close>

definition boot_apart :: "u32 \<Rightarrow> nat \<Rightarrow> 'a fs_scheme \<Rightarrow> bool" where
  "boot_apart buf n s = apart buf n (boot_block s) 4096"

lemma inode_count_wr:
  assumes "boot_apart buf n s" "length xs \<le> n" "n < 2 ^ 32"
  shows "inode_count (s\<lparr>mem := wr buf xs (mem s)\<rparr>) = inode_count s"
proof -
  have "rd (wr buf xs (mem s)) (boot_block s + of_nat 4) 4 = rd (mem s) (boot_block s + of_nat 4) 4"
    by (rule rd_apart) (use assms in \<open>auto simp: boot_apart_def\<close>)
  then have "ld32 (wr buf xs (mem s)) (boot_block s + of_nat 4) = ld32 (mem s) (boot_block s + of_nat 4)"
    by (rule ld32_cong)
  then show ?thesis unfolding inode_count_def of_nat_numeral by simp
qed

lemma read_chunks_slice:
  assumes "nat fd < length (pcb_file (cur_pcb s))"
    and "\<And>f. f = pcb_file (cur_pcb s) ! nat fd \<Longrightarrow>
      fd_inode f = ino \<and> unat (fd_pos f) = p \<and> ino < inode_count s"
    and "buffer_apart buf k ino s" "boot_apart buf k s" "k < 2 ^ 32" "\<forall>n \<in> set ns. unat n \<le> k"
  shows "concat (fst (read_chunks fd buf ns s)) =
    slice p (sum_list (map unat ns)) (contents s ino)"
  using assms
proof (induction ns arbitrary: s p)
  case Nil
  then show ?case by (simp add: slice_def)
next
  case (Cons n ns)
  define f where "f = pcb_file (cur_pcb s) ! nat fd"
  define bytes where "bytes = slice p (unat n) (contents s ino)"
  have f: "fd_inode f = ino" "unat (fd_pos f) = p" "ino < inode_count s"
    using Cons.prems(2) [of f] by (auto simp: f_def)
  have n: "unat n \<le> k" using Cons.prems(6) by simp
  have l: "length bytes \<le> unat n" by (simp add: bytes_def slice_bound)
  then have l': "length bytes \<le> k" "length bytes \<le> 2 ^ 32" using n Cons.prems(5) by auto
  let ?t = "s\<lparr>mem := wr buf bytes (mem s)\<rparr>"
  let ?u = "upd_fd (get_pcb_address s) (nat fd)
    (\<lambda>f. f\<lparr>fd_pos := fd_pos f + of_nat (length bytes)\<rparr>) ?t"
  have step: "read_file fd buf n s = (int (length bytes), ?u)"
    using read_file_slice [OF f_def _ buffer_apart_mono [OF _ n]] f Cons.prems(3)
    by (simp add: bytes_def Let_def)
  have same: "contents ?u ino = contents s ino" "inode_count ?u = inode_count s"
    "buffer_apart buf k ino ?u" "boot_apart buf k ?u"
  proof -
    have "contents ?t ino = contents s ino" by (rule contents_wr [OF Cons.prems(3) l'(1) Cons.prems(5)])
    moreover have "inode_count ?t = inode_count s"
      by (rule inode_count_wr [OF Cons.prems(4) l'(1) Cons.prems(5)])
    moreover have "buffer_apart buf k ino ?t"
      using blocks_apart_wr [OF _ l'(1) Cons.prems(5)] Cons.prems(3)
      by (simp add: buffer_apart_def inode_addr_def)
    ultimately show "contents ?u ino = contents s ino" "inode_count ?u = inode_count s"
      "buffer_apart buf k ino ?u" "boot_apart buf k ?u"
      using image_cong [of ?u ?t] Cons.prems(4) by (simp_all add: boot_apart_def)
  qed
  have cur: "cur_pcb ?u = (cur_pcb s)\<lparr>pcb_file := (pcb_file (cur_pcb s))
      [nat fd := f\<lparr>fd_pos := fd_pos f + of_nat (length bytes)\<rparr>]\<rparr>"
    by (simp add: cur_pcb_def f_def)
  have "concat (fst (read_chunks fd buf ns ?u)) =
      slice (unat (fd_pos f + of_nat (length bytes))) (sum_list (map unat ns)) (contents ?u ino)"
    by (rule Cons.IH) (use Cons.prems f same in \<open>auto simp: cur\<close>)
  also have "\<dots> = slice (p + length bytes) (sum_list (map unat ns)) (contents s ino)"
    unfolding same(1) using slice_pos [OF length_contents, of "fd_pos f" "unat n" s ino] f
    by (simp add: bytes_def)
  finally have rest: "concat (fst (read_chunks fd buf ns ?u)) =
      slice (p + length bytes) (sum_list (map unat ns)) (contents s ino)" .
  have "rd (mem ?u) buf (length bytes) = bytes" using rd_wr_same [OF l'(2)] by simp
  then have "concat (fst (read_chunks fd buf (n # ns) s)) =
      bytes @ slice (p + length bytes) (sum_list (map unat ns)) (contents s ino)"
    using rest step by (simp add: split_beta)
  then show ?case by (simp add: bytes_def slice_slice)
qed

section \<open>Listing the directory\<close>

lemma strncpy_arr_wr: "strncpy_arr k i d f m = wr d (padded k (upto0 f i k)) m"
proof (induction k arbitrary: i d m)
  case 0
  then show ?case by (simp add: padded_def)
next
  case (Suc k)
  then show ?case
    by (cases "f i = 0") (simp_all add: strncpy_pad_wr upto0_Suc padded_def fun_upd_def
        del: strncpy_pad.simps)
qed

lemma clear_bytes_wr: "clear_bytes n a m = wr a (replicate n 0) m"
proof (induction n)
  case (Suc n)
  have "clear_bytes (Suc n) a m = (clear_bytes n a m)(a + of_nat n := 0)" by (simp add: clear_bytes_def)
  also have "\<dots> = wr a (replicate n 0 @ [0]) m" by (simp add: Suc wr_append)
  finally show ?case by (simp add: replicate_append_same)
qed (simp add: clear_bytes_def)

lemma wr_wr: "length xs \<le> length ys \<Longrightarrow> length ys \<le> 2 ^ 32 \<Longrightarrow>
    wr a xs (wr a ys m) = wr a (xs @ drop (length xs) ys) m"
  by (rule ext) (auto simp: wr_apply nth_append inr_def)

lemma upto0_arr_take:
  assumes "n \<le> length xs"
  shows "upto0 (arr xs) 0 n = takeWhile (\<lambda>b. b \<noteq> 0) (take n xs)"
proof -
  have "map (arr xs) [0..<0 + n] = take n xs"
    by (rule nth_equalityI) (use assms in \<open>auto simp: arr_def\<close>)
  then show ?thesis by (simp only: upto0_def)
qed

text \<open>The bytes and the result of one \<open>read_dir\<close>.\<close>

lemma dentry_name_bytes:
  assumes "name = cstrn m a 32" "n \<le> 32"
  shows "upto0 (arr (dentry_bytes (dentry_at m a))) 0 n = take n name"
    and "min 32 (length (takeWhile (\<lambda>b. b \<noteq> 0) (dentry_bytes (dentry_at m a)))) = length name"
proof -
  have l: "length name \<le> 32" and nz: "0 \<notin> set name"
    using length_cstrn cstrn_nonzero by (auto simp: assms(1))
  let ?rest = "bytes32 (of_int (file_type (dentry_at m a))) @ bytes32 (of_int (inode_num (dentry_at m a)))"
  have b: "dentry_bytes (dentry_at m a) = name @ replicate (32 - length name) 0 @ ?rest"
    by (simp add: dentry_bytes_def dentry_at_def padded_def assms(1))
  have tw: "takeWhile (\<lambda>b. b \<noteq> 0) name = name" using nz by (auto simp: takeWhile_eq_all_conv)
  have "take n (dentry_bytes (dentry_at m a)) = take n name @ replicate (n - length name) 0"
    using assms(2) l by (simp add: b take_append min_def)
  moreover have "takeWhile (\<lambda>b. b \<noteq> 0) (take n name @ replicate (n - length name) 0) = take n name"
    using nz by (auto simp: takeWhile_append dest: in_set_takeD)
  ultimately show "upto0 (arr (dentry_bytes (dentry_at m a))) 0 n = take n name"
    using assms(2) l by (simp add: upto0_arr_take b)
  show "min 32 (length (takeWhile (\<lambda>b. b \<noteq> 0) (dentry_bytes (dentry_at m a)))) = length name"
  proof (cases "length name = 32")
    case True
    then show ?thesis using nz by (auto simp: b takeWhile_append min_def)
  next
    case False
    then obtain k where "32 - length name = Suc k" using l by (metis Suc_diff_Suc le_neq_implies_less)
    then show ?thesis using nz l by (auto simp: b takeWhile_append min_def)
  qed
qed

lemma dir_wr:
  assumes "boot_apart buf n s" "length xs \<le> n" "n < 2 ^ 32"
  shows "dir_size (s\<lparr>mem := wr buf xs (mem s)\<rparr>) = dir_size s"
    and "i < 63 \<Longrightarrow> entry_name (s\<lparr>mem := wr buf xs (mem s)\<rparr>) i = entry_name s i"
proof -
  have r: "rd (wr buf xs (mem s)) (boot_block s + of_nat j) l = rd (mem s) (boot_block s + of_nat j) l"
    if "j + l \<le> 4096" for j l
    by (rule rd_apart) (use assms that in \<open>auto simp: boot_apart_def\<close>)
  have "ld32 (wr buf xs (mem s)) (boot_block s) = ld32 (mem s) (boot_block s)"
    using r [of 0 4] by (intro ld32_cong) simp
  then show "dir_size (s\<lparr>mem := wr buf xs (mem s)\<rparr>) = dir_size s"
    by (simp add: dir_size_def dir_count_def)
  assume i: "i < 63"
  have "rd (wr buf xs (mem s)) (boot_block s + of_nat (64 + i * 64)) 32 =
      rd (mem s) (boot_block s + of_nat (64 + i * 64)) 32"
    by (rule r) (use i in simp)
  then show "entry_name (s\<lparr>mem := wr buf xs (mem s)\<rparr>) i = entry_name s i"
    by (simp add: entry_name_def dir_entry_addr_def cstrn_def add.assoc)
qed

lemma read_dir_entry:
  assumes "fd_pos (pcb_file (cur_pcb s) ! nat fd) = of_nat i" "i < dir_size s" "unat n \<le> 32"
  shows "read_dir fd buf n s = (int (length (entry_name s i)),
    upd_fd (get_pcb_address s) (nat fd) (\<lambda>f. f\<lparr>fd_pos := fd_pos f + 1\<rparr>)
      (s\<lparr>mem := wr buf (padded 33 (take (unat n) (entry_name s i))) (mem s)\<rparr>))"
proof -
  let ?name = "entry_name s i" and ?d = "dentry_at (mem s) (dir_entry_addr s (of_nat i))"
  have "i < 2 ^ 32" using assms(2) unat_u32_less [of "dir_count s"] by (simp add: dir_size_def)
  then have e: "read_dentry_by_index (of_nat i) s = Some ?d"
    using assms(2) by (simp add: read_dentry_by_index_entry dir_entry_def)
  note nb = dentry_name_bytes [of ?name "mem s" "dir_entry_addr s (of_nat i)"]
  have w: "strncpy_arr (unat n) 0 buf (arr (dentry_bytes ?d)) (clear_bytes 33 buf (mem s)) =
      wr buf (padded 33 (take (unat n) ?name)) (mem s)"
    using assms(3) nb(1) [OF _ assms(3)]
    by (simp add: strncpy_arr_wr clear_bytes_wr wr_wr entry_name_def padded_def
        replicate_add [symmetric])
  have l: "(if 32 < length (takeWhile (\<lambda>b. b \<noteq> 0) (dentry_bytes ?d)) then 32
      else int (length (takeWhile (\<lambda>b. b \<noteq> 0) (dentry_bytes ?d)))) = int (length ?name)"
    using nb(2) [of 32] by (auto simp: entry_name_def min_def split: if_splits)
  show ?thesis using assms(1) by (simp add: read_dir_def cur_pcb_def e w l Let_def)
qed

lemma read_dir_end:
  assumes "fd_pos (pcb_file (cur_pcb s) ! nat fd) = of_nat i" "dir_size s \<le> i" "i < 2 ^ 32"
  shows "read_dir fd buf n s = (0, s)"
  using assms by (simp add: read_dir_def cur_pcb_def read_dentry_by_index_entry dir_entry_def)

text \<open>A program that reads the directory \<open>k\<close> times, and the names it gets.\<close>

fun list_dir :: "nat \<Rightarrow> int \<Rightarrow> u32 \<Rightarrow> u32 \<Rightarrow> 'a kernel_scheme \<Rightarrow> u8 list list \<times> 'a kernel_scheme" where
  "list_dir 0 fd buf n s = ([], s)"
| "list_dir (Suc k) fd buf n s =
     (let (r, s) = read_dir fd buf n s; name = rd (mem s) buf (nat r);
          (rest, s) = list_dir k fd buf n s
      in (name # rest, s))"

lemma list_dir_names:
  assumes "fd_pos (pcb_file (cur_pcb s) ! nat fd) = of_nat i" "i \<le> dir_size s" "i + k < 2 ^ 32"
    and "nat fd < length (pcb_file (cur_pcb s))" "dir_size s \<le> 63" "boot_apart buf 33 s"
  shows "fst (list_dir k fd buf 32 s) =
    map (entry_name s) [i..<min (i + k) (dir_size s)] @ replicate (i + k - dir_size s) []"
  using assms
proof (induction k arbitrary: s i)
  case (Suc k)
  show ?case
  proof (cases "i = dir_size s")
    case True
    then have e: "read_dir fd buf 32 s = (0, s)"
      using read_dir_end [OF Suc.prems(1)] Suc.prems by simp
    have "fst (list_dir k fd buf 32 s) = replicate k []"
      using Suc.IH [of s i] Suc.prems True by simp
    then show ?thesis using e True by (simp add: split_beta)
  next
    case False
    then have i: "i < dir_size s" using Suc.prems(2) by simp
    define t where "t = s\<lparr>mem := wr buf (padded 33 (entry_name s i)) (mem s)\<rparr>"
    define u where "u = upd_fd (get_pcb_address s) (nat fd) (\<lambda>f. f\<lparr>fd_pos := fd_pos f + 1\<rparr>) t"
    have name: "length (entry_name s i) \<le> 32" by (simp add: entry_name_def length_cstrn)
    have step: "read_dir fd buf 32 s = (int (length (entry_name s i)), u)"
      using read_dir_entry [OF Suc.prems(1) i, of 32 buf] name by (simp add: u_def t_def)
    have pl: "length (padded 33 (entry_name s i)) = 33" using name by simp
    have dt: "dir_size t = dir_size s" "\<And>j. j < 63 \<Longrightarrow> entry_name t j = entry_name s j"
      unfolding t_def by (rule dir_wr [OF Suc.prems(6)]; simp add: pl)+
    have du: "dir_size u = dir_size s" "\<And>j. j < 63 \<Longrightarrow> entry_name u j = entry_name s j"
      using image_cong [of u t] dt by (simp_all add: u_def)
    have bu: "boot_apart buf 33 u" using Suc.prems(6) by (simp add: boot_apart_def u_def t_def)
    have at: "get_pcb_address t = get_pcb_address s" by (simp add: t_def)
    have cu: "cur_pcb u = (cur_pcb s)\<lparr>pcb_file := (pcb_file (cur_pcb s))
        [nat fd := (pcb_file (cur_pcb s) ! nat fd)\<lparr>fd_pos := of_nat i + 1\<rparr>]\<rparr>"
      using Suc.prems(1) by (simp add: cur_pcb_def u_def at) (simp add: t_def)
    have "fst (list_dir k fd buf 32 u) =
        map (entry_name u) [Suc i..<min (Suc i + k) (dir_size u)] @ replicate (Suc i + k - dir_size u) []"
      by (rule Suc.IH) (use Suc.prems i bu in \<open>auto simp: cu du add.commute\<close>)
    moreover have "map (entry_name u) [Suc i..<min (Suc i + k) (dir_size u)] =
        map (entry_name s) [Suc i..<min (Suc i + k) (dir_size u)]"
      using Suc.prems(5) by (intro map_cong) (auto simp: du)
    moreover have "rd (mem u) buf (length (entry_name s i)) = entry_name s i"
    proof -
      have "rd (mem u) buf 33 = padded 33 (entry_name s i)"
        using rd_wr_same [of "padded 33 (entry_name s i)" buf "mem s"] pl by (simp add: u_def t_def)
      then have "rd (mem u) buf (length (entry_name s i)) = take (length (entry_name s i)) (padded 33 (entry_name s i))"
        using name take_rd [of "length (entry_name s i)" 33 "mem u" buf] by simp
      then show ?thesis by (simp add: padded_def)
    qed
    moreover have "[i..<min (i + Suc k) (dir_size s)] = i # [Suc i..<min (Suc i + k) (dir_size s)]"
      using i by (simp add: upt_conv_Cons)
    ultimately show ?thesis using step by (simp add: split_beta du)
  qed
qed simp

section \<open>Properties\<close>

text \<open>Reading an open file in pieces of any sizes into one buffer delivers, in order, exactly
  the bytes of the file from the descriptor's position on, up to the sum of the sizes or the end
  of the file.\<close>
theorem read_chunks_correct:
  assumes "nat fd < length (pcb_file (cur_pcb s))"
    and "fd_inode (pcb_file (cur_pcb s) ! nat fd) < inode_count s"
    and "buffer_apart buf k (fd_inode (pcb_file (cur_pcb s) ! nat fd)) s" "boot_apart buf k s"
    and "k < 2 ^ 32" "\<forall>n \<in> set ns. unat n \<le> k"
  shows "concat (fst (read_chunks fd buf ns s)) =
    slice (unat (fd_pos (pcb_file (cur_pcb s) ! nat fd))) (sum_list (map unat ns))
      (contents s (fd_inode (pcb_file (cur_pcb s) ! nat fd)))"
  by (rule read_chunks_slice [OF assms(1) _ assms(3-6)]) (use assms(2) in simp)

text \<open>Reading the directory again and again lists the names of all its entries in order,
  each once and cut at 32 characters, and then returns 0 for ever.\<close>
theorem list_dir_correct:
  assumes "fd_pos (pcb_file (cur_pcb s) ! nat fd) = 0" "k < 2 ^ 32"
    and "nat fd < length (pcb_file (cur_pcb s))" "dir_size s \<le> 63" "boot_apart buf 33 s"
  shows "fst (list_dir k fd buf 32 s) =
    take k (map (entry_name s) [0..<dir_size s]) @ replicate (k - dir_size s) []"
  using list_dir_names [of s fd 0 k buf] slice_map_upt [of 0 k "entry_name s" "dir_size s"] assms
  by (simp add: slice_def)

definition sample_fd :: fd_t where
  "sample_fd = \<lparr>fd_op = Some File_op, fd_inode = 0, fd_pos = 0, fd_flags = 1\<rparr>"

definition sample_pcb :: pcb_t where
  "sample_pcb = \<lparr>pcb_file = replicate 8 sample_fd, pcb_arg = replicate 129 0, pcb_pid = 0,
     parent_pid = 0, parent_ebp = 0, parent_esp = 0, pcb_ebp = 0, pcb_esp = 0, pcb_cr3 = 0,
     sche_enable = 0\<rparr>"

definition sample_terminal :: terminal_t where
  "sample_terminal = \<lparr>processes = [0, - 1, - 1, - 1], term_proc = 0x7FE000, num_proc = 1, term_x = 0,
     term_y = 0, first_run = 0, term_kb_buffer = replicate 128 0, term_kb_index = 0\<rparr>"

text \<open>A kernel with one process on terminal 0, whose descriptors are all open on file 0 of the
  sample image.\<close>

definition sample_kernel :: kernel where
  "sample_kernel = \<lparr>mem = sample_bytes, out = [], dev = \<lambda>_ _. 0, iflag = True, wild = False,
     master_mask = 0xFF, slave_mask = 0xFF, int_flag = 0, screen_x = 0, screen_y = 0,
     boot_block = 0x400000, boot_block_end = 0x401000, len_inodes = 4096,
     data_block_start = 0x402000, kb_buffer = replicate 128 0, kb_buffer_index = 0, cursor_x = 0,
     enter_flag = 0, cl_flag = 0, lshift_flag = 0, rshift_flag = 0, ctrl_flag = 0, alt_flag = 0,
     shell_flag = 1, page_directory = replicate 1024 2, page_table = replicate 1024 2,
     vidmem_pagetable = replicate 1024 0, page_directory_addr = 0x410000,
     page_table_addr = 0x411000, vidmem_table_addr = 0x412000, cr0 = 0, cr3 = 0, cr4 = 0,
     tlb_user = 0, frames = \<lambda>_ _. 0, pcbs = \<lambda>_. sample_pcb, terminals = replicate 3 sample_terminal,
     cur_term = 0, running_term = 1, process_state = [1, 0, 0, 0, 0, 0], last_shell = [0, - 1, - 1],
     exception_status = 0, tss_ss0 = 0, tss_esp0 = 0, cpu_ebp = 0, cpu_esp = 0,
     before_processes = \<lambda>_. 0, op_addr = \<lambda>_. 0x420000, file_data_addr = 0x3000\<rparr>"

lemma sample_kernel_cur: "cur_pcb sample_kernel = sample_pcb"
  by (simp add: cur_pcb_def sample_kernel_def)

lemma sample_kernel_image:
  "contents sample_kernel 0 = str ''xyz''" "inode_count sample_kernel = 1"
  "buffer_apart 0x2000 (unat (8 :: u32)) 0 sample_kernel" "dir_size sample_kernel = 1"
  "boot_apart 0x2000 n sample_kernel \<longleftrightarrow> apart 0x2000 n 0x400000 4096"
  using sample_fs_contents sample_fs_inodes sample_fs_apart
  by (simp_all add: contents_def inode_count_def buffer_apart_def inode_addr_def sample_fs_def
      sample_kernel_def dir_size_def dir_count_def sample_words boot_apart_def)

theorem read_chunks_correct_witness:
  "concat (fst (read_chunks 3 0x2000 [2, 8] sample_kernel)) = str ''xyz''"
proof -
  have "apart 0x2000 8 0x400000 4096" by (simp add: apart_def unat_u32_minus)
  then show ?thesis
    using read_chunks_correct [of 3 sample_kernel "0x2000" 8 "[2, 8]"] sample_kernel_image
    by (simp add: sample_kernel_cur sample_pcb_def sample_fd_def slice_def str_def)
qed

theorem list_dir_correct_witness:
  "fst (list_dir 2 3 0x2000 32 sample_kernel) = [entry_name sample_kernel 0, []]"
proof -
  have "apart 0x2000 33 0x400000 4096" by (simp add: apart_def unat_u32_minus)
  then show ?thesis
    using list_dir_correct [of sample_kernel 3 2 "0x2000"] sample_kernel_image
    by (simp add: sample_kernel_cur sample_pcb_def sample_fd_def)
qed

end
