(* ===== verification/Mem_Lib.thy ===== *)
theory Mem_Lib
  imports Prelude
begin

text \<open>
  The memory primitives of \<^verbatim>\<open>student-distrib/lib.c\<close>: \<open>memset\<close>,
  \<open>memset_word\<close>, \<open>memset_dword\<close>, \<open>memcpy\<close> and \<open>memmove\<close>.  The inline
  assembly is modelled instruction by instruction (the byte head up to a 4-byte boundary,
  the \<^verbatim>\<open>rep stosl\<close>/\<^verbatim>\<open>rep movsl\<close> body, the byte tail; the direction flag of
  \<open>memmove\<close>), and shown equal to the plain byte-wise reference functions.
\<close>

section \<open>The string instructions\<close>

text \<open>\<^verbatim>\<open>rep stosl\<close> and \<^verbatim>\<open>rep stosw\<close> with the direction flag clear.\<close>

fun rep_stosl :: "nat \<Rightarrow> u32 \<Rightarrow> u32 \<Rightarrow> mem \<Rightarrow> mem" where
  "rep_stosl 0 eax edi m = m"
| "rep_stosl (Suc n) eax edi m = rep_stosl n eax (edi + 4) (st32 edi eax m)"

fun rep_stosw :: "nat \<Rightarrow> u32 \<Rightarrow> u32 \<Rightarrow> mem \<Rightarrow> mem" where
  "rep_stosw 0 eax edi m = m"
| "rep_stosw (Suc n) eax edi m =
     rep_stosw n eax (edi + 2) (wr edi [byte_of 0 eax, byte_of 1 eax] m)"

text \<open>\<^verbatim>\<open>rep movsl\<close>, and \<^verbatim>\<open>rep movsb\<close> in both directions.\<close>

fun rep_movsl :: "nat \<Rightarrow> u32 \<Rightarrow> u32 \<Rightarrow> mem \<Rightarrow> mem" where
  "rep_movsl 0 edi esi m = m"
| "rep_movsl (Suc n) edi esi m = rep_movsl n (edi + 4) (esi + 4) (st32 edi (ld32 m esi) m)"

fun movsb_up :: "nat \<Rightarrow> u32 \<Rightarrow> u32 \<Rightarrow> mem \<Rightarrow> mem" where
  "movsb_up 0 edi esi m = m"
| "movsb_up (Suc n) edi esi m = movsb_up n (edi + 1) (esi + 1) (m(edi := m esi))"

fun movsb_down :: "nat \<Rightarrow> u32 \<Rightarrow> u32 \<Rightarrow> mem \<Rightarrow> mem" where
  "movsb_down 0 edi esi m = m"
| "movsb_down (Suc n) edi esi m = movsb_down n (edi - 1) (esi - 1) (m(edi := m esi))"

section \<open>memset and its variants\<close>

fun memset_bottom :: "nat \<Rightarrow> u32 \<Rightarrow> u32 \<Rightarrow> mem \<Rightarrow> mem" where
  "memset_bottom 0 eax edi m = m"
| "memset_bottom (Suc edx) eax edi m =
     memset_bottom edx eax (edi + 1) (m(edi := byte_of 0 eax))"

fun memset_top :: "nat \<Rightarrow> u32 \<Rightarrow> u32 \<Rightarrow> mem \<Rightarrow> mem" where
  "memset_top 0 eax edi m = m"
| "memset_top (Suc ecx) eax edi m =
     (if edi AND 3 = 0
      then let n = Suc ecx; q = n div 4
           in memset_bottom (n mod 4) eax (edi + of_nat (4 * q)) (rep_stosl q eax edi m)
      else memset_top ecx eax (edi + 1) (m(edi := byte_of 0 eax)))"

definition memset :: "u32 \<Rightarrow> u32 \<Rightarrow> u32 \<Rightarrow> mem \<Rightarrow> mem" where
  "memset s c n m =
     (let c = c AND 0xFF;
          eax = push_bit 24 c OR push_bit 16 c OR push_bit 8 c OR c
      in memset_top (unat n) eax s m)"

definition memset_word :: "u32 \<Rightarrow> u32 \<Rightarrow> u32 \<Rightarrow> mem \<Rightarrow> mem" where
  "memset_word s c n m = rep_stosw (unat n) c s m"

definition memset_dword :: "u32 \<Rightarrow> u32 \<Rightarrow> u32 \<Rightarrow> mem \<Rightarrow> mem" where
  "memset_dword s c n m = rep_stosl (unat n) c s m"

section \<open>memcpy and memmove\<close>

fun memcpy_bottom :: "nat \<Rightarrow> u32 \<Rightarrow> u32 \<Rightarrow> mem \<Rightarrow> mem" where
  "memcpy_bottom 0 edi esi m = m"
| "memcpy_bottom (Suc edx) edi esi m = memcpy_bottom edx (edi + 1) (esi + 1) (m(edi := m esi))"

fun memcpy_top :: "nat \<Rightarrow> u32 \<Rightarrow> u32 \<Rightarrow> mem \<Rightarrow> mem" where
  "memcpy_top 0 edi esi m = m"
| "memcpy_top (Suc ecx) edi esi m =
     (if edi AND 3 = 0
      then let n = Suc ecx; q = n div 4
           in memcpy_bottom (n mod 4) (edi + of_nat (4 * q)) (esi + of_nat (4 * q))
                (rep_movsl q edi esi m)
      else memcpy_top ecx (edi + 1) (esi + 1) (m(edi := m esi)))"

definition memcpy :: "u32 \<Rightarrow> u32 \<Rightarrow> u32 \<Rightarrow> mem \<Rightarrow> mem" where
  "memcpy dest src n m = memcpy_top (unat n) dest src m"

text \<open>
  \<open>memmove\<close> also returns the direction flag it leaves behind: the backward path sets it
  and nothing clears it again.
\<close>

definition memmove :: "u32 \<Rightarrow> u32 \<Rightarrow> u32 \<Rightarrow> mem \<Rightarrow> mem \<times> bool" where
  "memmove dest src n m =
     (if dest \<le> src then (movsb_up (unat n) dest src m, False)
      else (movsb_down (unat n) (dest + n - 1) (src + n - 1) m, True))"

section \<open>The assembly loops are the byte-wise reference\<close>

lemma wr_replicate_split:
  "wr (a + of_nat n) (replicate k b) (wr a (replicate n b) m) = wr a (replicate (n + k) b) m"
  by (simp add: wr_append replicate_add)

lemma memset_bottom_wr: "memset_bottom n eax a m = wr a (replicate n (byte_of 0 eax)) m"
  by (induction n arbitrary: a m) simp_all

lemma rep_stosl_wr: "rep_stosl n eax a m = wr a (concat (replicate n (bytes32 eax))) m"
  by (induction n arbitrary: a m) (simp_all add: wr_append st32_def)

lemma concat_replicate_bytes32:
  "bytes32 eax = replicate 4 b \<Longrightarrow> concat (replicate n (bytes32 eax)) = replicate (4 * n) b"
  by (induction n) (simp_all add: replicate_add [symmetric])

lemma memset_top_wr:
  "bytes32 eax = replicate 4 (byte_of 0 eax) \<Longrightarrow>
    memset_top n eax a m = wr a (replicate n (byte_of 0 eax)) m"
proof (induction n eax a m rule: memset_top.induct)
  case (2 ecx eax edi m)
  show ?case
  proof (cases "edi AND 3 = 0")
    case True
    have "memset_top (Suc ecx) eax edi m =
        wr (edi + of_nat (4 * (Suc ecx div 4))) (replicate (Suc ecx mod 4) (byte_of 0 eax))
          (wr edi (replicate (4 * (Suc ecx div 4)) (byte_of 0 eax)) m)"
      using True concat_replicate_bytes32 [OF "2.prems"]
      by (simp only: memset_top.simps if_True Let_def memset_bottom_wr rep_stosl_wr refl)
    then show ?thesis by (simp only: wr_replicate_split mult_div_mod_eq)
  next
    case False
    with 2 show ?thesis by (simp add: fun_upd_def)
  qed
qed simp

lemma memset_pattern:
  "bytes32 (push_bit 24 (c AND 0xFF) OR push_bit 16 (c AND 0xFF) OR push_bit 8 (c AND 0xFF)
     OR (c AND 0xFF)) = replicate 4 (ucast c)"
proof -
  have "push_bit 24 (c AND 0xFF) OR push_bit 16 (c AND 0xFF) OR push_bit 8 (c AND 0xFF)
      OR (c AND 0xFF) = le32 (ucast c) (ucast c) (ucast c) (ucast c)"
  proof (rule bit_word_eqI)
    fix n assume "n < LENGTH(32)"
    have m: "(0xFF :: u32) = mask 8" by (simp add: mask_eq_exp_minus_1)
    show "bit (push_bit 24 (c AND 0xFF) OR push_bit 16 (c AND 0xFF) OR push_bit 8 (c AND 0xFF)
        OR (c AND 0xFF)) n = bit (le32 (ucast c) (ucast c) (ucast c) (ucast c)) n"
      using \<open>n < LENGTH(32)\<close> unfolding m le32_def by (auto simp: bit_simps)
  qed
  then have "bytes32 (push_bit 24 (c AND 0xFF) OR push_bit 16 (c AND 0xFF)
      OR push_bit 8 (c AND 0xFF) OR (c AND 0xFF)) = [ucast c, ucast c, ucast c, ucast c]"
    by (simp only: bytes32_le32)
  moreover have "replicate 4 (ucast c :: u8) = [ucast c, ucast c, ucast c, ucast c]"
    by (simp add: numeral_eq_Suc)
  ultimately show ?thesis by simp
qed

lemma memset_wr: "memset s c n m = wr s (replicate (unat n) (ucast c)) m"
proof -
  define eax where "eax = push_bit 24 (c AND 0xFF) OR push_bit 16 (c AND 0xFF)
     OR push_bit 8 (c AND 0xFF) OR (c AND 0xFF)"
  have b: "bytes32 eax = replicate 4 (ucast c)" unfolding eax_def by (rule memset_pattern)
  then have b0: "byte_of 0 eax = ucast c" by (simp add: byte_of_bytes32)
  show ?thesis
    using memset_top_wr [of eax "unat n" s m] b b0
    unfolding memset_def Let_def eax_def [symmetric] by simp
qed

section \<open>Copying\<close>

text \<open>
  An upward byte copy is right whenever the destination does not start inside the source
  (it may overlap it from below); every byte of the result is a byte of the old memory.
\<close>

definition copied :: "u32 \<Rightarrow> u32 \<Rightarrow> nat \<Rightarrow> mem \<Rightarrow> mem" where
  "copied d s n m = (\<lambda>p. if inr d n p then m (s + (p - d)) else m p)"

definition up_ok :: "u32 \<Rightarrow> u32 \<Rightarrow> nat \<Rightarrow> bool" where
  "up_ok d s n = (d = s \<or> n \<le> unat (d - s))"

lemma up_ok_step: "up_ok d s (Suc n) \<Longrightarrow> up_ok (d + 1) (s + 1) n"
  by (auto simp: up_ok_def)

lemma copied_wr: "n \<le> 2 ^ 32 \<Longrightarrow> copied d s n m = wr d (rd m s n) m"
  by (rule ext) (auto simp: copied_def wr_apply inr_def)

lemma inr_Suc: "n < 2 ^ 32 \<Longrightarrow> inr a (Suc n) p = (p = a \<or> inr (a + 1) n p)"
proof (cases "p = a")
  case False
  then show ?thesis using unat_minus_Suc [OF False] by (simp add: inr_def)
qed (simp add: inr_def)

lemma not_inr_before: "n < 2 ^ 32 \<Longrightarrow> \<not> inr (a + 1) n a"
proof -
  assume "n < 2 ^ 32"
  moreover have "unat (a - (a + 1)) = 2 ^ 32 - 1"
    by (simp add: unat_eq_nat_uint uint_word_ariths)
  ultimately show ?thesis by (simp add: inr_def)
qed

lemma up_ok_source:
  assumes "up_ok d s (Suc n)" and "inr (d + 1) n p" and "n < 2 ^ 32"
  shows "s + (p - d) = d \<longrightarrow> d = s"
proof
  assume eq: "s + (p - d) = d"
  show "d = s"
  proof (rule ccontr)
    assume "d \<noteq> s"
    with assms(1) have n: "Suc n \<le> unat (d - s)" by (simp add: up_ok_def)
    have "p - d = d - s" using eq by (simp add: algebra_simps)
    then have "Suc n \<le> unat (p - d)" using n by simp
    moreover have "inr d (Suc n) p" using assms(2,3) by (simp add: inr_Suc)
    ultimately show False by (simp add: inr_def)
  qed
qed

lemma copied_step:
  assumes "up_ok d s (Suc n)" and "n < 2 ^ 32"
  shows "copied (d + 1) (s + 1) n (m(d := m s)) = copied d s (Suc n) m"
proof (rule ext)
  fix p
  show "copied (d + 1) (s + 1) n (m(d := m s)) p = copied d s (Suc n) m p"
  proof (cases "inr (d + 1) n p")
    case True
    then have "inr d (Suc n) p" using assms(2) by (simp add: inr_Suc)
    then show ?thesis
      using True up_ok_source [OF assms(1) True assms(2)] by (auto simp: copied_def)
  next
    case False
    then show ?thesis using assms(2) by (auto simp: copied_def inr_Suc)
  qed
qed

lemma movsb_up_copied: "up_ok d s n \<Longrightarrow> n \<le> 2 ^ 32 \<Longrightarrow> movsb_up n d s m = copied d s n m"
proof (induction n arbitrary: d s m)
  case 0
  then show ?case by (simp add: copied_def)
next
  case (Suc n)
  then have "movsb_up n (d + 1) (s + 1) (m(d := m s)) = copied (d + 1) (s + 1) n (m(d := m s))"
    by (simp add: up_ok_step)
  then show ?case using Suc.prems by (simp add: copied_step)
qed

lemma memcpy_bottom_movsb: "memcpy_bottom n d s m = movsb_up n d s m"
  by (induction n arbitrary: d s m) simp_all

lemma movsb_up_add:
  "movsb_up (n + k) d s m = movsb_up k (d + of_nat n) (s + of_nat n) (movsb_up n d s m)"
  by (induction n arbitrary: d s m) (simp_all add: add.assoc)

text \<open>A dword move is four byte moves unless the destination starts inside the source dword.\<close>

lemma dword_move:
  assumes "up_ok d s 4"
  shows "st32 d (ld32 m s) m = movsb_up 4 d s m"
  using assms by (simp add: st32_def bytes32_ld32 movsb_up_copied copied_wr)

lemma up_ok_mono: "up_ok d s n \<Longrightarrow> k \<le> n \<Longrightarrow> up_ok d s k"
  by (auto simp: up_ok_def)

lemma up_ok_shift: "up_ok (d + x) (s + x) n = up_ok d s n"
  by (simp add: up_ok_def)

lemma rep_movsl_movsb: "up_ok d s (4 * n) \<Longrightarrow> rep_movsl n d s m = movsb_up (4 * n) d s m"
proof (induction n arbitrary: d s m)
  case (Suc n)
  have "st32 d (ld32 m s) m = movsb_up 4 d s m"
    by (rule dword_move) (rule up_ok_mono [OF Suc.prems], simp)
  moreover have "up_ok (d + 4) (s + 4) (4 * n)"
    using up_ok_mono [OF Suc.prems, of "4 * n"] by (simp add: up_ok_shift)
  ultimately have "rep_movsl (Suc n) d s m = movsb_up (4 * n) (d + 4) (s + 4) (movsb_up 4 d s m)"
    using Suc.IH by simp
  also have "\<dots> = movsb_up (4 + 4 * n) d s m" by (simp only: movsb_up_add of_nat_numeral)
  finally show ?case by simp
qed simp

lemma memcpy_top_movsb: "up_ok d s n \<Longrightarrow> memcpy_top n d s m = movsb_up n d s m"
proof (induction n d s m rule: memcpy_top.induct)
  case (2 ecx edi esi m)
  show ?case
  proof (cases "edi AND 3 = 0")
    case True
    let ?q = "Suc ecx div 4"
    have "up_ok edi esi (4 * ?q)" by (rule up_ok_mono [OF "2.prems"]) simp
    then have "memcpy_top (Suc ecx) edi esi m =
        movsb_up (Suc ecx mod 4) (edi + of_nat (4 * ?q)) (esi + of_nat (4 * ?q))
          (movsb_up (4 * ?q) edi esi m)"
      using True
      by (simp only: memcpy_top.simps if_True Let_def memcpy_bottom_movsb rep_movsl_movsb refl)
    then show ?thesis by (simp only: movsb_up_add [symmetric] mult_div_mod_eq)
  next
    case False
    with 2 show ?thesis by (simp add: up_ok_step fun_upd_def)
  qed
qed simp

lemma memcpy_copied:
  "up_ok d s (unat n) \<Longrightarrow> memcpy d s n m = copied d s (unat n) m"
  using unat_u32_less [of n] by (simp add: memcpy_def memcpy_top_movsb movsb_up_copied)

text \<open>A downward copy is right whenever the source does not start inside the destination.\<close>

lemma down_source:
  assumes "up_ok s d (Suc n)" and "Suc n < 2 ^ 32" and "inr d n p"
  shows "s + (p - d) \<noteq> d + of_nat n"
proof
  assume eq: "s + (p - d) = d + of_nat n"
  from assms(3) obtain i where i: "i < n" "p = d + of_nat i" by (rule inrE)
  have sd: "s - d = of_nat (n - i)" using eq i by (simp add: of_nat_diff algebra_simps)
  then have "unat (s - d) = n - i" using assms(2) by (simp add: unat_u32_of_nat)
  with assms(1) i have "s = d" by (auto simp: up_ok_def)
  with sd have "(of_nat (n - i) :: u32) = of_nat 0" by simp
  then have "n - i = 0" using assms(2) by (subst (asm) u32_of_nat_inj) auto
  with i show False by simp
qed

lemma copied_step_down:
  assumes "up_ok s d (Suc n)" and "Suc n < 2 ^ 32"
  shows "copied d s n (m(d + of_nat n := m (s + of_nat n))) = copied d s (Suc n) m"
proof (rule ext)
  fix p
  show "copied d s n (m(d + of_nat n := m (s + of_nat n))) p = copied d s (Suc n) m p"
  proof (cases "inr d n p")
    case True
    then have "inr d (Suc n) p" by (rule inr_mono) simp
    then show ?thesis using True down_source [OF assms True] by (simp add: copied_def)
  next
    case False
    show ?thesis
    proof (cases "p = d + of_nat n")
      case True
      then show ?thesis using False assms(2) by (simp add: copied_def del: of_nat_Suc)
    next
      case neq: False
      have "\<not> inr d (Suc n) p"
      proof
        assume "inr d (Suc n) p"
        then obtain i where "i < Suc n" "p = d + of_nat i" by (rule inrE)
        with False neq assms(2) show False by (cases "i = n") auto
      qed
      then show ?thesis using False neq by (simp add: copied_def)
    qed
  qed
qed

lemma movsb_down_copied:
  "up_ok s d n \<Longrightarrow> n < 2 ^ 32 \<Longrightarrow>
    movsb_down n (d + of_nat n - 1) (s + of_nat n - 1) m = copied d s n m"
proof (induction n arbitrary: m)
  case 0
  then show ?case by (simp add: copied_def)
next
  case (Suc n)
  then have "movsb_down n (d + of_nat n - 1) (s + of_nat n - 1) (m(d + of_nat n := m (s + of_nat n)))
      = copied d s n (m(d + of_nat n := m (s + of_nat n)))"
    by (intro Suc.IH) (auto simp: up_ok_def)
  then show ?case using copied_step_down [OF Suc.prems] by (simp add: algebra_simps)
qed

text \<open>
  \<open>memmove\<close> is right for every overlap, as long as neither buffer runs over the end of
  the address space.
\<close>

lemma memmove_copied:
  assumes "unat d + unat n \<le> 2 ^ 32" and "unat s + unat n \<le> 2 ^ 32"
  shows "fst (memmove d s n m) = copied d s (unat n) m"
proof (cases "d \<le> s")
  case True
  then have "up_ok d s (unat n)"
    using assms by (auto simp: up_ok_def unat_u32_minus word_le_nat_alt word_unat_eq_iff)
  then show ?thesis
    using True unat_u32_less [of n] by (simp add: memmove_def movsb_up_copied)
next
  case False
  then have "up_ok s d (unat n)"
    using assms by (auto simp: up_ok_def unat_u32_minus word_le_nat_alt word_unat_eq_iff)
  then show ?thesis
    using False unat_u32_less [of n] movsb_down_copied [of s d "unat n" m]
    by (simp add: memmove_def)
qed

section \<open>Properties\<close>

lemma rd_copied: "n \<le> 2 ^ 32 \<Longrightarrow> rd (copied d s n m) d n = rd m s n"
  using rd_wr_same [of "rd m s n" d m] by (simp add: copied_wr)

lemma copied_other: "\<not> inr d n p \<Longrightarrow> copied d s n m p = m p"
  by (simp add: copied_def)

lemma rep_stosw_wr:
  "rep_stosw n eax a m = wr a (concat (replicate n [byte_of 0 eax, byte_of 1 eax])) m"
  by (induction n arbitrary: a m) (simp_all add: wr_append fun_upd_def add.commute)

text \<open>C24: the assembly of \<open>memcpy\<close> (byte head up to alignment, dword body, byte tail) copies
  exactly the \<open>n\<close> source bytes and changes nothing else, whenever the destination does not
  start inside the source.\<close>
theorem memcpy_correct:
  assumes "up_ok dest src (unat n)"
  shows "rd (memcpy dest src n m) dest (unat n) = rd m src (unat n)
    \<and> (\<forall>p. inr dest (unat n) p \<or> memcpy dest src n m p = m p)"
proof -
  have "unat n \<le> 2 ^ 32" using unat_u32_less [of n] by linarith
  then show ?thesis
    unfolding memcpy_copied [OF assms] using rd_copied [of "unat n" dest src m] copied_other by blast
qed

theorem memcpy_correct_witness:
  "rd (memcpy 0x1003 0x2000 11 ucast) 0x1003 (unat (11::u32)) = rd ucast 0x2000 (unat (11::u32))"
proof -
  have "up_ok 0x1003 0x2000 (unat (11::u32))" by (simp add: up_ok_def unat_u32_minus)
  from memcpy_correct [OF this] show ?thesis by (rule conjunct1)
qed

text \<open>\<open>memmove\<close> copies correctly for every overlap of buffers that do not run over the
  end of the address space; it leaves the direction flag set exactly when it copied
  downwards.\<close>
theorem memmove_correct:
  assumes "unat dest + unat n \<le> 2 ^ 32" and "unat src + unat n \<le> 2 ^ 32"
  shows "rd (fst (memmove dest src n m)) dest (unat n) = rd m src (unat n)
    \<and> (\<forall>p. inr dest (unat n) p \<or> fst (memmove dest src n m) p = m p)
    \<and> snd (memmove dest src n m) = (src < dest)"
proof -
  have "snd (memmove dest src n m) = (src < dest)"
    by (cases "dest \<le> src") (simp_all add: memmove_def not_le not_less)
  moreover have "unat n \<le> 2 ^ 32" using unat_u32_less [of n] by linarith
  ultimately show ?thesis
    unfolding memmove_copied [OF assms] using rd_copied [of "unat n" dest src m] copied_other by blast
qed

theorem memmove_correct_witness:
  "rd (fst (memmove 0x1002 0x1000 5 ucast)) 0x1002 (unat (5::u32)) = rd ucast 0x1000 (unat (5::u32))"
proof -
  have "unat (0x1002::u32) + unat (5::u32) \<le> 2 ^ 32" "unat (0x1000::u32) + unat (5::u32) \<le> 2 ^ 32"
    by simp_all
  from memmove_correct [OF this] show ?thesis by (rule conjunct1)
qed

text \<open>\<open>memset\<close>, \<open>memset_word\<close> and \<open>memset_dword\<close> fill exactly \<open>n\<close> bytes, words
  and dwords with the low byte, low word and whole of \<open>c\<close>.\<close>
theorem memset_correct:
  "memset s c n m = wr s (replicate (unat n) (ucast c)) m
    \<and> memset_word s c n m = wr s (concat (replicate (unat n) [byte_of 0 c, byte_of 1 c])) m
    \<and> memset_dword s c n m = wr s (concat (replicate (unat n) (bytes32 c))) m"
  by (simp add: memset_wr memset_word_def memset_dword_def rep_stosw_wr rep_stosl_wr)

end
