(* ===== verification/Execute.thy ===== *)
theory Execute
  imports File_Ops Mem_Lib
begin

text \<open>
  \<open>execute\<close> of \<^verbatim>\<open>student-distrib/syscall.c\<close>: the checks, the choice of a pid, the parsing of
  the command line, the lookup and the check of the executable, the set-up of the PCB and of
  the terminal, the load of the image and the switch to user mode.  An outcome is what
  becomes of the control: a C return value, the entry of a user program by \<^verbatim>\<open>iret\<close>, a return
  from the frame whose \<open>ebp\<close>/\<open>esp\<close> have been loaded with a value in \<open>eax\<close> (\<open>halt\<close>), or the
  end of the current function on such a frame (\<open>switch_terminal\<close>, \<open>scheduling\<close>).
\<close>

datatype outcome = Ret int | Enter_user u32 | Return_to u32 u32 u32 | Resume u32 u32

section \<open>The command line\<close>

text \<open>The argument \<open>command_flag\<close> is 0 before the file name, 1 in it, 2 behind it, 3 in the
  arguments; \<open>None\<close> is the early return for a name of more than 32 characters.\<close>

fun parse_command :: "u8 list \<Rightarrow> nat \<Rightarrow> u8 list \<Rightarrow> u8 list \<Rightarrow> (u8 list \<times> u8 list) option" where
  "parse_command [] command_flag fname arg = Some (fname, arg)"
| "parse_command (c # cs) command_flag fname arg =
     (if c \<noteq> 0x20 \<and> (command_flag = 0 \<or> command_flag = 1)
      then (if 32 \<le> length fname then None else parse_command cs 1 (fname @ [c]) arg)
      else if c = 0x20 \<and> command_flag = 1 then parse_command cs 2 fname arg
      else if c \<noteq> 0x20 \<and> (command_flag = 2 \<or> command_flag = 3)
      then parse_command cs 3 fname (arg @ [c])
      else if c = 0x20 \<and> command_flag = 3 then parse_command cs 3 fname (arg @ [c])
      else parse_command cs command_flag fname arg)"

section \<open>Loading and starting\<close>

text \<open>The first pid that is not in use.\<close>

definition free_pid :: "u8 list \<Rightarrow> nat" where
  "free_pid st = length (takeWhile (\<lambda>x. x \<noteq> 0) st)"

definition all_busy :: "u8 list \<Rightarrow> bool" where
  "all_busy st \<longleftrightarrow> st ! 0 = 1 \<and> st ! 1 = 1 \<and> st ! 2 = 1 \<and> st ! 3 = 1 \<and> st ! 4 = 1 \<and> st ! 5 = 1"

lemma all_busy_iff: "all_busy st \<longleftrightarrow> (\<forall>i < 6. st ! i = 1)"
proof -
  have "{..<6} = {0, 1, 2, 3, 4, 5 :: nat}" by auto
  then have "(\<forall>i \<in> {..<6}. st ! i = 1) \<longleftrightarrow> all_busy st" by (simp add: all_busy_def)
  then show ?thesis by auto
qed

definition claim_slot :: "nat \<Rightarrow> int \<Rightarrow> 'a kernel_scheme \<Rightarrow> 'a kernel_scheme" where
  "claim_slot t cur_pid s =
     (if first_run (terminals s ! t) \<noteq> 0
      then let s = (if t = 0 then s\<lparr>last_shell := (last_shell s)[0 := 0]\<rparr> else s)
           in upd_term t (\<lambda>tm. tm\<lparr>processes := (processes tm)[0 := cur_pid], first_run := 0\<rparr>) s
      else upd_term t (\<lambda>tm. tm\<lparr>processes := (processes tm)[free_slot (processes tm) := cur_pid]\<rparr>) s)"

definition parent_of :: "nat \<Rightarrow> 'a kernel_scheme \<Rightarrow> int" where
  "parent_of t s = (if num_proc (terminals s ! t) = 0 then processes (terminals s ! t) ! 0
     else last_shell s ! t)"

definition setup_pcb :: "u8 list \<Rightarrow> int \<Rightarrow> pcb_t \<Rightarrow> pcb_t" where
  "setup_pcb arg parent p =
     (let fs = pcb_file p;
          fs = fs[0 := (fs ! 0)\<lparr>fd_flags := 1, fd_op := Some Stdin_op, fd_pos := 0\<rparr>];
          fs = fs[1 := (fs ! 1)\<lparr>fd_flags := 1, fd_op := Some Stdout_op, fd_pos := 0\<rparr>]
      in p\<lparr>parent_pid := parent, pcb_file := fs,
           pcb_arg := arg @ [0] @ drop (Suc (length arg)) (pcb_arg p)\<rparr>)"

definition is_shell :: "u8 list \<Rightarrow> bool" where
  "is_shell fname \<longleftrightarrow> arr fname 0 = 0x73 \<and> arr fname 1 = 0x68 \<and> arr fname 2 = 0x65
     \<and> arr fname 3 = 0x6C \<and> arr fname 4 = 0x6C \<and> arr fname 5 = 0"

definition PROGRAM_IMG_ADDR :: u32 where
  "PROGRAM_IMG_ADDR = 0x08048000"

text \<open>
  From the set-up of the PCB to the entry of the program, in four parts: the PCB and the slot
  of the terminal; parent, descriptors, arguments and counters; page and image (\<open>nbytes\<close> is
  16 bits wide); the saved frame, the task state segment and the \<^verbatim>\<open>iret\<close>.
\<close>

definition start_pcb :: "nat \<Rightarrow> 'a kernel_scheme \<Rightarrow> 'a kernel_scheme" where
  "start_pcb cur_pid s =
     (let t = unat (get_current_terminal s);
          cur_process = get_pcb (of_nat cur_pid);
          s = upd_pcb cur_process (\<lambda>p. p\<lparr>pcb_pid := int cur_pid\<rparr>) s;
          s = upd_term t (\<lambda>tm. tm\<lparr>term_proc := cur_process\<rparr>) s
      in claim_slot t (int cur_pid) s)"

definition start_process :: "u8 list \<Rightarrow> u8 list \<Rightarrow> nat \<Rightarrow> 'a kernel_scheme \<Rightarrow> 'a kernel_scheme" where
  "start_process fname arg cur_pid s =
     (let t = unat (get_current_terminal s);
          s = upd_pcb (get_pcb (of_nat cur_pid)) (setup_pcb arg (parent_of t s)) s;
          s = (if 128 < length arg then s\<lparr>wild := True\<rparr> else s);
          s = upd_term t (\<lambda>tm. tm\<lparr>num_proc := num_proc tm + 1\<rparr>) s
      in if is_shell fname then s\<lparr>last_shell := (last_shell s)[t := int cur_pid]\<rparr> else s)"

definition load_image :: "nat \<Rightarrow> u16 \<Rightarrow> 'a kernel_scheme \<Rightarrow> 'a kernel_scheme" where
  "load_image cur_pid nbytes s =
     (let s = set_process_page (0x800000 + of_nat cur_pid * 0x400000) s
      in s\<lparr>mem := memcpy PROGRAM_IMG_ADDR (file_data_addr s) (ucast nbytes) (mem s)\<rparr>)"

definition enter_program :: "nat \<Rightarrow> 'a kernel_scheme \<Rightarrow> outcome \<times> 'a kernel_scheme" where
  "enter_program cur_pid s =
     (let cur_process = get_pcb (of_nat cur_pid);
          s = upd_pcb cur_process (\<lambda>p. p\<lparr>parent_esp := cpu_esp s, parent_ebp := cpu_ebp s\<rparr>) s;
          s = upd_term (running_term s) (\<lambda>tm. tm\<lparr>term_proc := cur_process\<rparr>) s;
          s = s\<lparr>tss_ss0 := 0x18, tss_esp0 := 0x800000 - of_nat cur_pid * 0x2000 - 4\<rparr>
      in (Enter_user (ld32 (mem s) (file_data_addr s + 24)), sti s))"

definition execute_start ::
  "u8 list \<Rightarrow> u8 list \<Rightarrow> nat \<Rightarrow> u16 \<Rightarrow> 'a kernel_scheme \<Rightarrow> outcome \<times> 'a kernel_scheme" where
  "execute_start fname arg cur_pid nbytes s =
     enter_program cur_pid (load_image cur_pid nbytes (start_process fname arg cur_pid
       (start_pcb cur_pid s)))"

definition free_process :: "nat \<Rightarrow> 'a kernel_scheme \<Rightarrow> 'a kernel_scheme" where
  "free_process p s = s\<lparr>process_state := (process_state s)[p := 0]\<rparr>"

definition exe_identifier :: "u8 list" where
  "exe_identifier = [0x7F, 0x45, 0x4C, 0x46]"

definition execute_load ::
  "u8 list \<Rightarrow> u8 list \<Rightarrow> nat \<Rightarrow> 'a kernel_scheme \<Rightarrow> outcome \<times> 'a kernel_scheme" where
  "execute_load fname arg active_pid s =
     (case read_dentry_by_name (arr fname) s of
        None \<Rightarrow> (Ret (- 1), free_process active_pid
                  (print (''execute error: file not found'' @ [CHR 0x0A]) s))
      | Some dentry \<Rightarrow>
          (let (n, s) = read_data (of_int (inode_num dentry)) 0 (file_data_addr s) (len_inodes s) s
           in if strncmp (at (mem s) (file_data_addr s)) (arr exe_identifier) 4 \<noteq> 0
              then (Ret (- 1), free_process active_pid
                     (print (''execute error: file not an executable'' @ [CHR 0x0A]) s))
              else execute_start fname arg active_pid (of_nat n) s))"

text \<open>The command as a string; a state that is neither 0 nor 1 would leave \<open>active_pid\<close> unset.\<close>

definition execute_cmd :: "u8 list \<Rightarrow> 'a kernel_scheme \<Rightarrow> outcome \<times> 'a kernel_scheme" where
  "execute_cmd command s =
     (let s = s\<lparr>shell_flag := 1\<rparr>; t = unat (get_current_terminal s)
      in if command = []
         then (Ret (- 1), print (''execute error: command error'' @ [CHR 0x0A]) s)
         else if all_busy (process_state s)
         then (Ret (- 1), print (''execute: no available process(es)'' @ [CHR 0x0A]) s)
         else if 3 < num_proc (terminals s ! t)
         then (Ret (- 1), print (''execute: no available process(es)'' @ [CHR 0x0A]) s)
         else let active_pid = free_pid (process_state s);
                  s = (if active_pid < 6
                       then s\<lparr>process_state := (process_state s)[active_pid := 1]\<rparr>
                       else s\<lparr>wild := True\<rparr>)
              in case parse_command command 0 [] [] of
                   None \<Rightarrow> (Ret (- 1), print (''execute error: filename too long'' @ [CHR 0x0A]) s)
                 | Some (fname, arg) \<Rightarrow> execute_load fname arg active_pid s)"

text \<open>The system call takes a pointer; \<open>strlen\<close> of a memory without a NUL byte does not return.\<close>

definition execute :: "u32 \<Rightarrow> 'a kernel_scheme \<Rightarrow> (outcome \<times> 'a kernel_scheme) option" where
  "execute command s =
     (if command = 0 then Some (execute_cmd [] s)
      else case strlen (mem s) command of
             None \<Rightarrow> None
           | Some n \<Rightarrow> Some (execute_cmd (rd (mem s) command (unat n)) s))"

section \<open>What the parser accepts\<close>

definition blank :: "u8 \<Rightarrow> bool" where
  "blank c = (c = 0x20)"

definition command_name :: "u8 list \<Rightarrow> u8 list" where
  "command_name cs = takeWhile (\<lambda>c. \<not> blank c) (dropWhile blank cs)"

definition command_args :: "u8 list \<Rightarrow> u8 list" where
  "command_args cs = dropWhile blank (dropWhile (\<lambda>c. \<not> blank c) (dropWhile blank cs))"

lemma parse_args: "parse_command cs 3 f a = Some (f, a @ cs)"
  by (induction cs arbitrary: a) auto

lemma parse_gap: "parse_command cs 2 f a = Some (f, a @ dropWhile blank cs)"
  by (induction cs) (auto simp: blank_def parse_args)

lemma parse_name: "length f \<le> 32 \<Longrightarrow> parse_command cs 1 f a =
    (if 32 < length (f @ takeWhile (\<lambda>c. \<not> blank c) cs) then None
     else Some (f @ takeWhile (\<lambda>c. \<not> blank c) cs,
       a @ dropWhile blank (dropWhile (\<lambda>c. \<not> blank c) cs)))"
  by (induction cs arbitrary: f) (auto simp: blank_def parse_gap)

lemma parse_command_words: "parse_command cs 0 [] [] =
    (if 32 < length (command_name cs) then None else Some (command_name cs, command_args cs))"
proof (induction cs)
  case (Cons c cs)
  then show ?case
    using parse_name [of "[c]" cs "[]"]
    by (auto simp: command_name_def command_args_def blank_def)
qed (simp add: command_name_def command_args_def)

section \<open>The process table\<close>

lemma upd_term_fields [frame_simps, simp]:
  "mem (upd_term t f s) = mem s" "cur_term (upd_term t f s) = cur_term s"
  "running_term (upd_term t f s) = running_term s" "pcbs (upd_term t f s) = pcbs s"
  "process_state (upd_term t f s) = process_state s" "last_shell (upd_term t f s) = last_shell s"
  "file_data_addr (upd_term t f s) = file_data_addr s" "wild (upd_term t f s) = wild s"
  "terminals (upd_term t f s) = (terminals s)[t := f (terminals s ! t)]"
  by (simp_all add: upd_term_def)

lemma claim_slot_fields [frame_simps, simp]:
  "mem (claim_slot t p s) = mem s" "cur_term (claim_slot t p s) = cur_term s"
  "running_term (claim_slot t p s) = running_term s" "pcbs (claim_slot t p s) = pcbs s"
  "process_state (claim_slot t p s) = process_state s"
  "file_data_addr (claim_slot t p s) = file_data_addr s" "wild (claim_slot t p s) = wild s"
  by (simp_all add: claim_slot_def Let_def)

text \<open>A terminal whose slot is taken but whose process is not yet counted.\<close>

definition claimed :: "int list \<Rightarrow> int \<Rightarrow> terminal_t \<Rightarrow> bool" where
  "claimed g p tm \<longleftrightarrow> processes tm = g @ [p] @ replicate (3 - length g) (- 1)
     \<and> num_proc tm = int (length g) \<and> first_run tm = 0"

lemma replicate_Suc_update: "k = Suc n \<Longrightarrow> (xs @ replicate k y)[length xs := x] = xs @ [x] @ replicate n y"
  by simp

lemma claim_slot_claimed:
  assumes "term_ok g (terminals s ! t)" "length g < 4" "t < length (terminals s)"
  shows "claimed g p (terminals (claim_slot t p s) ! t)"
    and "terminals (claim_slot t p s) = (terminals s)[t := terminals (claim_slot t p s) ! t]"
proof -
  have g: "processes (terminals s ! t) = g @ replicate (4 - length g) (- 1)"
      "num_proc (terminals s ! t) = int (length g)" "first_run (terminals s ! t) \<noteq> 0 \<longrightarrow> g = []"
      "- 1 \<notin> set g"
    using assms(1) by (auto simp: term_ok_def)
  have k: "4 - length g = Suc (3 - length g)" using assms(2) by simp
  have upd: "(processes (terminals s ! t))[length g := p] = g @ [p] @ replicate (3 - length g) (- 1)"
    unfolding g(1) by (rule replicate_Suc_update [OF k])
  have slot: "free_slot (processes (terminals s ! t)) = length g"
    unfolding g(1) by (rule free_slot_take [OF g(4)])
  show "claimed g p (terminals (claim_slot t p s) ! t)"
    using upd slot g assms(3) by (auto simp: claimed_def claim_slot_def Let_def)
  show "terminals (claim_slot t p s) = (terminals s)[t := terminals (claim_slot t p s) ! t]"
    using assms(3) by (cases "t = 0") (auto simp: claim_slot_def Let_def)
qed

lemma claimed_counted:
  "claimed g p tm \<Longrightarrow> length g < 4 \<Longrightarrow> - 1 \<notin> set g \<Longrightarrow> p \<noteq> - 1 \<Longrightarrow>
    term_ok (g @ [p]) (tm\<lparr>num_proc := num_proc tm + 1\<rparr>)"
  by (simp add: claimed_def term_ok_def)

lemma term_ok_proc: "term_ok g (tm\<lparr>term_proc := a\<rparr>) = term_ok g tm"
  by (simp add: term_ok_def)

text \<open>A pid that is marked as in use but belongs to no terminal yet.\<close>

definition reserved :: "nat \<Rightarrow> 'a kernel_scheme \<Rightarrow> int list list \<Rightarrow> bool" where
  "reserved p s gs \<longleftrightarrow> p < 6 \<and> int p \<notin> set (concat gs) \<and> procs (free_process p s) gs
     \<and> process_state s ! p = 1"

lemma process_state_length: "procs s gs \<Longrightarrow> length (process_state s) = 6"
  by (simp add: procs_def)

lemma free_pid_reserved:
  assumes "procs s gs" "free_pid (process_state s) < 6"
  shows "reserved (free_pid (process_state s))
    (s\<lparr>process_state := (process_state s)[free_pid (process_state s) := 1]\<rparr>) gs"
proof -
  let ?p = "free_pid (process_state s)"
  have l: "length (process_state s) = 6" by (rule process_state_length [OF assms(1)])
  have z: "process_state s ! ?p = 0"
    using nth_length_takeWhile [of "\<lambda>x. x \<noteq> 0" "process_state s"] assms(2) l
    by (simp add: free_pid_def)
  have ps: "process_state s = map (\<lambda>p. if int p \<in> set (concat gs) then 1 else 0) [0..<6]"
    using assms(1) by (simp only: procs_def)
  have "process_state s ! ?p = (if int ?p \<in> set (concat gs) then 1 else 0)"
    using assms(2) by (subst ps) (simp only: nth_map length_upt nth_upt diff_zero add_0)
  then have "int ?p \<notin> set (concat gs)" using z by (metis one_neq_zero)
  moreover have "(process_state s)[?p := 0] = process_state s"
    using z by (metis list_update_id)
  ultimately show ?thesis
    using assms l by (simp add: reserved_def free_process_def)
qed

lemma length_takeWhile_less: "x \<in> set xs \<Longrightarrow> \<not> P x \<Longrightarrow> length (takeWhile P xs) < length xs"
  by (induction xs) auto

lemma free_pid_exists:
  assumes "procs s gs" "\<not> all_busy (process_state s)"
  shows "free_pid (process_state s) < 6"
proof -
  have ps: "process_state s = map (\<lambda>p. if int p \<in> set (concat gs) then 1 else 0) [0..<6]"
    using assms(1) by (simp only: procs_def)
  from assms(2) obtain i where i: "i < 6" "process_state s ! i \<noteq> 1"
    by (auto simp: all_busy_iff)
  have "process_state s ! i = (if int i \<in> set (concat gs) then 1 else 0)"
    using i(1) by (subst ps) (simp only: nth_map length_upt nth_upt diff_zero add_0)
  then have "process_state s ! i = 0" using i(2) by (simp split: if_splits)
  then have "0 \<in> set (process_state s)"
    using i(1) process_state_length [OF assms(1)] nth_mem [of i "process_state s"] by simp
  then show ?thesis
    using length_takeWhile_less [of 0 "process_state s" "\<lambda>x. x \<noteq> 0"]
    by (simp add: free_pid_def process_state_length [OF assms(1)])
qed

lemma reserved_cong:
  assumes "reserved p s gs" "terminals s' = terminals s" "cur_term s' = cur_term s"
    "process_state s' = process_state s" "pcbs s' = pcbs s"
  shows "reserved p s' gs"
  using assms by (simp add: reserved_def procs_def free_process_def)

lemma reserved_free: "reserved p s gs \<Longrightarrow> procs (free_process p s) gs"
  by (simp add: reserved_def)

lemma procs_current: "procs s gs \<Longrightarrow> unat (get_current_terminal s) = cur_term s"
  by (simp add: procs_def get_current_terminal_def unat_of_nat take_bit_eq_mod)

lemma concat_update_set:
  "t < length gs \<Longrightarrow> set (concat (gs[t := gs ! t @ [p]])) = insert p (set (concat gs))"
  by (induction gs arbitrary: t) (auto split: nat.splits)

lemma concat_update_distinct:
  "t < length gs \<Longrightarrow> distinct (concat gs) \<Longrightarrow> p \<notin> set (concat gs) \<Longrightarrow>
    distinct (concat (gs[t := gs ! t @ [p]]))"
proof (induction gs arbitrary: t)
  case (Cons g gs)
  then show ?case using concat_update_set [of _ gs p] by (cases t) auto
qed simp

lemma start_process_fields:
  "terminals (start_process f a p s) = (terminals s)[unat (get_current_terminal s) :=
     (terminals s ! unat (get_current_terminal s))
       \<lparr>num_proc := num_proc (terminals s ! unat (get_current_terminal s)) + 1\<rparr>]"
  "cur_term (start_process f a p s) = cur_term s"
  "running_term (start_process f a p s) = running_term s"
  "process_state (start_process f a p s) = process_state s"
  "pcbs (start_process f a p s) = (pcbs s)(get_pcb (of_nat p) :=
     setup_pcb a (parent_of (unat (get_current_terminal s)) s) (pcbs s (get_pcb (of_nat p))))"
  "mem (start_process f a p s) = mem s" "file_data_addr (start_process f a p s) = file_data_addr s"
  by (simp_all add: start_process_def Let_def get_current_terminal_def upd_pcb_def)

lemma load_image_fields:
  "terminals (load_image p n s) = terminals s" "cur_term (load_image p n s) = cur_term s"
  "running_term (load_image p n s) = running_term s"
  "process_state (load_image p n s) = process_state s" "pcbs (load_image p n s) = pcbs s"
  "file_data_addr (load_image p n s) = file_data_addr s" "cpu_esp (load_image p n s) = cpu_esp s"
  "cpu_ebp (load_image p n s) = cpu_ebp s"
  by (simp_all add: load_image_def Let_def)

lemma start_pcb_fields:
  "cur_term (start_pcb p s) = cur_term s" "running_term (start_pcb p s) = running_term s"
  "process_state (start_pcb p s) = process_state s" "mem (start_pcb p s) = mem s"
  "pcbs (start_pcb p s) = (pcbs s)(get_pcb (of_nat p) := (pcbs s (get_pcb (of_nat p)))\<lparr>pcb_pid := int p\<rparr>)"
  "file_data_addr (start_pcb p s) = file_data_addr s"
  by (simp_all add: start_pcb_def Let_def upd_pcb_def)

lemma enter_program_fields:
  "terminals (snd (enter_program p s)) = (terminals s)[running_term s :=
     (terminals s ! running_term s)\<lparr>term_proc := get_pcb (of_nat p)\<rparr>]"
  "cur_term (snd (enter_program p s)) = cur_term s"
  "process_state (snd (enter_program p s)) = process_state s"
  "pcbs (snd (enter_program p s)) = (pcbs s)(get_pcb (of_nat p) :=
     (pcbs s (get_pcb (of_nat p)))\<lparr>parent_esp := cpu_esp s, parent_ebp := cpu_ebp s\<rparr>)"
  "mem (snd (enter_program p s)) = mem s"
  "fst (enter_program p s) = Enter_user (ld32 (mem s) (file_data_addr s + 24))"
  by (simp_all add: enter_program_def Let_def upd_pcb_def)

lemmas start_fields = start_process_fields load_image_fields start_pcb_fields enter_program_fields

lemma pid_ok_other:
  "pid_ok ps q \<Longrightarrow> q \<noteq> int p \<Longrightarrow> p < 6 \<Longrightarrow> pid_ok (ps(get_pcb (of_nat p) := x)) q"
proof -
  assume a: "pid_ok ps q" "q \<noteq> int p" "p < 6"
  then obtain k where k: "q = int k" "k < 6" "k \<noteq> p"
    by (metis pid_ok_def nonneg_int_cases of_nat_less_numeral_iff)
  have "get_pcb (of_nat k) \<noteq> get_pcb (of_nat p)" using get_pcb_inj [OF k(2) a(3)] k(3) by blast
  then show ?thesis using a(1) by (simp add: pid_ok_def k(1))
qed

lemma pid_ok_new: "p < 6 \<Longrightarrow> pcb_pid x = int p \<Longrightarrow> pid_ok (ps(get_pcb (of_nat p) := x)) (int p)"
  by (simp add: pid_ok_def)

lemma pcb_pid_setup [simp]: "pcb_pid (setup_pcb a q x) = pcb_pid x"
  by (simp add: setup_pcb_def Let_def)

text \<open>A started program is the new last process of the displayed terminal.\<close>

lemma execute_start_procs:
  assumes "reserved p s gs" "length (gs ! cur_term s) < 4"
  shows "procs (snd (execute_start f a p n s)) (gs[cur_term s := gs ! cur_term s @ [int p]])"
proof -
  let ?t = "cur_term s" and ?g = "gs ! cur_term s"
  let ?s1 = "start_pcb p s"
  have pr: "procs (free_process p s) gs" and p: "p < 6" "int p \<notin> set (concat gs)"
      "process_state s ! p = 1"
    using assms(1) by (auto simp: reserved_def)
  have fp: "terminals (free_process p s) = terminals s" "cur_term (free_process p s) = ?t"
      "pcbs (free_process p s) = pcbs s" "process_state (free_process p s) = (process_state s)[p := 0]"
    by (simp_all add: free_process_def)
  have t: "?t < 3" "length gs = 3" "length (terminals s) = 3"
    using pr procs_terms [OF pr] by (auto simp: procs_def fp)
  have u: "unat (get_current_terminal s) = ?t" using procs_current [OF pr] by (simp add: fp get_current_terminal_def)
  have la: "list_all2 term_ok gs (terminals s)" using pr by (simp add: procs_def fp)
  have tg: "term_ok ?g (terminals s ! ?t)" using term_of [OF pr] t by (simp add: fp)
  let ?s0 = "upd_term ?t (\<lambda>tm. tm\<lparr>term_proc := get_pcb (of_nat p)\<rparr>)
      (upd_pcb (get_pcb (of_nat p)) (\<lambda>p'. p'\<lparr>pcb_pid := int p\<rparr>) s)"
  have s1: "?s1 = claim_slot ?t (int p) ?s0"
    by (simp add: start_pcb_def Let_def u)
  have s0: "terminals ?s0 = (terminals s)[?t := (terminals s ! ?t)\<lparr>term_proc := get_pcb (of_nat p)\<rparr>]"
    by simp
  have "term_ok ?g (terminals ?s0 ! ?t)" using tg t by (simp add: s0 term_ok_proc)
  note cl = claim_slot_claimed [OF this assms(2), of "int p"]
  have len0: "?t < length (terminals ?s0)" using t by simp
  have c1: "claimed ?g (int p) (terminals ?s1 ! ?t)" unfolding s1 by (rule cl(1) [OF len0])
  have "terminals ?s1 = (terminals ?s0)[?t := terminals ?s1 ! ?t]" unfolding s1 by (rule cl(2) [OF len0])
  then have c2: "terminals ?s1 = (terminals s)[?t := terminals ?s1 ! ?t]"
    unfolding s0 list_update_overwrite .
  have u1: "unat (get_current_terminal ?s1) = ?t"
    using u by (simp add: get_current_terminal_def start_pcb_fields)
  let ?tm = "(terminals ?s1 ! ?t)\<lparr>num_proc := num_proc (terminals ?s1 ! ?t) + 1\<rparr>"
  let ?s2 = "start_process f a p ?s1"
  have ts2: "terminals ?s2 = (terminals s)[?t := ?tm]"
    unfolding start_process_fields u1 using c2 by (metis list_update_overwrite)
  have "term_ok (?g @ [int p]) ?tm"
    by (rule claimed_counted [OF c1 assms(2)]) (use tg in \<open>auto simp: term_ok_def\<close>)
  then have la2: "list_all2 term_ok (gs[?t := ?g @ [int p]]) (terminals ?s2)"
    unfolding ts2 by (rule list_all2_update_cong [OF la])
  let ?s3 = "load_image p n ?s2"
  let ?s4 = "snd (execute_start f a p n s)"
  have ts4: "terminals ?s4 = (terminals ?s2)[running_term s :=
      (terminals ?s2 ! running_term s)\<lparr>term_proc := get_pcb (of_nat p)\<rparr>]"
    unfolding execute_start_def enter_program_fields load_image_fields start_process_fields(3)
      start_pcb_fields(2) ..
  have la4: "list_all2 term_ok (gs[?t := ?g @ [int p]]) (terminals ?s4)"
  proof (cases "running_term s < 3")
    case True
    then have "term_ok (gs[?t := ?g @ [int p]] ! running_term s) (terminals ?s2 ! running_term s)"
      using la2 t by (auto simp: list_all2_conv_all_nth)
    then have "list_all2 term_ok ((gs[?t := ?g @ [int p]])[running_term s := gs[?t := ?g @ [int p]] ! running_term s])
        (terminals ?s4)"
      unfolding ts4 by (intro list_all2_update_cong [OF la2]) (simp add: term_ok_proc)
    then show ?thesis by (simp only: list_update_id)
  next
    case False
    then have "terminals ?s4 = terminals ?s2"
      using list_all2_lengthD [OF la2] t(2) unfolding ts4 by (intro list_update_beyond) simp
    then show ?thesis using la2 by simp
  qed
  have st: "process_state s = map (\<lambda>q. if int q \<in> insert (int p) (set (concat gs)) then 1 else 0) [0..<6]"
  proof -
    have "(process_state s)[p := 0] = map (\<lambda>q. if int q \<in> set (concat gs) then 1 else 0) [0..<6]"
      using pr by (simp add: procs_def fp)
    then have "process_state s = (map (\<lambda>q. if int q \<in> set (concat gs) then 1 else 0) [0..<6])[p := 1]"
      using p(3) by (metis list_update_id list_update_overwrite)
    also have "\<dots> = map (\<lambda>q. if int q \<in> insert (int p) (set (concat gs)) then 1 else 0) [0..<6]"
      using p(1) by (intro nth_equalityI) (auto simp: nth_list_update)
    finally show ?thesis .
  qed
  have pids: "pid_ok (pcbs ?s4) q" if "q \<in> insert (int p) (set (concat gs))" for q
  proof (cases "q = int p")
    case True
    then show ?thesis using p(1) by (auto simp: execute_start_def start_fields intro: pid_ok_new)
  next
    case False
    then have "pid_ok (pcbs s) q" using that pr by (auto simp: procs_def fp)
    then show ?thesis using False p(1) by (auto simp: execute_start_def start_fields intro!: pid_ok_other)
  qed
  have "cur_term ?s4 = ?t" "process_state ?s4 = process_state s"
    by (simp_all add: execute_start_def start_fields)
  then show ?thesis
    using la4 t concat_update_set [of ?t gs "int p"] concat_update_distinct [of ?t gs "int p"] pr p(2) st pids
    unfolding procs_def by (simp add: fp)
qed

text \<open>The state in which the executable is looked up: the pid is taken.\<close>

definition take_pid :: "'a kernel_scheme \<Rightarrow> 'a kernel_scheme" where
  "take_pid s = s\<lparr>shell_flag := 1, process_state := (process_state s)[free_pid (process_state s) := 1]\<rparr>"

lemma take_pid_reserved:
  assumes "procs s gs" "free_pid (process_state s) < 6"
  shows "reserved (free_pid (process_state s)) (take_pid s) gs"
  by (rule reserved_cong [OF free_pid_reserved [OF assms]]) (simp_all add: take_pid_def)

lemma num_proc_full: "procs s gs \<Longrightarrow> 3 < num_proc (terminals s ! cur_term s) \<longleftrightarrow> \<not> length (gs ! cur_term s) < 4"
  using term_of [of s gs "cur_term s"] by (auto simp: procs_def term_ok_def)

lemma execute_cmd_cases:
  assumes "procs s gs" "command \<noteq> []" "\<not> all_busy (process_state s)"
    "length (gs ! cur_term s) < 4"
  shows "execute_cmd command s =
    (if 32 < length (command_name command)
     then (Ret (- 1), print (''execute error: filename too long'' @ [CHR 0x0A]) (take_pid s))
     else execute_load (command_name command) (command_args command) (free_pid (process_state s))
            (take_pid s))"
proof -
  have "unat (get_current_terminal (s\<lparr>shell_flag := 1\<rparr>)) = cur_term s"
    using procs_current [OF assms(1)] by (simp add: get_current_terminal_def)
  moreover have "\<not> 3 < num_proc (terminals s ! cur_term s)"
    using num_proc_full [OF assms(1)] assms(4) by simp
  moreover have "free_pid (process_state s) < 6" by (rule free_pid_exists [OF assms(1,3)])
  ultimately show ?thesis
    using assms(2,3)
    by (simp add: execute_cmd_def Let_def parse_command_words take_pid_def)
qed

lemma execute_cmd_refused:
  assumes "procs s gs"
    "command = [] \<or> all_busy (process_state s) \<or> \<not> length (gs ! cur_term s) < 4"
  shows "\<exists>msg. execute_cmd command s = (Ret (- 1), print msg (s\<lparr>shell_flag := 1\<rparr>))"
proof -
  have "unat (get_current_terminal (s\<lparr>shell_flag := 1\<rparr>)) = cur_term s"
    using procs_current [OF assms(1)] by (simp add: get_current_terminal_def)
  then show ?thesis
    using assms(2) num_proc_full [OF assms(1)] by (auto simp: execute_cmd_def Let_def)
qed

lemma execute_load_cases:
  assumes "reserved p s gs" "length (gs ! cur_term s) < 4"
  shows "(\<exists>s'. execute_load f a p s = (Ret (- 1), s') \<and> procs s' gs)
    \<or> (\<exists>eip s'. execute_load f a p s = (Enter_user eip, s')
         \<and> procs s' (gs[cur_term s := gs ! cur_term s @ [int p]]))"
proof (cases "read_dentry_by_name (arr f) s")
  case None
  let ?s' = "print (''execute error: file not found'' @ [CHR 0x0A]) s"
  have "procs (free_process p ?s') gs"
    by (rule reserved_free) (rule reserved_cong [OF assms(1)], simp_all)
  then show ?thesis using None by (simp add: execute_load_def)
next
  case (Some d)
  obtain n t where nt: "read_data (of_int (inode_num d)) 0 (file_data_addr s) (len_inodes s) s = (n, t)"
    by (cases "read_data (of_int (inode_num d)) 0 (file_data_addr s) (len_inodes s) s")
  note fr = read_data_kernel [OF nt]
  have rt: "reserved p t gs" by (rule reserved_cong [OF assms(1)]) (simp_all add: fr)
  let ?s' = "print (''execute error: file not an executable'' @ [CHR 0x0A]) t"
  have "procs (free_process p ?s') gs"
    by (rule reserved_free) (rule reserved_cong [OF rt], simp_all)
  moreover have "procs (snd (execute_start f a p (of_nat n) t)) (gs[cur_term s := gs ! cur_term s @ [int p]])"
    using execute_start_procs [OF rt] assms(2) by (simp add: fr)
  moreover have "\<exists>eip. fst (execute_start f a p (of_nat n) t) = Enter_user eip"
    by (simp add: execute_start_def enter_program_fields)
  moreover have "execute_load f a p s =
      (if strncmp (at (mem t) (file_data_addr t)) (arr exe_identifier) 4 \<noteq> 0
       then (Ret (- 1), free_process p ?s') else execute_start f a p (of_nat n) t)"
    by (simp only: execute_load_def Some nt option.case prod.case Let_def)
  ultimately show ?thesis by (metis prod.collapse)
qed

lemma execute_cmd_procs:
  assumes "procs s gs" "length (command_name command) \<le> 32"
  shows "(\<exists>s'. execute_cmd command s = (Ret (- 1), s') \<and> procs s' gs)
    \<or> (\<exists>eip s' p. execute_cmd command s = (Enter_user eip, s') \<and> p = free_pid (process_state s)
         \<and> p < 6 \<and> int p \<notin> set (concat gs) \<and> length (gs ! cur_term s) < 4
         \<and> procs s' (gs[cur_term s := gs ! cur_term s @ [int p]]))"
proof (cases "command = [] \<or> all_busy (process_state s) \<or> \<not> length (gs ! cur_term s) < 4")
  case True
  then obtain msg where m: "execute_cmd command s = (Ret (- 1), print msg (s\<lparr>shell_flag := 1\<rparr>))"
    using execute_cmd_refused [OF assms(1)] by blast
  have "procs (print msg (s\<lparr>shell_flag := 1\<rparr>)) gs" using assms(1) by (simp add: procs_def)
  with m show ?thesis by blast
next
  case False
  then have a: "command \<noteq> []" "\<not> all_busy (process_state s)"
      "length (gs ! cur_term s) < 4" by auto
  have p: "free_pid (process_state s) < 6" by (rule free_pid_exists [OF assms(1) a(2)])
  have r: "reserved (free_pid (process_state s)) (take_pid s) gs" by (rule take_pid_reserved [OF assms(1) p])
  then have np: "int (free_pid (process_state s)) \<notin> set (concat gs)" by (simp add: reserved_def)
  have ct: "cur_term (take_pid s) = cur_term s" by (simp add: take_pid_def)
  let ?l = "execute_load (command_name command) (command_args command) (free_pid (process_state s))
    (take_pid s)"
  have l: "execute_cmd command s = ?l" using execute_cmd_cases [OF assms(1) a] assms(2) by simp
  from execute_load_cases [OF r, unfolded ct, OF a(3)] show ?thesis
    unfolding l using p np a(3) by blast
qed

section \<open>The image\<close>

lemma dentry_loop_cong:
  "mem t = mem s \<Longrightarrow> boot_block t = boot_block s \<Longrightarrow> dentry_loop k i f t = dentry_loop k i f s"
  by (induction k arbitrary: i) (simp_all add: dir_entry_addr_def)

lemma read_dentry_by_name_cong:
  "mem t = mem s \<Longrightarrow> boot_block t = boot_block s \<Longrightarrow>
    read_dentry_by_name f t = read_dentry_by_name f s"
  by (auto simp: read_dentry_by_name_def dir_count_def dentry_loop_cong [of t s]
      read_dentry_by_index_def dir_entry_addr_def split: option.splits)

lemma set_process_page_mem: "\<not> inr USER 0x400000 p \<Longrightarrow> mem (set_process_page a s) p = mem s p"
  by (simp add: set_process_page_def flush_tlb_def Let_def)

lemma set_process_page_dir:
  "page_directory (set_process_page a s) = (page_directory s)[32 := a OR 0x87]"
  by (simp add: set_process_page_def)

text \<open>An executable that \<open>execute\<close> accepts, and a place for \<open>file_data\<close> that overlaps neither the
  image of the file system nor the user page.\<close>

definition loadable :: "u32 \<Rightarrow> 'a kernel_scheme \<Rightarrow> bool" where
  "loadable ino s \<longleftrightarrow> ino < inode_count s
     \<and> buffer_apart (file_data_addr s) (unat (len_inodes s)) ino s
     \<and> apart (file_data_addr s) (unat (len_inodes s)) USER 0x400000
     \<and> take 4 (contents s ino) = exe_identifier
     \<and> 28 \<le> length (contents s ino) \<and> length (contents s ino) \<le> 0xFFFF
     \<and> length (contents s ino) \<le> unat (len_inodes s)"

lemma magic_ok:
  assumes "rd m a n = bytes" "4 \<le> n" "take 4 bytes = exe_identifier"
  shows "strncmp (at m a) (arr exe_identifier) 4 = 0"
proof -
  have "rd m a 4 = exe_identifier" using take_rd [of 4 n m a] assms by simp
  then have "upto0 (at m a) 0 4 = exe_identifier" by (simp add: upto0_at cstrn_def exe_identifier_def)
  moreover have "upto0 (arr exe_identifier) 0 4 = exe_identifier"
    using upto0_arr_take [of 4 exe_identifier] by (simp add: exe_identifier_def)
  ultimately show ?thesis by (simp add: strncmp_0_iff)
qed

lemma prog_addr_inr:
  assumes "inr PROGRAM_IMG_ADDR n p" "n \<le> 0xFFFF"
  shows "inr USER 0x400000 p"
proof -
  have "inr (USER + of_nat 0x48000) n p" using assms(1) by (simp add: PROGRAM_IMG_ADDR_def)
  then show ?thesis by (rule inr_sub) (use assms(2) in simp_all)
qed

lemma load_image_mem:
  assumes "apart (file_data_addr s) k USER 0x400000" "unat n \<le> k" "k < 2 ^ 32"
    "rd (mem s) (file_data_addr s) (unat n) = bytes"
  shows "rd (mem (load_image p n s)) PROGRAM_IMG_ADDR (unat n) = bytes"
    and "\<And>q. inr (file_data_addr s) k q \<Longrightarrow> mem (load_image p n s) q = mem s q"
    and "\<And>q. \<not> inr USER 0x400000 q \<Longrightarrow> mem (load_image p n s) q = mem s q"
proof -
  let ?fd = "file_data_addr s" and ?t = "set_process_page (0x800000 + of_nat p * 0x400000) s"
  have nb: "unat n \<le> 0xFFFF" using unsigned_less [of n, where ?'a = nat] by simp
  then have n: "unat (ucast n :: u32) = unat n" by (simp add: unsigned_ucast_eq take_bit_nat_eq_self)
  have nu: "\<not> inr USER 0x400000 q" if "inr ?fd k q" for q
    using assms(1) that by (rule apartD)
  have up: "up_ok PROGRAM_IMG_ADDR ?fd (unat n)"
  proof (rule ccontr)
    assume "\<not> up_ok PROGRAM_IMG_ADDR ?fd (unat n)"
    then have "inr ?fd (unat n) PROGRAM_IMG_ADDR" by (auto simp: up_ok_def inr_def)
    then have "inr ?fd k PROGRAM_IMG_ADDR" using assms(2) by (rule inr_mono)
    then have "\<not> inr USER 0x400000 PROGRAM_IMG_ADDR" by (rule nu)
    then show False by (simp add: inr_def PROGRAM_IMG_ADDR_def)
  qed
  have m: "mem (load_image p n s) = copied PROGRAM_IMG_ADDR ?fd (unat n) (mem ?t)"
    using memcpy_copied [of PROGRAM_IMG_ADDR ?fd "ucast n" "mem ?t"] up
    by (simp add: load_image_def Let_def n)
  have "rd (mem ?t) ?fd (unat n) = rd (mem s) ?fd (unat n)"
    by (rule rd_cong) (use nu assms(2,3) inr_mono set_process_page_mem in \<open>blast, simp\<close>)
  then show "rd (mem (load_image p n s)) PROGRAM_IMG_ADDR (unat n) = bytes"
    using nb assms(4) by (simp add: m rd_copied)
  show other: "mem (load_image p n s) q = mem s q" if q: "\<not> inr USER 0x400000 q" for q
  proof -
    have "\<not> inr PROGRAM_IMG_ADDR (unat n) q" using prog_addr_inr [OF _ nb] q by blast
    then show ?thesis using q by (simp add: m copied_other set_process_page_mem)
  qed
  show "mem (load_image p n s) q = mem s q" if "inr ?fd k q" for q using other nu that by blast
qed

lemma execute_load_image:
  assumes "reserved p s gs" "length (gs ! cur_term s) < 4"
    and "read_dentry_by_name (arr f) s = Some d" "loadable (of_int (inode_num d)) s"
  defines "img \<equiv> contents s (of_int (inode_num d))"
  shows "\<exists>s'. execute_load f a p s = (Enter_user (le32 (img ! 24) (img ! 25) (img ! 26) (img ! 27)), s')
    \<and> rd (mem s') PROGRAM_IMG_ADDR (length img) = img
    \<and> procs s' (gs[cur_term s := gs ! cur_term s @ [int p]])
    \<and> pcb_arg (pcbs s' (get_pcb (of_nat p))) = a @ [0] @ drop (Suc (length a)) (pcb_arg (pcbs s (get_pcb (of_nat p))))
    \<and> s' = snd (execute_start f a p (of_nat (length img)) (s\<lparr>mem := wr (file_data_addr s) img (mem s)\<rparr>))
    \<and> (\<forall>q. \<not> inr (file_data_addr s) (length img) q \<and> \<not> inr USER 0x400000 q \<longrightarrow> mem s' q = mem s q)"
proof -
  let ?ino = "of_int (inode_num d) :: u32" and ?fd = "file_data_addr s"
  let ?k = "unat (len_inodes s)"
  have L: "?ino < inode_count s" "buffer_apart ?fd ?k ?ino s" "apart ?fd ?k USER 0x400000"
      "take 4 img = exe_identifier" "28 \<le> length img" "length img \<le> 0xFFFF" "length img \<le> ?k"
    using assms(4) by (auto simp: loadable_def img_def)
  have k: "?k < 2 ^ 32" by (rule unat_u32_less)
  define t where "t = s\<lparr>mem := wr ?fd img (mem s)\<rparr>"
  have sl: "slice 0 ?k img = img" using L(7) by (simp add: slice_def)
  have rdat: "read_data ?ino 0 ?fd (len_inodes s) s = (length img, t)"
    using read_data_slice [OF L(1,2), of 0] sl by (simp add: img_def t_def Let_def)
  have n16: "unat (of_nat (length img) :: u16) = length img"
    using L(6) by (simp add: unat_of_nat take_bit_nat_eq_self)
  have img_t: "rd (mem t) ?fd (length img) = img"
    using rd_wr_same [of img ?fd "mem s"] L(7) k by (simp add: t_def)
  have magic: "strncmp (at (mem t) ?fd) (arr exe_identifier) 4 = 0"
    by (rule magic_ok [OF img_t _ L(4)]) (use L(5) in simp)
  let ?n = "of_nat (length img) :: u16"
  have run: "execute_load f a p s = execute_start f a p ?n t"
    using assms(3) rdat magic by (simp add: execute_load_def t_def)
  have rt: "reserved p t gs" by (rule reserved_cong [OF assms(1)]) (simp_all add: t_def)
  let ?s2 = "start_process f a p (start_pcb p t)"
  have fd2: "file_data_addr ?s2 = ?fd" and m2: "mem ?s2 = mem t"
    by (simp_all only: start_process_fields start_pcb_fields) (simp_all add: t_def)
  note li = load_image_mem [where s = ?s2 and k = ?k and n = ?n and bytes = img and p = p,
      unfolded fd2 n16 m2, OF L(3) L(7) k img_t]
  have img28: "rd (mem t) (?fd + of_nat 24) 4 = [img ! 24, img ! 25, img ! 26, img ! 27]"
  proof -
    have "img = rd (mem t) ?fd (24 + (length img - 24))" using img_t L(5) by simp
    then have "drop 24 img = rd (mem t) (?fd + of_nat 24) (length img - 24)"
      by (metis rd_add length_rd append_eq_conv_conj)
    then have "take 4 (drop 24 img) = rd (mem t) (?fd + of_nat 24) 4"
      using take_rd [of 4 "length img - 24" "mem t" "?fd + of_nat 24"] L(5) by simp
    moreover have "take 4 (drop 24 img) = [img ! 24, img ! 25, img ! 26, img ! 27]"
      using L(5) by (intro nth_equalityI) (auto simp: less_Suc_eq numeral_eq_Suc)
    ultimately show ?thesis by simp
  qed
  let ?s3 = "load_image p ?n ?s2"
  have "rd (mem ?s3) (?fd + of_nat 24) 4 = rd (mem t) (?fd + of_nat 24) 4"
  proof (rule rd_cong)
    fix q assume "inr (?fd + of_nat 24) 4 q"
    then have "inr ?fd ?k q" by (rule inr_sub) (use L(5,7) k in simp_all)
    then show "mem ?s3 q = mem t q" using li(2) by (simp add: m2)
  qed simp
  then have eip: "ld32 (mem ?s3) (?fd + 24) = le32 (img ! 24) (img ! 25) (img ! 26) (img ! 27)"
    using img28 by (simp add: ld32_rd Let_def)
  have "execute_start f a p ?n t = (Enter_user (ld32 (mem ?s3) (?fd + 24)), snd (enter_program p ?s3))"
    by (simp add: execute_start_def prod_eq_iff enter_program_fields load_image_fields fd2)
  moreover have "rd (mem (snd (enter_program p ?s3))) PROGRAM_IMG_ADDR (length img) = img"
    using li(1) by (simp add: enter_program_fields)
  moreover have "procs (snd (execute_start f a p ?n t)) (gs[cur_term s := gs ! cur_term s @ [int p]])"
    using execute_start_procs [OF rt] assms(2) by (simp add: t_def)
  moreover have "pcb_arg (pcbs (snd (enter_program p ?s3)) (get_pcb (of_nat p))) =
      a @ [0] @ drop (Suc (length a)) (pcb_arg (pcbs s (get_pcb (of_nat p))))"
    by (simp add: start_fields setup_pcb_def t_def Let_def)
  moreover have "mem (snd (enter_program p ?s3)) q = mem s q" if "\<not> inr ?fd (length img) q" "\<not> inr USER 0x400000 q" for q
    using li(3) [OF that(2)] wr_other [OF that(1), of "mem s"] L(6) by (simp add: enter_program_fields m2 t_def)
  ultimately show ?thesis unfolding run eip by (auto simp: t_def)
qed

text \<open>The whole of \<open>execute\<close> for a command that names a program that can be loaded.\<close>

lemma execute_program:
  assumes "procs s gs" "\<not> all_busy (process_state s)" "length (gs ! cur_term s) < 4"
    and "command_name command \<noteq> []" "length (command_name command) \<le> 32"
    and "read_dentry_by_name (arr (command_name command)) s = Some d"
    and "loadable (of_int (inode_num d)) s"
  defines "img \<equiv> contents s (of_int (inode_num d))" and "p \<equiv> free_pid (process_state s)"
  shows "\<exists>s'. execute_cmd command s = (Enter_user (le32 (img ! 24) (img ! 25) (img ! 26) (img ! 27)), s')
    \<and> rd (mem s') PROGRAM_IMG_ADDR (length img) = img
    \<and> procs s' (gs[cur_term s := gs ! cur_term s @ [int p]])
    \<and> pcb_arg (pcbs s' (get_pcb (of_nat p))) = command_args command @ [0]
        @ drop (Suc (length (command_args command))) (pcb_arg (pcbs s (get_pcb (of_nat p))))
    \<and> s' = snd (execute_start (command_name command) (command_args command) p (of_nat (length img))
        ((take_pid s)\<lparr>mem := wr (file_data_addr s) img (mem s)\<rparr>))
    \<and> (\<forall>q. \<not> inr (file_data_addr s) (length img) q \<and> \<not> inr USER 0x400000 q \<longrightarrow> mem s' q = mem s q)"
proof -
  let ?p = "free_pid (process_state s)" and ?t = "take_pid s"
  have c: "command \<noteq> []" using assms(4) by (auto simp: command_name_def)
  have r: "reserved ?p ?t gs"
    by (rule take_pid_reserved [OF assms(1) free_pid_exists [OF assms(1,2)]])
  have same: "mem ?t = mem s" "boot_block ?t = boot_block s" "boot_block_end ?t = boot_block_end s"
      "data_block_start ?t = data_block_start s" "cur_term ?t = cur_term s"
      "len_inodes ?t = len_inodes s" "file_data_addr ?t = file_data_addr s"
    by (simp_all add: take_pid_def)
  note ic = image_cong [OF same(1-4)]
  have look: "read_dentry_by_name (arr (command_name command)) ?t = Some d"
    using assms(6) read_dentry_by_name_cong [OF same(1,2)] by simp
  have ld: "loadable (of_int (inode_num d)) ?t"
    using assms(7) by (simp add: loadable_def ic same)
  have "execute_cmd command s = execute_load (command_name command) (command_args command) ?p ?t"
    using execute_cmd_cases [OF assms(1) c assms(2,3)] assms(5) by simp
  moreover have "pcbs ?t = pcbs s" by (simp add: take_pid_def)
  ultimately show ?thesis
    using execute_load_image [OF r _ look ld, of "command_args command"] assms(3)
    by (simp add: same ic img_def p_def)
qed

section \<open>A sample system\<close>

text \<open>An image with one executable, \<open>run\<close>, of 28 bytes with entry point 0x08048020, and a kernel
  with process 0 on terminal 0.\<close>

definition elf_bytes :: "u8 list" where
  "elf_bytes = exe_identifier @ replicate 20 0 @ [0x20, 0x80, 0x04, 0x08]"

definition exe_image :: mem where
  "exe_image a = (if inr 0x402000 28 a then elf_bytes ! unat (a - 0x402000)
     else case map_of [(0x400000, 1), (0x400004, 1), (0x400008, 1), (0x400040, 0x72), (0x400041, 0x75),
       (0x400042, 0x6E), (0x400060, 2), (0x401000, 28)] a of None \<Rightarrow> 0 | Some b \<Rightarrow> b)"

definition exe_kernel :: kernel where
  "exe_kernel = sample_kernel\<lparr>mem := exe_image, len_inodes := 4096, file_data_addr := 0x700000,
     terminals := [sample_terminal, sample_terminal\<lparr>processes := replicate 4 (- 1), num_proc := 0,
       first_run := 1\<rparr>, sample_terminal\<lparr>processes := replicate 4 (- 1), num_proc := 0, first_run := 1\<rparr>]\<rparr>"

lemma exe_image_word:
  "\<forall>k < 4. \<not> inr 0x402000 28 (a + of_nat k) \<Longrightarrow> ld32 exe_image a =
    ld32 (\<lambda>a. case map_of [(0x400000, 1), (0x400004, 1), (0x400008, 1), (0x400040, 0x72),
      (0x400041, 0x75), (0x400042, 0x6E), (0x400060, 2), (0x401000, 28)] a of None \<Rightarrow> 0 | Some b \<Rightarrow> b) a"
  by (rule ld32_cong, rule nth_equalityI) (simp_all add: exe_image_def)

lemma exe_words:
  "ld32 exe_image 0x400000 = 1" "ld32 exe_image 0x400004 = 1" "ld32 exe_image 0x401000 = 28"
  "ld32 exe_image 0x401004 = 0" "ld32 exe_image 0x400060 = 2" "ld32 exe_image 0x400064 = 0"
  by (simp_all add: ld32_def le32_def exe_image_def inr_def unat_u32_minus)

lemma exe_contents: "contents exe_kernel 0 = elf_bytes"
proof -
  have "file_byte exe_image 0x401000 0x402000 p = elf_bytes ! p" if "p < 28" for p
    using that by (simp add: file_byte_def block_addr_def exe_words exe_image_def unat_u32_of_nat)
  then have "contents exe_kernel 0 = map (\<lambda>p. elf_bytes ! p) [0..<28]"
    by (simp add: contents_def file_length_def inode_addr_def exe_kernel_def sample_kernel_def exe_words)
  also have "\<dots> = elf_bytes"
    using map_nth [of elf_bytes] by (simp add: elf_bytes_def exe_identifier_def)
  finally show ?thesis .
qed

lemma exe_procs: "procs exe_kernel [[0], [], []]"
proof -
  have "(\<lambda>p. if int p \<in> {0} then 1 else 0 :: u8) = (\<lambda>p. if p = 0 then 1 else 0)" by auto
  moreover have "[0..<6] = [0, 1, 2, 3, 4, 5 :: nat]" by (simp add: upt_rec)
  ultimately show ?thesis
    by (simp add: procs_def exe_kernel_def sample_kernel_def sample_terminal_def term_ok_def
        pid_ok_def sample_pcb_def numeral_eq_Suc)
qed

lemma exe_lookup: "read_dentry_by_name (arr (str ''run'')) exe_kernel = Some (dentry_at exe_image 0x400040)"
proof -
  have "rd exe_image 0x400040 (length (str ''run'')) = str ''run''"
    by (simp add: rd_def upt_rec exe_image_def inr_def unat_u32_minus str_def)
  then have "cstr exe_image 0x400040 (str ''run'')"
    by (simp add: cstr_def str_def exe_image_def inr_def unat_u32_minus)
  then have "entry_name exe_kernel 0 = str ''run''"
    using cstrn_cstr [of exe_image "0x400040" "str ''run''" 32]
    by (simp add: entry_name_def dir_entry_addr_def exe_kernel_def sample_kernel_def str_def)
  moreover have "upto0 (arr (str ''run'')) 0 32 = str ''run''"
    by (simp add: upto0_def arr_def str_def upt_rec)
  ultimately have "entry_named (arr (str ''run'')) exe_kernel 0" by (simp add: entry_named_def)
  moreover have "dir_size exe_kernel = 1"
    by (simp add: dir_size_def dir_count_def exe_kernel_def sample_kernel_def exe_words)
  ultimately have "read_dentry_by_name (arr (str ''run'')) exe_kernel = dir_entry exe_kernel 0"
    by (intro root_dir.lookup_first) auto
  then show ?thesis
    using \<open>dir_size exe_kernel = 1\<close>
    by (simp add: dir_entry_def dir_entry_addr_def exe_kernel_def sample_kernel_def)
qed

lemma exe_loadable: "loadable (of_int (inode_num (dentry_at exe_image 0x400040))) exe_kernel"
proof -
  have i: "of_int (inode_num (dentry_at exe_image 0x400040)) = (0 :: u32)"
    by (simp add: dentry_at_def exe_words)
  have "buffer_apart 0x700000 4096 0 exe_kernel"
    by (simp add: buffer_apart_def blocks_apart_def exe_kernel_def sample_kernel_def inode_addr_def
        file_length_def exe_words block_addr_def apart_def unat_u32_minus)
  then show ?thesis
    unfolding i loadable_def exe_contents
    by (simp add: inode_count_def exe_kernel_def sample_kernel_def exe_words apart_def unat_u32_minus
        elf_bytes_def exe_identifier_def)
qed

lemma exe_state: "process_state exe_kernel = [1, 0, 0, 0, 0, 0]" "cur_term exe_kernel = 0"
  "free_pid [1, 0, 0, 0, 0, 0] = 1" "\<not> all_busy (process_state exe_kernel)"
  by (simp_all add: exe_kernel_def sample_kernel_def free_pid_def all_busy_def)

section \<open>Properties\<close>

text \<open>The parser splits a command line into the first word, refused when it is longer than 32
  characters, and the rest without the blanks before it (blanks inside and behind are kept).\<close>
theorem parse_command_correct:
  "parse_command cs 0 [] [] =
    (if 32 < length (command_name cs) then None else Some (command_name cs, command_args cs))"
  by (rule parse_command_words)



text \<open>C37: a command with a name of more than 32 characters is refused, but only after a pid has been
  marked as in use: no terminal owns it and nothing ever frees it.\<close>
theorem execute_long_name_leaks:
  assumes "procs s gs" "32 < length (command_name command)" "\<not> all_busy (process_state s)"
    "length (gs ! cur_term s) < 4"
  shows "let (result, s') = execute_cmd command s; p = free_pid (process_state s) in
    result = Ret (- 1) \<and> process_state s ! p = 0 \<and> process_state s' = (process_state s)[p := 1]
    \<and> terminals s' = terminals s \<and> int p \<notin> set (concat gs)"
proof -
  have c: "command \<noteq> []" using assms(2) by (auto simp: command_name_def)
  have p: "free_pid (process_state s) < 6" by (rule free_pid_exists [OF assms(1,3)])
  have "process_state s ! free_pid (process_state s) = 0"
    using nth_length_takeWhile [of "\<lambda>x. x \<noteq> 0" "process_state s"] p process_state_length [OF assms(1)]
    by (simp add: free_pid_def)
  moreover have "int (free_pid (process_state s)) \<notin> set (concat gs)"
    using take_pid_reserved [OF assms(1) p] by (simp add: reserved_def)
  ultimately show ?thesis
    using execute_cmd_cases [OF assms(1) c assms(3,4)] assms(2) by (simp add: take_pid_def Let_def)
qed

theorem execute_long_name_leaks_witness:
  "process_state (snd (execute_cmd (replicate 33 0x61) exe_kernel)) = [1, 1, 0, 0, 0, 0]"
proof -
  have "32 < length (command_name (replicate 33 0x61))"
    by (simp add: command_name_def blank_def dropWhile_replicate takeWhile_replicate)
  from execute_long_name_leaks [OF exe_procs this exe_state(4)] show ?thesis
    by (auto simp: Let_def exe_state split: prod.splits)
qed



end
