(* ===== verification/Terminal.thy ===== *)
theory Terminal
  imports Execute
begin

text \<open>
  The terminals, \<^verbatim>\<open>student-distrib/terminal.c\<close>: initialisation, the switch of the displayed
  terminal, and the write, open and close operations (\<open>terminal_read\<close>, which waits for the
  keyboard handler, is in \<^verbatim>\<open>Kb_Handler\<close>).  The display of a terminal in the background is
  kept in the page at 0xB9000 + 4096 * terminal.
\<close>

definition init_terminal :: "terminal_t \<Rightarrow> terminal_t" where
  "init_terminal tm = tm\<lparr>term_x := 0, term_y := 0, first_run := 1, term_kb_index := 0, num_proc := 0,
     term_proc := 0, processes := replicate 4 (- 1)\<rparr>"

definition terminal_init :: "'a kernel_scheme \<Rightarrow> 'a kernel_scheme" where
  "terminal_init s = s\<lparr>terminals := map init_terminal (take 3 (terminals s)), cur_term := 0,
     running_term := 1\<rparr>"

text \<open>The page that keeps the display of a terminal in the background.\<close>

definition save_page :: "nat \<Rightarrow> u32" where
  "save_page t = push_bit 12 (0xB8 + of_nat t + 1)"

definition display_page :: u32 where
  "display_page = push_bit 12 0xB8"

definition save_terminal :: "u8 \<Rightarrow> 'a kernel_scheme \<Rightarrow> 'a kernel_scheme" where
  "save_terminal tid s =
     (let s = upd_pcb (get_pcb_address s) (\<lambda>p. p\<lparr>pcb_esp := cpu_esp s, pcb_ebp := cpu_ebp s\<rparr>) s;
          s = upd_term (cur_term s) (\<lambda>tm. tm\<lparr>term_x := uint (get_screen_x s),
                term_y := uint (get_screen_y s), term_kb_buffer := get_kb_buffer s,
                term_kb_index := get_kb_index s\<rparr>) s;
          s = reset_keyboard s;
          s = set_kb_buffer (term_kb_buffer (terminals s ! unat tid)) s;
          s = set_kb_index (term_kb_index (terminals s ! unat tid)) s
      in s\<lparr>mem := memcpy (save_page (cur_term s)) display_page 0x1000 (mem s)\<rparr>)"

definition show_terminal :: "u8 \<Rightarrow> 'a kernel_scheme \<Rightarrow> 'a kernel_scheme" where
  "show_terminal tid s =
     (let s = s\<lparr>cur_term := unat tid\<rparr>;
          s = s\<lparr>mem := memcpy display_page (save_page (cur_term s)) 0x1000 (mem s)\<rparr>;
          s = set_screen_x (of_int (term_x (terminals s ! cur_term s))) s;
          s = set_screen_y (of_int (term_y (terminals s ! cur_term s))) s
      in update_cursor (uint (get_screen_x s)) (uint (get_screen_y s)) s)"

text \<open>The PCB is looked up right after \<open>cur_term\<close> is set; nothing it depends on changes before
  it is used.\<close>

definition resume_terminal :: "'a kernel_scheme \<Rightarrow> outcome \<times> 'a kernel_scheme" where
  "resume_terminal s =
     (let p = pcbs s (get_pcb_address s);
          s = set_process_page (0x800000 + of_int (pcb_pid p) * 0x400000) s;
          s = s\<lparr>tss_ss0 := 0x18, tss_esp0 := 0x800000 - of_int (pcb_pid p) * 0x2000 - 4\<rparr>;
          s = s\<lparr>cpu_ebp := pcb_ebp p, cpu_esp := pcb_esp p\<rparr>
      in if first_run (terminals s ! cur_term s) \<noteq> 0
         then case execute_cmd (str ''shell'') s of
                (Ret r, s) \<Rightarrow> (Resume (pcb_ebp p) (pcb_esp p), s)
              | (result, s) \<Rightarrow> (result, s)
         else (Resume (pcb_ebp p) (pcb_esp p), s))"

definition switch_terminal :: "u8 \<Rightarrow> 'a kernel_scheme \<Rightarrow> outcome \<times> 'a kernel_scheme" where
  "switch_terminal tid s = resume_terminal (show_terminal tid (save_terminal tid s))"

definition terminal_write :: "int \<Rightarrow> u32 \<Rightarrow> int \<Rightarrow> 'a kernel_scheme \<Rightarrow> int \<times> 'a kernel_scheme" where
  "terminal_write fd buf nbytes s =
     (let s = cli s
      in if nbytes = 0 \<or> buf = 0 then (0, s)
         else let s = fold (\<lambda>i s. putc (mem s (buf + of_nat i)) s) [0..<nat nbytes] s;
                  s = set_stop_x (get_screen_x s) s
              in (nbytes, sti s))"

definition terminal_open :: "u32 \<Rightarrow> int" where
  "terminal_open filename = (if filename = 0 then - 1 else 0)"

definition terminal_close :: "int \<Rightarrow> int" where
  "terminal_close fd = 0"

section \<open>Display pages\<close>

lemma display_page_addr: "display_page = 0xB8000"
  by (simp add: display_page_def push_bit_eq_mult)

lemma save_page_addr: "save_page t = of_nat (0xB9000 + 0x1000 * t)"
  by (simp add: save_page_def push_bit_eq_mult algebra_simps)

lemma unat_save_page: "t < 3 \<Longrightarrow> unat (save_page t) = 0xB9000 + 0x1000 * t"
  unfolding save_page_addr by (subst unat_u32_of_nat) simp_all

lemma pages_apart:
  "t < 3 \<Longrightarrow> apart (save_page t) 4096 display_page 4096"
  "t < 3 \<Longrightarrow> u < 3 \<Longrightarrow> t \<noteq> u \<Longrightarrow> apart (save_page t) 4096 (save_page u) 4096"
  by (auto simp: apart_def display_page_addr unat_save_page unat_u32_minus)

lemma memcpy_apart:
  assumes "apart d (unat n) s k" "unat n \<le> k"
  shows "memcpy d s n m = copied d s (unat n) m"
  using assms by (intro memcpy_copied) (auto simp: apart_def up_ok_def)

text \<open>Copying a page: the destination gets the source, every other page keeps its contents.\<close>

lemma copy_page:
  assumes "apart d 4096 s 4096"
  shows "rd (memcpy d s 0x1000 m) d 4096 = rd m s 4096"
    and "apart d 4096 q 4096 \<Longrightarrow> rd (memcpy d s 0x1000 m) q 4096 = rd m q 4096"
proof -
  have c: "memcpy d s 0x1000 m = copied d s 4096 m"
    using memcpy_apart [of d "0x1000" s 4096 m] assms by simp
  show "rd (memcpy d s 0x1000 m) d 4096 = rd m s 4096" by (simp add: c rd_copied)
  assume "apart d 4096 q 4096"
  then show "rd (memcpy d s 0x1000 m) q 4096 = rd m q 4096"
    unfolding c by (intro rd_cong) (auto simp: copied_def dest: apartD)
qed

section \<open>What a switch saves and restores\<close>

lemma kb_fields_kernel [frame_simps, simp]:
  "mem (reset_keyboard s) = mem s" "mem (set_kb_buffer b s) = mem s" "mem (set_kb_index i s) = mem s"
  "terminals (reset_keyboard s) = terminals s" "terminals (set_kb_buffer b s) = terminals s"
  "terminals (set_kb_index i s) = terminals s" "cur_term (reset_keyboard s) = cur_term s"
  "cur_term (set_kb_buffer b s) = cur_term s" "cur_term (set_kb_index i s) = cur_term s"
  "process_state (reset_keyboard s) = process_state s" "process_state (set_kb_buffer b s) = process_state s"
  "process_state (set_kb_index i s) = process_state s" "pcbs (reset_keyboard s) = pcbs s"
  "pcbs (set_kb_buffer b s) = pcbs s" "pcbs (set_kb_index i s) = pcbs s"
  by (simp_all add: reset_keyboard_def set_kb_buffer_def set_kb_index_def)

lemma set_screen_kernel [frame_simps, simp]:
  "mem (set_screen_x x s) = mem s" "mem (set_screen_y y s) = mem s"
  "terminals (set_screen_x x s) = terminals s" "terminals (set_screen_y y s) = terminals s"
  "cur_term (set_screen_x x s) = cur_term s" "cur_term (set_screen_y y s) = cur_term s"
  "process_state (set_screen_x x s) = process_state s" "process_state (set_screen_y y s) = process_state s"
  "pcbs (set_screen_x x s) = pcbs s" "pcbs (set_screen_y y s) = pcbs s"
  "kb_buffer (set_screen_x x s) = kb_buffer s" "kb_buffer (set_screen_y y s) = kb_buffer s"
  "kb_buffer_index (set_screen_x x s) = kb_buffer_index s"
  "kb_buffer_index (set_screen_y y s) = kb_buffer_index s"
  "screen_x (set_screen_x x s) = uint x" "screen_y (set_screen_y y s) = uint y"
  "screen_y (set_screen_x x s) = screen_y s" "screen_x (set_screen_y y s) = screen_x s"
  by (simp_all add: set_screen_x_def set_screen_y_def)

lemma update_cursor_more: "console.more (update_cursor x y s) = console.more s"
  by (simp add: update_cursor_def Let_def outb_def)

lemmas cursor_kernel [simp, frame_simps] = kernel_more [OF paging_more(1) [OF update_cursor_more]]

lemma saved_terminal:
  assumes "cur_term s < length (terminals s)"
  shows "terminals (save_terminal tid s) ! cur_term s =
      (terminals s ! cur_term s)\<lparr>term_x := uint (get_screen_x s), term_y := uint (get_screen_y s),
        term_kb_buffer := get_kb_buffer s, term_kb_index := kb_buffer_index s\<rparr>"
    and "j \<noteq> cur_term s \<Longrightarrow> terminals (save_terminal tid s) ! j = terminals s ! j"
    and "length (terminals (save_terminal tid s)) = length (terminals s)"
    and "mem (save_terminal tid s) = memcpy (save_page (cur_term s)) display_page 0x1000 (mem s)"
    and "cur_term (save_terminal tid s) = cur_term s"
    and "process_state (save_terminal tid s) = process_state s"
    and "pcb_pid (pcbs (save_terminal tid s) a) = pcb_pid (pcbs s a)"
  using assms by (simp_all add: save_terminal_def Let_def get_screen_x_def get_screen_y_def upd_pcb_def
      get_kb_buffer_def get_kb_index_def del: mult_Suc)

lemma saved_keyboard:
  "kb_buffer (save_terminal tid s) = map (\<lambda>i. term_kb_buffer (terminals (save_terminal tid s) ! unat tid) ! i) [0..<128]"
  "kb_buffer_index (save_terminal tid s) = term_kb_index (terminals (save_terminal tid s) ! unat tid)"
  by (simp_all add: save_terminal_def Let_def set_kb_buffer_def set_kb_index_def reset_keyboard_def
      upd_term_def upd_pcb_def)

lemma show_terminal_fields:
  "terminals (show_terminal tid s) = terminals s" "cur_term (show_terminal tid s) = unat tid"
  "mem (show_terminal tid s) = memcpy display_page (save_page (unat tid)) 0x1000 (mem s)"
  "kb_buffer (show_terminal tid s) = kb_buffer s"
  "kb_buffer_index (show_terminal tid s) = kb_buffer_index s"
  "screen_x (show_terminal tid s) = uint (of_int (term_x (terminals s ! unat tid)) :: u8)"
  "screen_y (show_terminal tid s) = uint (of_int (term_y (terminals s ! unat tid)) :: u8)"
  "process_state (show_terminal tid s) = process_state s" "pcbs (show_terminal tid s) = pcbs s"
  by (simp_all add: show_terminal_def Let_def)

lemma page_more_kbd:
  "kb_buffer (set_process_page a s) = kb_buffer s"
  "kb_buffer_index (set_process_page a s) = kb_buffer_index s"
  "screen_x (set_process_page a s) = screen_x s" "screen_y (set_process_page a s) = screen_y s"
  by (simp_all add: set_process_page_def flush_tlb_def Let_def)

lemma resume_terminal_fields:
  assumes "first_run (terminals s ! cur_term s) = 0"
  shows "terminals (snd (resume_terminal s)) = terminals s" "cur_term (snd (resume_terminal s)) = cur_term s"
    "kb_buffer (snd (resume_terminal s)) = kb_buffer s"
    "kb_buffer_index (snd (resume_terminal s)) = kb_buffer_index s"
    "screen_x (snd (resume_terminal s)) = screen_x s" "screen_y (snd (resume_terminal s)) = screen_y s"
    "\<not> inr USER 0x400000 q \<Longrightarrow> mem (snd (resume_terminal s)) q = mem s q"
    "process_state (snd (resume_terminal s)) = process_state s" "pcbs (snd (resume_terminal s)) = pcbs s"
    "fst (resume_terminal s) = Resume (pcb_ebp (cur_pcb s)) (pcb_esp (cur_pcb s))"
    "page_directory (snd (resume_terminal s)) =
       (page_directory s)[32 := (0x800000 + of_int (pcb_pid (cur_pcb s)) * 0x400000) OR 0x87]"
  using assms by (simp_all add: resume_terminal_def Let_def page_more_kbd set_process_page_mem cur_pcb_def
      set_process_page_dir)

lemma page_not_user:
  assumes "unat a + 4096 \<le> 0x8000000" "inr a 4096 q"
  shows "\<not> inr USER 0x400000 q"
proof -
  have "apart a 4096 USER 0x400000" using assms(1) by (auto simp: apart_def unat_u32_minus)
  then show ?thesis using assms(2) by (rule apartD)
qed

lemma rd_resume:
  assumes "first_run (terminals s ! cur_term s) = 0" "unat a + 4096 \<le> 0x8000000"
  shows "rd (mem (snd (resume_terminal s))) a 4096 = rd (mem s) a 4096"
  by (rule rd_cong) (use resume_terminal_fields(7) [OF assms(1)] page_not_user [OF assms(2)] in auto)

lemma page_low: "t < 3 \<Longrightarrow> unat (save_page t) + 4096 \<le> 0x8000000"
  "unat display_page + 4096 \<le> 0x8000000"
  by (simp_all add: unat_save_page display_page_addr)

lemma switch_pages:
  assumes "cur_term s < 3" "unat tid < 3" "unat tid \<noteq> cur_term s" "length (terminals s) = 3"
    and "first_run (terminals s ! unat tid) = 0"
  defines "s' \<equiv> snd (switch_terminal tid s)"
  shows "rd (mem s') display_page 4096 = rd (mem s) (save_page (unat tid)) 4096"
    and "rd (mem s') (save_page (cur_term s)) 4096 = rd (mem s) display_page 4096"
    and "terminals s' ! cur_term s = (terminals s ! cur_term s)\<lparr>term_x := uint (get_screen_x s),
        term_y := uint (get_screen_y s), term_kb_buffer := get_kb_buffer s,
        term_kb_index := kb_buffer_index s\<rparr>"
    and "terminals s' ! unat tid = terminals s ! unat tid" "length (terminals s') = 3"
    and "cur_term s' = unat tid"
    and "kb_buffer s' = map (\<lambda>i. term_kb_buffer (terminals s ! unat tid) ! i) [0..<128]"
    and "kb_buffer_index s' = term_kb_index (terminals s ! unat tid)"
    and "screen_x s' = uint (of_int (term_x (terminals s ! unat tid)) :: u8)"
    and "screen_y s' = uint (of_int (term_y (terminals s ! unat tid)) :: u8)"
proof -
  let ?a = "cur_term s" and ?b = "unat tid"
  let ?v = "save_terminal tid s"
  let ?w = "show_terminal tid ?v"
  have la: "?a < length (terminals s)" using assms(1,4) by simp
  note sv = saved_terminal [OF la, where tid = tid]
  have fr: "first_run (terminals ?w ! cur_term ?w) = 0"
    using sv(2) [OF assms(3)] assms(5) by (simp add: show_terminal_fields)
  note rs = resume_terminal_fields [OF fr]
  note rr = rd_resume [OF fr]
  have s': "s' = snd (resume_terminal ?w)" by (simp add: s'_def switch_terminal_def)
  have mw: "mem ?w = memcpy display_page (save_page ?b) 0x1000
      (memcpy (save_page ?a) display_page 0x1000 (mem s))"
    by (simp add: show_terminal_fields sv(4))
  note ab = pages_apart(2) [OF assms(1,2) assms(3) [THEN not_sym]]
  have db: "apart display_page 4096 (save_page ?b) 4096" and da: "apart display_page 4096 (save_page ?a) 4096"
    using pages_apart(1) assms(1,2) apart_sym by blast+
  have "rd (mem ?w) display_page 4096 = rd (mem s) (save_page ?b) 4096"
    unfolding mw using copy_page(1) [OF db] copy_page(2) [OF pages_apart(1) [OF assms(1)] ab] by simp
  then show "rd (mem s') display_page 4096 = rd (mem s) (save_page ?b) 4096"
    unfolding s' by (simp add: rr [OF page_low(2)])
  have "rd (mem ?w) (save_page ?a) 4096 = rd (mem s) display_page 4096"
    unfolding mw using copy_page(2) [OF db da] copy_page(1) [OF pages_apart(1) [OF assms(1)]] by simp
  then show "rd (mem s') (save_page ?a) 4096 = rd (mem s) display_page 4096"
    unfolding s' by (simp add: rr [OF page_low(1) [OF assms(1)]])
  have ts: "terminals s' = terminals ?v" unfolding s' by (simp add: rs show_terminal_fields)
  show "terminals s' ! ?a = (terminals s ! ?a)\<lparr>term_x := uint (get_screen_x s),
        term_y := uint (get_screen_y s), term_kb_buffer := get_kb_buffer s,
        term_kb_index := kb_buffer_index s\<rparr>"
    unfolding ts by (rule sv(1))
  show "terminals s' ! ?b = terminals s ! ?b" unfolding ts by (rule sv(2) [OF assms(3)])
  show "length (terminals s') = 3" unfolding ts using sv(3) assms(4) by simp
  show "cur_term s' = ?b" unfolding s' by (simp add: rs show_terminal_fields)
  show "kb_buffer s' = map (\<lambda>i. term_kb_buffer (terminals s ! ?b) ! i) [0..<128]"
    "kb_buffer_index s' = term_kb_index (terminals s ! ?b)"
    unfolding s' using sv(2) [OF assms(3)] by (simp_all add: rs show_terminal_fields saved_keyboard)
  show "screen_x s' = uint (of_int (term_x (terminals s ! ?b)) :: u8)"
    "screen_y s' = uint (of_int (term_y (terminals s ! ?b)) :: u8)"
    unfolding s' using sv(2) [OF assms(3)] by (simp_all add: rs show_terminal_fields)
qed

lemma get_screen_uint:
  "cursor_ok s \<Longrightarrow> uint (get_screen_x s) = screen_x s" "cursor_ok s \<Longrightarrow> uint (get_screen_y s) = screen_y s"
  by (simp_all add: get_screen_x_def get_screen_y_def cursor_ok_def uint_word_of_int)

section \<open>Writing to a terminal\<close>

text \<open>The loop prints the bytes that were in the buffer, when the buffer is not on the screen.\<close>

lemma terminal_write_out:
  fixes s :: "'a kernel_scheme"
  assumes "cursor_ok s" "apart buf (nat n) VIDEO 4000" "nat n < 2 ^ 32" "n \<noteq> 0" "buf \<noteq> 0"
  defines "t \<equiv> fold putc (rd (mem s) buf (nat n)) (cli s)"
  shows "terminal_write fd buf n s = (n, sti (set_stop_x (get_screen_x t) t))"
proof -
  let ?s = "cli s"
  have ok: "cursor_ok ?s" using assms(1) by (simp add: cursor_ok_def cli_def)
  have "fold (\<lambda>i s. putc (mem s (buf + of_nat i)) s) [0..<k] ?s = fold putc (rd (mem s) buf k) ?s"
    if "k \<le> nat n" for k
    using that
  proof (induction k)
    case (Suc k)
    have "inr buf (nat n) (buf + of_nat k)" using Suc.prems assms(3) by (subst inr_offset) auto
    then have "\<not> inr VIDEO 4000 (buf + of_nat k)" by (rule apartD [OF assms(2)])
    then have "mem (fold putc (rd (mem s) buf k) ?s) (buf + of_nat k) = mem s (buf + of_nat k)"
      using con.frame_text [OF ok] by simp
    moreover have "rd (mem s) buf (Suc k) = rd (mem s) buf k @ [mem s (buf + of_nat k)]"
      by (simp add: rd_def)
    ultimately show ?case using Suc by simp
  qed simp
  then have "fold (\<lambda>i s. putc (mem s (buf + of_nat i)) s) [0..<nat n] ?s = t" by (simp add: t_def)
  then show ?thesis using assms(4,5) by (simp add: terminal_write_def Let_def)
qed

lemma terminal_write_none: "n = 0 \<or> buf = 0 \<Longrightarrow> terminal_write fd buf n s = (0, cli s)"
  by (auto simp: terminal_write_def Let_def)

section \<open>Properties\<close>

text \<open>C15: switching to another terminal and back, with anything in between that leaves the record and
  the saved page of the first one alone, shows the first terminal's display again and restores
  its cursor and its half-typed input line.\<close>
theorem terminal_round_trip:
  assumes "cur_term s < 3" "unat b < 3" "unat b \<noteq> cur_term s" "length (terminals s) = 3"
    and "first_run (terminals s ! unat b) = 0" "first_run (terminals s ! cur_term s) = 0"
    and "cursor_ok s" "length (kb_buffer s) = 128"
    and "s1 = snd (switch_terminal b s)"
    and "cur_term s2 = unat b" "length (terminals s2) = 3"
    and "terminals s2 ! cur_term s = terminals s1 ! cur_term s"
    and "rd (mem s2) (save_page (cur_term s)) 4096 = rd (mem s1) (save_page (cur_term s)) 4096"
    and "s3 = snd (switch_terminal (of_nat (cur_term s)) s2)"
  shows "rd (mem s3) display_page 4096 = rd (mem s) display_page 4096
    \<and> screen_x s3 = screen_x s \<and> screen_y s3 = screen_y s
    \<and> kb_buffer s3 = kb_buffer s \<and> kb_buffer_index s3 = kb_buffer_index s \<and> cur_term s3 = cur_term s"
proof -
  let ?a = "cur_term s"
  have ua: "unat (of_nat ?a :: u8) = ?a" using assms(1) by (simp add: unat_of_nat take_bit_eq_mod)
  note out = switch_pages [OF assms(1-5), folded assms(9)]
  have tm: "terminals s2 ! ?a = (terminals s ! ?a)\<lparr>term_x := uint (get_screen_x s),
        term_y := uint (get_screen_y s), term_kb_buffer := get_kb_buffer s,
        term_kb_index := kb_buffer_index s\<rparr>"
    unfolding assms(12) by (rule out(3))
  have bk: "cur_term s2 < 3" "unat (of_nat ?a :: u8) < 3" "unat (of_nat ?a :: u8) \<noteq> cur_term s2"
      "first_run (terminals s2 ! unat (of_nat ?a :: u8)) = 0"
    using assms(1,2,3,6,10) tm ua by auto
  note into = switch_pages [OF bk(1-3) assms(11) bk(4), folded assms(14), unfolded ua]
  have "map (\<lambda>i. get_kb_buffer s ! i) [0..<128] = kb_buffer s"
    using assms(8) map_nth [of "kb_buffer s"] by (simp add: get_kb_buffer_def cong: map_cong)
  then show ?thesis
    using into out(2) assms(7,13)
    by (simp add: tm get_screen_uint [OF assms(7)] cursor_ok_def uint_word_of_int)
qed

theorem terminal_round_trip_witness:
  "let s = sample_kernel\<lparr>screen_x := 12, kb_buffer_index := 5\<rparr>;
       s3 = snd (switch_terminal 0 (snd (switch_terminal 1 s)))
   in screen_x s3 = 12 \<and> kb_buffer_index s3 = 5"
proof -
  define s where "s = sample_kernel\<lparr>screen_x := 12, kb_buffer_index := 5\<rparr>"
  have h: "cur_term s < 3" "unat (1 :: u8) < 3" "unat (1 :: u8) \<noteq> cur_term s" "length (terminals s) = 3"
      "first_run (terminals s ! unat (1 :: u8)) = 0" "first_run (terminals s ! cur_term s) = 0"
      "cursor_ok s" "length (kb_buffer s) = 128" "cur_term s = 0"
    by (simp_all add: s_def sample_kernel_def sample_terminal_def cursor_ok_def)
  note sp = switch_pages [OF h(1-5)]
  from terminal_round_trip [OF h(1-8) refl sp(6,5) refl refl refl] show ?thesis
    by (simp add: h(9) Let_def flip: s_def) (simp add: s_def)
qed

text \<open>After \<open>terminal_init\<close> the three terminals have no process, and no pid is in use.\<close>
theorem terminal_init_procs:
  assumes "length (terminals s) = 3" "process_state s = replicate 6 0"
  shows "procs (terminal_init s) [[], [], []]"
proof -
  from assms(1) obtain x y z where "terminals s = [x, y, z]"
    by (auto simp: length_Suc_conv numeral_eq_Suc)
  moreover have "map (\<lambda>p. 0 :: u8) [0..<6] = replicate 6 0" by (simp add: map_replicate_const)
  ultimately show ?thesis
    using assms(2) by (simp add: procs_def terminal_init_def init_terminal_def term_ok_def)
qed

theorem terminal_init_procs_witness:
  "procs (terminal_init (sample_kernel\<lparr>process_state := replicate 6 0\<rparr>)) [[], [], []]"
  by (rule terminal_init_procs) (simp_all add: sample_kernel_def)

text \<open>C34: \<open>terminal_write\<close> of bytes that do not lie in video memory prints exactly these bytes,
  returns their number with interrupts on, and fixes the column that backspace stops at; an
  empty write or a null buffer returns 0 with interrupts left off.\<close>
theorem terminal_write_correct:
  assumes "cursor_ok s" "apart buf (nat n) VIDEO 4000" "nat n < 2 ^ 32" "0 \<le> n"
  shows "if n = 0 \<or> buf = 0 then terminal_write fd buf n s = (0, cli s)
    else let (r, s') = terminal_write fd buf n s in
      r = n \<and> iflag s' \<and> screen_view s' = fold put_char (rd (mem s) buf (nat n)) (screen_view s)
      \<and> int (unat (cursor_x s')) = screen_x s'"
proof (cases "n = 0 \<or> buf = 0")
  case False
  let ?t = "fold putc (rd (mem s) buf (nat n)) (cli s)"
  have ok: "cursor_ok (cli s)" using assms(1) by (simp add: cursor_ok_def cli_def)
  have "screen_view ?t = fold put_char (rd (mem s) buf (nat n)) (screen_view s)"
    using con.view_text [OF ok, of "rd (mem s) buf (nat n)"] by (simp add: screen_view_def cli_def)
  moreover have "int (unat (get_screen_x ?t)) = screen_x ?t"
    using get_screen_uint(1) [OF con.ok_text [OF ok]] by simp
  ultimately show ?thesis
    using False terminal_write_out [OF assms(1-3), of fd]
    by (auto simp: set_stop_x_def screen_view_def sti_def get_screen_x_def)
qed (simp add: terminal_write_none)

theorem terminal_write_correct_witness:
  "fst (terminal_write 1 0x400040 4 sample_kernel) = 4"
proof -
  have "cursor_ok sample_kernel" by (simp add: cursor_ok_def sample_kernel_def)
  moreover have "apart 0x400040 (nat 4) VIDEO 4000" by (simp add: apart_def unat_u32_minus)
  ultimately show ?thesis
    using terminal_write_correct [of sample_kernel "0x400040" 4 1] by (auto split: prod.splits)
qed

end
