(* ===== verification/Kb_Handler.thy ===== *)
theory Kb_Handler
  imports Terminal
begin

text \<open>
  The keyboard interrupt handler \<open>kb_intr\<close> of \<^verbatim>\<open>student-distrib/keyboard.c\<close> and the
  operation that waits for it, \<open>terminal_read\<close> of \<^verbatim>\<open>terminal.c\<close>.  A wait takes a schedule,
  one entry per poll, that says whether a keyboard interrupt comes before the poll; the scan
  codes are what the device parameter \<open>dev\<close> delivers on port 0x60.  Alt with a function key
  switches the terminal, so that the handler may not return to the code it interrupted.
\<close>

section \<open>The handler\<close>

definition kb_switch :: "u8 \<Rightarrow> 'a kernel_scheme \<Rightarrow> outcome \<times> 'a kernel_scheme" where
  "kb_switch tid s =
     (if get_current_terminal s \<noteq> tid then switch_terminal tid (send_eoi 1 s)
      else (Ret 0, kb_done s))"

definition kb_intr :: "'a kernel_scheme \<Rightarrow> outcome \<times> 'a kernel_scheme" where
  "kb_intr s =
     (let idx = low8 (inb 0x60 s)
      in case kb_modifier idx s of
           Some s \<Rightarrow> (Ret 0, kb_done s)
         | None \<Rightarrow>
             if idx = 0x1C then (Ret 0, kb_done (kb_enter s))
             else case kb_ctrl idx s of
                    Some s \<Rightarrow> (Ret 0, kb_done s)
                  | None \<Rightarrow>
                      if idx = 0x0E then (Ret 0, kb_done (kb_backspace s))
                      else if alt_flag s \<noteq> 0 \<and> idx = 0x3B then kb_switch 0 s
                      else if alt_flag s \<noteq> 0 \<and> idx = 0x3C then kb_switch 1 s
                      else if alt_flag s \<noteq> 0 \<and> idx = 0x3D then kb_switch 2 s
                      else if idx < 88
                      then let (returned, s) = kb_key idx s
                           in (Ret 0, if returned then s else kb_done s)
                      else (Ret 0, kb_done s))"

section \<open>Waiting for a line\<close>

fun kb_wait :: "bool list \<Rightarrow> 'a kernel_scheme \<Rightarrow> (outcome \<times> 'a kernel_scheme) option" where
  "kb_wait [] s = None"
| "kb_wait (irq # polls) s =
     (case (if irq then kb_intr s else (Ret 0, s)) of
        (Ret _, s) \<Rightarrow> if check_enter_pressed s = 1 then Some (Ret 0, s) else kb_wait polls s
      | (gone, s) \<Rightarrow> Some (gone, s))"

definition terminal_read :: "bool list \<Rightarrow> int \<Rightarrow> u32 \<Rightarrow> int \<Rightarrow> 'a kernel_scheme
    \<Rightarrow> (outcome \<times> 'a kernel_scheme) option" where
  "terminal_read polls fd buf nbytes s =
     (if nbytes = 0 \<or> buf = 0 then Some (Ret 0, s)
      else let upper_limit = (if 128 < nbytes then 128 else nbytes);
               s = s\<lparr>mem := clear_bytes (nat upper_limit) buf (mem s)\<rparr>
           in case kb_wait polls s of
                None \<Rightarrow> None
              | Some (Ret _, s) \<Rightarrow>
                  (let kb_buf = get_kb_buffer s;
                       m = fold (\<lambda>i m. m(buf + of_nat i := kb_buf ! i)) [0..<nat upper_limit] (mem s);
                       s = reset_keyboard (s\<lparr>mem := m\<rparr>);
                       s = poke (buf + of_int (upper_limit - 1)) 0x0A s;
                       s = poke (buf + of_int upper_limit) 0 s
                   in Some (Ret upper_limit, s))
              | Some (gone, s) \<Rightarrow> Some (gone, s))"

section \<open>A key stroke on a line being edited\<close>

text \<open>What a sequence of scan codes does to the line, given the caps lock and shift flags: the
  keys that set flags, the backspace, the releases of other keys, and the characters.\<close>

definition key_table :: "u8 \<Rightarrow> u8 \<Rightarrow> u8 \<Rightarrow> u8 list" where
  "key_table cl l r =
     (if l = 0 \<and> r = 0 then (if cl = 0 then scancode_normal else scancode_caps_lock)
      else if cl = 0 then scancode_shift else scancode_shift_caps_lock)"

fun edits :: "u8 \<Rightarrow> u8 \<Rightarrow> u8 \<Rightarrow> u8 list \<Rightarrow> edit list" where
  "edits cl l r [] = []"
| "edits cl l r (k # ks) =
     (if k = 0x2A then edits cl 1 r ks
      else if k = 0x36 then edits cl l 1 ks
      else if k = 0xAA then edits cl 0 r ks
      else if k = 0xB6 then edits cl l 0 ks
      else if k = 0x3A then edits (cl XOR 1) l r ks
      else if k = 0x0E then Erase # edits cl l r ks
      else if k < 88 then Type (arr (key_table cl l r) (unat k)) # edits cl l r ks
      else edits cl l r ks)"

text \<open>The keys of a line: all but enter, control and alt.\<close>

definition line_key :: "u8 \<Rightarrow> bool" where
  "line_key k \<longleftrightarrow> k \<noteq> 0x1C \<and> k \<noteq> 0x1D \<and> k \<noteq> 0x38"

definition flags_ok :: "'a kbd_scheme \<Rightarrow> bool" where
  "flags_ok s \<longleftrightarrow> cl_flag s \<in> {0, 1} \<and> lshift_flag s \<in> {0, 1} \<and> rshift_flag s \<in> {0, 1}
     \<and> ctrl_flag s = 0 \<and> alt_flag s = 0"

text \<open>The device delivers the scan codes \<open>ks\<close>, one for each interrupt.\<close>

fun keys_come :: "u8 list \<Rightarrow> 'a kernel_scheme \<Rightarrow> bool" where
  "keys_come [] s = True"
| "keys_come (k # ks) s \<longleftrightarrow> low8 (inb 0x60 s) = k \<and> keys_come ks (snd (kb_intr s))"

lemma editing_cong:
  assumes "kb_buffer t = kb_buffer s" "kb_buffer_index t = kb_buffer_index s"
    "screen_x t = screen_x s" "screen_y t = screen_y s" "cursor_x t = cursor_x s"
    "text_cells (mem t) = text_cells (mem s)"
  shows "editing t line = editing s line"
  using assms by (simp add: editing_def line_start_def cursor_ok_def)

lemma kb_done_fields [frame_simps, simp]:
  "mem (kb_done s) = mem s" "wild (kb_done s) = wild s" "screen_x (kb_done s) = screen_x s"
  "screen_y (kb_done s) = screen_y s" "kb_buffer (kb_done s) = kb_buffer s"
  "kb_buffer_index (kb_done s) = kb_buffer_index s" "cursor_x (kb_done s) = cursor_x s"
  "enter_flag (kb_done s) = enter_flag s" "cl_flag (kb_done s) = cl_flag s"
  "lshift_flag (kb_done s) = lshift_flag s" "rshift_flag (kb_done s) = rshift_flag s"
  "ctrl_flag (kb_done s) = ctrl_flag s" "alt_flag (kb_done s) = alt_flag s"
  by (simp_all add: kb_done_def send_eoi_def update_cursor_def Let_def outb_def)

lemma putc_flags [frame_simps, simp]:
  "cl_flag (putc c s) = cl_flag s" "lshift_flag (putc c s) = lshift_flag s"
  "rshift_flag (putc c s) = rshift_flag s" "ctrl_flag (putc c s) = ctrl_flag s"
  "alt_flag (putc c s) = alt_flag s"
  by (simp_all add: putc_def Let_def scroll_down_def update_cursor_def outb_def poke_def)

lemma kb_type_flags [frame_simps, simp]:
  "cl_flag (kb_type c s) = cl_flag s" "lshift_flag (kb_type c s) = lshift_flag s"
  "rshift_flag (kb_type c s) = rshift_flag s" "ctrl_flag (kb_type c s) = ctrl_flag s"
  "alt_flag (kb_type c s) = alt_flag s" "enter_flag (kb_type c s) = enter_flag s"
  by (simp_all add: kb_type_def kb_store_def Let_def)

lemma kb_backspace_flags [frame_simps, simp]:
  "cl_flag (kb_backspace s) = cl_flag s" "lshift_flag (kb_backspace s) = lshift_flag s"
  "rshift_flag (kb_backspace s) = rshift_flag s" "ctrl_flag (kb_backspace s) = ctrl_flag s"
  "alt_flag (kb_backspace s) = alt_flag s" "enter_flag (kb_backspace s) = enter_flag s"
  by (simp_all add: kb_backspace_def kb_store_def update_cursor_def outb_def poke_def
      set_screen_x_def set_screen_y_def Let_def)

lemma key_table_chars: "arr (key_table cl l r) i \<notin> {0x0A, 0x0D}"
proof -
  have "list_all (\<lambda>c. c \<noteq> 0x0A \<and> c \<noteq> 0x0D) scancode_normal"
    "list_all (\<lambda>c. c \<noteq> 0x0A \<and> c \<noteq> 0x0D) scancode_caps_lock"
    "list_all (\<lambda>c. c \<noteq> 0x0A \<and> c \<noteq> 0x0D) scancode_shift"
    "list_all (\<lambda>c. c \<noteq> 0x0A \<and> c \<noteq> 0x0D) scancode_shift_caps_lock"
    by (simp_all add: scancode_normal_def scancode_caps_lock_def scancode_shift_def
        scancode_shift_caps_lock_def keypad_def str_def list_all_iff)
  then have "list_all (\<lambda>c. c \<noteq> 0x0A \<and> c \<noteq> 0x0D) (key_table cl l r)"
    by (simp add: key_table_def)
  then show ?thesis by (auto simp: arr_def list_all_length)
qed

lemma key_map_table:
  "flags_ok s \<Longrightarrow> key_map s = Some (key_table (cl_flag s) (lshift_flag s) (rshift_flag s))"
  by (auto simp: flags_ok_def key_map_def key_table_def)

lemma kb_intr_flag_key:
  assumes "low8 (inb 0x60 s) = k" "kb_modifier k s = Some u \<or> kb_modifier k s = None \<and> k \<noteq> 0x1C \<and> kb_ctrl k s = Some u"
  shows "kb_intr s = (Ret 0, kb_done u)"
  using assms by (auto simp: kb_intr_def Let_def)

lemma kb_intr_erase: "low8 (inb 0x60 s) = 0x0E \<Longrightarrow> kb_intr s = (Ret 0, kb_done (kb_backspace s))"
  by (simp add: kb_intr_def Let_def kb_modifier_def kb_ctrl_def)

lemma kb_intr_enter: "low8 (inb 0x60 s) = 0x1C \<Longrightarrow> kb_intr s = (Ret 0, kb_done (kb_enter s))"
  by (simp add: kb_intr_def Let_def kb_modifier_def)

lemma kb_intr_type:
  assumes "low8 (inb 0x60 s) = k" "k < 88" "k \<notin> {0x2A, 0x36, 0x3A, 0x38, 0x1C, 0x1D, 0x0E}"
    and "flags_ok s" "kb_buffer_index s < 128"
  shows "kb_intr s = (Ret 0, kb_done (kb_type (arr (key_table (cl_flag s) (lshift_flag s) (rshift_flag s)) (unat k)) s))"
proof -
  have "k \<noteq> 0xAA" "k \<noteq> 0xB6" "k \<noteq> 0xB8" "k \<noteq> 0x9D" using assms(2) by auto
  moreover have "alt_flag s = 0" "ctrl_flag s = 0" using assms(4) by (simp_all add: flags_ok_def)
  ultimately show ?thesis
    using assms by (simp add: kb_intr_def kb_modifier_def kb_ctrl_def kb_key_def key_map_table Let_def not_le)
qed

lemma kb_intr_ignored:
  assumes "low8 (inb 0x60 s) = k" "88 \<le> k" "k \<notin> {0xAA, 0xB6, 0xB8, 0x9D}" "alt_flag s = 0"
  shows "kb_intr s = (Ret 0, kb_done s)"
proof -
  have "k \<notin> {0x2A, 0x36, 0x3A, 0x38, 0x1C, 0x1D, 0x0E}" "\<not> k < 88" using assms(2) by auto
  then show ?thesis using assms by (simp add: kb_intr_def kb_modifier_def kb_ctrl_def Let_def)
qed

text \<open>What a key of the line leaves alone: the processes and the file system, the memory that is not
  on the screen, and the screen before the line.\<close>

lemma kbd_more: "console.more t = console.more s \<Longrightarrow> kbd.more t = kbd.more s"
  by (cases s; cases t) simp

lemma kbd_paging:
  assumes "kbd.more t = kbd.more s"
  shows "paging.more t = paging.more s" "frames t = frames s" "tlb_user t = tlb_user s" "page_directory t = page_directory s"
  using assms by (cases s; cases t; simp)+

definition key_frame :: "'a kernel_scheme \<Rightarrow> 'a kernel_scheme \<Rightarrow> bool" where
  "key_frame s t \<longleftrightarrow> kbd.more t = kbd.more s \<and> boot_block t = boot_block s
     \<and> boot_block_end t = boot_block_end s \<and> data_block_start t = data_block_start s
     \<and> len_inodes t = len_inodes s \<and> screen_y t = screen_y s \<and> cursor_x t = cursor_x s
     \<and> take (line_start s) (text_cells (mem t)) = take (line_start s) (text_cells (mem s))
     \<and> (\<forall>p. \<not> inr VIDEO 4000 p \<longrightarrow> mem t p = mem s p)"

lemma key_frame_refl: "key_frame s s"
  by (simp add: key_frame_def)

lemma key_frame_trans: "key_frame s t \<Longrightarrow> key_frame t u \<Longrightarrow> key_frame s u"
  unfolding key_frame_def line_start_def by auto

lemma key_frame_done: "key_frame s (kb_done s)"
  unfolding key_frame_def kb_done_def send_eoi_def by (simp add: update_cursor_def Let_def outb_def)

lemma key_frame_flags:
  "key_frame s (s\<lparr>lshift_flag := a\<rparr>)" "key_frame s (s\<lparr>rshift_flag := a\<rparr>)" "key_frame s (s\<lparr>cl_flag := a\<rparr>)"
  "key_frame s (s\<lparr>alt_flag := a\<rparr>)" "key_frame s (s\<lparr>ctrl_flag := a\<rparr>)"
  by (simp_all add: key_frame_def)

lemma key_frame_store: "key_frame s t \<Longrightarrow> key_frame s (kb_store b t)" "key_frame s t \<Longrightarrow> key_frame s (t\<lparr>kb_buffer_index := i\<rparr>)"
  by (simp_all add: key_frame_def kb_store_def Let_def)

lemma key_frame_type:
  assumes "editing s line" "unat (cursor_x s) + length line < 79" "c \<noteq> 0x0A" "c \<noteq> 0x0D"
  shows "key_frame s (kb_type c s)"
proof -
  have ok: "cursor_ok s" using assms(1) by (simp add: editing_def)
  have y: "screen_y (putc c s) = screen_y s"
    using editing_type(3) [OF assms] by (simp add: kb_type_def kb_store_def Let_def split: if_splits)
  have x: "screen_x s = int (unat (cursor_x s) + length line)" using assms(1) by (simp add: editing_def)
  have n: "line_start s \<le> 80 * nat (screen_y s) + nat (screen_x s)" unfolding x line_start_def nat_int by simp
  have x': "nat (screen_x s) \<noteq> 79" unfolding x nat_int using assms(2) by simp
  have v: "screen_view (putc c s) = put_char c (screen_view s)" by (rule putc_view [OF ok])
  have "text_cells (mem (putc c s)) = (text_cells (mem s))[80 * nat (screen_y s) + nat (screen_x s) := c]"
    using v assms(3,4) x' by (simp add: screen_view_def put_char_def Let_def)
  then have "take (line_start s) (text_cells (mem (putc c s))) = take (line_start s) (text_cells (mem s))"
    using n by (simp add: take_update_cancel)
  then have "key_frame s (putc c s)"
    using putc_frame [OF ok] y paging_more [OF putc_more [of c s]] kbd_more [OF putc_more [of c s]] by (simp add: key_frame_def)
  then show ?thesis by (simp add: kb_type_def Let_def key_frame_store)
qed

lemma key_frame_erase:
  assumes "editing s line" "unat (cursor_x s) + length line < 80"
  shows "key_frame s (kb_backspace s)"
proof (cases "line = []")
  case True
  then have "get_screen_x s = cursor_x s" using assms(1) by (simp add: editing_def get_screen_x_def)
  then have "kb_backspace s = s" by (simp add: kb_backspace_def Let_def)
  then show ?thesis by (simp add: key_frame_refl)
next
  case False
  let ?x = "get_screen_x s" and ?y = "get_screen_y s"
  have ok: "0 \<le> screen_y s" "screen_y s < 25" and e: "screen_x s = int (unat (cursor_x s) + length line)"
    using assms(1) by (auto simp: editing_def cursor_ok_def)
  have x: "unat ?x = unat (cursor_x s) + length line"
    unfolding get_screen_x_def e of_int_of_nat_eq using assms(2) by (simp add: unat_of_nat take_bit_eq_mod del: of_nat_add)
  then have ne: "?x \<noteq> 0" "?x \<noteq> cursor_x s" using False by (auto simp: word_unat_eq_iff)
  have y: "uint ?y = screen_y s" using ok by (simp add: get_screen_y_def uint_word_of_int)
  have ux: "unat (?x - 1) = unat (cursor_x s) + (length line - 1)" using unat_u8_pred [OF ne(1)] x False by (cases line) auto
  define i where "i = line_start s + (length line - 1)"
  have "nat (uint (?x - 1)) = unat (cursor_x s) + (length line - 1)" using ux by simp
  then have a: "video_addr (uint (?x - 1)) (uint ?y) = cell_addr i"
    using ok by (simp add: video_addr_cell y line_start_def i_def add.assoc)
  have i: "i < 2000" "line_start s \<le> i" using ok assms(2) False by (cases line; auto simp: i_def line_start_def)+
  let ?p = "poke (cell_addr i) 0 s"
  have "take (line_start s) ((text_cells (mem s))[i := 0]) = take (line_start s) (text_cells (mem s))"
    using i(2) by (rule take_update_cancel)
  then have "key_frame s ?p"
    using i(1) not_video_cell [OF _ i(1)] by (auto simp: key_frame_def poke_cell_text poke_def)
  moreover define q where "q = kb_store 0 ((kb_store 0 ?p)\<lparr>kb_buffer_index := kb_buffer_index s - 1\<rparr>)"
  ultimately have "key_frame s q" by (simp add: key_frame_store)
  moreover have "key_frame q (update_cursor c d (set_screen_x b q))" for b c d
    by (simp add: key_frame_def set_screen_x_def kbd_more [OF update_cursor_more] paging_more(2-5) [OF update_cursor_more])
  moreover have "kb_backspace s = update_cursor (uint (?x - 1)) (uint ?y) (set_screen_x (?x - 1) q)"
    using ne a by (simp add: q_def kb_backspace_def Let_def get_screen_x_def set_screen_x_def get_screen_y_def)
  ultimately show ?thesis using key_frame_trans by metis
qed

text \<open>One key of the line.\<close>

definition key_effect :: "u8 list \<Rightarrow> u8 \<Rightarrow> 'a kernel_scheme \<Rightarrow> 'a kernel_scheme \<Rightarrow> bool" where
  "key_effect line k s t \<longleftrightarrow>
     (let evs = edits (cl_flag s) (lshift_flag s) (rshift_flag s) [k]
      in editing t (fold edit_line evs line) \<and> flags_ok t \<and> key_frame s t
         \<and> wild t = wild s \<and> enter_flag t = enter_flag s
         \<and> length (fold edit_line evs line) \<le> Suc (length line)
         \<and> (\<forall>ks. edits (cl_flag s) (lshift_flag s) (rshift_flag s) (k # ks) =
               evs @ edits (cl_flag t) (lshift_flag t) (rshift_flag t) ks))"

lemma flag_key_cases:
  assumes "kb_modifier k s = Some u \<or> kb_modifier k s = None \<and> kb_ctrl k s = Some u"
    and "k \<noteq> 0x38" "k \<noteq> 0x1D"
  shows "(k = 0x2A \<and> u = s\<lparr>lshift_flag := 1\<rparr>) \<or> (k = 0x36 \<and> u = s\<lparr>rshift_flag := 1\<rparr>)
    \<or> (k = 0xAA \<and> u = s\<lparr>lshift_flag := 0\<rparr>) \<or> (k = 0xB6 \<and> u = s\<lparr>rshift_flag := 0\<rparr>)
    \<or> (k = 0x3A \<and> u = s\<lparr>cl_flag := cl_flag s XOR 1\<rparr>)
    \<or> (k = 0xB8 \<and> u = s\<lparr>alt_flag := 0\<rparr>) \<or> (k = 0x9D \<and> u = s\<lparr>ctrl_flag := 0\<rparr>)"
  using assms unfolding kb_modifier_def kb_ctrl_def by (simp split: if_split_asm)

lemma key_effect_flag:
  assumes "editing s line" "flags_ok s" "k \<noteq> 0x38" "k \<noteq> 0x1D"
    and "kb_modifier k s = Some u \<or> kb_modifier k s = None \<and> kb_ctrl k s = Some u"
  shows "key_effect line k s (kb_done u)"
proof -
  have ed: "editing (kb_done (s\<lparr>lshift_flag := a\<rparr>)) line" "editing (kb_done (s\<lparr>rshift_flag := a\<rparr>)) line"
      "editing (kb_done (s\<lparr>cl_flag := a\<rparr>)) line" "editing (kb_done (s\<lparr>alt_flag := a\<rparr>)) line"
      "editing (kb_done (s\<lparr>ctrl_flag := a\<rparr>)) line" for a
    by (subst editing_cong [where s = s]; simp add: assms(1))+
  have fr: "key_frame s (kb_done (s\<lparr>lshift_flag := a\<rparr>))" "key_frame s (kb_done (s\<lparr>rshift_flag := a\<rparr>))"
      "key_frame s (kb_done (s\<lparr>cl_flag := a\<rparr>))" "key_frame s (kb_done (s\<lparr>alt_flag := a\<rparr>))"
      "key_frame s (kb_done (s\<lparr>ctrl_flag := a\<rparr>))" for a
    by (rule key_frame_trans [OF key_frame_flags(1) key_frame_done] key_frame_trans [OF key_frame_flags(2) key_frame_done]
        key_frame_trans [OF key_frame_flags(3) key_frame_done] key_frame_trans [OF key_frame_flags(4) key_frame_done]
        key_frame_trans [OF key_frame_flags(5) key_frame_done])+
  have fl: "cl_flag s = 0 \<or> cl_flag s = 1" "lshift_flag s = 0 \<or> lshift_flag s = 1"
      "rshift_flag s = 0 \<or> rshift_flag s = 1" "ctrl_flag s = 0" "alt_flag s = 0"
    using assms(2) by (auto simp: flags_ok_def)
  have xor: "cl_flag s XOR 1 = 0 \<or> cl_flag s XOR 1 = 1" using fl(1) by auto
  show ?thesis
    using flag_key_cases [OF assms(5,3,4)]
    by (elim disjE conjE; simp add: key_effect_def Let_def ed fr flags_ok_def fl xor)
qed

lemma key_effect_done:
  assumes "key_effect line k s t" 
  shows "key_effect line k s (kb_done t)"
proof -
  have e: "editing (kb_done t) l = editing t l" for l by (rule editing_cong) simp_all
  show ?thesis
    using assms key_frame_trans [OF _ key_frame_done, of s t] unfolding key_effect_def flags_ok_def kb_done_fields e Let_def
    by blast
qed

lemma kb_intr_line_key:
  assumes "editing s line" "flags_ok s" "low8 (inb 0x60 s) = k" "line_key k"
    and "unat (cursor_x s) + length line < 79"
  shows "\<exists>t. kb_intr s = (Ret 0, t) \<and> key_effect line k s t"
proof -
  note lk = assms(4)[unfolded line_key_def]
  have alt: "alt_flag s = 0" using assms(2) by (simp add: flags_ok_def)
  consider (modifier) u where "kb_modifier k s = Some u"
    | (ctrl) u where "kb_modifier k s = None" "kb_ctrl k s = Some u"
    | (other) "kb_modifier k s = None" "kb_ctrl k s = None" by (cases "kb_modifier k s"; cases "kb_ctrl k s") auto
  then show ?thesis
  proof cases
    case modifier
    then show ?thesis using kb_intr_flag_key [OF assms(3)] key_effect_flag [OF assms(1,2)] lk by blast
  next
    case ctrl
    then show ?thesis using kb_intr_flag_key [OF assms(3)] key_effect_flag [OF assms(1,2)] lk by blast
  next
    case other
    then have plain: "k \<notin> {0x2A, 0x36, 0xAA, 0xB6, 0x3A, 0x38, 0xB8, 0x1D, 0x9D}"
      by (auto simp: kb_modifier_def kb_ctrl_def)
    consider (erase) "k = 0x0E" | (char) "k \<noteq> 0x0E" "k < 88" | (ignored) "88 \<le> k" by force
    then show ?thesis
    proof cases
      case erase
      have "unat (cursor_x s) + length line < 80" using assms(5) by simp
      note er = editing_erase [OF assms(1) this]
      have "key_effect line k s (kb_backspace s)"
        using er assms(2) erase key_frame_erase [OF assms(1)] assms(5) by (simp add: key_effect_def Let_def flags_ok_def)
      then show ?thesis using kb_intr_erase assms(3) erase key_effect_done by blast
    next
      case char
      let ?c = "arr (key_table (cl_flag s) (lshift_flag s) (rshift_flag s)) (unat k)"
      have "?c \<noteq> 0x0A" "?c \<noteq> 0x0D" using key_table_chars by auto
      note ty = editing_type [OF assms(1,5) this]
      have "unat (kb_buffer_index s) < 128" using assms(1,5) by (simp add: editing_def)
      then have idx: "kb_buffer_index s < 128" by (simp add: word_less_nat_alt)
      have "kb_intr s = (Ret 0, kb_done (kb_type ?c s))"
        by (rule kb_intr_type [OF assms(3) char(2) _ assms(2) idx]) (use plain char lk in auto)
      moreover have "key_effect line k s (kb_type ?c s)"
        using ty assms(2) char plain key_frame_type [OF assms(1,5) \<open>?c \<noteq> 0x0A\<close> \<open>?c \<noteq> 0x0D\<close>]
        by (simp add: key_effect_def Let_def flags_ok_def)
      ultimately show ?thesis using key_effect_done by blast
    next
      case ignored
      then have "\<not> k < 88" "k \<noteq> 0x0E" by auto
      then have "key_effect line k s s"
        using assms(1,2) plain by (simp add: key_effect_def Let_def key_frame_refl)
      moreover have "kb_intr s = (Ret 0, kb_done s)"
        by (rule kb_intr_ignored [OF assms(3) ignored _ alt]) (use plain in auto)
      ultimately show ?thesis using key_effect_done by blast
    qed
  qed
qed

lemma kb_enter_fields:
  "kb_buffer (kb_enter s) = kb_buffer s" "enter_flag (kb_enter s) = 1" "wild (kb_enter s) = wild s"
  by (simp_all add: kb_enter_def Let_def scroll_down_def set_screen_x_def set_screen_y_def
      update_cursor_def outb_def)

lemma editing_length: "editing s line \<Longrightarrow> length line < 80"
  unfolding editing_def cursor_ok_def by (elim conjE) linarith

text \<open>A line typed while the kernel waits: \<open>ps\<close> are the polls before enter is pressed, idle or
  with one key each.\<close>

lemma kb_wait_line:
  assumes "editing s line" "flags_ok s" "enter_flag s = 0" "keys_come (ks @ [0x1C]) s"
    and "\<forall>k \<in> set ks. line_key k" "unat (cursor_x s) + length line + length ks < 80"
    and "length (filter id ps) = length ks"
  shows "\<exists>u. kb_wait (ps @ [True]) s = Some (Ret 0, kb_done (kb_enter u)) \<and> wild u = wild s \<and> flags_ok u
    \<and> key_frame s u \<and> editing u (fold edit_line (edits (cl_flag s) (lshift_flag s) (rshift_flag s) ks) line)"
  using assms
proof (induction ps arbitrary: s line ks)
  case Nil
  then have "low8 (inb 0x60 s) = 0x1C" by simp
  from kb_intr_enter [OF this] show ?case
    using Nil by (simp add: check_enter_pressed_def kb_enter_fields) (blast intro: key_frame_refl)
next
  case (Cons p ps)
  show ?case
  proof (cases p)
    case False
    then show ?thesis using Cons.IH [OF Cons.prems(1-6)] Cons.prems(3,7) by (simp add: check_enter_pressed_def)
  next
    case True
    then obtain k ks' where ks: "ks = k # ks'" using Cons.prems(7) by (cases ks) auto
    have k: "low8 (inb 0x60 s) = k" "line_key k" "keys_come (ks' @ [0x1C]) (snd (kb_intr s))"
      using Cons.prems(4,5) ks by simp_all
    have room: "unat (cursor_x s) + length line < 79" using Cons.prems(6) ks by simp
    obtain t where t: "kb_intr s = (Ret 0, t)" "key_effect line k s t"
      using kb_intr_line_key [OF Cons.prems(1,2) k(1,2) room] by blast
    define evs where "evs = edits (cl_flag s) (lshift_flag s) (rshift_flag s) [k]"
    have e: "editing t (fold edit_line evs line)" "flags_ok t" "key_frame s t"
        "wild t = wild s" "enter_flag t = enter_flag s" "length (fold edit_line evs line) \<le> Suc (length line)"
        "edits (cl_flag s) (lshift_flag s) (rshift_flag s) (k # ks') =
          evs @ edits (cl_flag t) (lshift_flag t) (rshift_flag t) ks'"
      using t(2) unfolding key_effect_def Let_def evs_def by blast+
    have x: "cursor_x t = cursor_x s" using e(3) by (simp add: key_frame_def)
    have "\<exists>u. kb_wait (ps @ [True]) t = Some (Ret 0, kb_done (kb_enter u)) \<and> wild u = wild t \<and> flags_ok u
      \<and> key_frame t u \<and> editing u (fold edit_line (edits (cl_flag t) (lshift_flag t) (rshift_flag t) ks')
          (fold edit_line evs line))"
      by (rule Cons.IH) (use e k t x Cons.prems ks True in auto)
    then show ?thesis
      unfolding ks e(7) using True t(1) e Cons.prems(3) key_frame_trans [OF e(3)]
      by (auto simp: check_enter_pressed_def)
  qed
qed

lemma store_loop: "fold (\<lambda>i m. m(buf + of_nat i := xs ! i)) [0..<n] m = wr buf (map (\<lambda>i. xs ! i) [0..<n]) m"
proof (induction n)
  case (Suc n)
  have step: "fold (\<lambda>i m. m(buf + of_nat i := xs ! i)) [0..<Suc n] m =
      (wr buf (map (\<lambda>i. xs ! i) [0..<n]) m)(buf + of_nat n := xs ! n)"
    unfolding Suc [symmetric] by simp
  show ?case unfolding step by (simp add: wr_append)
qed simp

text \<open>The bytes a read leaves in the buffer: the start of the line buffer, a newline in the last
  position and a NUL behind it.\<close>

definition read_result :: "u8 list \<Rightarrow> nat \<Rightarrow> u8 list" where
  "read_result kb n = take (n - 1) kb @ [0x0A, 0]"

lemma terminal_read_copy:
  assumes "0 < n" "n \<le> 128" "length kb = 128"
  shows "(wr buf (map (\<lambda>i. kb ! i) [0..<n]) m)(buf + of_nat (n - 1) := 0x0A, buf + of_nat n := 0) = wr buf (read_result kb n) m"
    "length (read_result kb n) = Suc n"
proof -
  obtain k where n: "n = Suc k" using assms(1) by (cases n) auto
  have "map (\<lambda>i. kb ! i) [0..<n] = take k kb @ [kb ! k]"
    using assms(2,3) n by (auto intro!: nth_equalityI simp: nth_append less_Suc_eq)
  then show "(wr buf (map (\<lambda>i. kb ! i) [0..<n]) m)(buf + of_nat (n - 1) := 0x0A, buf + of_nat n := 0) = wr buf (read_result kb n) m"
    using assms(2,3) n by (simp add: read_result_def wr_append add.commute add.left_commute)
  show "length (read_result kb n) = Suc n" using assms(2,3) n by (simp add: read_result_def)
qed

text \<open>The whole effect of a read whose wait ends in \<open>t\<close>.\<close>

lemma terminal_read_done:
  assumes "0 < nbytes" "buf \<noteq> 0" "u = nat (min 128 nbytes)"
    and "kb_wait polls (s\<lparr>mem := clear_bytes u buf (mem s)\<rparr>) = Some (Ret r, t)" "length (kb_buffer t) = 128"
  shows "terminal_read polls fd buf nbytes s =
    Some (Ret (int u), (reset_keyboard t)\<lparr>mem := wr buf (read_result (kb_buffer t) u) (mem t)\<rparr>)"
proof -
  have u: "(if 128 < nbytes then 128 else nbytes) = int u" "0 < u" "u \<le> 128" using assms(1,3) by auto
  have kb: "get_kb_buffer t = kb_buffer t"
    using assms(5) map_nth [of "kb_buffer t"] by (simp add: get_kb_buffer_def)
  have p: "of_int (int u - 1) = (of_nat (u - 1) :: u32)" using u(2) by (simp add: of_nat_diff)
  note rc = terminal_read_copy(1) [OF u(2,3) assms(5), where m = "mem t" and buf = buf]
  show ?thesis
    using assms(1,2,4) by (simp add: terminal_read_def Let_def u(1) kb p store_loop poke_def reset_keyboard_def
        rc [symmetric] del: of_nat_diff of_int_diff)
qed

section \<open>Acknowledging the interrupt\<close>

named_theorems eoi_simps \<open>the last command to the master controller stays\<close>

text \<open>The last command sent to the master controller, which the display and the process functions
  leave alone.\<close>

lemma eoi_outb [eoi_simps]:
  "p \<noteq> 0x20 \<Longrightarrow> map_of (out (outb d p s)) 0x20 = map_of (out s) 0x20"
  "map_of (out (poke a b s)) 0x20 = map_of (out s) 0x20"
  by simp_all

lemma eoi_update_cursor [eoi_simps]: "map_of (out (update_cursor x y s)) 0x20 = map_of (out s) 0x20"
  by (simp add: update_cursor_def Let_def)

lemma eoi_scroll_down [eoi_simps]: "map_of (out (scroll_down s)) 0x20 = map_of (out s) 0x20"
  by (simp add: scroll_down_def Let_def eoi_simps)

lemma eoi_putc [eoi_simps]: "map_of (out (putc c s)) 0x20 = map_of (out s) 0x20"
  by (simp add: putc_def Let_def eoi_simps)

lemma eoi_print [eoi_simps]: "map_of (out (print cs s)) 0x20 = map_of (out s) 0x20"
proof -
  have "map_of (out (fold putc xs s)) 0x20 = map_of (out s) 0x20" for xs and s :: "'a console_scheme"
    by (induction xs arbitrary: s) (simp_all add: eoi_simps)
  then show ?thesis by (simp add: print_def)
qed

lemma eoi_pages [eoi_simps]: "map_of (out (set_process_page a s)) 0x20 = map_of (out s) 0x20"
  by (simp add: set_process_page_def flush_tlb_def Let_def)

lemma eoi_fields [eoi_simps]:
  "out (upd_pcb a f s) = out s" "out (upd_term t g s) = out s"
  "out (free_process p s) = out s" "out (claim_slot t i s) = out s"
  by (simp_all add: upd_pcb_def upd_term_def free_process_def claim_slot_def Let_def)

lemma eoi_read_data [eoi_simps]: "out (snd (read_data i off buf n s)) = out s"
  by (simp add: read_data_def Let_def split_beta)

lemma eoi_start [eoi_simps]: "map_of (out (snd (execute_start f a p n s))) 0x20 = map_of (out s) 0x20"
  by (simp add: execute_start_def enter_program_def load_image_def start_process_def start_pcb_def
     Let_def eoi_simps)

lemma eoi_execute_load [eoi_simps]: "map_of (out (snd (execute_load f a p s))) 0x20 = map_of (out s) 0x20"
  by (simp add: execute_load_def Let_def eoi_simps split_beta split: option.split)

lemma eoi_execute [eoi_simps]: "map_of (out (snd (execute_cmd c s))) 0x20 = map_of (out s) 0x20"
  by (simp add: execute_cmd_def Let_def eoi_simps split: option.split)

lemma eoi_done: "map_of (out (kb_done s)) 0x20 = Some 0x61"
  by (simp add: kb_done_def send_eoi_def low8_def word_le_nat_alt) 

text \<open>How many commands the master controller has got: the display leaves the number alone, the
  handler's epilogue adds one.\<close>

definition acks :: "(u16 \<times> u8) list \<Rightarrow> nat" where
  "acks h = length (filter (\<lambda>w. fst w = 0x20) h)"

lemma acks_simps [eoi_simps]:
  "p \<noteq> 0x20 \<Longrightarrow> acks (out (outb d p s)) = acks (out s)" "acks (out (poke a b s)) = acks (out s)"
  "acks (out (update_cursor x y s)) = acks (out s)"
  by (simp_all add: acks_def update_cursor_def Let_def outb_def)

lemma acks_putc [eoi_simps]: "acks (out (scroll_down s)) = acks (out s)" "acks (out (putc c s)) = acks (out s)"
  by (simp_all add: scroll_down_def putc_def Let_def eoi_simps)

lemma acks_type [eoi_simps]: "acks (out (kb_type c s)) = acks (out s)"
  by (simp add: kb_type_def kb_store_def Let_def eoi_simps)

lemma acks_done: "acks (out (kb_done s)) = Suc (acks (out s))"
proof -
  have "acks (out (send_eoi 1 t)) = Suc (acks (out t))" for t :: "'a kbd_scheme"
    by (simp add: send_eoi_def low8_def acks_def outb_def word_le_nat_alt)
  then show ?thesis by (simp add: kb_done_def Let_def eoi_simps)
qed

lemma eoi_terminal [eoi_simps]:
  "out (save_terminal t s) = out s" 
  "map_of (out (show_terminal t s)) 0x20 = map_of (out s) 0x20"
  by (simp_all add: show_terminal_def save_terminal_def Let_def eoi_simps
    set_screen_x_def set_screen_y_def set_kb_buffer_def set_kb_index_def reset_keyboard_def)

lemma eoi_resume [eoi_simps]: "map_of (out (snd (resume_terminal s))) 0x20 = map_of (out s) 0x20"
proof -
  have "map_of (out (snd (case r of (Ret x, u) \<Rightarrow> (Resume a b, u) | (result, u) \<Rightarrow> (result, u)))) 0x20 =
      map_of (out (snd r)) 0x20" for r :: "outcome \<times> 'a kernel_scheme" and a b
    by (cases r; cases "fst r") auto
  then show ?thesis by (simp add: resume_terminal_def Let_def eoi_simps)
qed

lemma eoi_switch [eoi_simps]: "map_of (out (snd (switch_terminal t s))) 0x20 = map_of (out s) 0x20"
  by (simp add: switch_terminal_def eoi_simps)

section \<open>Properties\<close>

text \<open>C14: a program that reads a line while the user types and corrects it behind a prompt, with
  shift and caps lock as they come and the keyboard idle at times, gets exactly the line the user
  ended up with (in the case typed), cut or padded with NULs to the size it asked for; the last
  of these bytes is a newline, a NUL is stored one byte behind the buffer, and the keyboard is
  ready for the next line.\<close>
theorem read_line_correct:
  assumes "editing s []" "flags_ok s" "enter_flag s = 0" "0 < nbytes" "buf \<noteq> 0"
    and "apart buf 128 VIDEO 4000"
    and "s0 = s\<lparr>mem := clear_bytes (nat (min 128 nbytes)) buf (mem s)\<rparr>"
    and "keys_come (ks @ [0x1C]) s0" "\<forall>k \<in> set ks. line_key k"
    and "unat (cursor_x s) + length ks < 80" "length (filter id ps) = length ks"
  shows "let u = nat (min 128 nbytes);
             line = fold edit_line (edits (cl_flag s) (lshift_flag s) (rshift_flag s) ks) []
         in \<exists>t. terminal_read (ps @ [True]) fd buf nbytes s = Some (Ret (int u), t)
              \<and> rd (mem t) buf (Suc u) = read_result (padded 128 line) u
              \<and> kb_buffer t = replicate 128 0 \<and> kb_buffer_index t = 0 \<and> enter_flag t = 0
              \<and> wild t = wild s"
proof -
  let ?u = "nat (min 128 nbytes)"
  have m: "clear_bytes ?u buf (mem s) = wr buf (replicate ?u 0) (mem s)" by (rule clear_bytes_wr)
  have "mem s0 p = mem s p" if "inr VIDEO 4000 p" for p
  proof -
    have "\<not> inr buf 128 p" using assms(6) that apart_sym apartD by metis
    then have "\<not> inr buf (length (replicate ?u (0 :: u8))) p" using inr_mono by fastforce
    then show ?thesis unfolding assms(7) by (simp add: m wr_other)
  qed
  then have cells: "text_cells (mem s0) = text_cells (mem s)"
    by (intro nth_equalityI) (simp_all add: cell_in_video)
  have e0: "editing s0 []" using assms(1) cells by (subst editing_cong) (simp_all add: assms(7))
  have f0: "flags_ok s0" "enter_flag s0 = 0" "unat (cursor_x s0) + length [] + length ks < 80"
    using assms(2,3,10) by (simp_all add: assms(7) flags_ok_def)
  obtain u where u: "kb_wait (ps @ [True]) s0 = Some (Ret 0, kb_done (kb_enter u))" "wild u = wild s0" "flags_ok u"
      "key_frame s0 u" "editing u (fold edit_line (edits (cl_flag s0) (lshift_flag s0) (rshift_flag s0) ks) [])"
    using kb_wait_line [OF e0 f0(1,2) assms(8,9) f0(3) assms(11)] by blast
  let ?t = "kb_done (kb_enter u)"
  have t: "kb_wait (ps @ [True]) s0 = Some (Ret 0, ?t)" "wild ?t = wild s0" "length (kb_buffer ?t) = 128"
      "kb_buffer ?t = padded 128 (fold edit_line (edits (cl_flag s0) (lshift_flag s0) (rshift_flag s0) ks) [])"
    using u editing_length [OF u(5)] by (simp_all add: kb_enter_fields editing_def)
  have "wild ?t = wild s" "cl_flag s0 = cl_flag s" "lshift_flag s0 = lshift_flag s" "rshift_flag s0 = rshift_flag s"
    using t(2) by (simp_all add: assms(7))
  moreover have "0 < ?u" "?u \<le> 128" using assms(4) by simp_all
  note rc = terminal_read_copy(2) [OF this t(3)]
  have "rd (wr buf (read_result (kb_buffer ?t) ?u) (mem ?t)) buf (Suc ?u) = read_result (kb_buffer ?t) ?u"
    using rd_wr_same [of "read_result (kb_buffer ?t) ?u" buf "mem ?t"] rc \<open>?u \<le> 128\<close> by simp
  ultimately show ?thesis
    using terminal_read_done [OF assms(4,5) refl t(1) [unfolded assms(7)] t(3)] t(4)
    by (simp add: Let_def reset_keyboard_def)
qed


definition typed_dev :: "(u16 \<times> u8) list \<Rightarrow> u16 \<Rightarrow> u8" where
  "typed_dev h p = (if length h = 0 then 0x2A else if length h < 6 then 0x26 else 0x1C)"

definition read_kernel :: kernel where
  "read_kernel = sample_kernel\<lparr>screen_x := 7, cursor_x := 7, kb_buffer := replicate 128 0,
     kb_buffer_index := 0, dev := typed_dev, out := []\<rparr>"

lemma out_grows: "length (out s) \<le> length (out (kb_type c s))" "length (out (kb_done s)) = length (out s) + 5"
  by (simp_all add: kb_type_def kb_store_def putc_def kb_done_def send_eoi_def update_cursor_def
      scroll_down_def outb_def poke_def Let_def word_le_nat_alt)

lemma dev_same: "dev (kb_type c s) = dev s" "dev (kb_done s) = dev s"
  by (simp_all add: kb_type_def kb_store_def putc_def kb_done_def send_eoi_def update_cursor_def
      scroll_down_def outb_def poke_def Let_def)

text \<open>A keyboard that gives the next of \<open>ks\<close> when the one before has been acknowledged.\<close>

definition typist :: "u8 list \<Rightarrow> (u16 \<times> u8) list \<Rightarrow> u16 \<Rightarrow> u8" where
  "typist ks h p = ks ! acks h"

definition plain_key :: "u8 \<Rightarrow> bool" where
  "plain_key k \<longleftrightarrow> k < 88 \<and> k \<notin> {0x2A, 0x36, 0x3A, 0x38, 0x1C, 0x1D, 0x0E}"

lemma typist_keys:
  assumes "flags_ok s" "dev s = typist (xs @ ks @ [0x1C])" "acks (out s) = length xs" "\<forall>k \<in> set ks. plain_key k"
    and "unat (kb_buffer_index s) + length ks \<le> 128"
  shows "keys_come (ks @ [0x1C]) s"
  using assms
proof (induction ks arbitrary: xs s)
  case Nil
  then have "low8 (inb 0x60 s) = 0x1C" unfolding inb_def low8_ucast by (simp add: typist_def)
  then show ?case by simp
next
  case (Cons k ks)
  have k: "low8 (inb 0x60 s) = k" unfolding inb_def low8_ucast using Cons.prems(2,3) by (simp add: typist_def)
  let ?t = "kb_done (kb_type (arr (key_table (cl_flag s) (lshift_flag s) (rshift_flag s)) (unat k)) s)"
  have i: "kb_intr s = (Ret 0, ?t)"
    by (rule kb_intr_type [OF k _ _ Cons.prems(1)]) (use Cons.prems(4,5) in \<open>auto simp: plain_key_def word_less_nat_alt\<close>)
  have "keys_come (ks @ [0x1C]) ?t"
  proof (rule Cons.IH [of _ "xs @ [k]"])
    show "flags_ok ?t" using Cons.prems(1) by (simp add: flags_ok_def)
    show "unat (kb_buffer_index ?t) + length ks \<le> 128"
      using Cons.prems(5) by (simp add: kb_type_def kb_store_def Let_def unat_word_ariths)
  qed (use Cons.prems in \<open>simp_all add: dev_same acks_done acks_type\<close>)
  then show ?case using k i by simp
qed

lemma typed_keys:
  assumes "flags_ok s" "dev s = typed_dev" "out s = []" "kb_buffer_index s = 0"
  shows "keys_come [0x2A, 0x26, 0x1C] s"
proof -
  let ?t = "kb_done (s\<lparr>lshift_flag := 1\<rparr>)"
  have k1: "low8 (inb 0x60 s) = 0x2A" unfolding inb_def low8_ucast using assms(2,3) by (simp add: typed_dev_def)
  have i1: "kb_intr s = (Ret 0, ?t)"
    by (rule kb_intr_flag_key [OF k1]) (simp add: kb_modifier_def)
  have o: "length (out ?t) = 5" using assms(3) by (simp add: out_grows)
  have k2: "low8 (inb 0x60 ?t) = 0x26" unfolding inb_def low8_ucast using assms(2) o by (simp add: typed_dev_def dev_same)
  have f: "flags_ok ?t" using assms(1) by (simp add: flags_ok_def)
  obtain c where i2: "kb_intr ?t = (Ret 0, kb_done (kb_type c ?t))"
    using kb_intr_type [OF k2 _ _ f] assms(4) by simp
  have "length (out (kb_done (kb_type c ?t))) \<ge> 10" using out_grows(1) [of ?t c] o
    by (simp add: out_grows(2))
  then have "low8 (inb 0x60 (kb_done (kb_type c ?t))) = 0x1C"
    unfolding inb_def low8_ucast using assms(2) by (auto simp: typed_dev_def dev_same)
  then show ?thesis using k1 k2 i1 i2 by simp
qed

theorem read_line_correct_witness:
  "\<exists>t. terminal_read [True, False, True, True] 0 0x08001000 4 read_kernel = Some (Ret 4, t)
     \<and> rd (mem t) 0x08001000 5 = [0x4C, 0, 0, 0x0A, 0]"
proof -
  define s0 where "s0 = read_kernel\<lparr>mem := clear_bytes (nat (min 128 4)) 0x08001000 (mem read_kernel)\<rparr>"
  have f: "flags_ok read_kernel" "enter_flag read_kernel = 0" "editing read_kernel []"
    "cl_flag read_kernel = 0" "lshift_flag read_kernel = 0" "rshift_flag read_kernel = 0" "unat (cursor_x read_kernel) = 7"
    by (simp_all add: flags_ok_def read_kernel_def sample_kernel_def editing_def cursor_ok_def padded_def)
  have "keys_come [0x2A, 0x26, 0x1C] s0"
    by (rule typed_keys) (simp_all add: s0_def flags_ok_def read_kernel_def sample_kernel_def)
  then have k: "keys_come ([0x2A, 0x26] @ [0x1C]) s0" by simp
  have a: "apart 0x08001000 128 VIDEO 4000" by (simp add: apart_def unat_u32_minus)
  have l: "\<forall>k \<in> set [0x2A, 0x26]. line_key k" by (simp add: line_key_def)
  have c: "fold edit_line (edits 0 0 0 [0x2A, 0x26]) [] = [0x4C]"
    by (simp add: key_table_def arr_def scancode_shift_def keypad_def str_def)
  have r: "read_result (padded 128 [0x4C]) 4 = [0x4C, 0, 0, 0x0A, 0]"
    by (simp add: read_result_def padded_def numeral_eq_Suc)
  show ?thesis
    using read_line_correct [OF f(3,1,2) _ _ a s0_def k l, of "[True, False, True]" 0] f(4-7) c r
    by (simp add: Let_def) blast
qed

text \<open>C33: the keyboard handler acknowledges its interrupt on every path: behind it the last command
  to the master controller is the specific end of interrupt of line 1, also when the handler
  switches to another terminal and starts a shell there, and when the line buffer is full.\<close>
theorem kb_intr_acknowledges: "last_out 0x20 (snd (kb_intr s)) = Some 0x61"
proof -
  have e: "map_of (out (send_eoi 1 t)) 0x20 = Some 0x61" for t :: "'a kernel_scheme"
   by (simp add: send_eoi_def low8_def word_le_nat_alt) 
  have sw: "map_of (out (snd (kb_switch n t))) 0x20 = Some 0x61" for n and t :: "'a kernel_scheme"
    by (simp add: kb_switch_def eoi_done eoi_simps e)
  have key: "map_of (out (if b then u else kb_done u)) 0x20 = Some 0x61" if "kb_key k t = (b, u)" 
    for k b and t u :: "'a kernel_scheme"
    using that by (auto simp: kb_key_def e eoi_done split: if_splits option.splits)
  let ?ack = "\<lambda>r :: outcome \<times> 'a kernel_scheme. map_of (out (snd r)) 0x20 = Some 0x61"
  have cond: "?ack x \<Longrightarrow> ?ack y \<Longrightarrow> ?ack (if b then x else y)" for b x y by simp
  have opt: "?ack x \<Longrightarrow> (\<And>u. ?ack (f u)) \<Longrightarrow> ?ack (case m of None \<Rightarrow> x | Some u \<Rightarrow> f u)"
    for m x and f :: "'a kernel_scheme \<Rightarrow> _" by (cases m) auto
  have pair: "?ack (case kb_key k t of (b, u) \<Rightarrow> (Ret 0, if b then u else kb_done u))" for k t
    by (cases "kb_key k t") (simp add: key)
  have don: "?ack (Ret 0, kb_done t)" for t by (simp add: eoi_done)
  show ?thesis
    unfolding last_out_def kb_intr_def Let_def by (intro opt cond don pair sw)
qed

end
