(* ===== verification/Syscall.thy ===== *)
theory Syscall
  imports Kb_Handler
begin

text \<open>
  The system calls of \<^verbatim>\<open>student-distrib/syscall.c\<close> on descriptors (\<open>open\<close>, \<open>close\<close>, \<open>read\<close>,
  \<open>write\<close>) with the dispatch through the jump tables, and \<open>getargs\<close>, \<open>vidmap\<close>,
  \<open>set_handler\<close>, \<open>sigreturn\<close>.  A call through the pointer of a descriptor that was never set
  sets \<open>wild\<close>.  The four calls carry the prefix \<open>sys_\<close>.  The calls that wait take the schedule of interrupts as an argument.
\<close>

section \<open>Jump tables\<close>

fun op_open :: "file_ops \<Rightarrow> u32 \<Rightarrow> 'a kernel_scheme \<Rightarrow> int \<times> 'a kernel_scheme" where
  "op_open File_op filename s = (open_file filename s, s)"
| "op_open Rtc_op filename s = rtc_open filename s"
| "op_open Dir_op filename s = (open_dir filename s, s)"
| "op_open Stdin_op filename s = (bad_call, s)"
| "op_open Stdout_op filename s = (bad_call, s)"
| "op_open Do_nothing filename s = (bad_call, s)"

fun op_close :: "file_ops \<Rightarrow> int \<Rightarrow> int" where
  "op_close File_op fd = close_file fd"
| "op_close Rtc_op fd = rtc_close fd"
| "op_close Dir_op fd = close_dir fd"
| "op_close Stdin_op fd = bad_call"
| "op_close Stdout_op fd = bad_call"
| "op_close Do_nothing fd = bad_call"

definition returns :: "int \<times> 'a kernel_scheme \<Rightarrow> (outcome \<times> 'a kernel_scheme) option" where
  "returns r = Some (Ret (fst r), snd r)"

fun op_read :: "bool list \<Rightarrow> file_ops \<Rightarrow> int \<Rightarrow> u32 \<Rightarrow> int \<Rightarrow> 'a kernel_scheme
    \<Rightarrow> (outcome \<times> 'a kernel_scheme) option" where
  "op_read polls File_op fd buf nbytes s = returns (read_file fd buf (of_int nbytes) s)"
| "op_read polls Rtc_op fd buf nbytes s =
     (case rtc_read polls fd buf nbytes s of None \<Rightarrow> None | Some r \<Rightarrow> returns r)"
| "op_read polls Dir_op fd buf nbytes s = returns (read_dir fd buf (of_int nbytes) s)"
| "op_read polls Stdin_op fd buf nbytes s = terminal_read polls fd buf nbytes s"
| "op_read polls Stdout_op fd buf nbytes s = returns (bad_call, s)"
| "op_read polls Do_nothing fd buf nbytes s = returns (bad_call, s)"

fun op_write :: "file_ops \<Rightarrow> int \<Rightarrow> u32 \<Rightarrow> int \<Rightarrow> 'a kernel_scheme \<Rightarrow> int \<times> 'a kernel_scheme" where
  "op_write File_op fd buf nbytes s = (write_file fd buf (of_int nbytes), s)"
| "op_write Rtc_op fd buf nbytes s = rtc_write fd buf nbytes s"
| "op_write Dir_op fd buf nbytes s = (write_dir fd buf (of_int nbytes), s)"
| "op_write Stdin_op fd buf nbytes s = (bad_call, s)"
| "op_write Stdout_op fd buf nbytes s = terminal_write fd buf nbytes s"
| "op_write Do_nothing fd buf nbytes s = (bad_call, s)"

section \<open>Descriptors\<close>

definition sys_read :: "bool list \<Rightarrow> int \<Rightarrow> u32 \<Rightarrow> int \<Rightarrow> 'a kernel_scheme
    \<Rightarrow> (outcome \<times> 'a kernel_scheme) option" where
  "sys_read polls fd buf nbytes s =
     (if buf = 0 then returns (- 1, s)
      else if fd < 0 \<or> fd > 7 \<or> nbytes < 0 then returns (- 1, s)
      else let pcb = cur_pcb s; f = pcb_file pcb ! nat fd
           in if fd_flags f = 0 then returns (- 1, s)
              else case fd_op f of
                     None \<Rightarrow> returns (- 1, s\<lparr>wild := True\<rparr>)
                   | Some ops \<Rightarrow> op_read polls ops fd buf nbytes s)"

definition sys_write :: "int \<Rightarrow> u32 \<Rightarrow> int \<Rightarrow> 'a kernel_scheme \<Rightarrow> int \<times> 'a kernel_scheme" where
  "sys_write fd buf nbytes s =
     (if buf = 0 then (- 1, s)
      else if fd < 0 \<or> fd > 7 \<or> nbytes < 0 then (- 1, s)
      else let pcb = cur_pcb s; f = pcb_file pcb ! nat fd
           in if fd_flags f = 0 then (- 1, s)
              else case fd_op f of
                     None \<Rightarrow> (- 1, s\<lparr>wild := True\<rparr>)
                   | Some ops \<Rightarrow> op_write ops fd buf nbytes s)"

text \<open>The loop over the descriptors 2 to 7 ends with 8 when all are in use.\<close>

fun open_slot :: "nat \<Rightarrow> nat \<Rightarrow> pcb_t \<Rightarrow> nat" where
  "open_slot 0 fd p = fd"
| "open_slot (Suc k) fd p = (if fd_flags (pcb_file p ! fd) \<noteq> 1 then fd else open_slot k (Suc fd) p)"

definition open_as :: "file_ops \<Rightarrow> u32 \<Rightarrow> u32 \<Rightarrow> nat \<Rightarrow> 'a kernel_scheme \<Rightarrow> int \<times> 'a kernel_scheme" where
  "open_as ops ino filename fd s =
     (let pcb = get_pcb_address s; (r, s) = op_open ops filename s
      in if r \<noteq> - 1 then (int fd, upd_pcb pcb (set_fd (op_addr s) fd ops ino 0 1) s)
         else (- 1, s))"

definition sys_open :: "u32 \<Rightarrow> 'a kernel_scheme \<Rightarrow> (int \<times> 'a kernel_scheme) option" where
  "sys_open filename s =
     (case strlen (mem s) filename of
        None \<Rightarrow> None
      | Some len \<Rightarrow> Some
          (if len > 32 \<or> len = 0 then (- 1, s)
           else case read_dentry_by_name (at (mem s) filename) s of
                  None \<Rightarrow> (- 1, s)
                | Some dentry \<Rightarrow>
                    (let pcb = cur_pcb s; fd = open_slot 6 2 pcb
                     in if fd_flags (get_fd fd pcb) \<noteq> 1
                        then (if file_type dentry = 0 \<or> strncmp (at (mem s) filename) (arr (str ''rtc'')) 3 = 0
                              then open_as Rtc_op 0 filename fd s
                              else if file_type dentry = 1 \<or> strncmp (at (mem s) filename) (arr (str ''.'')) 1 = 0
                              then open_as Dir_op 0 filename fd s
                              else if file_type dentry = 2
                              then open_as File_op (of_int (inode_num dentry)) filename fd s
                              else (- 1, s))
                        else (- 1, s))))"

definition sys_close :: "int \<Rightarrow> 'a kernel_scheme \<Rightarrow> int \<times> 'a kernel_scheme" where
  "sys_close fd s =
     (if fd < 2 \<or> fd > 7 then (- 1, s)
      else let pcb = get_pcb_address s; f = pcb_file (pcbs s pcb) ! nat fd
           in if fd_flags f \<noteq> 1 then (- 1, s)
              else let s = (case fd_op f of
                              None \<Rightarrow> s\<lparr>wild := True\<rparr>
                            | Some ops \<Rightarrow> (let r = op_close ops fd in s))
                   in (0, upd_fd pcb (nat fd) (\<lambda>f. f\<lparr>fd_flags := 0, fd_inode := 0, fd_pos := 0\<rparr>) s))"

section \<open>The other calls\<close>

definition getargs :: "u32 \<Rightarrow> int \<Rightarrow> 'a kernel_scheme \<Rightarrow> int \<times> 'a kernel_scheme" where
  "getargs buf nbytes s =
     (if buf = 0 then (- 1, s)
      else let arg = pcb_arg (cur_pcb s)
           in if arg ! 0 = 0 then (- 1, s)
              else (0, s\<lparr>mem := strncpy_arr (unat (of_int nbytes :: u32)) 0 buf (arr arg) (mem s)\<rparr>))"

text \<open>The two bounds are cast to \<^verbatim>\<open>uint8_t\<close>.\<close>

definition vidmap :: "u32 \<Rightarrow> 'a kernel_scheme \<Rightarrow> int \<times> 'a kernel_scheme" where
  "vidmap screen_start s =
     (if screen_start = 0 then (- 1, s)
      else let start = ld32 (mem s) screen_start
           in if start < ucast (low8 0x08000000) \<or> start > ucast (low8 (0x08000000 + 0x400000))
              then (- 1, s)
              else let virtual_addr = 0x08000000 + 0x400000 :: u32;
                       s = map2user (push_bit 12 0xB8) 0 1 s
                   in (sint virtual_addr, s\<lparr>mem := st32 screen_start virtual_addr (mem s)\<rparr>))"

definition set_handler :: "int \<Rightarrow> u32 \<Rightarrow> int" where
  "set_handler signum handler_address = - 1"

definition sigreturn :: int where
  "sigreturn = - 1"

section \<open>The descriptor table\<close>

text \<open>A well-formed table has eight descriptors; a flag is 0 or 1, and a descriptor in use has its
  jump table.\<close>

definition fd_ok :: "fd_t \<Rightarrow> bool" where
  "fd_ok f \<longleftrightarrow> fd_flags f \<in> {0, 1} \<and> (fd_flags f = 1 \<longrightarrow> fd_op f \<noteq> None)"

definition fd_wf :: "pcb_t \<Rightarrow> bool" where
  "fd_wf p \<longleftrightarrow> length (pcb_file p) = 8 \<and> (\<forall>f \<in> set (pcb_file p). fd_ok f)"

lemma fd_wf_update: "fd_wf p \<Longrightarrow> fd_ok f \<Longrightarrow> fd_wf (p\<lparr>pcb_file := (pcb_file p)[i := f]\<rparr>)"
  by (auto simp: fd_wf_def dest!: subsetD [OF set_update_subset_insert])

text \<open>The lowest descriptor from 2 on that is not in use.\<close>

definition lowest_free :: "pcb_t \<Rightarrow> nat \<Rightarrow> bool" where
  "lowest_free p fd \<longleftrightarrow> 2 \<le> fd \<and> fd < 8 \<and> fd_flags (pcb_file p ! fd) \<noteq> 1
     \<and> (\<forall>i. 2 \<le> i \<and> i < fd \<longrightarrow> fd_flags (pcb_file p ! i) = 1)"

lemma open_slot_lowest:
  "(\<forall>i. fd \<le> i \<and> i < j \<longrightarrow> fd_flags (pcb_file p ! i) = 1) \<Longrightarrow> fd_flags (pcb_file p ! j) \<noteq> 1 \<Longrightarrow>
    fd \<le> j \<Longrightarrow> j < fd + k \<Longrightarrow> open_slot k fd p = j"
proof (induction k arbitrary: fd)
  case (Suc k)
  then show ?case by (cases "fd = j") auto
qed simp

lemma open_slot_full:
  "(\<forall>i. fd \<le> i \<and> i < fd + k \<longrightarrow> fd_flags (pcb_file p ! i) = 1) \<Longrightarrow> open_slot k fd p = fd + k"
  by (induction k arbitrary: fd) auto

lemma lowest_free_slot: "lowest_free p fd \<Longrightarrow> open_slot 6 2 p = fd"
  by (rule open_slot_lowest) (auto simp: lowest_free_def)

lemma first_closed_found:
  "fd_flags (pcb_file p ! j) = 0 \<Longrightarrow> i \<le> j \<Longrightarrow> j < i + k \<Longrightarrow> first_closed k i p \<noteq> - 1"
proof (induction k arbitrary: i)
  case (Suc k)
  then show ?case by (cases "i = j") auto
qed simp

lemma first_closed_full:
  "\<forall>j. i \<le> j \<and> j < i + k \<longrightarrow> fd_flags (pcb_file p ! j) \<noteq> 0 \<Longrightarrow> first_closed k i p = - 1"
  by (induction k arbitrary: i) auto

text \<open>The jump table a file is opened with: its type decides, but a name that starts with
  \<^verbatim>\<open>rtc\<close> is the clock and a name that starts with a dot is the directory.\<close>

definition opened_as :: "u8 list \<Rightarrow> dentry \<Rightarrow> file_ops option" where
  "opened_as name d =
     (if file_type d = 0 \<or> take 3 name = str ''rtc'' then Some Rtc_op
      else if file_type d = 1 \<or> take 1 name = str ''.'' then Some Dir_op
      else if file_type d = 2 then Some File_op else None)"

lemma strncmp_prefix:
  assumes "cstr (mem s) a name" "unat n = length xs" "0 \<notin> set xs"
  shows "strncmp (at (mem s) a) (arr xs) n = 0 \<longleftrightarrow> take (length xs) name = xs"
proof -
  have "upto0 (at (mem s) a) 0 (length xs) = take (length xs) name"
    by (simp add: upto0_at cstrn_cstr [OF assms(1)])
  moreover have "upto0 (arr xs) 0 (length xs) = xs"
    using upto0_arr_take [of "length xs" xs] assms(3) by (simp add: takeWhile_eq_all_conv) (metis)
  ultimately show ?thesis by (simp add: strncmp_0_iff assms(2))
qed

lemma set_frequency_more: "console.more (snd (set_frequency f s)) = console.more s"
  by (simp add: set_frequency_def cli_def sti_def outb_def Let_def split: option.split)

lemma rtc_open_ok:
  assumes "filename \<noteq> 0"
  shows "fst (rtc_open filename s) = 0" "console.more (snd (rtc_open filename s)) = console.more s"
    "mem (snd (rtc_open filename s)) = mem s"
  using assms set_frequency_result [of 2 s] set_frequency_more [of 2 s]
  by (simp_all add: rtc_open_def rtc_rates_def)
     (simp add: set_frequency_def Let_def split: option.split)

lemma op_open_fields:
  "console.more (snd (op_open ops a s)) = console.more s" "mem (snd (op_open ops a s)) = mem s"
  by (cases ops; simp add: rtc_open_def set_frequency_more; simp add: set_frequency_def Let_def split: option.split)+

lemmas op_open_kernel = kernel_more [OF paging_more(1) [OF op_open_fields(1)]]

section \<open>Opening, reading, closing\<close>

lemma get_pcb_address_op_open [simp]:
  "get_pcb_address (snd (op_open ops a s)) = get_pcb_address s"
  by (rule get_pcb_address_cong) (simp_all add: op_open_kernel)

lemma op_open_ok:
  assumes "a \<noteq> 0" "read_dentry_by_name (at (mem s) a) s = Some d"
    and "ops = Rtc_op \<or> ops \<in> {Dir_op, File_op} \<and> fd_flags (pcb_file (cur_pcb s) ! fd) = 0 \<and> fd < 8"
  shows "fst (op_open ops a s) \<noteq> - 1"
  using assms(3)
proof
  assume "ops = Rtc_op"
  then show ?thesis using rtc_open_ok(1) [OF assms(1), of s] by simp
next
  assume o: "ops \<in> {Dir_op, File_op} \<and> fd_flags (pcb_file (cur_pcb s) ! fd) = 0 \<and> fd < 8"
  then have "first_closed 8 0 (cur_pcb s) \<noteq> - 1" by (intro first_closed_found [of _ fd]) auto
  then show ?thesis using o assms(2) by (auto simp: open_file_def open_dir_def)
qed

lemma sys_open_name:
  assumes "cstr (mem s) a name" "name \<noteq> []" "length name \<le> 32"
    and "read_dentry_by_name (at (mem s) a) s = Some d"
  shows "sys_open a s = Some
    (let fd = open_slot 6 2 (cur_pcb s)
     in if fd_flags (get_fd fd (cur_pcb s)) \<noteq> 1
        then (case opened_as name d of
                None \<Rightarrow> (- 1, s)
              | Some ops \<Rightarrow> open_as ops (if ops = File_op then of_int (inode_num d) else 0) a fd s)
        else (- 1, s))"
proof -
  have l: "strlen (mem s) a = Some (of_nat (length name))" by (rule strlen_cstr [OF assms(1)])
  have n: "\<not> (of_nat (length name) > (32 :: u32))" "of_nat (length name) \<noteq> (0 :: u32)"
    using assms(2,3) by (simp_all add: word_less_nat_alt unat_u32_of_nat word_unat_eq_iff)
  have "strncmp (at (mem s) a) (arr (str ''rtc'')) 3 = 0 \<longleftrightarrow> take 3 name = str ''rtc''"
    "strncmp (at (mem s) a) (arr (str ''.'')) 1 = 0 \<longleftrightarrow> take 1 name = str ''.''"
  proof -
    have "length (str ''rtc'') = 3" "0 \<notin> set (str ''rtc'')" "length (str ''.'') = 1" "0 \<notin> set (str ''.'')"
      by (simp_all add: str_def)
    then show "strncmp (at (mem s) a) (arr (str ''rtc'')) 3 = 0 \<longleftrightarrow> take 3 name = str ''rtc''"
      "strncmp (at (mem s) a) (arr (str ''.'')) 1 = 0 \<longleftrightarrow> take 1 name = str ''.''"
      using strncmp_prefix [OF assms(1), of 3 "str ''rtc''"] strncmp_prefix [OF assms(1), of 1 "str ''.''"]
      by simp_all
  qed
  then show ?thesis
    using n by (simp add: sys_open_def l assms(4) opened_as_def Let_def)
qed

text \<open>Names that \<open>open\<close> refuses.\<close>

lemma sys_open_refused:
  assumes "cstr (mem s) a name" "name = [] \<or> 32 < length name \<or> read_dentry_by_name (at (mem s) a) s = None"
  shows "sys_open a s = Some (- 1, s)"
proof -
  have l: "strlen (mem s) a = Some (of_nat (length name))" by (rule strlen_cstr [OF assms(1)])
  have "length name < 2 ^ 32" using assms(1) by (simp add: cstr_def)
  then have "32 < length name \<Longrightarrow> (32 :: u32) < of_nat (length name)"
    by (simp add: word_less_nat_alt unat_u32_of_nat)
  then show ?thesis using assms(2) by (auto simp: sys_open_def l)
qed

text \<open>Descriptors that \<open>read\<close>, \<open>write\<close> and \<open>close\<close> refuse.\<close>

lemma sys_rw_refused:
  assumes "buf = 0 \<or> n < 0 \<or> fd < 0 \<or> 7 < fd \<or> fd_flags (pcb_file (cur_pcb s) ! nat fd) = 0"
  shows "sys_read polls fd buf n s = Some (Ret (- 1), s)" "sys_write fd buf n s = (- 1, s)"
  using assms by (auto simp: sys_read_def sys_write_def returns_def Let_def)

lemma sys_rw_direction:
  "fd_op (pcb_file (cur_pcb s) ! nat fd) = Some Stdout_op \<Longrightarrow> sys_read polls fd buf n s = Some (Ret (- 1), s)"
  "fd_op (pcb_file (cur_pcb s) ! nat fd) \<in> {Some Stdin_op, Some File_op, Some Dir_op} \<Longrightarrow>
    sys_write fd buf n s = (- 1, s)"
  by (auto simp: sys_read_def sys_write_def returns_def bad_call_def write_file_def write_dir_def Let_def)

lemma sys_close_refused:
  "fd < 2 \<or> 7 < fd \<or> fd_flags (pcb_file (cur_pcb s) ! nat fd) \<noteq> 1 \<Longrightarrow> sys_close fd s = (- 1, s)"
  by (auto simp: sys_close_def cur_pcb_def Let_def)

lemma open_as_done:
  fixes ino a :: u32
  assumes "fst (op_open ops a s) \<noteq> - 1" "fd < 8" "length (pcb_file (cur_pcb s)) = 8"
  defines "r \<equiv> open_as ops ino a fd s"
  shows "fst r = int fd" "cur_pcb (snd r) = (cur_pcb s)\<lparr>pcb_file := (pcb_file (cur_pcb s))
      [fd := \<lparr>fd_op = Some ops, fd_inode = ino, fd_pos = 0, fd_flags = 1\<rparr>]\<rparr>"
    "mem (snd r) = mem s" "get_pcb_address (snd r) = get_pcb_address s"
    "b \<noteq> get_pcb_address s \<Longrightarrow> pcbs (snd r) b = pcbs s b"
    "boot_block (snd r) = boot_block s" "boot_block_end (snd r) = boot_block_end s"
    "data_block_start (snd r) = data_block_start s"
  using assms(1,2) op_open_fields [of ops a s] paging_more [OF op_open_fields(1), of ops a s]
  by (simp_all add: r_def open_as_def Let_def split_beta cur_pcb_def set_fd_def op_open_kernel)

lemma open_lowest:
  assumes "cstr (mem s) a name" "a \<noteq> 0" "name \<noteq> []" "length name \<le> 32"
    and "read_dentry_by_name (at (mem s) a) s = Some d" "opened_as name d = Some ops"
    and "fd_wf (cur_pcb s)" "lowest_free (cur_pcb s) fd"
  defines "ino \<equiv> (if ops = File_op then of_int (inode_num d) else 0)"
  shows "sys_open a s = Some (open_as ops ino a fd s)" "fst (op_open ops a s) \<noteq> - 1"
proof -
  have fd: "open_slot 6 2 (cur_pcb s) = fd" "fd < 8" "fd_flags (pcb_file (cur_pcb s) ! fd) \<noteq> 1"
    using lowest_free_slot assms(8) by (auto simp: lowest_free_def)
  have z: "fd_flags (pcb_file (cur_pcb s) ! fd) = 0"
    using assms(7) fd(2,3) nth_mem [of fd "pcb_file (cur_pcb s)"] by (auto simp: fd_wf_def fd_ok_def)
  show "sys_open a s = Some (open_as ops ino a fd s)"
    using fd by (simp add: sys_open_name [OF assms(1,3,4,5)] assms(6) get_fd_def ino_def Let_def)
  have "ops \<in> {Rtc_op, Dir_op, File_op}" using assms(6) by (auto simp: opened_as_def split: if_splits)
  then show "fst (op_open ops a s) \<noteq> - 1"
    by (intro op_open_ok [OF assms(2,5)]) (use z fd(2) in auto)
qed

section \<open>A sample process\<close>

text \<open>The lookup looks at 32 characters of the name, up to a NUL byte.\<close>

lemma read_dentry_name_cong:
  assumes "upto0 f 0 32 = upto0 g 0 32"
  shows "read_dentry_by_name f s = read_dentry_by_name g s"
proof -
  have "dentry_loop k i f s = dentry_loop k i g s" for k i
    using assms by (induction k arbitrary: i) (simp_all add: strncmp_0_iff)
  then show ?thesis by (simp add: read_dentry_by_name_def)
qed

text \<open>Process 0 with standard input and output and one file open, on the image of \<open>exe_kernel\<close>,
  whose directory entry also serves as the name to open.\<close>

definition open_pcb :: pcb_t where
  "open_pcb = sample_pcb\<lparr>pcb_file := [sample_fd\<lparr>fd_op := Some Stdin_op\<rparr>, sample_fd\<lparr>fd_op := Some Stdout_op\<rparr>,
     sample_fd] @ replicate 5 (sample_fd\<lparr>fd_flags := 0\<rparr>)\<rparr>"

definition open_kernel :: kernel where
  "open_kernel = exe_kernel\<lparr>pcbs := \<lambda>_. open_pcb\<rparr>"

lemma open_pcb_wf: "fd_wf open_pcb" "lowest_free open_pcb 3"
proof -
  have three: "i = 2" if "2 \<le> i" "i < 3" for i :: nat using that by simp
  show "fd_wf open_pcb" by (simp add: fd_wf_def open_pcb_def fd_ok_def sample_fd_def)
  show "lowest_free open_pcb 3" using three
    by (auto simp: lowest_free_def open_pcb_def sample_fd_def dest!: three)
qed

lemma open_cur: "cur_pcb open_kernel = open_pcb" "mem open_kernel = exe_image"
  by (simp_all add: cur_pcb_def open_kernel_def exe_kernel_def)

lemma open_name: "cstr exe_image 0x400040 (str ''run'')"
proof -
  have "rd exe_image 0x400040 (length (str ''run'')) = str ''run''"
    by (simp add: rd_def upt_rec exe_image_def inr_def unat_u32_minus str_def)
  then show ?thesis
    by (simp add: cstr_def str_def exe_image_def inr_def unat_u32_minus)
qed

lemma open_lookup: "read_dentry_by_name (at exe_image 0x400040) open_kernel = Some (dentry_at exe_image 0x400040)"
proof -
  have "upto0 (at exe_image 0x400040) 0 32 = str ''run''"
    using cstrn_cstr [OF open_name, of 32] by (simp add: upto0_at str_def)
  moreover have "upto0 (arr (str ''run'')) 0 32 = str ''run''"
    by (simp add: upto0_def arr_def str_def upt_rec)
  ultimately have "read_dentry_by_name (at exe_image 0x400040) exe_kernel = Some (dentry_at exe_image 0x400040)"
    using exe_lookup read_dentry_name_cong by metis
  then show ?thesis
    using read_dentry_by_name_cong [of open_kernel exe_kernel] by (simp add: open_kernel_def)
qed

lemma open_kind: "opened_as (str ''run'') (dentry_at exe_image 0x400040) = Some File_op"
proof -
  have "take 3 (str ''run'') \<noteq> str ''rtc''" "take 1 (str ''run'') \<noteq> str ''.''"
    by (simp_all add: str_def take_Cons')
  moreover have "file_type (dentry_at exe_image 0x400040) = 2"
    by (simp add: dentry_at_def exe_words)
  ultimately show ?thesis by (simp add: opened_as_def)
qed

lemmas open_sample = open_name [folded open_cur(2)] open_lookup [folded open_cur(2)] open_kind [folded open_cur(2)]
  open_pcb_wf(1) [folded open_cur(1)] open_pcb_wf(2) [folded open_cur(1)]

section \<open>Properties\<close>

text \<open>C21: opening an existing file, with a name of 1 to 32 characters, returns the lowest descriptor
  from 2 on that is not in use and sets it up with the jump table of the file's kind, at position
  0; no other descriptor of any process changes, nor does memory, and the table stays
  well-formed.\<close>
theorem sys_open_correct:
  assumes "cstr (mem s) a name" "a \<noteq> 0" "name \<noteq> []" "length name \<le> 32"
    and "read_dentry_by_name (at (mem s) a) s = Some d" "opened_as name d = Some ops"
    and "fd_wf (cur_pcb s)" "lowest_free (cur_pcb s) fd"
  shows "\<exists>s'. sys_open a s = Some (int fd, s')
    \<and> pcb_file (cur_pcb s') = (pcb_file (cur_pcb s))[fd := \<lparr>fd_op = Some ops,
        fd_inode = (if ops = File_op then of_int (inode_num d) else 0), fd_pos = 0, fd_flags = 1\<rparr>]
    \<and> fd_wf (cur_pcb s') \<and> mem s' = mem s
    \<and> (\<forall>b. b = get_pcb_address s \<or> pcbs s' b = pcbs s b)"
proof -
  note ol = open_lowest [OF assms]
  have fd: "fd < 8" "length (pcb_file (cur_pcb s)) = 8"
    using assms(7,8) by (simp_all add: lowest_free_def fd_wf_def)
  note od = open_as_done [OF ol(2) fd]
  let ?ino = "if ops = File_op then of_int (inode_num d) else 0 :: u32"
  let ?s' = "snd (open_as ops ?ino a fd s)"
  have res: "sys_open a s = Some (int fd, ?s')" unfolding ol(1) by (simp add: prod_eq_iff od(1))
  have tab: "pcb_file (cur_pcb ?s') = (pcb_file (cur_pcb s))
      [fd := \<lparr>fd_op = Some ops, fd_inode = ?ino, fd_pos = 0, fd_flags = 1\<rparr>]" by (simp add: od(2))
  have "fd_wf (cur_pcb ?s')" unfolding od(2) by (rule fd_wf_update [OF assms(7)]) (simp add: fd_ok_def)
  then show ?thesis using res tab od(3,5) by blast
qed

theorem sys_open_correct_witness:
  "\<exists>s'. sys_open 0x400040 open_kernel = Some (3, s') \<and> fd_wf (cur_pcb s')"
proof -
  have "str ''run'' \<noteq> []" "length (str ''run'') \<le> 32" "(0x400040 :: u32) \<noteq> 0" by (simp_all add: str_def)
  from sys_open_correct [OF open_sample(1) this(3,1,2) open_sample(2-)] show ?thesis by auto
qed

text \<open>Opening a file and reading from the new descriptor delivers the first bytes of the file
  and returns how many.\<close>
theorem open_read_correct:
  assumes "cstr (mem s) a name" "a \<noteq> 0" "name \<noteq> []" "length name \<le> 32"
    and "read_dentry_by_name (at (mem s) a) s = Some d" "opened_as name d = Some File_op"
    and "fd_wf (cur_pcb s)" "lowest_free (cur_pcb s) fd"
    and "of_int (inode_num d) < inode_count s" "buf \<noteq> 0" "0 \<le> n" "n < 2 ^ 31"
    and "buffer_apart buf (nat n) (of_int (inode_num d)) s"
  shows "\<exists>s1 s2. sys_open a s = Some (int fd, s1) \<and>
    (let bytes = take (nat n) (contents s (of_int (inode_num d)))
     in sys_read polls (int fd) buf n s1 = Some (Ret (int (length bytes)), s2)
        \<and> rd (mem s2) buf (length bytes) = bytes)"
proof -
  note ol = open_lowest [OF assms(1-8)]
  have fd: "fd < 8" "length (pcb_file (cur_pcb s)) = 8"
    using assms(7,8) by (simp_all add: lowest_free_def fd_wf_def)
  note od = open_as_done [OF ol(2) fd]
  let ?ino = "of_int (inode_num d) :: u32"
  define s1 where "s1 = snd (open_as File_op ?ino a fd s)"
  have res: "sys_open a s = Some (int fd, s1)" unfolding ol(1) by (simp add: prod_eq_iff od(1) s1_def)
  have un: "unat (of_int n :: u32) = nat n"
    using assms(11,12) by (simp add: unat_eq_nat_uint uint_word_of_int)
  let ?f = "pcb_file (cur_pcb s1) ! fd"
  have f: "?f = \<lparr>fd_op = Some File_op, fd_inode = ?ino, fd_pos = 0, fd_flags = 1\<rparr>"
    using fd by (simp add: s1_def od(2))
  note im = image_cong [of s1 s, OF od(3,6,7,8) [of ?ino, folded s1_def]]
  define bytes where "bytes = take (nat n) (contents s ?ino)"
  define s2 where "s2 = upd_fd (get_pcb_address s1) fd
    (\<lambda>f. f\<lparr>fd_pos := fd_pos f + of_nat (length bytes)\<rparr>) (s1\<lparr>mem := wr buf bytes (mem s1)\<rparr>)"
  have "read_file (int fd) buf (of_int n) s1 = (int (length bytes), s2)"
    using read_file_slice [of ?f s1 "int fd" buf "of_int n"] assms(9,13)
    by (simp add: f im un slice_def bytes_def s2_def Let_def)
  then have "sys_read polls (int fd) buf n s1 = Some (Ret (int (length bytes)), s2)"
    using assms(10,11) fd by (simp add: sys_read_def f returns_def Let_def)
  moreover have "rd (mem s2) buf (length bytes) = bytes"
  proof -
    have "length bytes \<le> 2 ^ 32" using assms(12) by (simp add: bytes_def)
    then show ?thesis using rd_wr_same by (simp add: s2_def)
  qed
  ultimately show ?thesis using res by (auto simp: bytes_def Let_def)
qed

theorem open_read_correct_witness:
  "\<exists>s1 s2. sys_open 0x400040 open_kernel = Some (3, s1) \<and> sys_read [] 3 0x700000 4 s1 = Some (Ret 4, s2)
     \<and> rd (mem s2) 0x700000 4 = exe_identifier"
proof -
  have n: "str ''run'' \<noteq> []" "length (str ''run'') \<le> 32" "(0x400040 :: u32) \<noteq> 0" by (simp_all add: str_def)
  have i: "of_int (inode_num (dentry_at exe_image 0x400040)) = (0 :: u32)"
    by (simp add: dentry_at_def exe_words)
  have im: "contents open_kernel 0 = elf_bytes" "inode_count open_kernel = 1"
    "mem open_kernel = exe_image" "buffer_apart 0x700000 4 0 open_kernel"
    using image_cong [of open_kernel exe_kernel] exe_contents exe_loadable [unfolded i]
      buffer_apart_mono [of "0x700000" 4096 0 exe_kernel 4]
    by (simp_all add: open_kernel_def loadable_def exe_kernel_def sample_kernel_def inode_count_def exe_words)
  have "take 4 elf_bytes = exe_identifier" "length exe_identifier = 4"
    by (simp_all add: elf_bytes_def exe_identifier_def)
  then show ?thesis
    using open_read_correct [OF open_sample(1) n(3,1,2) open_sample(2-), of "0x700000" 4 "[]"]
    by (simp add: i im Let_def)
qed

text \<open>C30: closing an open descriptor from 2 on frees it, and nothing else changes; every
  call on the closed descriptor then fails without an effect, and the next \<open>open\<close> uses it again
  when no lower one is free.\<close>
theorem sys_close_correct:
  assumes "fd_wf (cur_pcb s)" "2 \<le> fd" "fd < 8" "fd_flags (pcb_file (cur_pcb s) ! fd) = 1"
    and "s' = snd (sys_close (int fd) s)" "0 \<le> n"
  shows "fst (sys_close (int fd) s) = 0
    \<and> fd_flags (pcb_file (cur_pcb s') ! fd) = 0 \<and> fd_wf (cur_pcb s')
    \<and> (\<forall>i. i \<noteq> fd \<longrightarrow> pcb_file (cur_pcb s') ! i = pcb_file (cur_pcb s) ! i)
    \<and> sys_read polls (int fd) buf n s' = Some (Ret (- 1), s')
    \<and> sys_write (int fd) buf n s' = (- 1, s') \<and> sys_close (int fd) s' = (- 1, s')
    \<and> ((\<forall>i. 2 \<le> i \<and> i < fd \<longrightarrow> fd_flags (pcb_file (cur_pcb s) ! i) = 1) \<longrightarrow> lowest_free (cur_pcb s') fd)"
proof -
  let ?f = "pcb_file (cur_pcb s) ! fd"
  have l: "length (pcb_file (cur_pcb s)) = 8" using assms(1) by (simp add: fd_wf_def)
  have ok: "fd_ok ?f" using assms(1,3) l by (simp add: fd_wf_def)
  then obtain ops where ops: "fd_op ?f = Some ops" using assms(4) by (auto simp: fd_ok_def)
  have s': "s' = upd_fd (get_pcb_address s) fd (\<lambda>f. f\<lparr>fd_flags := 0, fd_inode := 0, fd_pos := 0\<rparr>) s"
      "fst (sys_close (int fd) s) = 0"
    using assms(2-5) ops by (simp_all add: sys_close_def cur_pcb_def Let_def)
  have cur: "cur_pcb s' = (cur_pcb s)\<lparr>pcb_file := (pcb_file (cur_pcb s))
      [fd := ?f\<lparr>fd_flags := 0, fd_inode := 0, fd_pos := 0\<rparr>]\<rparr>"
    unfolding s' by (simp add: cur_pcb_def)
  then have z: "fd_flags (pcb_file (cur_pcb s') ! fd) = 0" using l assms(3) by simp
  have "fd_wf (cur_pcb s')"
    unfolding cur by (rule fd_wf_update [OF assms(1)]) (use ok in \<open>simp add: fd_ok_def\<close>)
  moreover have "lowest_free (cur_pcb s') fd" if "\<forall>i. 2 \<le> i \<and> i < fd \<longrightarrow> fd_flags (pcb_file (cur_pcb s) ! i) = 1"
    using that z assms(2,3) by (auto simp: lowest_free_def cur)
  moreover have "sys_close (int fd) s' = (- 1, s')"
    using z by (simp add: sys_close_def cur_pcb_def Let_def)
  moreover have "sys_read polls (int fd) buf n s' = Some (Ret (- 1), s')" "sys_write (int fd) buf n s' = (- 1, s')"
    using z by (simp_all add: sys_read_def sys_write_def returns_def Let_def)
  moreover have "\<forall>i. i \<noteq> fd \<longrightarrow> pcb_file (cur_pcb s') ! i = pcb_file (cur_pcb s) ! i" by (simp add: cur)
  ultimately show ?thesis using s'(2) z by blast
qed

theorem sys_close_correct_witness:
  "fst (sys_close 2 open_kernel) = 0 \<and> fst (sys_write 2 0x700000 1 (snd (sys_close 2 open_kernel))) = - 1"
  using sys_close_correct [of open_kernel 2 _ 1 "[]" "0x700000"]
  by (simp add: open_cur open_pcb_wf) (simp add: open_pcb_def sample_fd_def)



text \<open>C35: with all eight descriptors in use, opening a file or the directory fails; opening the clock
  instead returns 8, a descriptor that no other call accepts, and overwrites the first 16 bytes of
  the process's arguments with it (when their bytes 12 to 15 are not those of the number 1).\<close>
theorem sys_open_full:
  assumes "cstr (mem s) a name" "a \<noteq> 0" "name \<noteq> []" "length name \<le> 32"
    and "read_dentry_by_name (at (mem s) a) s = Some d" "opened_as name d = Some ops"
    and "\<forall>i < 8. fd_flags (pcb_file (cur_pcb s) ! i) = 1" "fd_flags (get_fd 8 (cur_pcb s)) \<noteq> 1"
  shows "if ops = Rtc_op
    then \<exists>s'. sys_open a s = Some (8, s') \<and> pcb_file (cur_pcb s') = pcb_file (cur_pcb s)
      \<and> pcb_arg (cur_pcb s') = bytes32 (op_addr s Rtc_op) @ replicate 8 0 @ [1, 0, 0, 0] @ drop 16 (pcb_arg (cur_pcb s))
      \<and> sys_read polls 8 buf n s' = Some (Ret (- 1), s') \<and> sys_close 8 s' = (- 1, s')
    else sys_open a s = Some (- 1, s)"
proof -
  have slot: "open_slot 6 2 (cur_pcb s) = 8"
    using open_slot_full [of 2 6 "cur_pcb s"] assms(7) by simp
  have op: "sys_open a s = Some (open_as ops (if ops = File_op then of_int (inode_num d) else 0) a 8 s)"
    by (simp add: sys_open_name [OF assms(1,3,4,5)] slot assms(6,8) Let_def)
  have none: "first_closed 8 0 (cur_pcb s) = - 1" using assms(7) by (intro first_closed_full) auto
  have ops: "ops = Rtc_op \<or> ops = Dir_op \<or> ops = File_op"
    using assms(6) by (auto simp: opened_as_def split: if_splits)
  have small: "bytes32 0 = [0, 0, 0, 0]" "bytes32 1 = [1, 0, 0, 0]"
    by (simp_all add: bytes32_def byte_of_def drop_bit_eq_div)
  show ?thesis
  proof (cases "ops = Rtc_op")
    case True
    let ?s' = "snd (open_as Rtc_op 0 a 8 s)"
    have ok: "fst (op_open Rtc_op a s) \<noteq> - 1" using rtc_open_ok(1) [OF assms(2), of s] by simp
    have r: "fst (open_as Rtc_op 0 a 8 s) = 8"
      "cur_pcb ?s' = set_fd (op_addr s) 8 Rtc_op 0 0 1 (cur_pcb s)"
      using ok by (simp_all add: open_as_def cur_pcb_def Let_def split_beta op_open_kernel del: op_open.simps)
    have "sys_open a s = Some (8, ?s')" using op True r(1) by (simp add: prod_eq_iff)
    then show ?thesis
      using True r(2) by (auto simp: set_fd_def small sys_read_def sys_close_def returns_def numeral_eq_Suc)
  next
    case False
    then show ?thesis
      using ops assms(5) none by (auto simp: op open_as_def open_dir_def open_file_def)
  qed
qed

definition full_kernel :: kernel where
  "full_kernel = exe_kernel\<lparr>mem := exe_image(0x400041 := 0x74, 0x400042 := 0x63)\<rparr>"

lemma full_name: "cstr (mem full_kernel) 0x400040 (str ''rtc'')"
proof -
  have "rd (mem full_kernel) 0x400040 (length (str ''rtc'')) = str ''rtc''"
    by (simp add: full_kernel_def rd_def upt_rec exe_image_def inr_def unat_u32_minus str_def)
  then show ?thesis
    by (simp add: full_kernel_def cstr_def str_def exe_image_def inr_def unat_u32_minus)
qed

lemma full_lookup: "read_dentry_by_name (at (mem full_kernel) 0x400040) full_kernel = Some (dentry_at (mem full_kernel) 0x400040)"
proof -
  have "ld32 (mem full_kernel) 0x400000 = ld32 exe_image 0x400000"
    by (simp add: ld32_def full_kernel_def)
  then have n: "dir_size full_kernel = 1"
    by (simp add: dir_size_def dir_count_def exe_words) (simp add: full_kernel_def exe_kernel_def sample_kernel_def)?
  have a: "dir_entry_addr full_kernel (of_nat 0) = 0x400040"
    by (simp add: dir_entry_addr_def full_kernel_def exe_kernel_def sample_kernel_def)
  then have "entry_named (at (mem full_kernel) 0x400040) full_kernel 0"
    by (simp add: entry_named_def entry_name_def upto0_at)
  then have "read_dentry_by_name (at (mem full_kernel) 0x400040) full_kernel = dir_entry full_kernel 0"
    using n by (intro root_dir.lookup_first) auto
  then show ?thesis using n a by (simp add: dir_entry_def)
qed

theorem sys_open_full_witness:
  "\<exists>s'. sys_open 0x400040 full_kernel = Some (8, s') \<and> sys_close 8 s' = (- 1, s')"
proof -
  have n: "str ''rtc'' \<noteq> []" "length (str ''rtc'') \<le> 32" "(0x400040 :: u32) \<noteq> 0" by (simp_all add: str_def)
  have k: "opened_as (str ''rtc'') d = Some Rtc_op" for d
    by (simp add: opened_as_def str_def)
  have cur: "cur_pcb full_kernel = sample_pcb"
    by (simp add: cur_pcb_def full_kernel_def exe_kernel_def sample_kernel_def)
  have "\<forall>i < 8. fd_flags (pcb_file (cur_pcb full_kernel) ! i) = 1" "fd_flags (get_fd 8 (cur_pcb full_kernel)) \<noteq> 1"
    by (simp_all add: cur sample_pcb_def sample_fd_def get_fd_def le32_def)
  from sys_open_full [OF full_name n(3,1,2) full_lookup k this, where polls = "[]" and buf = 0 and n = 0]
  show ?thesis by auto
qed

section \<open>Arguments and the video window\<close>

lemma upto0_string:
  "\<forall>j < length xs. f (i + j) = xs ! j \<Longrightarrow> f (i + length xs) = 0 \<Longrightarrow> 0 \<notin> set xs \<Longrightarrow> upto0 f i k = take k xs"
proof (induction xs arbitrary: i k)
  case Nil
  then show ?case by (cases k) (simp_all add: upto0_Suc)
next
  case (Cons x xs)
  have "\<forall>j < length xs. f (Suc i + j) = xs ! j" using Cons.prems(1) by force
  then have "upto0 f (Suc i) n = take n xs" for n using Cons.IH [of "Suc i"] Cons.prems(2,3) by simp
  moreover have "f i = x" using Cons.prems(1) by force
  ultimately show ?case using Cons.prems(3) by (cases k) (auto simp: upto0_Suc)
qed

lemma execute_cur_term: "cur_term (snd (execute_cmd command s)) = cur_term s"
proof -
  have "cur_term (snd (execute_load f a p s)) = cur_term s" for f a p and s :: "'a kernel_scheme"
    by (simp add: execute_load_def execute_start_def start_fields free_process_def split_beta
        read_data_kernel [OF surjective_pairing] split: option.split)
  then show ?thesis
    by (simp add: execute_cmd_def Let_def split: option.split)
qed

lemma getargs_string:
  assumes "pcb_arg (cur_pcb s) = args @ [0] @ rest" "0 \<notin> set args" "args \<noteq> []" "buf \<noteq> 0" "0 \<le> n" "n < 2 ^ 31"
  shows "getargs buf n s = (0, s\<lparr>mem := wr buf (padded (nat n) (take (nat n) args)) (mem s)\<rparr>)"
proof -
  have un: "unat (of_int n :: u32) = nat n"
    using assms(5,6) by (simp add: unat_eq_nat_uint uint_word_of_int)
  have "upto0 (arr (args @ [0] @ rest)) 0 k = take k args" for k
    by (rule upto0_string) (use assms(2) in \<open>auto simp: arr_def nth_append\<close>)
  moreover have "(args @ [0] @ rest) ! 0 \<noteq> 0" using assms(2,3) by (cases args) auto
  ultimately show ?thesis
    using assms(4) by (simp add: getargs_def assms(1) un strncpy_arr_wr Let_def)
qed

text \<open>A program started by \<open>execute\<close> that asks for its arguments gets the words behind its
  name on the command line, cut or padded with NULs to the size of its buffer; with no
  arguments, or a null buffer, the call fails without an effect.\<close>
theorem execute_getargs:
  assumes "procs s gs" "\<not> all_busy (process_state s)" "length (gs ! cur_term s) < 4"
    and "command_name command \<noteq> []" "length (command_name command) \<le> 32"
    and "read_dentry_by_name (arr (command_name command)) s = Some d"
    and "loadable (of_int (inode_num d)) s" "0 \<notin> set command" "0 \<le> n" "n < 2 ^ 31"
  shows "let (result, s1) = execute_cmd command s; (r, s2) = getargs buf n s1; args = command_args command
    in if buf = 0 \<or> args = [] then r = - 1 \<and> s2 = s1
       else r = 0 \<and> rd (mem s2) buf (nat n) = padded (nat n) (take (nat n) args)"
proof -
  let ?p = "free_pid (process_state s)" and ?args = "command_args command" and ?g = "gs ! cur_term s"
  obtain s1 result where s1: "execute_cmd command s = (result, s1)"
      "procs s1 (gs[cur_term s := ?g @ [int ?p]])"
      "pcb_arg (pcbs s1 (get_pcb (of_nat ?p))) = ?args @ [0]
        @ drop (Suc (length ?args)) (pcb_arg (pcbs s (get_pcb (of_nat ?p))))"
    using execute_program [OF assms(1-7)] by blast
  have t: "cur_term s1 = cur_term s" using execute_cur_term [of command s] by (simp add: s1(1))
  have "cur_term s < 3" "length gs = 3" using assms(1) by (simp_all add: procs_def)
  then have "get_pcb_address s1 = get_pcb (of_nat ?p)"
    using get_pcb_address_last [OF s1(2)] by (simp add: t)
  then have arg: "pcb_arg (cur_pcb s1) = ?args @ [0]
        @ drop (Suc (length ?args)) (pcb_arg (pcbs s (get_pcb (of_nat ?p))))"
    using s1(3) by (simp add: cur_pcb_def)
  have z: "0 \<notin> set ?args" using assms(8) by (auto simp: command_args_def dest!: set_dropWhileD)
  show ?thesis
  proof (cases "buf = 0 \<or> ?args = []")
    case True
    then have "getargs buf n s1 = (- 1, s1)" by (auto simp: getargs_def arg Let_def)
    then show ?thesis using True by (simp add: s1(1))
  next
    case False
    have "length (padded (nat n) (take (nat n) ?args)) = nat n" by simp
    moreover have "nat n \<le> 2 ^ 32" using assms(10) by simp
    ultimately have "rd (wr buf (padded (nat n) (take (nat n) ?args)) (mem s1)) buf (nat n) =
        padded (nat n) (take (nat n) ?args)" using rd_wr_same by metis
    then show ?thesis
      using False getargs_string [OF arg z] assms(9,10) by (simp add: s1(1))
  qed
qed

theorem execute_getargs_witness:
  "let (result, s1) = execute_cmd (str ''run ab'') exe_kernel; (r, s2) = getargs 0x08001000 4 s1
   in r = 0 \<and> rd (mem s2) 0x08001000 4 = [0x61, 0x62, 0, 0]"
proof -
  have n: "command_name (str ''run ab'') = str ''run''" "command_args (str ''run ab'') = str ''ab''"
    by (simp_all add: command_name_def command_args_def blank_def str_def)
  have ne: "str ''run'' \<noteq> []" "length (str ''run'') \<le> 32" "0 \<notin> set (str ''run ab'')"
    "str ''ab'' \<noteq> []" by (simp_all add: str_def)
  have "padded 4 (take 4 (str ''ab'')) = [0x61, 0x62, 0, 0]" by (simp add: padded_def str_def numeral_eq_Suc)
  then show ?thesis
    using execute_getargs [OF exe_procs exe_state(4) _ _ _ _ exe_loadable ne(3), of 4 "0x08001000"]
    by (auto simp: n ne exe_lookup exe_state Let_def split: prod.splits)
qed

lemma walk_window:
  assumes "page_directory s ! 33 = vidmem_table_addr s OR 7" "vidmem_pagetable s ! 0 = 0xB8000 OR 7"
    and "vidmem_table_addr s AND mask 12 = 0" "page_table_addr s \<noteq> vidmem_table_addr s" "i < 4096"
  shows "walk True s (0x08400000 + of_nat i) = Some (0xB8000 + of_nat i)"
proof -
  let ?va = "0x08400000 + of_nat i :: u32"
  have uv: "unat ?va = 0x08400000 + i" using assms(5) by (simp add: unat_u32_plus unat_u32_of_nat)
  have d: "unat (drop_bit 22 ?va) = 33" using assms(5) unfolding dir_index uv by simp
  have "unat ?va div 2 ^ 12 = 33792" using assms(5) unfolding uv by (intro div_nat_eqI) simp_all
  then have "unat ?va div 2 ^ 12 mod 2 ^ 10 = 0" by simp
  then have t: "unat (drop_bit 12 ?va AND 0x3FF) = 0" unfolding masks(3) unat_mask unat_drop .
  define B :: u32 where "B = 0xB8000"
  have b: "B AND mask 12 = 0" by (simp add: B_def mask_eq_exp_minus_1)
  have e: "vidmem_pagetable s ! 0 = B OR 7" using assms(2) by (simp add: B_def)
  have w: "walk True s ?va = Some (B OR (?va AND mask 12))"
    unfolding walk_def d by (simp only: assms(1) Let_def masks(2,5) entry_4KB [OF assms(3)] entry_4KB [OF b]
      table_at_def assms(4) [symmetric] if_False if_True refl t [unfolded masks(3)] e masks(3) option.case simp_thms)
  have "unat (B OR (?va AND mask 12)) = 0xB8000 + i"
    using assms(5) mod_mult_self3 [of 33792 4096 i] unfolding entry_offset [OF b] uv by (simp add: B_def)
  also have "\<dots> = unat (0xB8000 + of_nat i :: u32)" using assms(5) by (simp add: unat_u32_plus unat_u32_of_nat)
  finally have "B OR (?va AND mask 12) = 0xB8000 + of_nat i" by (simp only: word_unat_eq_iff)
  then show ?thesis unfolding w by (rule arg_cong)
qed

text \<open>\<open>vidmap\<close> succeeds exactly when the word its argument points to is zero (its range check
  compares with bounds cut to a byte, both zero): then user accesses to the page at 132 MB reach
  the display memory at 0xB8000, the argument gets the page's address, and that address is
  returned.  Otherwise the call returns -1 without an effect.\<close>
theorem vidmap_correct:
  assumes "vidmem_table_addr s AND 0xFFF = 0" "length (vidmem_pagetable s) = 1024"
    "length (page_directory s) = 1024" "page_table_addr s \<noteq> vidmem_table_addr s"
  shows "if p \<noteq> 0 \<and> ld32 (mem s) p = 0
    then \<exists>s'. vidmap p s = (0x08400000, s') \<and> ld32 (mem s') p = 0x08400000
      \<and> (\<forall>i < 4096. walk True s' (0x08400000 + of_nat i) = Some (0xB8000 + of_nat i))
    else vidmap p s = (- 1, s)"
proof -
  have c: "low8 0x08000000 = 0" "low8 0x08400000 = 0" by (simp_all add: low8_def)
  show ?thesis
  proof (cases "p \<noteq> 0 \<and> ld32 (mem s) p = 0")
    case True
    define s' where "s' = snd (vidmap p s)"
    have "fst (vidmap p s) = 0x08400000" using True by (simp add: vidmap_def c Let_def)
    moreover have "ld32 (mem s') p = 0x08400000" using True by (simp add: vidmap_def c Let_def s'_def ld32_st32)
    moreover have "walk True s' (0x08400000 + of_nat i) = Some (0xB8000 + of_nat i)" if i: "i < 4096" for i
    proof (rule walk_window [OF _ _ _ _ i])
      show "page_directory s' ! 33 = vidmem_table_addr s' OR 7" "vidmem_pagetable s' ! 0 = 0xB8000 OR 7"
        "page_table_addr s' \<noteq> vidmem_table_addr s'"
        using True assms by (simp_all add: s'_def vidmap_def c map2user_def push_bit_eq_mult Let_def)
      show "vidmem_table_addr s' AND mask 12 = 0"
        using True assms(1) by (simp add: s'_def vidmap_def c map2user_def Let_def masks)
    qed
    ultimately show ?thesis using True by (auto simp: s'_def prod_eq_iff)
  next
    case False
    then show ?thesis by (auto simp: vidmap_def c Let_def word_gt_0)
  qed
qed

theorem vidmap_correct_witness:
  "walk True (snd (vidmap 0x700000 (sample_kernel\<lparr>mem := \<lambda>_. 0\<rparr>))) 0x08400010 = Some 0xB8010"
proof -
  let ?s = "sample_kernel\<lparr>mem := \<lambda>_. 0\<rparr>"
  have h: "vidmem_table_addr ?s AND 0xFFF = 0" "length (vidmem_pagetable ?s) = 1024"
    "length (page_directory ?s) = 1024" "page_table_addr ?s \<noteq> vidmem_table_addr ?s"
    "ld32 (mem ?s) 0x700000 = 0"
    by (simp_all add: sample_kernel_def ld32_def le32_def)
  then obtain s' where s': "vidmap 0x700000 ?s = (0x08400000, s')"
      "\<forall>i < 4096. walk True s' (0x08400000 + of_nat i) = Some (0xB8000 + of_nat i)"
    using vidmap_correct [OF h(1-4), of "0x700000"] by auto
  from spec [OF s'(2), of 16] show ?thesis by (simp add: s'(1))
qed

end
