(* ===== verification/Halt.thy ===== *)
theory Halt
  imports Syscall
begin

text \<open>
  \<open>halt\<close> of \<^verbatim>\<open>student-distrib/syscall.c\<close>: the process leaves the table, its descriptors are
  gone through, and the parent goes on; the last process of a terminal is replaced by a new
  shell.
\<close>

definition remove_process :: "nat \<Rightarrow> u32 \<Rightarrow> 'a kernel_scheme \<Rightarrow> 'a kernel_scheme" where
  "remove_process t cur_process s =
     (let p = pcbs s cur_process;
          s = free_process (nat (pcb_pid p)) s;
          s = upd_term t (\<lambda>tm. tm\<lparr>processes := (processes tm)
                [length (takeWhile (\<lambda>q. q \<noteq> pcb_pid p) (processes tm)) := - 1]\<rparr>) s;
          s = upd_term t (\<lambda>tm. tm\<lparr>term_proc := get_pcb (of_int (parent_pid p))\<rparr>) s
      in if last_shell s ! t = pcb_pid p
         then s\<lparr>last_shell := (last_shell s)[t := parent_pid p]\<rparr> else s)"

text \<open>\<open>close\<close> finds its PCB again, through the table the process has just left.\<close>

definition halt_fd :: "u32 \<Rightarrow> nat \<Rightarrow> 'a kernel_scheme \<Rightarrow> 'a kernel_scheme" where
  "halt_fd cur_process i s =
     (let s = (if 1 < i \<and> fd_flags (pcb_file (pcbs s cur_process) ! i) = 1
               then snd (sys_close (int i) s) else s)
      in upd_fd cur_process i (\<lambda>f. f\<lparr>fd_op := Some Do_nothing\<rparr>) s)"

definition return_to_parent :: "u32 \<Rightarrow> u32 \<Rightarrow> 'a kernel_scheme \<Rightarrow> outcome \<times> 'a kernel_scheme" where
  "return_to_parent cur_process status s =
     (let p = pcbs s cur_process;
          s = set_process_page (0x800000 + of_int (parent_pid p) * 0x400000) s;
          s = s\<lparr>tss_esp0 := 0x800000 - of_int (parent_pid p) * 0x2000 - 4\<rparr>
      in (Return_to (parent_ebp p) (parent_esp p) status, sti s))"

definition halt :: "u8 \<Rightarrow> 'a kernel_scheme \<Rightarrow> outcome \<times> 'a kernel_scheme" where
  "halt status s =
     (let s = cli s;
          cur_process = get_pcb_address s;
          actual_status = (if exception_status s = 256 then exception_status s else ucast status);
          s = (if exception_status s = 256 then s\<lparr>exception_status := 0\<rparr> else s);
          t = unat (get_current_terminal s);
          s = upd_term t (\<lambda>tm. tm\<lparr>num_proc := num_proc tm - 1\<rparr>) s
      in if process_state s ! nat (pcb_pid (pcbs s cur_process)) = 0
         then (Ret (- 1), print (''halt error: inactive process'' @ [CHR 0x0A]) s)
         else let is_process0 = (num_proc (terminals s ! t) = 0);
                  s = fold (halt_fd cur_process) [0..<8] (remove_process t cur_process s)
              in if is_process0
                 then case execute_cmd (str ''shell'') s of
                        (Ret r, s) \<Rightarrow> return_to_parent cur_process actual_status s
                      | (result, s) \<Rightarrow> (result, s)
                 else return_to_parent cur_process actual_status s)"

section \<open>Closing the descriptors\<close>

text \<open>A change of descriptors only (and of the ghost flag).\<close>

definition files_only :: "'a kernel_scheme \<Rightarrow> 'a kernel_scheme \<Rightarrow> bool" where
  "files_only s t \<longleftrightarrow> (\<exists>h w. t = s\<lparr>pcbs := h, wild := w\<rparr>
     \<and> (\<forall>a. \<exists>fs. h a = (pcbs s a)\<lparr>pcb_file := fs\<rparr>))"

lemma pcb_file_self: "\<exists>fs. p = (p :: pcb_t)\<lparr>pcb_file := fs\<rparr>"
  by (rule exI [of _ "pcb_file p"]) simp

lemma files_only_refl: "files_only s s"
proof -
  have "s = s\<lparr>pcbs := pcbs s, wild := wild s\<rparr>" by simp
  moreover have "\<forall>a. \<exists>fs. pcbs s a = (pcbs s a)\<lparr>pcb_file := fs\<rparr>"
    by (blast intro: pcb_file_self)
  ultimately show ?thesis unfolding files_only_def by blast
qed

lemma files_only_trans: "files_only s t \<Longrightarrow> files_only t u \<Longrightarrow> files_only s u"
proof -
  assume "files_only s t" "files_only t u"
  then obtain h w h' w' where t: "t = s\<lparr>pcbs := h, wild := w\<rparr>" "\<forall>a. \<exists>fs. h a = (pcbs s a)\<lparr>pcb_file := fs\<rparr>"
    and u: "u = t\<lparr>pcbs := h', wild := w'\<rparr>" "\<forall>a. \<exists>fs. h' a = (pcbs t a)\<lparr>pcb_file := fs\<rparr>"
    unfolding files_only_def by blast
  have "u = s\<lparr>pcbs := h', wild := w'\<rparr>" unfolding u(1) t(1) by simp
  moreover have "\<exists>fs. h' a = (pcbs s a)\<lparr>pcb_file := fs\<rparr>" for a
  proof -
    obtain x y where "h a = (pcbs s a)\<lparr>pcb_file := x\<rparr>" "h' a = (pcbs t a)\<lparr>pcb_file := y\<rparr>"
      using t(2) u(2) by blast
    then show ?thesis by (intro exI [of _ y]) (simp add: t(1))
  qed
  ultimately show ?thesis unfolding files_only_def by blast
qed

lemma files_only_fields:
  assumes "files_only s t"
  shows "terminals t = terminals s" "cur_term t = cur_term s" "process_state t = process_state s"
    "before_processes t = before_processes s" "page_directory t = page_directory s"
    "pcb_pid (pcbs t a) = pcb_pid (pcbs s a)" "parent_pid (pcbs t a) = parent_pid (pcbs s a)"
    "parent_ebp (pcbs t a) = parent_ebp (pcbs s a)" "parent_esp (pcbs t a) = parent_esp (pcbs s a)"
    "pcb_arg (pcbs t a) = pcb_arg (pcbs s a)" "get_pcb_address t = get_pcb_address s"
    "mem t = mem s" "running_term t = running_term s"
proof -
  obtain h w where t: "t = s\<lparr>pcbs := h, wild := w\<rparr>" and "\<forall>a. \<exists>fs. h a = (pcbs s a)\<lparr>pcb_file := fs\<rparr>"
    using assms unfolding files_only_def by blast
  then obtain fs where fs: "h a = (pcbs s a)\<lparr>pcb_file := fs\<rparr>" by blast
  show "terminals t = terminals s" "cur_term t = cur_term s" "process_state t = process_state s"
    "before_processes t = before_processes s" "page_directory t = page_directory s"
    "mem t = mem s" "running_term t = running_term s" by (simp_all add: t)
  then show "get_pcb_address t = get_pcb_address s" by (intro get_pcb_address_cong)
  show "pcb_pid (pcbs t a) = pcb_pid (pcbs s a)" "parent_pid (pcbs t a) = parent_pid (pcbs s a)"
    "parent_ebp (pcbs t a) = parent_ebp (pcbs s a)" "parent_esp (pcbs t a) = parent_esp (pcbs s a)"
    "pcb_arg (pcbs t a) = pcb_arg (pcbs s a)"
    by (simp_all add: t fs)
qed

lemma files_only_fd: "files_only s (upd_fd a i f s)"
  unfolding files_only_def upd_fd_def upd_pcb_def
proof (intro exI conjI allI)
  show "s\<lparr>pcbs := (pcbs s)(a := (pcbs s a)\<lparr>pcb_file := (pcb_file (pcbs s a))[i := f (pcb_file (pcbs s a) ! i)]\<rparr>)\<rparr> =
    s\<lparr>pcbs := (pcbs s)(a := (pcbs s a)\<lparr>pcb_file := (pcb_file (pcbs s a))[i := f (pcb_file (pcbs s a) ! i)]\<rparr>), wild := wild s\<rparr>"
    by simp
  show "((pcbs s)(a := (pcbs s a)\<lparr>pcb_file := (pcb_file (pcbs s a))[i := f (pcb_file (pcbs s a) ! i)]\<rparr>)) b =
    (pcbs s b)\<lparr>pcb_file := if b = a then (pcb_file (pcbs s a))[i := f (pcb_file (pcbs s a) ! i)] else pcb_file (pcbs s b)\<rparr>" for b
    by simp
qed

lemma files_only_wild: "files_only s (s\<lparr>wild := True\<rparr>)"
proof -
  have "s\<lparr>wild := True\<rparr> = s\<lparr>pcbs := pcbs s, wild := True\<rparr>" by simp
  moreover have "\<forall>a. \<exists>fs. pcbs s a = (pcbs s a)\<lparr>pcb_file := fs\<rparr>"
    by (blast intro: pcb_file_self)
  ultimately show ?thesis unfolding files_only_def by blast
qed

lemma files_only_close: "files_only s (snd (sys_close fd s))"
  by (auto simp: sys_close_def Let_def files_only_refl files_only_fd split: option.split
      intro: files_only_trans [OF files_only_wild files_only_fd])

lemma files_only_halt_fd: "files_only s (halt_fd a i s)"
  unfolding halt_fd_def Let_def
  by (auto intro: files_only_fd files_only_trans [OF files_only_close files_only_fd])

lemma files_only_halt: "files_only s (fold (halt_fd a) xs s)"
  by (induction xs arbitrary: s) (auto intro: files_only_refl files_only_trans [OF files_only_halt_fd])

section \<open>Leaving the process table\<close>

lemma last_index: "p \<notin> set g \<Longrightarrow> length (takeWhile (\<lambda>q. q \<noteq> p) (g @ [p] @ r)) = length g"
  by (induction g) auto

lemma term_ok_removed:
  assumes "term_ok (g @ [p]) tm" "p \<notin> set g"
  shows "term_ok g (tm\<lparr>num_proc := num_proc tm - 1,
    processes := (processes tm)[length (takeWhile (\<lambda>q. q \<noteq> p) (processes tm)) := - 1], term_proc := a\<rparr>)"
proof -
  have tm: "processes tm = g @ [p] @ replicate (3 - length g) (- 1)" "length g < 4"
      "num_proc tm = int (length g) + 1" "first_run tm = 0" "- 1 \<notin> set g"
    using assms(1) by (auto simp: term_ok_def)
  have "4 - length g = Suc (3 - length g)" using tm(2) by simp
  then have "(processes tm)[length (takeWhile (\<lambda>q. q \<noteq> p) (processes tm)) := - 1] = g @ replicate (4 - length g) (- 1)"
    unfolding tm(1) last_index [OF assms(2)] by (simp add: list_update_append)
  then show ?thesis using tm by (simp add: term_ok_def)
qed

lemma concat_butlast:
  assumes "t < length gs" "gs ! t = g @ [p]" "distinct (concat gs)"
  shows "set (concat (gs[t := g])) = set (concat gs) - {p}" "distinct (concat (gs[t := g]))" "p \<notin> set g"
proof -
  have gs: "gs = take t gs @ (g @ [p]) # drop (Suc t) gs" using id_take_nth_drop [OF assms(1)] assms(2) by simp
  have up: "gs[t := g] = take t gs @ g # drop (Suc t) gs" using assms(1) by (simp add: upd_conv_take_nth_drop)
  have d: "distinct (concat (take t gs @ (g @ [p]) # drop (Suc t) gs))" using assms(3) gs by simp
  have "concat gs = concat (take t gs @ (g @ [p]) # drop (Suc t) gs)" using gs by simp
  then have c: "set (concat gs) = set (concat (take t gs)) \<union> set g \<union> {p} \<union> set (concat (drop (Suc t) gs))"
    by (simp only: concat_append concat.simps set_append) auto
  show "set (concat (gs[t := g])) = set (concat gs) - {p}" "distinct (concat (gs[t := g]))" "p \<notin> set g"
    unfolding up c using d by auto
qed

text \<open>What \<open>halt\<close> does before it looks at the descriptors.\<close>

definition halted :: "'a kernel_scheme \<Rightarrow> 'a kernel_scheme" where
  "halted s =
     (let s = cli s; s = (if exception_status s = 256 then s\<lparr>exception_status := 0\<rparr> else s)
      in remove_process (cur_term s) (get_pcb_address s)
           (upd_term (cur_term s) (\<lambda>tm. tm\<lparr>num_proc := num_proc tm - 1\<rparr>) s))"

lemma halted_procs:
  assumes "procs s gs" "gs ! cur_term s = g @ [p]"
  shows "procs (halted s) (gs[cur_term s := g])" "cur_term (halted s) = cur_term s"
    "pcbs (halted s) = pcbs s" "mem (halted s) = mem s" "page_directory (halted s) = page_directory s"
    "num_proc (terminals s ! cur_term s) = int (length g) + 1" "get_pcb_address s = get_pcb (of_int p)"
    "process_state s ! nat p = 1" "pcb_pid (pcbs s (get_pcb (of_int p))) = p" "0 \<le> p" "p < 6"
    "running_term (halted s) = running_term s"
proof -
  let ?t = "cur_term s"
  have t: "?t < 3" "length gs = 3" "length (terminals s) = 3"
    using assms(1) procs_terms [OF assms(1)] by (auto simp: procs_def)
  have d: "distinct (concat gs)" using assms(1) by (simp add: procs_def)
  note cb = concat_butlast [OF _ assms(2) d, unfolded t(2), OF t(1)]
  have tok: "term_ok (g @ [p]) (terminals s ! ?t)" using term_of [OF assms(1) t(1)] assms(2) by simp
  then show np: "num_proc (terminals s ! ?t) = int (length g) + 1" by (simp add: term_ok_def)
  show ad: "get_pcb_address s = get_pcb (of_int p)" using get_pcb_address_last [OF assms(1)] assms(2) by simp
  have "g @ [p] \<in> set gs" using assms(2) t(1,2) nth_mem [of ?t gs] by simp
  then have inp: "p \<in> set (concat gs)" by (auto intro!: bexI [of _ "g @ [p]"])
  then have "pid_ok (pcbs s) p" using assms(1) unfolding procs_def by blast
  then show pid: "pcb_pid (pcbs s (get_pcb (of_int p))) = p" and p0: "0 \<le> p" and p6: "p < 6"
    by (simp_all add: pid_ok_def)
  have st: "process_state s = map (\<lambda>p. if int p \<in> set (concat gs) then 1 else 0) [0..<6]"
    using assms(1) by (simp only: procs_def)
  show "process_state s ! nat p = 1"
    unfolding st using p0 p6 inp by (subst nth_map) simp_all
  define tm where "tm = (terminals s ! ?t)\<lparr>num_proc := num_proc (terminals s ! ?t) - 1,
    processes := (processes (terminals s ! ?t))[length (takeWhile (\<lambda>q. q \<noteq> p) (processes (terminals s ! ?t))) := - 1],
    term_proc := get_pcb (of_int (parent_pid (pcbs s (get_pcb (of_int p)))))\<rparr>"
  have x: "get_pcb_address (cli s) = get_pcb (of_int p)"
    "get_pcb_address ((cli s)\<lparr>exception_status := 0\<rparr>) = get_pcb (of_int p)"
    unfolding ad [symmetric] by (rule get_pcb_address_cong; simp)+
  have h: "terminals (halted s) = (terminals s)[?t := tm]"
    "process_state (halted s) = (process_state s)[nat p := 0]"
    using t by (simp_all add: halted_def remove_process_def Let_def x pid tm_def free_process_def)
  show f: "cur_term (halted s) = ?t" "pcbs (halted s) = pcbs s" "mem (halted s) = mem s"
    "page_directory (halted s) = page_directory s" "running_term (halted s) = running_term s"
    by (simp_all add: halted_def remove_process_def Let_def free_process_def upd_term_def)
  have "list_all2 term_ok (gs[?t := g]) (terminals (halted s))"
    unfolding h(1) tm_def using assms(1) term_ok_removed [OF tok cb(3)]
    by (intro list_all2_update_cong) (auto simp: procs_def)
  moreover have "(process_state s)[nat p := 0] = map (\<lambda>q. if int q \<in> set (concat gs) - {p} then 1 else 0) [0..<6]"
    unfolding st using p0 by (intro nth_equalityI) (auto simp: nth_list_update)
  moreover have "\<forall>q \<in> set (concat gs) - {p}. pid_ok (pcbs s) q" using assms(1) unfolding procs_def by blast
  ultimately show "procs (halted s) (gs[?t := g])"
    unfolding procs_def using t cb h(2) f(1,2) by (simp del: set_concat)
qed

lemma halt_unfold:
  fixes status :: u8
  assumes "procs s gs" "gs ! cur_term s = g @ [p]"
  defines "s1 \<equiv> fold (halt_fd (get_pcb (of_int p))) [0..<8] (halted s)"
    and "status' \<equiv> (if exception_status s = 256 then 256 else ucast status)"
  shows "halt status s =
    (if g = []
     then case execute_cmd (str ''shell'') s1 of
            (Ret r, s) \<Rightarrow> return_to_parent (get_pcb (of_int p)) status' s
          | (result, s) \<Rightarrow> (result, s)
     else return_to_parent (get_pcb (of_int p)) status' s1)"
proof -
  note hp = halted_procs [OF assms(1,2)]
  have t: "cur_term s < length (terminals s)"
    using assms(1) procs_terms [OF assms(1)] by (auto simp: procs_def)
  have u: "unat (get_current_terminal s) = cur_term s" by (rule procs_current [OF assms(1)])
  let ?x = "if exception_status (cli s) = 256 then (cli s)\<lparr>exception_status := 0\<rparr> else cli s"
  have x: "get_pcb_address (cli s) = get_pcb (of_int p)" "get_pcb_address ?x = get_pcb (of_int p)"
    "pcbs ?x = pcbs s" "process_state ?x = process_state s" "cur_term ?x = cur_term s"
    "unat (get_current_terminal ?x) = cur_term s" "terminals ?x = terminals s"
    using hp(7) get_pcb_address_cong [of "cli s" s] get_pcb_address_cong [of ?x s] u
    by (simp_all add: get_current_terminal_def)
  have s1: "halted s = remove_process (cur_term s) (get_pcb (of_int p))
      (upd_term (cur_term s) (\<lambda>tm. tm\<lparr>num_proc := num_proc tm - 1\<rparr>) ?x)"
    unfolding halted_def Let_def x(2,5) ..
  have st: "(if exception_status (cli s) = 256 then exception_status (cli s) else ucast status) = status'"
    by (simp add: status'_def)
  show ?thesis
    unfolding halt_def Let_def x st
    using hp(6,8,9) t x by (simp add: s1_def s1)
qed

lemma return_to_parent_fields:
  "fst (return_to_parent a st s) = Return_to (parent_ebp (pcbs s a)) (parent_esp (pcbs s a)) st"
  "terminals (snd (return_to_parent a st s)) = terminals s" "cur_term (snd (return_to_parent a st s)) = cur_term s"
  "process_state (snd (return_to_parent a st s)) = process_state s" "pcbs (snd (return_to_parent a st s)) = pcbs s"
  "page_directory (snd (return_to_parent a st s)) =
     (page_directory s)[32 := (0x800000 + of_int (parent_pid (pcbs s a)) * 0x400000) OR 0x87]"
  "tss_esp0 (snd (return_to_parent a st s)) = 0x800000 - of_int (parent_pid (pcbs s a)) * 0x2000 - 4"
  "iflag (snd (return_to_parent a st s))"
  by (simp_all add: return_to_parent_def Let_def set_process_page_dir)

lemma procs_files_only: "procs s gs \<Longrightarrow> files_only s t \<Longrightarrow> procs t gs"
proof -
  assume a: "procs s gs" "files_only s t"
  have "list_all2 term_ok gs (terminals s)" using a(1) by (simp add: procs_def)
  then show ?thesis
    by (intro procs_cong [OF a(1)]) (simp_all add: files_only_fields [OF a(2)])
qed

lemma execute_ret:
  assumes "execute_cmd command s = (Ret r, t)"
  shows "pcbs t = pcbs s" "page_directory t = page_directory s"
proof -
  have l: "pcbs t = pcbs s \<and> page_directory t = page_directory s" if "execute_load f a p s = (Ret r, t)"
    for f a p and s :: "'a kernel_scheme"
    using that read_data_kernel(1) [OF surjective_pairing] read_data_paging(5) [OF surjective_pairing]
    by (auto simp: execute_load_def execute_start_def prod_eq_iff enter_program_fields free_process_def
        Let_def split_beta split: option.splits if_splits)
  show "pcbs t = pcbs s" "page_directory t = page_directory s"
    using assms by (auto simp: execute_cmd_def Let_def dest!: l split: option.splits if_splits)
qed

lemma procs_return: "procs s gs \<Longrightarrow> procs (snd (return_to_parent a st s)) gs"
  by (rule procs_cong) (simp_all add: return_to_parent_fields procs_def)

lemma shell_name: "command_name (str ''shell'') = str ''shell''" "length (str ''shell'') \<le> 32"
  by (simp_all add: command_name_def blank_def str_def)

section \<open>Whose descriptors are closed\<close>

abbreviation flag_at :: "'a kernel_scheme \<Rightarrow> u32 \<Rightarrow> nat \<Rightarrow> u32" where
  "flag_at s a i \<equiv> fd_flags (pcb_file (pcbs s a) ! i)"

lemma op_update_flags: "fd_flags (xs[k := (xs ! k)\<lparr>fd_op := x\<rparr>] ! i) = fd_flags (xs ! i)"
  by (cases "i = k"; cases "k < length xs") (auto simp: list_update_beyond)

lemma halt_fd_flags:
  assumes "get_pcb_address s = b" "a \<noteq> b" "k < 8" "length (pcb_file (pcbs s b)) = 8"
  shows "flag_at (halt_fd a k s) a i = flag_at s a i"
    "flag_at (halt_fd a k s) b i = (if i = k \<and> 2 \<le> k \<and> flag_at s a k = 1 \<and> flag_at s b k = 1 then 0 else flag_at s b i)"
    "length (pcb_file (pcbs (halt_fd a k s) b)) = 8"
proof -
  have ba: "b \<noteq> a" using assms(2) by simp
  have a_upd: "flag_at (upd_fd a k (\<lambda>f. f\<lparr>fd_op := Some Do_nothing\<rparr>) t) a i = flag_at t a i"
    "pcbs (upd_fd a k (\<lambda>f. f\<lparr>fd_op := Some Do_nothing\<rparr>) t) b = pcbs t b" for t :: "'a kernel_scheme" and i
    using ba by (simp_all add: upd_fd_def op_update_flags)
  have cl: "pcbs (snd (sys_close (int k) s)) a = pcbs s a"
    "flag_at (snd (sys_close (int k) s)) b i = (if i = k \<and> 2 \<le> k \<and> flag_at s b k = 1 then 0 else flag_at s b i)"
    "length (pcb_file (pcbs (snd (sys_close (int k) s)) b)) = 8" for i
    using assms by (auto simp: sys_close_def upd_fd_def Let_def nth_list_update split: option.split)
  show "flag_at (halt_fd a k s) a i = flag_at s a i"
    "flag_at (halt_fd a k s) b i = (if i = k \<and> 2 \<le> k \<and> flag_at s a k = 1 \<and> flag_at s b k = 1 then 0 else flag_at s b i)"
    "length (pcb_file (pcbs (halt_fd a k s) b)) = 8"
    using assms(4) by (auto simp: halt_fd_def Let_def a_upd op_update_flags cl)
qed

lemma halt_fds_flags:
  assumes "get_pcb_address s = b" "a \<noteq> b" "n \<le> 8" "length (pcb_file (pcbs s b)) = 8"
  shows "flag_at (fold (halt_fd a) [0..<n] s) a i = flag_at s a i
    \<and> flag_at (fold (halt_fd a) [0..<n] s) b i =
        (if 2 \<le> i \<and> i < n \<and> flag_at s a i = 1 \<and> flag_at s b i = 1 then 0 else flag_at s b i)
    \<and> length (pcb_file (pcbs (fold (halt_fd a) [0..<n] s) b)) = 8"
  using assms(3)
proof (induction n arbitrary: i)
  case 0
  then show ?case using assms(4) by simp
next
  case (Suc n)
  let ?t = "fold (halt_fd a) [0..<n] s"
  have "get_pcb_address ?t = b" using files_only_fields(11) [OF files_only_halt] assms(1) by metis
  note st = halt_fd_flags [OF this assms(2), of n]
  have n: "n \<le> 8" "n < 8" using Suc.prems by simp_all
  note ih = Suc.IH [OF n(1)]
  have f: "fold (halt_fd a) [0..<Suc n] s = halt_fd a n ?t" by simp
  show ?case unfolding f using st [OF n(2)] ih by (auto simp: less_Suc_eq)
qed

text \<open>All of \<open>halt\<close>, for the last process of the displayed terminal.\<close>

lemma halt_result:
  assumes "procs s gs" "gs ! cur_term s = g @ [p]"
    and "pcb = pcbs s (get_pcb (of_int p))" "st = (if exception_status s = 256 then 256 else ucast status)"
  shows "let (result, s') = halt status s; back = Return_to (parent_ebp pcb) (parent_esp pcb) st in
    (if g \<noteq> []
     then result = back \<and> procs s' (gs[cur_term s := g])
       \<and> page_directory s' = (page_directory s)[32 := (0x800000 + of_int (parent_pid pcb) * 0x400000) OR 0x87]
       \<and> tss_esp0 s' = 0x800000 - of_int (parent_pid pcb) * 0x2000 - 4 \<and> iflag s'
     else ((\<exists>eip q. result = Enter_user eip \<and> procs s' (gs[cur_term s := [q]]))
        \<or> (result = back \<and> procs s' (gs[cur_term s := []]))))"
proof -
  let ?a = "get_pcb (of_int p)"
  define s1 where "s1 = fold (halt_fd ?a) [0..<8] (halted s)"
  have fo: "files_only (halted s) s1" unfolding s1_def by (rule files_only_halt)
  note ff = files_only_fields [OF fo]
  note hp = halted_procs [OF assms(1,2)]
  note hu = halt_unfold [OF assms(1,2), of status, folded s1_def assms(4)]
  have p1: "procs s1 (gs[cur_term s := g])" by (rule procs_files_only [OF hp(1) fo])
  have pc: "parent_ebp (pcbs s1 ?a) = parent_ebp pcb" "parent_esp (pcbs s1 ?a) = parent_esp pcb"
    "parent_pid (pcbs s1 ?a) = parent_pid pcb" "page_directory s1 = page_directory s" "cur_term s1 = cur_term s"
    using ff hp by (simp_all add: assms(3))
  show ?thesis
  proof (cases "g = []")
    case False
    then show ?thesis
      using procs_return [OF p1] hu by (simp add: split_beta return_to_parent_fields pc)
  next
    case True
    have t: "cur_term s < length gs" using assms(1) by (simp add: procs_def)
    consider (refused) s2 where "execute_cmd (str ''shell'') s1 = (Ret (- 1), s2)" "procs s2 (gs[cur_term s := g])"
        "pcbs s2 = pcbs s1"
      | (shell) eip s2 q where "execute_cmd (str ''shell'') s1 = (Enter_user eip, s2)"
        "procs s2 (gs[cur_term s := [q]])"
    proof -
      from execute_cmd_procs [OF p1, of "str ''shell''"] shell_name
      show thesis using that execute_ret [of "str ''shell''" s1] True t by (auto simp: pc(5))
    qed
    then show ?thesis
    proof cases
      case refused
      then show ?thesis
        using True procs_return [OF refused(2)] hu by (simp add: split_beta return_to_parent_fields pc)
    next
      case shell
      then show ?thesis using True hu by (simp, intro exI) assumption
    qed
  qed
qed

section \<open>Properties\<close>

text \<open>C11: \<open>halt\<close> of a process with a parent on its terminal takes exactly this process out of the
  table and goes on in the parent: in the parent's saved frame, with the status (256 after an
  exception) as the result, on the parent's page and kernel stack.  When the last process of a
  terminal halts, a new shell takes its place (or, if the shell cannot be loaded, the terminal
  is left without a process).\<close>
theorem halt_process_table:
  assumes "procs s gs" "gs ! cur_term s = g @ [p]"
    and "pcb = pcbs s (get_pcb (of_int p))" "st = (if exception_status s = 256 then 256 else ucast status)"
  shows "let (result, s') = halt status s; back = Return_to (parent_ebp pcb) (parent_esp pcb) st in
    (if g \<noteq> []
     then result = back \<and> procs s' (gs[cur_term s := g])
       \<and> page_directory s' = (page_directory s)[32 := (0x800000 + of_int (parent_pid pcb) * 0x400000) OR 0x87]
       \<and> tss_esp0 s' = 0x800000 - of_int (parent_pid pcb) * 0x2000 - 4 \<and> iflag s'
     else ((\<exists>eip q. result = Enter_user eip \<and> procs s' (gs[cur_term s := [q]]))
        \<or> (result = back \<and> procs s' (gs[cur_term s := []]))))"
  by (rule halt_result [OF assms])

text \<open>C36: \<open>halt\<close> does not close the descriptors of the process that halts: they keep their flags
  in its PCB, where the next process with this pid finds them in use.  The descriptors it closes
  are those of the same numbers in the process before it on the terminal, which goes on.\<close>
theorem halt_closes_parent_fds:
  assumes "procs s gs" "gs ! cur_term s = g @ [q, p]"
    and "length (pcb_file (pcbs s (get_pcb (of_int q)))) = 8" "s' = snd (halt status s)" "i < 8"
  shows "flag_at s' (get_pcb (of_int p)) i = flag_at s (get_pcb (of_int p)) i
    \<and> flag_at s' (get_pcb (of_int q)) i =
        (if 2 \<le> i \<and> flag_at s (get_pcb (of_int p)) i = 1 \<and> flag_at s (get_pcb (of_int q)) i = 1 then 0
         else flag_at s (get_pcb (of_int q)) i)"
proof -
  have g: "gs ! cur_term s = (g @ [q]) @ [p]" using assms(2) by simp
  note hp = halted_procs [OF assms(1) g]
  note hu = halt_unfold [OF assms(1) g, of status]
  let ?a = "get_pcb (of_int p)" and ?b = "get_pcb (of_int q)"
  have t: "cur_term s < length gs" using assms(1) by (simp add: procs_def)
  have b: "get_pcb_address (halted s) = ?b"
    using get_pcb_address_last [OF hp(1)] t by (simp add: hp(2))
  have "g @ [q, p] \<in> set gs" using nth_mem [OF t] assms(2) by simp
  then have "pid_ok (pcbs s) q" "q \<noteq> p"
    using assms(1) unfolding procs_def by (auto simp: distinct_concat_iff)
  moreover from this have "\<exists>x y. q = int x \<and> p = int y \<and> x < 6 \<and> y < 6 \<and> x \<noteq> y"
    using hp(10,11) by (intro exI [of _ "nat q"] exI [of _ "nat p"]) (auto simp: pid_ok_def)
  ultimately have ab: "?a \<noteq> ?b" using get_pcb_inj by (metis of_int_of_nat_eq)
  note fl = halt_fds_flags [OF b ab, of 8]
  have "pcbs s' = pcbs (fold (halt_fd ?a) [0..<8] (halted s))"
    using hu by (simp add: assms(4) return_to_parent_fields)
  then show ?thesis using fl [of i] assms(3,5) by (simp add: hp(3))
qed

definition child_kernel :: kernel where
  "child_kernel = exe_kernel\<lparr>pcbs := \<lambda>a. sample_pcb\<lparr>pcb_pid := if a = get_pcb 1 then 1 else 0\<rparr>,
     terminals := (terminals exe_kernel)[0 := sample_terminal\<lparr>processes := [0, 1, - 1, - 1], num_proc := 2\<rparr>],
     process_state := [1, 1, 0, 0, 0, 0]\<rparr>"

lemma child_procs: "procs child_kernel [[0, 1], [], []]" "cur_term child_kernel = 0"
  "exception_status child_kernel = 0" "pcb_file (pcbs child_kernel a) = replicate 8 sample_fd"
  "parent_pid (pcbs child_kernel a) = 0" "parent_ebp (pcbs child_kernel a) = 0" "parent_esp (pcbs child_kernel a) = 0"
proof -
  have "get_pcb 0 \<noteq> get_pcb 1" using get_pcb_inj [of 0 1] by auto
  moreover have "[0..<6] = [0, 1, 2, 3, 4, 5 :: nat]" by (simp add: upt_rec)
  ultimately show "procs child_kernel [[0, 1], [], []]"
    by (simp add: procs_def child_kernel_def exe_kernel_def sample_kernel_def sample_terminal_def term_ok_def
        pid_ok_def sample_pcb_def numeral_eq_Suc)
  show "cur_term child_kernel = 0" "exception_status child_kernel = 0"
    "pcb_file (pcbs child_kernel a) = replicate 8 sample_fd"
    "parent_pid (pcbs child_kernel a) = 0" "parent_ebp (pcbs child_kernel a) = 0" "parent_esp (pcbs child_kernel a) = 0"
    by (simp_all add: child_kernel_def exe_kernel_def sample_kernel_def sample_pcb_def)
qed

theorem halt_closes_parent_fds_witness:
  "flag_at (snd (halt 0 child_kernel)) (get_pcb 1) 3 = 1 \<and> flag_at (snd (halt 0 child_kernel)) (get_pcb 0) 3 = 0"
  using halt_closes_parent_fds [OF child_procs(1), of "[]" 0 1 _ 0 3] child_procs(4)
  by (simp add: child_procs(2) sample_fd_def)

theorem halt_process_table_witness:
  "fst (halt 7 child_kernel) = Return_to 0 0 7 \<and> procs (snd (halt 7 child_kernel)) [[0], [], []]"
  using halt_process_table [OF child_procs(1), of "[0]" 1 _ _ 7]
  by (simp add: child_procs Let_def split_beta)

end
