(* ===== verification/Idt.thy ===== *)
theory Idt
  imports Halt
begin

text \<open>
  The interrupt descriptor table of \<^verbatim>\<open>student-distrib/idt.c\<close> with the descriptor format of
  \<^verbatim>\<open>x86_desc.h\<close>, and the exception handlers.  The addresses the linker gives the handlers
  are a parameter.
\<close>

section \<open>Descriptors\<close>

record idt_desc =
  offset_15_00 :: u16
  seg_selector :: u16
  reserved4 :: u8
  reserved3 :: bool
  reserved2 :: bool
  reserved1 :: bool
  size_bit :: bool
  reserved0 :: bool
  dpl :: nat
  present_bit :: bool
  offset_31_16 :: u16

datatype handler = Exception nat | Reserved | Non_reserved | Pit_handler | Kb_handler | Rtc_handler
  | Syscall_handler

definition KERNEL_CS :: u16 where
  "KERNEL_CS = 0x0010"

definition set_idt_entry :: "u32 \<Rightarrow> idt_desc \<Rightarrow> idt_desc" where
  "set_idt_entry h d = d\<lparr>offset_31_16 := ucast (drop_bit 16 (h AND 0xFFFF0000)),
     offset_15_00 := ucast (h AND 0xFFFF)\<rparr>"

text \<open>The body of the first loop.\<close>

definition idt_gate :: "nat \<Rightarrow> idt_desc \<Rightarrow> idt_desc" where
  "idt_gate i d =
     (let d = d\<lparr>seg_selector := KERNEL_CS, reserved4 := 0\<rparr>;
          d = (if i < 32 \<and> i \<noteq> 3 then d\<lparr>reserved3 := True\<rparr> else d\<lparr>reserved3 := False\<rparr>);
          d = d\<lparr>reserved2 := True, reserved1 := True, size_bit := True, reserved0 := False\<rparr>;
          d = (if i = 128 then d\<lparr>dpl := 3, reserved3 := True\<rparr> else d\<lparr>dpl := 0\<rparr>)
      in d\<lparr>present_bit := True\<rparr>)"

definition set_vector :: "(handler \<Rightarrow> u32) \<Rightarrow> nat \<Rightarrow> handler \<Rightarrow> idt_desc list \<Rightarrow> idt_desc list" where
  "set_vector addr i h idt = idt[i := set_idt_entry (addr h) (idt ! i)]"

definition idt_init :: "(handler \<Rightarrow> u32) \<Rightarrow> idt_desc list \<Rightarrow> idt_desc list" where
  "idt_init addr idt =
     (let idt = fold (\<lambda>i idt. idt[i := idt_gate i (idt ! i)]) [0..<256] idt;
          idt = fold (\<lambda>i. set_vector addr i (Exception i)) [0..<20] idt;
          idt = fold (\<lambda>i. set_vector addr i Reserved) [20..<32] idt;
          idt = fold (\<lambda>i. set_vector addr i Non_reserved) [32..<256] idt;
          idt = set_vector addr 32 Pit_handler idt;
          idt = set_vector addr 33 Kb_handler idt;
          idt = set_vector addr 40 Rtc_handler idt
      in set_vector addr 128 Syscall_handler idt)"

section \<open>Exception handlers\<close>

definition exception_message :: "nat \<Rightarrow> string" where
  "exception_message n =
     [''Divide Error '', ''RESERVED '', ''NMI interrupt '', ''Breakpoint '', ''Overflow '',
      ''BOUND Range Exceeded '', ''Invalid Opcode (Undefined Opcode) '',
      ''Device Not Available (No Math Coprocessor) '', ''Double fault '',
      ''Coprocessor Segment Overrun (reserved) '', ''Invalid TSS '', ''Segment Not Present '',
      ''Stack-Segment Fault '', ''General Protection '', ''Page Fault '',
      ''(Intel reserved. Do not use.) '', ''x87 FPU Floating-Point Error (Math Fault) '',
      ''Alignment Check '', ''Machine Check '', ''SIMD Floating-Point Exception ''] ! n"

text \<open>The twenty handlers, \<open>reserved\<close> and \<open>non_reserved\<close> differ in their text only.\<close>

definition raise_exception :: "string \<Rightarrow> 'a kernel_scheme \<Rightarrow> outcome \<times> 'a kernel_scheme" where
  "raise_exception msg s =
     (let s = print (msg @ [CHR 0x0A]) s; s = s\<lparr>exception_status := 256\<rparr>
      in halt (low8 256) s)"

definition idt_handler :: "nat \<Rightarrow> 'a kernel_scheme \<Rightarrow> outcome \<times> 'a kernel_scheme" where
  "idt_handler i s = raise_exception (exception_message i) s"

definition reserved_vector :: "'a kernel_scheme \<Rightarrow> outcome \<times> 'a kernel_scheme" where
  "reserved_vector s = raise_exception ''Intel reserved. Do not use. '' s"

definition non_reserved :: "'a kernel_scheme \<Rightarrow> outcome \<times> 'a kernel_scheme" where
  "non_reserved s = raise_exception ''User Defined (Non-reserved) Interrupts '' s"

section \<open>The table\<close>

text \<open>What a descriptor means to the processor: the address it enters, and the handler each vector
  should have.\<close>

definition gate_target :: "idt_desc \<Rightarrow> u32" where
  "gate_target d = push_bit 16 (ucast (offset_31_16 d)) OR ucast (offset_15_00 d)"

definition vector_handler :: "nat \<Rightarrow> handler" where
  "vector_handler i =
     (if i < 20 then Exception i else if i < 32 then Reserved else if i = 32 then Pit_handler
      else if i = 33 then Kb_handler else if i = 40 then Rtc_handler
      else if i = 128 then Syscall_handler else Non_reserved)"

lemma gate_target_set: "gate_target (set_idt_entry h d) = h"
proof -
  have m: "(0xFFFF :: u32) = mask 16" "(0xFFFF0000 :: u32) = NOT (mask 16)"
    by (simp_all add: mask_eq_exp_minus_1)
  show ?thesis unfolding gate_target_def set_idt_entry_def m
    by (intro bit_word_eqI) (auto simp: bit_simps dest: bit_imp_le_length)
qed

lemma length_set_vector [simp]: "length (set_vector addr i h idt) = length idt"
  by (simp add: set_vector_def)

lemma nth_set_vector: "i < length idt \<Longrightarrow>
    set_vector addr i h idt ! j = (if j = i then set_idt_entry (addr h) (idt ! i) else idt ! j)"
  by (auto simp: set_vector_def)

lemma fold_update:
  assumes "b \<le> length xs" "\<And>i ys. length (f i ys) = length ys"
    and "\<And>i ys j. i < length ys \<Longrightarrow> f i ys ! j = (if j = i then g i (ys ! i) else ys ! j)"
  shows "length (fold f [a..<b] xs) = length xs
    \<and> fold f [a..<b] xs ! j = (if a \<le> j \<and> j < b then g j (xs ! j) else xs ! j)"
  using assms(1)
proof (induction b arbitrary: j)
  case (Suc b)
  show ?case
  proof (cases "a \<le> b")
    case True
    then show ?thesis using Suc.IH [of j] Suc.IH [of b] Suc.prems assms(2,3) by (auto simp: less_Suc_eq)
  next
    case False
    then show ?thesis by auto
  qed
qed simp

text \<open>Setting a handler keeps everything but the address.\<close>

definition gate_flags :: "idt_desc \<Rightarrow> u16 \<times> bool \<times> bool \<times> nat" where
  "gate_flags d = (seg_selector d, present_bit d, reserved3 d, dpl d)"

lemma gate_flags_set: "gate_flags (set_idt_entry h d) = gate_flags d"
  by (simp add: gate_flags_def set_idt_entry_def)

lemma gate_flags_gate: "gate_flags (idt_gate i d) =
    (KERNEL_CS, True, i < 32 \<and> i \<noteq> 3 \<or> i = 128, if i = 128 then 3 else 0)"
  by (simp add: gate_flags_def idt_gate_def Let_def)

lemma set_vectors:
  "u \<le> length xs \<Longrightarrow> length (fold (\<lambda>i. set_vector addr i (h i)) [l..<u] xs) = length xs
    \<and> fold (\<lambda>i. set_vector addr i (h i)) [l..<u] xs ! j =
      (if l \<le> j \<and> j < u then set_idt_entry (addr (h j)) (xs ! j) else xs ! j)"
  by (rule fold_update) (simp_all add: nth_set_vector)

lemma idt_init_entry:
  assumes "length idt = 256" "i < 256"
  shows "\<exists>d. idt_init addr idt ! i = set_idt_entry (addr (vector_handler i)) d
    \<and> gate_flags d = gate_flags (idt_gate i (idt ! i))"
proof -
  define a where "a = fold (\<lambda>i idt. idt[i := idt_gate i (idt ! i)]) [0..<256] idt"
  define b where "b = fold (\<lambda>i. set_vector addr i (Exception i)) [0..<20] a"
  define c where "c = fold (\<lambda>i. set_vector addr i Reserved) [20..<32] b"
  define d where "d = fold (\<lambda>i. set_vector addr i Non_reserved) [32..<256] c"
  have a: "length a = 256" "a ! i = idt_gate i (idt ! i)"
    using fold_update [where f = "\<lambda>i idt. idt[i := idt_gate i (idt ! i)]" and g = idt_gate and xs = idt
      and b = 256 and a = 0 and j = i] assms by (simp_all add: a_def nth_list_update)
  have b: "length b = 256" "b ! i = (if i < 20 then set_idt_entry (addr (Exception i)) (a ! i) else a ! i)"
    using set_vectors [where u = 20 and l = 0 and xs = a and h = Exception and j = i] a by (simp_all add: b_def)
  have c: "length c = 256" "c ! i = (if 20 \<le> i \<and> i < 32 then set_idt_entry (addr Reserved) (b ! i) else b ! i)"
    using set_vectors [where u = 32 and l = 20 and xs = b and h = "\<lambda>_. Reserved" and j = i] b by (simp_all add: c_def)
  have d: "length d = 256" "d ! i = (if 32 \<le> i then set_idt_entry (addr Non_reserved) (c ! i) else c ! i)"
    using set_vectors [where u = 256 and l = 32 and xs = c and h = "\<lambda>_. Non_reserved" and j = i] c assms(2)
    by (simp_all add: d_def)
  have "idt_init addr idt = set_vector addr 128 Syscall_handler (set_vector addr 40 Rtc_handler
      (set_vector addr 33 Kb_handler (set_vector addr 32 Pit_handler d)))"
    by (simp only: idt_init_def Let_def a_def b_def c_def d_def)
  then have "idt_init addr idt ! i =
      (if i \<in> {128, 40, 33, 32} then set_idt_entry (addr (vector_handler i)) (d ! i) else d ! i)"
    using d(1) by (simp add: nth_set_vector vector_handler_def)
  moreover have "d ! i = set_idt_entry (addr (vector_handler i)) (if i < 20 then a ! i else if i < 32 then b ! i else c ! i)"
    if "i \<notin> {128, 40, 33, 32}"
    using that by (simp add: b c d vector_handler_def)
  moreover have "gate_flags (b ! i) = gate_flags (a ! i)" "gate_flags (c ! i) = gate_flags (a ! i)"
    "gate_flags (d ! i) = gate_flags (a ! i)"
    by (simp_all add: b c d gate_flags_set)
  ultimately show ?thesis using a(2) by (cases "i \<in> {128, 40, 33, 32}") auto
qed

lemma raise_exception_result:
  assumes "procs s gs" "gs ! cur_term s = g @ [p]" "g \<noteq> []"
  shows "\<exists>s'. raise_exception msg s = (Return_to (parent_ebp (cur_pcb s)) (parent_esp (cur_pcb s)) 256, s')
    \<and> procs s' (gs[cur_term s := g])"
proof -
  let ?t = "(print (msg @ [CHR 0x0A]) s)\<lparr>exception_status := 256\<rparr>"
  have p: "procs ?t gs" "cur_term ?t = cur_term s"
    using assms(1) by (simp_all add: procs_def)
  have g: "gs ! cur_term ?t = g @ [p]" using assms(2) p(2) by simp
  have cur: "get_pcb_address s = get_pcb (of_int p)" using get_pcb_address_last [OF assms(1)] assms(2) by simp
  have "raise_exception msg s = halt (low8 256) ?t" by (simp add: raise_exception_def Let_def)
  then show ?thesis
    using halt_result [OF p(1) g refl refl, of "low8 256"] assms(3)
    by (auto simp: p(2) cur cur_pcb_def split_beta prod_eq_iff)
qed

section \<open>Properties\<close>

text \<open>C23: after \<open>idt_init\<close> every vector enters the handler it is meant for through a present gate
  on the kernel's code segment: the exceptions, the three devices, the system call and the
  catch-alls.  Only vector 128 can be raised by a user program (privilege level 3), and exactly
  the exceptions other than 3 and the system call leave interrupts enabled (trap gates).\<close>
theorem idt_init_correct:
  assumes "length idt = 256" "i < 256"
  shows "let d = idt_init addr idt ! i in
    gate_target d = addr (vector_handler i) \<and> present_bit d \<and> seg_selector d = 0x10
    \<and> (dpl d = 3 \<longleftrightarrow> i = 128) \<and> (dpl d = 0 \<longleftrightarrow> i \<noteq> 128)
    \<and> (reserved3 d \<longleftrightarrow> i < 32 \<and> i \<noteq> 3 \<or> i = 128)"
proof -
  obtain d where d: "idt_init addr idt ! i = set_idt_entry (addr (vector_handler i)) d"
      "gate_flags d = gate_flags (idt_gate i (idt ! i))"
    using idt_init_entry [OF assms] by blast
  have "gate_flags (idt_init addr idt ! i) = (KERNEL_CS, True, i < 32 \<and> i \<noteq> 3 \<or> i = 128, if i = 128 then 3 else 0)"
    unfolding d(1) gate_flags_set d(2) gate_flags_gate ..
  then show ?thesis
    using gate_target_set [of "addr (vector_handler i)" d] d(1)
    by (simp add: gate_flags_def KERNEL_CS_def Let_def split: if_splits)
qed

definition sample_idt :: "idt_desc list" where
  "sample_idt = replicate 256 \<lparr>offset_15_00 = 0, seg_selector = 0, reserved4 = 0, reserved3 = False,
     reserved2 = False, reserved1 = False, size_bit = False, reserved0 = False, dpl = 0,
     present_bit = False, offset_31_16 = 0\<rparr>"

theorem idt_init_correct_witness:
  "gate_target (idt_init (\<lambda>h. if h = Syscall_handler then 0x00412345 else 0) sample_idt ! 128) = 0x00412345"
  using idt_init_correct [of sample_idt 128 "\<lambda>h. if h = Syscall_handler then 0x00412345 else 0"]
  by (simp add: sample_idt_def vector_handler_def Let_def)

text \<open>C32: an exception in a process with a parent on its terminal ends that process only: the parent
  goes on with the result 256, whatever the exception, and the process is out of the table.\<close>
theorem exception_ends_process:
  assumes "procs s gs" "gs ! cur_term s = g @ [p]" "g \<noteq> []"
    and "r \<in> {idt_handler i s, reserved_vector s, non_reserved s}"
  shows "\<exists>s'. r = (Return_to (parent_ebp (cur_pcb s)) (parent_esp (cur_pcb s)) 256, s')
    \<and> procs s' (gs[cur_term s := g])"
proof -
  obtain msg where r: "r = raise_exception msg s"
    using assms(4) by (auto simp: idt_handler_def reserved_vector_def non_reserved_def)
  show ?thesis unfolding r by (rule raise_exception_result [OF assms(1-3)])
qed

theorem exception_ends_process_witness:
  "fst (idt_handler 14 child_kernel) = Return_to 0 0 256"
  using exception_ends_process [OF child_procs(1), of "[0]" 1 "idt_handler 14 child_kernel" 14]
  by (auto simp: child_procs cur_pcb_def)

end
