(* ===== verification/Scheduling.thy ===== *)
theory Scheduling
  imports Idt
begin

text \<open>
  The scheduler of \<^verbatim>\<open>student-distrib/scheduling.c\<close>: the timer is set up, and at each timer
  interrupt the next of the three terminals gets the processor.  (\<open>entry\<close> does not start the
  timer: its call of \<open>init_pit\<close> is commented out.)  For a terminal without a process
  \<open>scheduling\<close> stores through a null pointer; page 0 is not mapped, so the page fault handler
  runs and nothing behind the store is reached.
\<close>

definition init_pit :: "'a pic_scheme \<Rightarrow> 'a pic_scheme" where
  "init_pit s =
     (let freq = 1193182 div 100 :: int;
          s = cli s;
          s = outb 0x36 0x43 s;
          s = outb (low8 (of_int freq AND 0xFF)) 0x40 s;
          s = outb (low8 (drop_bit 8 (of_int freq))) 0x40 s;
          s = enable_irq 0 s
      in sti s)"

text \<open>The user's video window shows the display, or the page that keeps the display of a terminal
  in the background.\<close>

definition map_window :: "'a kernel_scheme \<Rightarrow> 'a kernel_scheme" where
  "map_window s =
     (if unat (get_current_terminal s) \<noteq> running_term s
      then map2user (0xB8000 + (of_nat (running_term s) + 1) * 0x1000) 0 1 s
      else map2user 0xB8000 0 1 s)"

definition load_next :: "'a kernel_scheme \<Rightarrow> outcome \<times> 'a kernel_scheme" where
  "load_next s =
     (let next_process = pcbs s (get_pcb_args (of_nat (running_term s)) s);
          s = set_process_page (0x800000 + of_int (pcb_pid next_process) * 0x400000) s;
          s = s\<lparr>tss_ss0 := 0x18, tss_esp0 := 0x800000 - of_int (pcb_pid next_process) * 0x2000\<rparr>;
          s = send_eoi 0 s;
          s = s\<lparr>cpu_ebp := pcb_ebp next_process, cpu_esp := pcb_esp next_process\<rparr>
      in (Resume (pcb_ebp next_process) (pcb_esp next_process), s))"

definition run_next :: "'a kernel_scheme \<Rightarrow> outcome \<times> 'a kernel_scheme" where
  "run_next s =
     (let s = s\<lparr>running_term := (running_term s + 1) mod 3\<rparr>
      in if term_proc (terminals s ! running_term s) = 0 then (Ret 0, send_eoi 0 s)
         else load_next (map_window s))"

definition scheduling :: "'a kernel_scheme \<Rightarrow> outcome \<times> 'a kernel_scheme" where
  "scheduling s =
     (let s = print (''success!'' @ [CHR 0x0A]) s;
          cur_process = get_pcb_args (of_nat (running_term s)) s
      in if cur_process = 0 then idt_handler 14 s
         else run_next (upd_pcb cur_process (\<lambda>p. p\<lparr>pcb_esp := cpu_esp s, pcb_ebp := cpu_ebp s\<rparr>) s))"

definition pit_intr :: "'a kernel_scheme \<Rightarrow> outcome \<times> 'a kernel_scheme" where
  "pit_intr s = scheduling s"

section \<open>A round\<close>

text \<open>The timer interrupts programs whose registers are the given ones; the outcomes of the ticks.\<close>

fun ticks :: "(u32 \<times> u32) list \<Rightarrow> 'a kernel_scheme \<Rightarrow> outcome list \<times> 'a kernel_scheme" where
  "ticks [] s = ([], s)"
| "ticks ((b, e) # regs) s =
     (let (r, s) = pit_intr (s\<lparr>cpu_ebp := b, cpu_esp := e\<rparr>); (rs, s) = ticks regs s in (r # rs, s))"

text \<open>The three terminals have processes of their own.\<close>

definition sched_ok :: "'a kernel_scheme \<Rightarrow> bool" where
  "sched_ok s \<longleftrightarrow> length (terminals s) = 3 \<and> running_term s < 3
     \<and> (\<forall>t < 3. term_proc (terminals s ! t) \<noteq> 0)
     \<and> inj_on (\<lambda>t. term_proc (terminals s ! t)) {..<3}"

lemma term_index:
  assumes "t < 3"
  shows "unat (of_nat t :: u8) = t" "(of_nat t :: u8) < 3"
  using assms by (simp_all add: unat_of_nat take_bit_eq_mod word_less_nat_alt)

lemma map_window_fields:
  "terminals (map_window s) = terminals s" "running_term (map_window s) = running_term s"
  "pcbs (map_window s) = pcbs s" "length (page_directory (map_window s)) = length (page_directory s)"
  by (simp_all add: map_window_def) (simp add: map2user_def Let_def)

lemma load_next_fields:
  assumes "n = pcbs s (get_pcb_args (of_nat (running_term s)) s)"
  shows "fst (load_next s) = Resume (pcb_ebp n) (pcb_esp n)" "terminals (snd (load_next s)) = terminals s"
    "running_term (snd (load_next s)) = running_term s" "pcbs (snd (load_next s)) = pcbs s"
    "page_directory (snd (load_next s)) = (page_directory s)[32 := (0x800000 + of_int (pcb_pid n) * 0x400000) OR 0x87]"
    "tss_esp0 (snd (load_next s)) = 0x800000 - of_int (pcb_pid n) * 0x2000"
    "last_out 0x20 (snd (load_next s)) = Some 0x60"
  by (simp_all add: load_next_def Let_def assms set_process_page_dir send_eoi_def low8_def last_out_def
      paging_more(6) [OF outb_more])

lemma pit_intr_switch:
  assumes "sched_ok s"
  defines "a \<equiv> term_proc (terminals s ! running_term s)"
    and "b \<equiv> term_proc (terminals s ! ((running_term s + 1) mod 3))" and "t \<equiv> snd (pit_intr s)"
  shows "fst (pit_intr s) = Resume (pcb_ebp (pcbs s b)) (pcb_esp (pcbs s b))"
    "running_term t = (running_term s + 1) mod 3" "terminals t = terminals s"
    "pcbs t = (pcbs s)(a := (pcbs s a)\<lparr>pcb_esp := cpu_esp s, pcb_ebp := cpu_ebp s\<rparr>)"
    "last_out 0x20 t = Some 0x60" "a \<noteq> b"
    "\<exists>pd. page_directory t = pd[32 := (0x800000 + of_int (pcb_pid (pcbs s b)) * 0x400000) OR 0x87]
       \<and> length pd = length (page_directory s)"
    "tss_esp0 t = 0x800000 - of_int (pcb_pid (pcbs s b)) * 0x2000"
proof -
  have r: "running_term s < 3" "(running_term s + 1) mod 3 < 3" "running_term s \<noteq> (running_term s + 1) mod 3"
    using assms(1) by (auto simp: sched_ok_def) presburger
  note ti = term_index [OF r(1)] term_index [OF r(2)]
  show ab: "a \<noteq> b" unfolding a_def b_def using assms(1) r by (auto simp: sched_ok_def inj_on_def)
  have nz: "a \<noteq> 0" "b \<noteq> 0" using assms(1) r(1,2) by (auto simp: sched_ok_def a_def b_def)
  let ?p = "print (''success!'' @ [CHR 0x0A]) s"
  have ga: "get_pcb_args (of_nat (running_term ?p)) ?p = a"
    using ti by (simp add: get_pcb_args_def a_def)
  define s1 where "s1 = (upd_pcb a (\<lambda>p. p\<lparr>pcb_esp := cpu_esp ?p, pcb_ebp := cpu_ebp ?p\<rparr>) ?p)
      \<lparr>running_term := (running_term s + 1) mod 3\<rparr>"
  have s1: "terminals s1 = terminals s" "running_term s1 = (running_term s + 1) mod 3"
    "pcbs s1 = (pcbs s)(a := (pcbs s a)\<lparr>pcb_esp := cpu_esp s, pcb_ebp := cpu_ebp s\<rparr>)"
    "page_directory s1 = page_directory s"
    by (simp_all add: s1_def) (simp add: upd_pcb_def)
  have gb: "get_pcb_args (of_nat (running_term (map_window s1))) (map_window s1) = b"
    using ti by (simp only: map_window_fields s1 get_pcb_args_def b_def if_True)
  have run: "pit_intr s = load_next (map_window s1)"
  proof -
    have "running_term (upd_pcb a f ?p) = running_term s" for f by (simp add: upd_pcb_def)
    then show ?thesis
      unfolding pit_intr_def scheduling_def Let_def ga run_next_def s1_def
      using nz by (simp add: b_def)
  qed
  have n: "pcbs s b = pcbs (map_window s1) (get_pcb_args (of_nat (running_term (map_window s1))) (map_window s1))"
    unfolding gb using ab by (simp add: map_window_fields s1)
  note ln = load_next_fields [OF n]
  show "fst (pit_intr s) = Resume (pcb_ebp (pcbs s b)) (pcb_esp (pcbs s b))"
    "running_term t = (running_term s + 1) mod 3" "terminals t = terminals s"
    "pcbs t = (pcbs s)(a := (pcbs s a)\<lparr>pcb_esp := cpu_esp s, pcb_ebp := cpu_ebp s\<rparr>)"
    "last_out 0x20 t = Some 0x60" "tss_esp0 t = 0x800000 - of_int (pcb_pid (pcbs s b)) * 0x2000"
    by (simp_all add: t_def run ln map_window_fields s1)
  show "\<exists>pd. page_directory t = pd[32 := (0x800000 + of_int (pcb_pid (pcbs s b)) * 0x400000) OR 0x87]
       \<and> length pd = length (page_directory s)"
    unfolding t_def run ln by (rule exI [of _ "page_directory (map_window s1)"]) (simp add: map_window_fields s1)
qed

lemma sched_ok_regs: "sched_ok (s\<lparr>cpu_ebp := b, cpu_esp := e\<rparr>) = sched_ok s"
  by (simp add: sched_ok_def)

lemma sched_ok_tick: "sched_ok s \<Longrightarrow> sched_ok (snd (pit_intr s))"
  using pit_intr_switch(2,3) [of s] by (simp add: sched_ok_def)

lemma mod_3: "r < 3 \<Longrightarrow> ((r + 1) mod 3 + 1) mod 3 \<noteq> (r :: nat)" "r < 3 \<Longrightarrow> (((r + 1) mod 3 + 1) mod 3 + 1) mod 3 = r"
  by presburger+

section \<open>Properties\<close>

text \<open>C22: with a process in each of the three terminals the timer shares the processor in turn: after
  three ticks the terminal that was interrupted first has it again, resumes with exactly the stack
  and frame pointers it was interrupted with, and has its own page and kernel stack.  Each tick
  acknowledges the timer's interrupt.\<close>
theorem round_robin_correct:
  assumes "sched_ok s" "length (page_directory s) = 1024"
  shows "let (rs, s') = ticks [(b0, e0), (b1, e1), (b2, e2)] s;
             pid = pcb_pid (pcbs s (term_proc (terminals s ! running_term s)))
    in length rs = 3 \<and> rs ! 2 = Resume b0 e0 \<and> running_term s' = running_term s
       \<and> page_directory s' ! 32 = (0x800000 + of_int pid * 0x400000) OR 0x87
       \<and> tss_esp0 s' = 0x800000 - of_int pid * 0x2000 \<and> last_out 0x20 s' = Some 0x60"
proof -
  let ?r = "running_term s"
  define t0 where "t0 = s\<lparr>cpu_ebp := b0, cpu_esp := e0\<rparr>"
  define t1 where "t1 = (snd (pit_intr t0))\<lparr>cpu_ebp := b1, cpu_esp := e1\<rparr>"
  define t2 where "t2 = (snd (pit_intr t1))\<lparr>cpu_ebp := b2, cpu_esp := e2\<rparr>"
  have ok: "sched_ok t0" "sched_ok t1" "sched_ok t2"
    using assms(1) by (simp_all add: t0_def t1_def t2_def sched_ok_regs sched_ok_tick)
  have r: "?r < 3" using assms(1) by (simp add: sched_ok_def)
  let ?p = "\<lambda>k. term_proc (terminals s ! k)" and ?n = "\<lambda>k. (k + 1) mod 3"
  note w0 = pit_intr_switch [OF ok(1)] and w1 = pit_intr_switch [OF ok(2)] and w2 = pit_intr_switch [OF ok(3)]
  have f0: "running_term t0 = ?r" "terminals t0 = terminals s" "pcbs t0 = pcbs s" "cpu_ebp t0 = b0" "cpu_esp t0 = e0"
    "length (page_directory t0) = 1024"
    using assms(2) by (simp_all add: t0_def)
  have len: "length (page_directory (snd (pit_intr t))) = length (page_directory t)" if "sched_ok t"
    for t :: "'a kernel_scheme"
    using pit_intr_switch(7) [OF that] by auto
  have f1: "running_term t1 = ?n ?r" "terminals t1 = terminals s" "length (page_directory t1) = 1024"
    "pcbs t1 = (pcbs s)(?p ?r := (pcbs s (?p ?r))\<lparr>pcb_esp := e0, pcb_ebp := b0\<rparr>)"
    using w0 f0 len [OF ok(1)] by (simp_all add: t1_def)
  have f2: "running_term t2 = ?n (?n ?r)" "terminals t2 = terminals s" "length (page_directory t2) = 1024"
    "pcbs t2 = (pcbs t1)(?p (?n ?r) := (pcbs t1 (?p (?n ?r)))\<lparr>pcb_esp := cpu_esp t1, pcb_ebp := cpu_ebp t1\<rparr>)"
    using w1 f1 len [OF ok(2)] by (simp_all add: t2_def)
  have ne: "?p ?r \<noteq> ?p (?n ?r)" using w0(6) f0 by simp
  have turn: "?n (?n (?n ?r)) = ?r" by (rule mod_3(2) [OF r])
  have keep: "pcbs t2 (?p ?r) = (pcbs s (?p ?r))\<lparr>pcb_esp := e0, pcb_ebp := b0\<rparr>"
    using ne by (simp add: f2(4) f1(4))
  have out: "ticks [(b0, e0), (b1, e1), (b2, e2)] s = ([fst (pit_intr t0), fst (pit_intr t1), fst (pit_intr t2)], snd (pit_intr t2))"
    by (simp add: split_beta t0_def t1_def t2_def)
  show ?thesis
    unfolding out using w2 f2(1,2,3) turn keep by (auto simp: Let_def)
qed

definition sched_kernel :: kernel where
  "sched_kernel = exe_kernel\<lparr>terminals := map (\<lambda>a. sample_terminal\<lparr>term_proc := a\<rparr>) [0x7FE000, 0x7FC000, 0x7FA000]\<rparr>"

theorem round_robin_correct_witness:
  "fst (ticks [(1, 2), (3, 4), (5, 6)] sched_kernel) ! 2 = Resume 1 2"
proof -
  have "{..<3} = {0, 1, 2 :: nat}" by auto
  moreover have "(\<forall>t < 3. P t) \<longleftrightarrow> P 0 \<and> P 1 \<and> P 2" for P :: "nat \<Rightarrow> bool"
    by (metis One_nat_def Suc_1 less_2_cases_iff less_Suc_eq numeral_3_eq_3)
  moreover have "terminals sched_kernel = [sample_terminal\<lparr>term_proc := 0x7FE000\<rparr>,
      sample_terminal\<lparr>term_proc := 0x7FC000\<rparr>, sample_terminal\<lparr>term_proc := 0x7FA000\<rparr>]"
    "running_term sched_kernel = 1"
    by (simp_all add: sched_kernel_def exe_kernel_def sample_kernel_def)
  ultimately have "sched_ok sched_kernel" "length (page_directory sched_kernel) = 1024"
    by (simp_all add: sched_ok_def) (simp add: sched_kernel_def exe_kernel_def sample_kernel_def)
  from round_robin_correct [OF this, of 1 2 3 4 5 6] show ?thesis by (simp add: split_beta Let_def)
qed



end
