(* ===== verification/Kernel_Steps.thy ===== *)
theory Kernel_Steps
  imports Scheduling
begin

text \<open>
  The kernel as a state machine: \<open>syscall_handler\<close> of \<^verbatim>\<open>student-distrib/intr_handler.S\<close>
  dispatches the system calls; a step is a system call, an exception or an interrupt, or a step
  of the user program.  The invariant is that of the process table.
\<close>

section \<open>The process table, as far as \<open>procs\<close> looks at it\<close>

definition table :: "'a kernel_scheme \<Rightarrow> (int list \<times> int \<times> u8) list \<times> u8 list \<times> nat \<times> (u32 \<Rightarrow> int)" where
  "table s = (map (\<lambda>tm. (processes tm, num_proc tm, first_run tm)) (terminals s), process_state s,
     cur_term s, \<lambda>a. pcb_pid (pcbs s a))"

named_theorems table_simps \<open>operations that leave the process table alone\<close>

lemma procs_table:
  assumes "procs s gs" "table t = table s"
  shows "procs t gs"
proof -
  have tms: "map (\<lambda>tm. (processes tm, num_proc tm, first_run tm)) (terminals t) =
      map (\<lambda>tm. (processes tm, num_proc tm, first_run tm)) (terminals s)"
    and rest: "process_state t = process_state s" "cur_term t = cur_term s"
      "\<And>a. pcb_pid (pcbs t a) = pcb_pid (pcbs s a)"
    using assms(2) by (auto simp: table_def dest: fun_cong)
  from tms have len: "length (terminals t) = length (terminals s)" by (rule map_eq_imp_length_eq)
  have "term_ok g (terminals t ! i) = term_ok g (terminals s ! i)" if "i < length (terminals s)" for g i
    using arg_cong [OF tms, of "\<lambda>xs. xs ! i"] that len by (simp add: term_ok_def)
  then have "list_all2 term_ok gs (terminals t)"
    using assms(1) len by (auto simp: procs_def list_all2_conv_all_nth)
  then show ?thesis using rest by (intro procs_cong [OF assms(1)])
qed

lemma table_more: "paging.more t = paging.more s \<Longrightarrow> table t = table s"
proof -
  assume "paging.more t = paging.more s"
  from kernel_more [OF this] show ?thesis by (simp add: table_def)
qed

lemma table_console: "console.more t = console.more s \<Longrightarrow> table t = table s"
  by (intro table_more paging_more(1))

lemma table_fields [table_simps]:
  "table (s\<lparr>mem := m\<rparr>) = table s" "table (s\<lparr>wild := w\<rparr>) = table s" "table (poke a b s) = table s"
  "table (s\<lparr>cpu_ebp := e\<rparr>) = table s" "table (s\<lparr>cpu_esp := e\<rparr>) = table s"
  "table (s\<lparr>tss_ss0 := e\<rparr>) = table s" "table (s\<lparr>tss_esp0 := e\<rparr>) = table s"
  "table (s\<lparr>exception_status := e\<rparr>) = table s" "table (reset_keyboard s) = table s"
  by (simp_all add: table_def poke_def reset_keyboard_def)

lemma table_basic [table_simps]:
  "table (print cs s) = table s" "table (cli s) = table s" "table (sti s) = table s"
  "table (putc c s) = table s" "table (send_eoi i s) = table s" "table (set_process_page a s) = table s"
  "table (map2user a d t s) = table s" "table (update_cursor x y s) = table s"
  by (rule table_console table_more; simp add: print_more cli_sti_more putc_more send_eoi_more set_process_page_more
      map2user_more update_cursor_more)+

lemma table_upd_fd [table_simps]: "table (upd_fd a i f s) = table s"
  by (auto simp: table_def upd_fd_def upd_pcb_def)

lemma table_set_fd [table_simps]: "table (upd_pcb a (set_fd addr i ops ino ps fl) s) = table s"
  by (auto simp: table_def upd_pcb_def set_fd_def)

lemma table_op_open [table_simps]: "table (snd (op_open ops a s)) = table s"
  by (rule table_console [OF op_open_fields(1)])

lemma table_read_file [table_simps]: "table (snd (read_file fd buf n s)) = table s"
proof -
  have "table (snd (read_data i off buf n s)) = table s" for i off
    by (rule table_console) (rule read_data_more [OF surjective_pairing])
  then show ?thesis by (simp add: read_file_def Let_def split_beta table_simps)
qed

lemma table_read_dir [table_simps]: "table (snd (read_dir fd buf n s)) = table s"
  by (simp add: read_dir_def Let_def table_simps split: option.split)

lemma table_putc_fold: "table (fold (\<lambda>i s. putc (mem s (buf + of_nat i)) s) ns s) = table s"
  by (induction ns arbitrary: s) (simp_all add: table_simps)

lemma table_terminal_write [table_simps]: "table (snd (terminal_write fd buf n s)) = table s"
  by (simp add: terminal_write_def Let_def table_simps table_putc_fold)
     (simp add: set_stop_x_def table_def table_putc_fold [unfolded table_def])

lemma table_rtc [table_simps]:
  "table (rtc_intr s) = table s" "table (snd (rtc_write fd buf n s)) = table s" "table (s\<lparr>int_flag := i\<rparr>) = table s"
proof -
  show "table (rtc_intr s) = table s"
    by (rule table_console) (simp add: rtc_intr_def send_eoi_def enable_irq_def outb_def cli_def sti_def Let_def)
  have f: "table (snd (set_frequency f t)) = table t" for f and t :: "'a kernel_scheme"
    by (rule table_console [OF set_frequency_more])
  show "table (snd (rtc_write fd buf n s)) = table s"
    by (simp add: rtc_write_def Let_def split_beta table_simps f)
  show "table (s\<lparr>int_flag := i\<rparr>) = table s" by (simp add: table_def)
qed

lemma table_rtc_spin: "rtc_spin polls s = Some t \<Longrightarrow> table t = table s"
  by (induction polls arbitrary: s) (auto simp: Let_def table_simps split: if_splits)

lemma table_rtc_read: "rtc_read polls fd buf n s = Some (r, t) \<Longrightarrow> table t = table s"
  by (auto simp: rtc_read_def table_simps dest!: table_rtc_spin split: option.splits)

lemma table_keys [table_simps]:
  "table (kb_done s) = table s" "table (kb_type c s) = table s" "table (kb_enter s) = table s"
  "table (kb_backspace s) = table s" "table (kb_clear s) = table s"
proof -
  have p: "paging.more (fold putc xs t) = paging.more t" for xs and t :: "'a kernel_scheme"
    by (induction xs arbitrary: t) (simp_all add: paging_more(1) [OF putc_more])
  have c: "paging.more (clear t) = paging.more t" for t :: "'a kernel_scheme"
    by (simp add: clear_fold)
  have u: "paging.more (update_cursor x y t) = paging.more t" for x y and t :: "'a kernel_scheme"
    by (rule paging_more(1) [OF update_cursor_more])
  show "table (kb_done s) = table s" by (simp add: kb_done_def table_simps)
  show "table (kb_type c s) = table s"
    by (rule table_more) (simp add: kb_type_def kb_store_def Let_def paging_more(1) [OF putc_more])
  show "table (kb_enter s) = table s"
    by (rule table_more) (simp add: kb_enter_def Let_def scroll_down_def set_screen_x_def set_screen_y_def u)
  show "table (kb_backspace s) = table s"
    by (rule table_more) (simp add: kb_backspace_def Let_def kb_store_def poke_def set_screen_x_def set_screen_y_def u)
  show "table (kb_clear s) = table s"
    by (rule table_more) (simp add: kb_clear_def Let_def set_screen_x_def set_screen_y_def u p c)
qed

lemma table_kb_key: "kb_key k s = (b, t) \<Longrightarrow> table t = table s"
  by (auto simp: kb_key_def table_simps split: if_splits option.splits)

lemma table_flags: "kb_modifier k s = Some t \<or> kb_ctrl k s = Some t \<Longrightarrow> table t = table s"
  by (auto simp: kb_modifier_def kb_ctrl_def table_def split: if_splits)

section \<open>Interrupts keep the invariant\<close>

definition table_inv :: "'a kernel_scheme \<Rightarrow> bool" where
  "table_inv s \<longleftrightarrow> (\<exists>gs. procs s gs)"

lemma table_inv_cong: "table t = table s \<Longrightarrow> table_inv s \<Longrightarrow> table_inv t"
  using procs_table by (auto simp: table_inv_def)

lemma table_inv_execute:
  assumes "table_inv s" "length (command_name command) \<le> 32"
  shows "table_inv (snd (execute_cmd command s))"
proof -
  obtain gs where "procs s gs" using assms(1) by (auto simp: table_inv_def)
  from execute_cmd_procs [OF this assms(2)] show ?thesis by (auto simp: table_inv_def)
qed

lemma table_save: "table (save_terminal tid s) = table s"
proof -
  have "map (\<lambda>tm. (processes tm, num_proc tm, first_run tm))
      (xs[i := (xs ! i)\<lparr>term_x := a, term_y := b, term_kb_buffer := c, term_kb_index := d\<rparr>]) =
    map (\<lambda>tm. (processes tm, num_proc tm, first_run tm)) xs" for xs i a b c d
    by (cases "i < length xs") (simp_all add: map_update list_update_same_conv list_update_beyond)
  then show ?thesis
    by (auto simp: table_def save_terminal_def Let_def upd_pcb_def upd_term_def reset_keyboard_def
        set_kb_buffer_def set_kb_index_def)
qed

lemma table_inv_resume:
  assumes "table_inv s"
  shows "table_inv (snd (resume_terminal s))"
proof -
  have r: "table_inv (snd (case r of (Ret x, u) \<Rightarrow> (Resume a b, u) | (result, u) \<Rightarrow> (result, u))) = table_inv (snd r)"
    for r :: "outcome \<times> 'a kernel_scheme" and a b by (cases r; cases "fst r") auto
  have u: "table_inv t" if "table t = table s" for t using table_inv_cong [OF that assms] .
  show ?thesis
    unfolding resume_terminal_def Let_def if_distrib [where f = "\<lambda>r. table_inv (snd r)"] r snd_conv
    by (simp add: u table_simps table_inv_execute shell_name)
qed

lemma table_inv_switch:
  assumes "table_inv s" "unat tid < 3"
  shows "table_inv (snd (switch_terminal tid s))"
proof -
  obtain gs where "procs s gs" using assms(1) by (auto simp: table_inv_def)
  then have "procs (save_terminal tid s) gs" using procs_table table_save by blast
  then have "procs (show_terminal tid (save_terminal tid s)) gs"
    using assms(2) by (auto simp: procs_def show_terminal_fields)
  then have "table_inv (show_terminal tid (save_terminal tid s))" by (auto simp: table_inv_def)
  then show ?thesis by (simp add: switch_terminal_def table_inv_resume)
qed

lemma table_inv_kb_intr:
  assumes "table_inv s"
  shows "table_inv (snd (kb_intr s))"
proof -
  let ?ok = "\<lambda>r :: outcome \<times> 'a kernel_scheme. table_inv (snd r)"
  have keep: "table_inv t" if "table t = table s" for t using table_inv_cong [OF that assms] .
  have don: "?ok (Ret 0, kb_done t)" if "table t = table s" for t
    using that by (simp add: keep table_simps)
  have cond: "?ok x \<Longrightarrow> ?ok y \<Longrightarrow> ?ok (if b then x else y)" for b x y by simp
  have opt: "?ok x \<Longrightarrow> (\<And>u. m = Some u \<Longrightarrow> ?ok (f u)) \<Longrightarrow> ?ok (case m of None \<Rightarrow> x | Some u \<Rightarrow> f u)"
    for m x and f :: "'a kernel_scheme \<Rightarrow> _" by (cases m) auto
  have pair: "?ok (case kb_key k s of (b, u) \<Rightarrow> (Ret 0, if b then u else kb_done u))" for k
    using table_kb_key [of k s] by (cases "kb_key k s") (auto simp: keep table_simps)
  have sw: "?ok (kb_switch tid s)" if "unat tid < 3" for tid
    using that by (simp add: kb_switch_def keep table_simps table_inv_switch)
  show ?thesis
    unfolding kb_intr_def Let_def
    by (intro opt cond pair sw don) (auto simp: table_simps intro: table_flags)
qed

lemma table_inv_kb_wait: "kb_wait polls s = Some (r, t) \<Longrightarrow> table_inv s \<Longrightarrow> table_inv t"
proof (induction polls arbitrary: s)
  case (Cons irq polls)
  let ?r = "if irq then kb_intr s else (Ret 0, s)"
  have "table_inv (snd ?r)" using table_inv_kb_intr [OF Cons.prems(2)] Cons.prems(2) by simp
  then show ?case using Cons by (cases ?r; cases "fst ?r") (auto split: if_splits)
qed simp

lemma table_inv_terminal_read:
  assumes "terminal_read polls fd buf n s = Some (r, t)" "table_inv s"
  shows "table_inv t"
proof -
  have m: "table_inv (s\<lparr>mem := x\<rparr>)" for x using assms(2) table_inv_cong by (metis table_fields(1))
  define x where "x = clear_bytes (nat (if 128 < n then 128 else n)) buf (mem s)"
  show ?thesis
  proof (cases "n = 0 \<or> buf = 0")
    case True
    then show ?thesis using assms by (auto simp: terminal_read_def)
  next
    case False
    then obtain q u where w: "kb_wait polls (s\<lparr>mem := x\<rparr>) = Some (q, u)"
      using assms(1) by (auto simp: terminal_read_def x_def [symmetric] Let_def split: option.splits)
    have "table t = table u"
      using False assms(1) w
      by (cases q) (auto simp: terminal_read_def x_def [symmetric] Let_def table_simps)
    then show ?thesis using table_inv_kb_wait [OF w m] table_inv_cong by blast
  qed
qed

section \<open>The drivers behind the jump tables\<close>

text \<open>What the system calls rely on: every operation of a jump table keeps the invariant \<open>I\<close>, and
  its result is -1 or a count.  \<open>read\<close> and \<open>write\<close> call it through the pointer of a
  descriptor, which may be unset; then the state is marked by \<open>bad\<close>.\<close>

locale driver =
  fixes I :: "'s \<Rightarrow> bool"
    and bad :: "'s \<Rightarrow> 's"
    and dread :: "bool list \<Rightarrow> 'o \<Rightarrow> int \<Rightarrow> u32 \<Rightarrow> int \<Rightarrow> 's \<Rightarrow> (outcome \<times> 's) option"
    and dwrite :: "'o \<Rightarrow> int \<Rightarrow> u32 \<Rightarrow> int \<Rightarrow> 's \<Rightarrow> int \<times> 's"
  assumes bad_keeps: "I s \<Longrightarrow> I (bad s)"
    and read_keeps: "I s \<Longrightarrow> dread polls ops fd buf n s = Some (r, t) \<Longrightarrow> I t"
    and write_keeps: "I s \<Longrightarrow> I (snd (dwrite ops fd buf n s))"
    and read_result: "0 \<le> n \<Longrightarrow> dread polls ops fd buf n s = Some (Ret k, t) \<Longrightarrow> - 1 \<le> k"
    and write_result: "0 \<le> n \<Longrightarrow> - 1 \<le> fst (dwrite ops fd buf n s)"
begin

lemma call_read:
  assumes "(case p of None \<Rightarrow> Some (Ret (- 1), bad s) | Some ops \<Rightarrow> dread polls ops fd buf n s) = Some (r, t)"
  shows "I s \<Longrightarrow> I t" and "0 \<le> n \<Longrightarrow> r = Ret k \<Longrightarrow> - 1 \<le> k"
  using assms bad_keeps read_keeps read_result by (cases p; auto)+

lemma call_write:
  assumes "(case p of None \<Rightarrow> (- 1, bad s) | Some ops \<Rightarrow> dwrite ops fd buf n s) = (k, t)"
  shows "I s \<Longrightarrow> I t" and "0 \<le> n \<Longrightarrow> - 1 \<le> k"
proof -
  have r: "p = None \<and> k = - 1 \<and> t = bad s \<or> (\<exists>ops. (k, t) = dwrite ops fd buf n s)"
    using assms by (cases p) (auto intro: sym)
  show "I t" if "I s" using r bad_keeps [OF that] write_keeps [OF that] by (metis snd_conv)
  show "- 1 \<le> k" if "0 \<le> n" using r write_result [OF that] by (metis fst_conv order_refl)
qed

end

lemma op_read_result:
  assumes "0 \<le> n" "op_read polls ops fd buf n s = Some (Ret k, t)"
  shows "- 1 \<le> k"
proof (cases ops)
  case File_op
  then show ?thesis using assms(2) by (auto simp: returns_def read_file_def Let_def split_beta)
next
  case Rtc_op
  then show ?thesis using assms(2) by (auto simp: returns_def rtc_read_def split: option.splits)
next
  case Dir_op
  then show ?thesis using assms(2) by (auto simp: returns_def read_dir_def Let_def split: option.splits if_splits)
next
  case Stdin_op
  then have "terminal_read polls fd buf n s = Some (Ret k, t)" using assms(2) by simp
  then show ?thesis using assms(1)
    by (auto simp: terminal_read_def Let_def split: if_splits option.splits outcome.splits)
qed (use assms in \<open>auto simp: returns_def bad_call_def\<close>)

lemma op_write_result: "0 \<le> n \<Longrightarrow> - 1 \<le> fst (op_write ops fd buf n s)"
  by (cases ops) (auto simp: write_file_def write_dir_def bad_call_def terminal_write_def rtc_write_def Let_def
      split: prod.split)

lemma op_write_table: "table (snd (op_write ops fd buf n s)) = table s"
  by (cases ops) (simp_all add: table_simps)

lemma op_read_inv:
  assumes "table_inv s" "op_read polls ops fd buf n s = Some (r, t)"
  shows "table_inv t"
proof (cases ops)
  case Stdin_op
  then show ?thesis using assms table_inv_terminal_read by simp
next
  case Rtc_op
  then show ?thesis using assms table_rtc_read table_inv_cong
    by (auto simp: returns_def split: option.splits) blast
qed (use assms table_inv_cong [OF table_read_file] table_inv_cong [OF table_read_dir] in \<open>auto simp: returns_def\<close>)

interpretation drv: driver table_inv "\<lambda>s. s\<lparr>wild := True\<rparr>" op_read op_write
proof
  fix s t :: "'a kernel_scheme" and buf :: u32 and polls ops fd n r k
  show "table_inv s \<Longrightarrow> table_inv (s\<lparr>wild := True\<rparr>)" by (rule table_inv_cong [OF table_fields(2)])
  show "table_inv s \<Longrightarrow> op_read polls ops fd buf n s = Some (r, t) \<Longrightarrow> table_inv t" by (rule op_read_inv)
  show "table_inv s \<Longrightarrow> table_inv (snd (op_write ops fd buf n s))" using table_inv_cong [OF op_write_table] by blast
  show "0 \<le> n \<Longrightarrow> op_read polls ops fd buf n s = Some (Ret k, t) \<Longrightarrow> - 1 \<le> k" by (rule op_read_result)
  show "0 \<le> n \<Longrightarrow> - 1 \<le> fst (op_write ops fd buf n s)" by (rule op_write_result)
qed

section \<open>The system call handler\<close>

text \<open>The number is in \<open>eax\<close>, the arguments in \<open>ebx\<close>, \<open>ecx\<close> and \<open>edx\<close>; the calls that do not
  return to their caller have their own outcome.  (The jump table also lists \<open>set_handler\<close> and
  \<open>sigreturn\<close>, behind the range check.)\<close>

definition result_of :: "(int \<times> 'a kernel_scheme) option \<Rightarrow> (outcome \<times> 'a kernel_scheme) option" where
  "result_of r = (case r of None \<Rightarrow> None | Some r \<Rightarrow> returns r)"

definition syscall_handler :: "bool list \<Rightarrow> u32 \<Rightarrow> u32 \<Rightarrow> u32 \<Rightarrow> u32 \<Rightarrow> 'a kernel_scheme
    \<Rightarrow> (outcome \<times> 'a kernel_scheme) option" where
  "syscall_handler polls eax ebx ecx edx s =
     (if eax > 8 then returns (- 1, s)
      else if eax < 1 then returns (- 1, s)
      else if eax = 1 then Some (halt (low8 ebx) s)
      else if eax = 2 then execute ebx s
      else if eax = 3 then sys_read polls (sint ebx) ecx (sint edx) s
      else if eax = 4 then returns (sys_write (sint ebx) ecx (sint edx) s)
      else if eax = 5 then result_of (sys_open ebx s)
      else if eax = 6 then returns (sys_close (sint ebx) s)
      else if eax = 7 then returns (getargs ebx (sint ecx) s)
      else returns (vidmap ebx s))"

lemma sys_read_outcome:
  assumes "sys_read polls fd buf n s = Some (r, t)"
  shows "table_inv s \<Longrightarrow> table_inv t" and "r = Ret k \<Longrightarrow> - 1 \<le> k"
proof -
  let ?f = "pcb_file (cur_pcb s) ! nat fd"
  have "(r = Ret (- 1) \<and> t = s) \<or> (0 \<le> n \<and>
    (case fd_op ?f of None \<Rightarrow> Some (Ret (- 1), s\<lparr>wild := True\<rparr>) | Some ops \<Rightarrow> op_read polls ops fd buf n s) = Some (r, t))"
    using assms by (auto simp: sys_read_def returns_def Let_def not_less split: if_splits option.splits)
  then show "table_inv s \<Longrightarrow> table_inv t" "r = Ret k \<Longrightarrow> - 1 \<le> k" using drv.call_read by blast+
qed

lemma sys_write_outcome:
  assumes "sys_write fd buf n s = (k, t)"
  shows "table_inv s \<Longrightarrow> table_inv t" and "- 1 \<le> k"
proof -
  let ?f = "pcb_file (cur_pcb s) ! nat fd"
  have "(k = - 1 \<and> t = s) \<or> (0 \<le> n \<and>
    (case fd_op ?f of None \<Rightarrow> (- 1, s\<lparr>wild := True\<rparr>) | Some ops \<Rightarrow> op_write ops fd buf n s) = (k, t))"
    using assms by (simp add: sys_write_def Let_def not_less split: if_splits)
  then show "table_inv s \<Longrightarrow> table_inv t" "- 1 \<le> k" using drv.call_write by blast+
qed

lemma open_as_table: "table (snd (open_as ops ino a fd s)) = table s"
  by (simp add: open_as_def Let_def split_beta table_simps)

lemma open_as_table_eq: "open_as ops ino a fd s = (r, t) \<Longrightarrow> table t = table s"
  using open_as_table [of ops ino a fd s] by simp

lemma sys_open_table: "sys_open a s = Some (r, t) \<Longrightarrow> table t = table s"
  by (auto simp: sys_open_def Let_def dest: open_as_table_eq split: option.splits if_splits)

lemma sys_close_table: "table (snd (sys_close fd s)) = table s"
  by (simp add: sys_close_def Let_def table_simps split: option.split)

lemma getargs_table: "table (snd (getargs buf n s)) = table s"
  by (simp add: getargs_def Let_def table_simps)

lemma vidmap_table: "table (snd (vidmap p s)) = table s"
  by (simp add: vidmap_def Let_def table_simps)

lemma halt_inv:
  assumes "table_inv s" "0 < num_proc (terminals s ! cur_term s)"
  shows "table_inv (snd (halt status s))"
proof -
  obtain gs where gs: "procs s gs" using assms(1) by (auto simp: table_inv_def)
  have "term_ok (gs ! cur_term s) (terminals s ! cur_term s)"
    using term_of [OF gs] gs by (simp add: procs_def)
  then have "gs ! cur_term s \<noteq> []" using assms(2) by (auto simp: term_ok_def)
  then obtain g p where "gs ! cur_term s = g @ [p]" by (metis append_butlast_last_id)
  from halt_result [OF gs this refl refl, of status] show ?thesis
    by (auto simp: table_inv_def Let_def split_beta split: if_splits)
qed

lemma raise_exception_inv:
  assumes "table_inv s" "0 < num_proc (terminals s ! cur_term s)"
  shows "table_inv (snd (raise_exception msg s))"
proof -
  have "table_inv ((print (msg @ [CHR 0x0A]) s)\<lparr>exception_status := 256\<rparr>)"
    by (rule table_inv_cong [OF _ assms(1)]) (simp add: table_simps)
  then show ?thesis
    unfolding raise_exception_def Let_def using assms(2) by (intro halt_inv) simp_all
qed

text \<open>A command line whose first word has at most 32 characters.\<close>

definition short_command :: "u32 \<Rightarrow> 'a kernel_scheme \<Rightarrow> bool" where
  "short_command p s \<longleftrightarrow> (\<forall>n. p \<noteq> 0 \<and> strlen (mem s) p = Some n
     \<longrightarrow> length (command_name (rd (mem s) p (unat n))) \<le> 32)"

lemma execute_inv:
  assumes "table_inv s" "short_command p s" "execute p s = Some (r, t)"
  shows "table_inv t"
proof (cases "p = 0")
  case True
  then show ?thesis
    using assms(1,3) table_inv_execute [of s "[]"]
    by (auto simp: execute_def command_name_def dest: arg_cong [where f = snd])
next
  case False
  then obtain n where n: "strlen (mem s) p = Some n" "(r, t) = execute_cmd (rd (mem s) p (unat n)) s"
    using assms(3) by (auto simp: execute_def split: option.splits)
  then have "length (command_name (rd (mem s) p (unat n))) \<le> 32"
    using assms(2) False by (simp add: short_command_def)
  from table_inv_execute [OF assms(1) this] show ?thesis unfolding n(2) [symmetric] by simp
qed

lemma syscall_handler_inv:
  assumes "table_inv s" "0 < num_proc (terminals s ! cur_term s)" "eax = 2 \<longrightarrow> short_command ebx s"
    and "syscall_handler polls eax ebx ecx edx s = Some (r, t)"
  shows "table_inv t"
proof -
  have keep: "table_inv t" if "table t = table s" for t using table_inv_cong [OF that assms(1)] .
  have ret: "table_inv t" if "returns (k, u) = Some (r, t)" "table_inv u" for k u
    using that by (simp add: returns_def)
  consider "eax > 8" | "eax < 1" | "eax = 1" | "eax = 2" | "eax = 3" | "eax = 4" | "eax = 5" | "eax = 6" | "eax = 7"
    | "\<not> eax > 8" "\<not> eax < 1" "eax \<notin> {1, 2, 3, 4, 5, 6, 7}" by blast
  then show ?thesis
  proof cases
    case 3
    then show ?thesis using assms(4) halt_inv [OF assms(1,2)] by (auto simp: syscall_handler_def prod_eq_iff)
  next
    case 4
    then show ?thesis using assms(3,4) execute_inv [OF assms(1)] by (simp add: syscall_handler_def)
  next
    case 5
    then show ?thesis using assms(1,4) sys_read_outcome(1) by (auto simp: syscall_handler_def)
  next
    case 6
    then show ?thesis using assms(4) sys_write_outcome(1) [OF surjective_pairing assms(1)]
      by (auto simp: syscall_handler_def returns_def)
  next
    case 7
    then show ?thesis using assms(4)
      by (auto simp: syscall_handler_def result_of_def returns_def sys_open_table keep split: option.splits)
  qed (use assms(1,4) keep [OF sys_close_table] keep [OF getargs_table] keep [OF vidmap_table] in
      \<open>auto simp: syscall_handler_def returns_def split: if_splits\<close>)
qed

section \<open>Steps and reachable states\<close>

text \<open>A user program changes its own page and the video pages, and the registers.\<close>

definition user_owns :: "u32 \<Rightarrow> bool" where
  "user_owns p \<longleftrightarrow> inr USER 0x400000 p \<or> inr 0xB8000 0x4000 p"

inductive kernel_step :: "'a kernel_scheme \<Rightarrow> 'a kernel_scheme \<Rightarrow> bool" where
  step_user: "(\<And>p. \<not> user_owns p \<Longrightarrow> m p = mem s p) \<Longrightarrow>
    kernel_step s (s\<lparr>mem := m, cpu_ebp := b, cpu_esp := e\<rparr>)"
| step_syscall: "0 < num_proc (terminals s ! cur_term s) \<Longrightarrow> eax = 2 \<longrightarrow> short_command ebx s \<Longrightarrow>
    syscall_handler polls eax ebx ecx edx s = Some (r, t) \<Longrightarrow> kernel_step s t"
| step_exception: "0 < num_proc (terminals s ! cur_term s) \<Longrightarrow>
    kernel_step s (snd (raise_exception msg s))"
| step_keyboard: "kernel_step s (snd (kb_intr s))"
| step_rtc: "kernel_step s (rtc_intr s)"

inductive_cases kernel_stepE: "kernel_step s t"

inductive reachable :: "'a kernel_scheme \<Rightarrow> 'a kernel_scheme \<Rightarrow> bool" where
  reach_start: "reachable s s"
| reach_step: "reachable s t \<Longrightarrow> kernel_step t u \<Longrightarrow> reachable s u"

lemma kernel_step_inv: "kernel_step s t \<Longrightarrow> table_inv s \<Longrightarrow> table_inv t"
proof (induction rule: kernel_step.induct)
  case step_user
  show ?case by (rule table_inv_cong [OF _ step_user(2)]) (simp add: table_simps)
next
  case (step_syscall s eax ebx polls ecx edx r t)
  then show ?case using syscall_handler_inv by blast
next
  case (step_exception s msg)
  then show ?case using raise_exception_inv by blast
next
  case (step_keyboard s)
  then show ?case by (rule table_inv_kb_intr)
next
  case (step_rtc s)
  then show ?case using table_inv_cong [OF table_rtc(1)] by blast
qed

lemma reachable_inv: "reachable s t \<Longrightarrow> table_inv s \<Longrightarrow> table_inv t"
  by (induction rule: reachable.induct) (auto intro: kernel_step_inv)

section \<open>Properties\<close>



text \<open>A system call number outside 1 to 8 fails without an effect, and a \<open>read\<close> or \<open>write\<close> that
  comes back to the program reports -1 or a count, never another negative number.\<close>
theorem syscall_handler_results:
  "(eax = 0 \<or> 8 < eax \<longrightarrow> syscall_handler polls eax ebx ecx edx s = Some (Ret (- 1), s))
   \<and> (eax \<in> {3, 4} \<and> syscall_handler polls eax ebx ecx edx s = Some (Ret k, t) \<longrightarrow> - 1 \<le> k)"
proof -
  have "- 1 \<le> k" if "sys_read polls fd buf n s = Some (Ret k, t)" for fd buf n
    using sys_read_outcome(2) [OF that refl] .
  moreover have "- 1 \<le> fst (sys_write fd buf n s)" for fd buf n
    using sys_write_outcome(2) [OF surjective_pairing] .
  ultimately show ?thesis
    by (auto simp: syscall_handler_def returns_def)
qed

theorem syscall_handler_results_witness:
  "syscall_handler [] 9 0 0 0 sample_kernel = Some (Ret (- 1), sample_kernel)"
  using syscall_handler_results [of 9 "[]" 0 0 0 sample_kernel 0 sample_kernel] by simp

end
