(* ===== verification/Disk.thy ===== *)
theory Disk
  imports File_Ops
begin

text \<open>
  The file system image as one range of memory.  \<open>disk n s\<close>: the image is well-formed and lies
  in the \<open>n\<close> bytes from the boot block on.  Whatever is stored elsewhere (the display, a user
  program's page, the saved displays) leaves the directory and every file as they are, which
  the theories about booting and about user programs rest on.
\<close>

definition keeps :: "u32 \<Rightarrow> nat \<Rightarrow> mem \<Rightarrow> mem \<Rightarrow> bool" where
  "keeps a n m m' \<longleftrightarrow> (\<forall>p. inr a n p \<longrightarrow> m' p = m p)"

lemma keeps_refl [simp]: "keeps a n m m"
  by (simp add: keeps_def)

lemma keeps_trans: "keeps a n m m' \<Longrightarrow> keeps a n m' m'' \<Longrightarrow> keeps a n m m''"
  by (simp add: keeps_def)

lemma keeps_rd: "keeps a n m m' \<Longrightarrow> i + k \<le> n \<Longrightarrow> n \<le> 2 ^ 32 \<Longrightarrow>
    rd m' (a + of_nat i) k = rd m (a + of_nat i) k"
  using inr_sub [of a i k _ n] by (intro rd_cong) (auto simp: keeps_def)

lemma keeps_ld32: "keeps a n m m' \<Longrightarrow> i + 4 \<le> n \<Longrightarrow> n \<le> 2 ^ 32 \<Longrightarrow>
    ld32 m' (a + of_nat i) = ld32 m (a + of_nat i)"
  by (rule ld32_cong) (rule keeps_rd)

lemma keeps_sub: "keeps a n m m' \<Longrightarrow> i + k \<le> n \<Longrightarrow> n \<le> 2 ^ 32 \<Longrightarrow> keeps (a + of_nat i) k m m'"
  using inr_sub unfolding keeps_def by blast

text \<open>A store outside the range keeps it.\<close>

lemma keeps_apart: "(\<And>p. \<not> inr b k p \<Longrightarrow> m' p = m p) \<Longrightarrow> apart b k a n \<Longrightarrow> keeps a n m m'"
  using apartD apart_sym unfolding keeps_def by metis

section \<open>Well-formed images\<close>

definition blocks_in :: "nat \<Rightarrow> u32 \<Rightarrow> mem \<Rightarrow> u32 \<Rightarrow> u32 \<Rightarrow> bool" where
  "blocks_in n base m curr_inode dbs \<longleftrightarrow> file_length m curr_inode \<le> 1023 * 4096
     \<and> (\<forall>b < (file_length m curr_inode + 4095) div 4096.
          \<exists>k. k + 4096 \<le> n \<and> block_addr m curr_inode dbs (of_nat b) = base + of_nat k)"

definition disk :: "nat \<Rightarrow> 'a fs_scheme \<Rightarrow> bool" where
  "disk n s \<longleftrightarrow> n < 2 ^ 32 \<and> (unat (inode_count s) + 1) * 4096 \<le> n \<and> dir_size s \<le> 63
     \<and> boot_block_end s = boot_block s + 4096
     \<and> (\<forall>ino < inode_count s. blocks_in n (boot_block s) (mem s) (inode_addr s ino) (data_block_start s))"

definition same_disk :: "nat \<Rightarrow> 'a fs_scheme \<Rightarrow> 'a fs_scheme \<Rightarrow> bool" where
  "same_disk n s t \<longleftrightarrow> boot_block t = boot_block s \<and> boot_block_end t = boot_block_end s
     \<and> data_block_start t = data_block_start s \<and> len_inodes t = len_inodes s
     \<and> keeps (boot_block s) n (mem s) (mem t)"

lemma same_disk_refl [simp]: "same_disk n s s"
  by (simp add: same_disk_def)

lemma same_disk_trans: "same_disk n s t \<Longrightarrow> same_disk n t u \<Longrightarrow> same_disk n s u"
  by (auto simp: same_disk_def intro: keeps_trans)

lemma disk_inode:
  assumes "disk n s" "ino < inode_count s"
  shows "inode_addr s ino = boot_block s + of_nat (4096 * (unat ino + 1))" "4096 * (unat ino + 1) + 4096 \<le> n"
proof -
  show "inode_addr s ino = boot_block s + of_nat (4096 * (unat ino + 1))"
    using assms(1) by (simp add: inode_addr_def disk_def algebra_simps)
  have "unat ino < unat (inode_count s)" using assms(2) by (simp add: word_less_nat_alt)
  then have "unat ino + 2 \<le> unat (inode_count s) + 1" by simp
  then have "(unat ino + 2) * 4096 \<le> n" using assms(1) unfolding disk_def by (meson le_trans mult_le_mono1)
  then show "4096 * (unat ino + 1) + 4096 \<le> n" by simp
qed

lemma disk_size: "disk n s \<Longrightarrow> n \<le> 2 ^ 32" "disk n s \<Longrightarrow> 4096 \<le> n" "disk n s \<Longrightarrow> n < 2 ^ 32"
  by (auto simp: disk_def)

text \<open>The words of an inode, and the blocks it names.\<close>

lemma disk_inode_word:
  assumes "disk n s" "same_disk n s t" "ino < inode_count s" "j + 4 \<le> 4096"
  shows "ld32 (mem t) (inode_addr s ino + of_nat j) = ld32 (mem s) (inode_addr s ino + of_nat j)"
proof -
  note di = disk_inode [OF assms(1,3)]
  have "keeps (inode_addr s ino) 4096 (mem s) (mem t)"
    unfolding di(1) by (rule keeps_sub) (use assms(2) di(2) disk_size(1) [OF assms(1)] in \<open>auto simp: same_disk_def\<close>)
  then show ?thesis by (rule keeps_ld32) (use assms(4) in simp_all)
qed

lemma disk_file:
  assumes "disk n s" "same_disk n s t" "ino < inode_count s"
  defines "ci \<equiv> inode_addr s ino" and "dbs \<equiv> data_block_start s"
  shows "file_length (mem t) ci = file_length (mem s) ci"
    and "b < 1023 \<Longrightarrow> block_addr (mem t) ci dbs (of_nat b) = block_addr (mem s) ci dbs (of_nat b)"
    and "p < file_length (mem s) ci \<Longrightarrow> file_byte (mem t) ci dbs p = file_byte (mem s) ci dbs p"
proof -
  note w = disk_inode_word [OF assms(1-3)]
  show len: "file_length (mem t) ci = file_length (mem s) ci"
    using w [of 0] by (simp add: file_length_def ci_def)
  have bl: "block_addr (mem t) ci dbs (of_nat b) = block_addr (mem s) ci dbs (of_nat b)" if "b < 1023" for b
    using w [of "4 + 4 * b"] that by (simp add: block_addr_def ci_def add.assoc)
  then show "b < 1023 \<Longrightarrow> block_addr (mem t) ci dbs (of_nat b) = block_addr (mem s) ci dbs (of_nat b)" .
  assume p: "p < file_length (mem s) ci"
  have bi: "blocks_in n (boot_block s) (mem s) ci dbs" using assms(1,3) by (simp add: disk_def ci_def dbs_def)
  have b: "p div 4096 < (file_length (mem s) ci + 4095) div 4096" using p by linarith
  then have "\<exists>k. k + 4096 \<le> n \<and> block_addr (mem s) ci dbs (of_nat (p div 4096)) = boot_block s + of_nat k"
    using bi unfolding blocks_in_def by blast
  then obtain k where k: "k + 4096 \<le> n" "block_addr (mem s) ci dbs (of_nat (p div 4096)) = boot_block s + of_nat k"
    by blast
  have "p div 4096 < 1023" using bi p unfolding blocks_in_def by linarith
  then have a: "block_addr (mem t) ci dbs (of_nat (p div 4096)) = boot_block s + of_nat k"
    using bl k(2) by simp
  have r: "k + p mod 4096 < n" using k(1) mod_less_divisor [of 4096 p] by linarith
  then have "inr (boot_block s) n (boot_block s + of_nat (k + p mod 4096))"
    using disk_size(3) [OF assms(1)] by (subst inr_offset) auto
  then show "file_byte (mem t) ci dbs p = file_byte (mem s) ci dbs p"
    using assms(2) by (simp add: file_byte_def a k(2) same_disk_def keeps_def add.assoc)
qed

section \<open>What depends on the image only\<close>

lemma disk_count:
  assumes "disk n s" "same_disk n s t"
  shows "inode_count t = inode_count s" "dir_size t = dir_size s"
proof -
  have k: "keeps (boot_block s) n (mem s) (mem t)" "boot_block t = boot_block s" "n \<le> 2 ^ 32" "4096 \<le> n"
    using assms(2) disk_size [OF assms(1)] by (auto simp: same_disk_def)
  show "inode_count t = inode_count s" "dir_size t = dir_size s"
    using keeps_ld32 [OF k(1) _ k(3), of 4] keeps_ld32 [OF k(1) _ k(3), of 0] k(2,4)
    by (simp_all add: inode_count_def dir_size_def dir_count_def)
qed

lemma disk_inode_addr: "same_disk n s t \<Longrightarrow> inode_addr t ino = inode_addr s ino"
  by (simp add: inode_addr_def same_disk_def)

lemma disk_contents:
  assumes "disk n s" "same_disk n s t" "ino < inode_count s"
  shows "contents t ino = contents s ino"
  using disk_file [OF assms] assms(2)
  by (simp add: contents_def disk_inode_addr [OF assms(2)] same_disk_def)

lemma disk_cong:
  assumes "disk n s" "same_disk n s t"
  shows "disk n t"
proof -
  have "blocks_in n (boot_block t) (mem t) (inode_addr t ino) (data_block_start t)" if "ino < inode_count s" for ino
  proof -
    let ?ci = "inode_addr s ino"
    have bi: "blocks_in n (boot_block s) (mem s) ?ci (data_block_start s)" using assms(1) that by (simp add: disk_def)
    have b: "b < 1023" if "b < (file_length (mem s) ?ci + 4095) div 4096" for b
      using bi that unfolding blocks_in_def by linarith
    show ?thesis
      using bi disk_file [OF assms that] b assms(2)
      unfolding blocks_in_def disk_inode_addr [OF assms(2)] same_disk_def by metis
  qed
  then show ?thesis
    using assms by (auto simp: disk_def disk_count [OF assms] same_disk_def)
qed

lemma disk_entry:
  assumes "disk n s" "same_disk n s t" "i < dir_size s"
  shows "entry_name t i = entry_name s i" "dir_entry t i = dir_entry s i"
proof -
  have a: "dir_entry_addr s (of_nat i) = boot_block s + of_nat (64 + 64 * i)"
      "dir_entry_addr t (of_nat i) = dir_entry_addr s (of_nat i)"
    using assms(2) by (simp_all add: dir_entry_addr_def same_disk_def algebra_simps)
  have i: "64 + 64 * i + 64 \<le> n" "n \<le> 2 ^ 32"
    using assms(1,3) disk_size [OF assms(1)] by (auto simp: disk_def)
  have k: "keeps (dir_entry_addr s (of_nat i)) 64 (mem s) (mem t)"
    unfolding a(1) by (rule keeps_sub) (use assms(2) i in \<open>auto simp: same_disk_def\<close>)
  have nm: "rd (mem t) (dir_entry_addr s (of_nat i)) 32 = rd (mem s) (dir_entry_addr s (of_nat i)) 32"
    using keeps_rd [OF k, of 0 32] by simp
  then show "entry_name t i = entry_name s i" by (simp add: entry_name_def cstrn_def a(2))
  have "dentry_at (mem t) (dir_entry_addr s (of_nat i)) = dentry_at (mem s) (dir_entry_addr s (of_nat i))"
    using nm keeps_ld32 [OF k, of 32] keeps_ld32 [OF k, of 36] by (simp add: dentry_at_def cstrn_def)
  then show "dir_entry t i = dir_entry s i"
    using disk_count [OF assms(1,2)] assms(3) by (simp add: dir_entry_def a(2))
qed

lemma lookup_cong:
  assumes "dir_size t = dir_size s"
    and "\<And>i. i < dir_size s \<Longrightarrow> entry_named f t i = entry_named f s i \<and> dir_entry t i = dir_entry s i"
  shows "read_dentry_by_name f t = read_dentry_by_name f s"
proof (cases "read_dentry_by_name f s")
  case None
  then show ?thesis using assms by (metis root_dir.lookup_None_iff)
next
  case (Some d)
  then obtain k where k: "k < dir_size s" "entry_named f s k" "\<And>j. j < k \<Longrightarrow> \<not> entry_named f s j"
      "dir_entry s k = Some d" by (rule root_dir.lookup_SomeD) blast
  have "read_dentry_by_name f t = dir_entry t k"
    by (rule root_dir.lookup_first) (use assms k less_trans in auto)
  then show ?thesis using assms k Some by simp
qed

lemma disk_lookup:
  assumes "disk n s" "same_disk n s t"
  shows "read_dentry_by_name f t = read_dentry_by_name f s"
  by (rule lookup_cong) (use disk_count(2) [OF assms] disk_entry [OF assms] in \<open>auto simp: entry_named_def\<close>)

lemma disk_index:
  assumes "disk n s" "same_disk n s t"
  shows "read_dentry_by_index i t = read_dentry_by_index i s"
proof -
  have "read_dentry_by_index i u = dir_entry u (unat i)" for u :: "'a fs_scheme"
    using read_dentry_by_index_entry [OF unat_u32_less, of i u] by simp
  moreover have "dir_entry t (unat i) = dir_entry s (unat i)"
  proof (cases "unat i < dir_size s")
    case True
    then show ?thesis by (rule disk_entry(2) [OF assms])
  next
    case False
    then show ?thesis using disk_count(2) [OF assms] by (simp add: dir_entry_def)
  qed
  ultimately show ?thesis by simp
qed

section \<open>Buffers outside the image\<close>

lemma disk_buffer:
  assumes "disk n s" "ino < inode_count s" "apart buf k (boot_block s) n" "k \<le> 2 ^ 32"
  shows "buffer_apart buf k ino s" "boot_apart buf k s"
proof -
  have n: "n \<le> 2 ^ 32" "4096 \<le> n" using disk_size [OF assms(1)] by auto
  note di = disk_inode [OF assms(1,2)]
  have bi: "blocks_in n (boot_block s) (mem s) (inode_addr s ino) (data_block_start s)"
    using assms(1,2) by (simp add: disk_def)
  have ci: "apart buf k (inode_addr s ino) 4096"
    unfolding di(1) by (rule apart_sub [OF assms(3) di(2) n(1) assms(4)])
  have "apart buf k (block_addr (mem s) (inode_addr s ino) (data_block_start s) (of_nat b)) 4096"
    if "b < (file_length (mem s) (inode_addr s ino) + 4095) div 4096" for b
    using bi that apart_sub [OF assms(3) _ n(1) assms(4)] unfolding blocks_in_def by metis
  then show "buffer_apart buf k ino s" using bi ci by (simp add: buffer_apart_def blocks_apart_def blocks_in_def)
  show "boot_apart buf k s"
    using apart_sub [OF assms(3), of 0 4096] n assms(4) by (simp add: boot_apart_def)
qed

lemma disk_buffer_cong:
  assumes "disk n s" "same_disk n s t" "ino < inode_count s"
  shows "buffer_apart buf k ino t = buffer_apart buf k ino s"
proof -
  let ?ci = "inode_addr s ino"
  have l: "file_length (mem s) ?ci \<le> 1023 * 4096"
    using assms(1,3) by (auto simp: disk_def blocks_in_def)
  then have "b < 1023" if "b < (file_length (mem s) ?ci + 4095) div 4096" for b
    using that by linarith
  then show ?thesis
    using disk_file [OF assms] assms(2)
    by (auto simp: buffer_apart_def blocks_apart_def disk_inode_addr [OF assms(2)] same_disk_def)
qed

lemma wr_same_disk:
  assumes "apart buf (length xs) (boot_block s) n" "length xs \<le> 2 ^ 32"
  shows "same_disk n s (s\<lparr>mem := wr buf xs (mem s)\<rparr>)"
  using keeps_apart [OF wr_other [OF _ assms(2)] assms(1)] by (simp add: same_disk_def)

end
