(* ===== verification/Printf.thy ===== *)
theory Printf
  imports Console
begin

text \<open>
  What \<open>printf\<close> of \<^verbatim>\<open>student-distrib/lib.c\<close> prints: \<open>render\<close> is the text as a list, read off
  the format and the arguments; the loop with its two program points prints exactly it.  \<open>printk\<close>
  is a call with a constant format, which the linker places outside video memory.
\<close>

definition conv_out :: "mem \<Rightarrow> bool \<Rightarrow> u8 \<Rightarrow> u32 \<Rightarrow> (bool \<times> u8 list) option" where
  "conv_out m alternate c arg =
     (if c = 0x25 then Some (False, [0x25])
      else if c = 0x78 \<or> c = 0x75 \<or> c = 0x64 then Some (True, conv_text alternate c arg)
      else if c = 0x63 then Some (True, [low8 arg])
      else if c = 0x73
      then (case strlen m arg of
              None \<Rightarrow> None
            | Some n \<Rightarrow> if apart arg (Suc (unat n)) VIDEO 4000 then Some (True, rd m arg (unat n)) else None)
      else Some (False, []))"

text \<open>\<open>None\<close>: the format ends inside a conversion, or a string argument has no end or lies in video
  memory; then the text is not determined by the arguments.\<close>

fun render :: "mem \<Rightarrow> bool option \<Rightarrow> u8 list \<Rightarrow> (nat \<Rightarrow> u32) \<Rightarrow> nat \<Rightarrow> u8 list option" where
  "render m None [] args esp = Some []"
| "render m (Some alternate) [] args esp = None"
| "render m None (c # cs) args esp =
     (if c = 0x25 then render m (Some False) cs args esp
      else map_option ((#) c) (render m None cs args esp))"
| "render m (Some alternate) (c # cs) args esp =
     (if c = 0x23 then render m (Some True) cs args esp
      else case conv_out m alternate c (args esp) of
             None \<Rightarrow> None
           | Some (used, t) \<Rightarrow>
               map_option ((@) t) (render m None cs args (if used then Suc esp else esp)))"

definition printk :: "string \<Rightarrow> u32 list \<Rightarrow> 'a console_scheme \<Rightarrow> 'a console_scheme option" where
  "printk format args s =
     (case render (mem s) None (str format) (\<lambda>i. args ! i) 0 of
        None \<Rightarrow> None
      | Some t \<Rightarrow> Some (fold putc t s))"

text \<open>The newline of a string constant.\<close>

abbreviation NL :: string where
  "NL \<equiv> [CHR 0x0A]"

section \<open>The loop prints the rendered text\<close>

text \<open>Memory that differs in the display only renders the same text.\<close>

definition off_screen :: "mem \<Rightarrow> mem \<Rightarrow> bool" where
  "off_screen m m' \<longleftrightarrow> (\<forall>p. \<not> inr VIDEO 4000 p \<longrightarrow> m' p = m p)"

lemma off_screen_text: "cursor_ok s \<Longrightarrow> off_screen m (mem s) \<Longrightarrow> off_screen m (mem (fold putc t s))"
  by (simp add: off_screen_def con.frame_text)

lemma off_screen_cstr:
  assumes "off_screen m m'" "cstr m a xs" "apart a (Suc (length xs)) VIDEO 4000"
  shows "cstr m' a xs"
  using assms(2)
proof (rule cstr_update)
  fix i assume "i \<le> length xs"
  then have "inr a (Suc (length xs)) (a + of_nat i)"
    using assms(2) by (subst inr_offset) (auto simp: cstr_def)
  then show "m' (a + of_nat i) = m (a + of_nat i)"
    using apartD [OF assms(3)] assms(1) by (auto simp: off_screen_def)
qed

lemma puts_apart:
  assumes "cursor_ok s" "cstr (mem s) a xs" "apart a (Suc (length xs)) VIDEO 4000"
  shows "puts a s = Some (length xs, fold putc xs s)"
proof (rule puts_cstr [OF assms(1,2)])
  fix i assume "i \<le> length xs"
  then have "inr a (Suc (length xs)) (a + of_nat i)"
    using assms(2) by (subst inr_offset) (auto simp: cstr_def)
  then show "\<not> inr VIDEO 4000 (a + of_nat i)" by (rule apartD [OF assms(3)])
qed

lemma printf_conv_out:
  assumes "cursor_ok s" "off_screen m (mem s)" "conv_out m alternate c arg = Some (used, t)"
  shows "printf_conv alternate c arg s = Some (used, fold putc t s)"
proof (cases "c = 0x73")
  case True
  then obtain n where n: "strlen m arg = Some n" "apart arg (Suc (unat n)) VIDEO 4000"
      "used" "t = rd m arg (unat n)"
    using assms(3) by (auto simp: conv_out_def split: option.splits if_splits)
  then have "cstr m arg t" by (simp add: strlen_Some_iff)
  then have "cstr (mem s) arg t" using off_screen_cstr [OF assms(2)] n by simp
  then have "puts arg s = Some (length t, fold putc t s)"
    using puts_apart [OF assms(1)] n by simp
  then show ?thesis using True n by (simp add: printf_conv_def)
next
  case False
  then show ?thesis using assms(3) by (auto simp: conv_out_def printf_conv_def split: if_splits)
qed

lemma printf_loop_render:
  assumes "cursor_ok s" "off_screen m (mem s)" "cstr m buf fmt" "apart buf (Suc (length fmt)) VIDEO 4000"
    and "render m point fmt args esp = Some t"
  shows "printf_loop args point buf esp s = Some (buf + of_nat (length fmt), fold putc t s)"
  using assms
proof (induction fmt arbitrary: point buf esp s t)
  case Nil
  then have "mem s buf = 0" using off_screen_cstr [OF Nil(2,3)] by (simp add: cstr_def)
  then show ?case using Nil.prems(5) by (cases point) (auto simp: printf_loop.simps)
next
  case (Cons c cs)
  note c0 = off_screen_cstr [OF Cons.prems(2-4)]
  have c: "mem s buf = c" "c \<noteq> 0" using c0 cstr_nth [OF c0, of 0] by (auto simp: cstr_def)
  have tl: "cstr m (buf + 1) cs" using Cons.prems(3) by (auto simp: cstr_def rd_Suc add.assoc)
  have ap: "apart (buf + 1) (Suc (length cs)) VIDEO 4000"
  proof (rule apartI)
    show "Suc (length cs) \<le> 2 ^ 32" using Cons.prems(3) by (simp add: cstr_def)
    fix p assume p: "inr (buf + 1) (Suc (length cs)) p"
    have "inr (buf + of_nat 1) (Suc (length cs)) p" using p by simp
    then have "inr buf (Suc (length (c # cs))) p"
      by (rule inr_sub) (use Cons.prems(3) in \<open>auto simp: cstr_def\<close>)
    then show "\<not> inr VIDEO 4000 p" by (rule apartD [OF Cons.prems(4)])
  qed simp
  note IH = Cons.IH [OF _ _ tl ap]
  show ?case
  proof (cases point)
    case None
    show ?thesis
    proof (cases "c = 0x25")
      case True
      then have "render m (Some False) cs args esp = Some t" using Cons.prems(5) None by simp
      from IH [OF Cons.prems(1,2) this] show ?thesis
        unfolding None by (subst printf_loop.simps) (simp add: c True)
    next
      case False
      then obtain u where u: "render m None cs args esp = Some u" "t = c # u"
        using Cons.prems(5) None by auto
      have "cursor_ok (putc c s)" "off_screen m (mem (putc c s))"
        using cursor_ok_putc [OF Cons.prems(1)] off_screen_text [OF Cons.prems(1,2), of "[c]"] by simp_all
      from IH [OF this u(1)] show ?thesis
        unfolding None by (subst printf_loop.simps) (simp add: c False u(2))
    qed
  next
    case (Some alternate)
    show ?thesis
    proof (cases "c = 0x23")
      case True
      then have "render m (Some True) cs args esp = Some t" using Cons.prems(5) Some by simp
      from IH [OF Cons.prems(1,2) this] show ?thesis
        unfolding Some by (subst printf_loop.simps) (simp add: c True)
    next
      case False
      then obtain used o' u where u: "conv_out m alternate c (args esp) = Some (used, o')"
          "render m None cs args (if used then Suc esp else esp) = Some u" "t = o' @ u"
        using Cons.prems(5) Some by (auto split: option.splits)
      have ok: "cursor_ok (fold putc o' s)" "off_screen m (mem (fold putc o' s))"
        using con.ok_text [OF Cons.prems(1)] off_screen_text [OF Cons.prems(1,2)] by simp_all
      from IH [OF ok u(2)] printf_conv_out [OF Cons.prems(1,2) u(1)] show ?thesis
        unfolding Some by (subst printf_loop.simps) (simp add: c False u(3))
    qed
  qed
qed


definition fmt_console :: console where
  "fmt_console = sample_console\<lparr>mem := wr 0x2000 (str ''n=%d 0x%#x%%'' @ [0]) (\<lambda>_. 0)\<rparr>"


section \<open>Constant formats\<close>

lemma printk_printf:
  assumes "printk f args s = Some t" "cursor_ok s" "cstr (mem s) a (str f)" "apart a (Suc (length (str f))) VIDEO 4000"
  shows "printf a (\<lambda>i. args ! i) s = Some (of_nat (length (str f)), t)"
proof -
  obtain x where x: "render (mem s) None (str f) (\<lambda>i. args ! i) 0 = Some x" "t = fold putc x s"
    using assms(1) by (auto simp: printk_def split: option.splits)
  have "off_screen (mem s) (mem s)" by (simp add: off_screen_def)
  from printf_loop_render [OF assms(2) this assms(3,4) x(1)] show ?thesis by (simp add: printf_def x(2))
qed

lemma printkE:
  assumes "printk f args s = Some t"
  obtains x where "t = fold putc x s"
  using assms by (auto simp: printk_def split: option.splits)

text \<open>A format with no string conversion, whose last conversion is complete, always prints.\<close>

fun plain_format :: "bool \<Rightarrow> u8 list \<Rightarrow> bool" where
  "plain_format inside [] = (\<not> inside)"
| "plain_format inside (c # cs) =
     (if inside then (if c = 0x23 then plain_format True cs else c \<noteq> 0x73 \<and> plain_format False cs)
      else plain_format (c = 0x25) cs)"

lemma plain_render: "plain_format (point \<noteq> None) cs \<Longrightarrow> render m point cs args esp \<noteq> None"
proof (induction cs arbitrary: point esp)
  case (Cons c cs)
  show ?case
  proof (cases point)
    case None
    then show ?thesis using Cons.IH [of None] Cons.IH [of "Some False"] Cons.prems by (cases "c = 0x25") simp_all
  next
    case (Some alternate)
    have "\<exists>used t. conv_out m alternate c (args esp) = Some (used, t)" if "c \<noteq> 0x73"
      using that by (auto simp: conv_out_def)
    then show ?thesis
      using Some Cons.IH [of None] Cons.IH [of "Some True"] Cons.prems by (auto split: if_splits)
  qed
qed (cases point; simp)

lemma plain_printk: "plain_format False (str f) \<Longrightarrow> \<exists>x. printk f args s = Some (fold putc x s)"
  using plain_render [of None "str f" "mem s" "\<lambda>i. args ! i" 0] by (auto simp: printk_def)

end
