(* ===== verification/Boot.thy ===== *)
theory Boot
  imports Kernel_Steps Disk Printf "HOL-Library.Monad_Syntax"
begin

text \<open>
  The kernel's entry, \<^verbatim>\<open>student-distrib/kernel.c\<close>: what the boot loader reports is printed, the
  descriptors of the LDT and the TSS are built (\<^verbatim>\<open>x86_desc.h\<close>), the devices, paging, the
  terminals and the interrupt table are initialised, and the switch to terminal 0 starts the
  first shell.  The boot loader's structures (\<^verbatim>\<open>multiboot.h\<close>) are read from memory at their
  offsets; the addresses the linker gives the LDT, the TSS and the handlers are fields of the
  state.
\<close>

section \<open>Segment descriptors\<close>

record seg_desc =
  seg_lim_15_00 :: u16
  base_15_00 :: u16
  base_23_16 :: u8
  seg_type :: nat
  seg_sys :: bool
  seg_dpl :: nat
  seg_present :: bool
  seg_lim_19_16 :: "4 word"
  seg_avail :: bool
  seg_reserved :: bool
  seg_opsize :: bool
  seg_granularity :: bool
  base_31_24 :: u8

definition KERNEL_DS :: u16 where
  "KERNEL_DS = 0x0018"

definition KERNEL_TSS :: u16 where
  "KERNEL_TSS = 0x0030"

definition KERNEL_LDT :: u16 where
  "KERNEL_LDT = 0x0038"

definition TSS_SIZE :: u32 where
  "TSS_SIZE = 104"

definition tss_size :: u32 where
  "tss_size = 104 - 1"

definition ldt_size :: u32 where
  "ldt_size = 4 * 8 - 1"

definition set_ldt_params :: "u32 \<Rightarrow> u32 \<Rightarrow> seg_desc \<Rightarrow> seg_desc" where
  "set_ldt_params addr lim d =
     d\<lparr>base_31_24 := ucast (drop_bit 24 (addr AND 0xFF000000)),
       base_23_16 := ucast (drop_bit 16 (addr AND 0x00FF0000)),
       base_15_00 := ucast (addr AND 0x0000FFFF),
       seg_lim_19_16 := ucast (drop_bit 16 (lim AND 0x000F0000)),
       seg_lim_15_00 := ucast (lim AND 0x0000FFFF)\<rparr>"

definition set_tss_params :: "u32 \<Rightarrow> u32 \<Rightarrow> seg_desc \<Rightarrow> seg_desc" where
  "set_tss_params addr lim d =
     d\<lparr>base_31_24 := ucast (drop_bit 24 (addr AND 0xFF000000)),
       base_23_16 := ucast (drop_bit 16 (addr AND 0x00FF0000)),
       base_15_00 := ucast (addr AND 0x0000FFFF),
       seg_lim_19_16 := ucast (drop_bit 16 (lim AND 0x000F0000)),
       seg_lim_15_00 := ucast (lim AND 0x0000FFFF)\<rparr>"

record boot = kernel +
  ldt_desc :: seg_desc
  tss_desc :: seg_desc
  ldtr :: u16
  task_reg :: u16
  tss_ldt :: u16
  idt :: "idt_desc list"
  ldt_addr :: u32
  tss_addr :: u32
  handler_addr :: "handler \<Rightarrow> u32"

definition construct_ldt :: "'a boot_scheme \<Rightarrow> 'a boot_scheme" where
  "construct_ldt s =
     (let the_ldt_desc = (ldt_desc s)\<lparr>seg_granularity := False, seg_opsize := True, seg_reserved := False,
            seg_avail := False, seg_present := True, seg_dpl := 0, seg_sys := False, seg_type := 2\<rparr>;
          the_ldt_desc = set_ldt_params (ldt_addr s) ldt_size the_ldt_desc
      in s\<lparr>ldt_desc := the_ldt_desc, ldtr := KERNEL_LDT\<rparr>)"

definition construct_tss :: "'a boot_scheme \<Rightarrow> 'a boot_scheme" where
  "construct_tss s =
     (let the_tss_desc = (tss_desc s)\<lparr>seg_granularity := False, seg_opsize := False, seg_reserved := False,
            seg_avail := False, seg_lim_19_16 := ucast (TSS_SIZE AND 0x000F0000), seg_present := True,
            seg_dpl := 0, seg_sys := False, seg_type := 9,
            seg_lim_15_00 := ucast (TSS_SIZE AND 0x0000FFFF)\<rparr>;
          the_tss_desc = set_tss_params (tss_addr s) tss_size the_tss_desc;
          s = s\<lparr>tss_desc := the_tss_desc\<rparr>;
          s = s\<lparr>tss_ldt := KERNEL_LDT, tss_ss0 := ucast KERNEL_DS, tss_esp0 := 0x800000\<rparr>
      in s\<lparr>task_reg := KERNEL_TSS\<rparr>)"

section \<open>What the boot loader reports\<close>

definition CHECK_FLAG :: "u32 \<Rightarrow> nat \<Rightarrow> bool" where
  "CHECK_FLAG flags b \<longleftrightarrow> flags AND push_bit b 1 \<noteq> 0"

definition MULTIBOOT_BOOTLOADER_MAGIC :: u32 where
  "MULTIBOOT_BOOTLOADER_MAGIC = 0x2BADB002"

text \<open>The structures \<^verbatim>\<open>multiboot_info_t\<close>, \<^verbatim>\<open>module_t\<close> and \<^verbatim>\<open>memory_map_t\<close>.\<close>

definition mbi_flags :: "u32 \<Rightarrow> mem \<Rightarrow> u32" where "mbi_flags mbi m = ld32 m mbi"
definition mem_lower :: "u32 \<Rightarrow> mem \<Rightarrow> u32" where "mem_lower mbi m = ld32 m (mbi + 4)"
definition mem_upper :: "u32 \<Rightarrow> mem \<Rightarrow> u32" where "mem_upper mbi m = ld32 m (mbi + 8)"
definition boot_device :: "u32 \<Rightarrow> mem \<Rightarrow> u32" where "boot_device mbi m = ld32 m (mbi + 12)"
definition cmdline :: "u32 \<Rightarrow> mem \<Rightarrow> u32" where "cmdline mbi m = ld32 m (mbi + 16)"
definition mods_count :: "u32 \<Rightarrow> mem \<Rightarrow> u32" where "mods_count mbi m = ld32 m (mbi + 20)"
definition mods_addr :: "u32 \<Rightarrow> mem \<Rightarrow> u32" where "mods_addr mbi m = ld32 m (mbi + 24)"
definition elf_num :: "u32 \<Rightarrow> mem \<Rightarrow> u32" where "elf_num mbi m = ld32 m (mbi + 28)"
definition elf_size :: "u32 \<Rightarrow> mem \<Rightarrow> u32" where "elf_size mbi m = ld32 m (mbi + 32)"
definition elf_addr :: "u32 \<Rightarrow> mem \<Rightarrow> u32" where "elf_addr mbi m = ld32 m (mbi + 36)"
definition elf_shndx :: "u32 \<Rightarrow> mem \<Rightarrow> u32" where "elf_shndx mbi m = ld32 m (mbi + 40)"
definition mmap_length :: "u32 \<Rightarrow> mem \<Rightarrow> u32" where "mmap_length mbi m = ld32 m (mbi + 44)"
definition mmap_addr :: "u32 \<Rightarrow> mem \<Rightarrow> u32" where "mmap_addr mbi m = ld32 m (mbi + 48)"

definition mod_start :: "u32 \<Rightarrow> mem \<Rightarrow> u32" where "mod_start md m = ld32 m md"
definition mod_end :: "u32 \<Rightarrow> mem \<Rightarrow> u32" where "mod_end md m = ld32 m (md + 4)"

definition show_bytes :: "u32 \<Rightarrow> nat list \<Rightarrow> 'a console_scheme \<Rightarrow> 'a console_scheme option" where
  "show_bytes md is s =
     fold (\<lambda>i r. do { s \<leftarrow> r; printk ''0x%x '' [scast (mem s (mod_start md (mem s) + of_nat i))] s }) is (Some s)"

definition show_module :: "u32 \<Rightarrow> u32 \<Rightarrow> 'a console_scheme \<Rightarrow> 'a console_scheme option" where
  "show_module mod_count md s = do {
     s \<leftarrow> printk (''Module %d loaded at address: 0x%#x'' @ NL) [mod_count, mod_start md (mem s)] s;
     s \<leftarrow> printk (''Module %d ends at address: 0x%#x'' @ NL) [mod_count, mod_end md (mem s)] s;
     s \<leftarrow> printk (''First few bytes of module:'' @ NL) [] s;
     s \<leftarrow> show_bytes md [0..<16] s;
     printk NL [] s }"

partial_function (option) show_modules ::
  "u32 \<Rightarrow> u32 \<Rightarrow> u32 \<Rightarrow> 'a console_scheme \<Rightarrow> 'a console_scheme option" where
  "show_modules mbi mod_count md s =
     (if mod_count < mods_count mbi (mem s)
      then do { s \<leftarrow> show_module mod_count md s; show_modules mbi (mod_count + 1) (md + 16) s }
      else Some s)"

definition show_region :: "u32 \<Rightarrow> 'a console_scheme \<Rightarrow> 'a console_scheme option" where
  "show_region mmap s =
     (let m = mem s
      in printk (''    size = 0x%x, base_addr = 0x%#x%#x'' @ NL @ ''    type = 0x%x,  length    = 0x%#x%#x'' @ NL)
           [ld32 m mmap, ld32 m (mmap + 8), ld32 m (mmap + 4), ld32 m (mmap + 20), ld32 m (mmap + 16),
            ld32 m (mmap + 12)] s)"

partial_function (option) show_mmap :: "u32 \<Rightarrow> u32 \<Rightarrow> 'a console_scheme \<Rightarrow> 'a console_scheme option" where
  "show_mmap mbi mmap s =
     (if mmap < mmap_addr mbi (mem s) + mmap_length mbi (mem s)
      then do { s \<leftarrow> show_region mmap s; show_mmap mbi (mmap + ld32 (mem s) mmap + 4) s }
      else Some s)"

definition show_flags :: "u32 \<Rightarrow> 'a console_scheme \<Rightarrow> 'a console_scheme option" where
  "show_flags mbi s = do {
     s \<leftarrow> printk (''flags = 0x%#x'' @ NL) [mbi_flags mbi (mem s)] s;
     s \<leftarrow> (if CHECK_FLAG (mbi_flags mbi (mem s)) 0
       then printk (''mem_lower = %uKB, mem_upper = %uKB'' @ NL) [mem_lower mbi (mem s), mem_upper mbi (mem s)] s
       else Some s);
     s \<leftarrow> (if CHECK_FLAG (mbi_flags mbi (mem s)) 1
       then printk (''boot_device = 0x%#x'' @ NL) [boot_device mbi (mem s)] s else Some s);
     s \<leftarrow> (if CHECK_FLAG (mbi_flags mbi (mem s)) 2
       then printk (''cmdline = %s'' @ NL) [cmdline mbi (mem s)] s else Some s);
     if CHECK_FLAG (mbi_flags mbi (mem s)) 3 then show_modules mbi 0 (mods_addr mbi (mem s)) s else Some s }"

definition show_maps :: "u32 \<Rightarrow> 'a console_scheme \<Rightarrow> 'a console_scheme option" where
  "show_maps mbi s = do {
     s \<leftarrow> (if CHECK_FLAG (mbi_flags mbi (mem s)) 5
       then printk (''elf_sec: num = %u, size = 0x%#x, addr = 0x%#x, shndx = 0x%#x'' @ NL)
         [elf_num mbi (mem s), elf_size mbi (mem s), elf_addr mbi (mem s), elf_shndx mbi (mem s)] s
       else Some s);
     if CHECK_FLAG (mbi_flags mbi (mem s)) 6
     then do {
       s \<leftarrow> printk (''mmap_addr = 0x%#x, mmap_length = 0x%x'' @ NL) [mmap_addr mbi (mem s), mmap_length mbi (mem s)] s;
       show_mmap mbi (mmap_addr mbi (mem s)) s }
     else Some s }"

section \<open>The entry\<close>

definition init_kernel :: "u32 \<Rightarrow> 'a boot_scheme \<Rightarrow> 'a boot_scheme" where
  "init_kernel mbi s =
     (let s = construct_tss (construct_ldt s);
          s = s\<lparr>shell_flag := 0\<rparr>;
          s = i8259_init s;
          s = fs_init (mods_addr mbi (mem s)) s;
          s = initPaging s;
          s = keyboard_init s;
          s = rtc_init s;
          s = terminal_init s;
          s = s\<lparr>idt := idt_init (handler_addr s) (idt s)\<rparr>;
          s = clear s;
          s = set_screen_y 0 (set_screen_x 0 s);
          s = update_cursor (uint (get_screen_x s)) (uint (get_screen_y s)) s
      in sti s)"

text \<open>\<^verbatim>\<open>launch_tests\<close> has an empty body.  \<open>Ret 0\<close> is the return of \<^verbatim>\<open>entry\<close>, to the endless loop of
  \<^verbatim>\<open>boot.S\<close>.\<close>

definition entry :: "u32 \<Rightarrow> u32 \<Rightarrow> 'a boot_scheme \<Rightarrow> (outcome \<times> 'a boot_scheme) option" where
  "entry magic addr s =
     (let s = clear s
      in if magic \<noteq> MULTIBOOT_BOOTLOADER_MAGIC
         then do { s \<leftarrow> printk (''Invalid magic number: 0x%#x'' @ NL) [magic] s; Some (Ret 0, s) }
         else do {
           s \<leftarrow> show_flags addr s;
           if CHECK_FLAG (mbi_flags addr (mem s)) 4 \<and> CHECK_FLAG (mbi_flags addr (mem s)) 5
           then do { s \<leftarrow> printk (''Both bits 4 and 5 are set.'' @ NL) [] s; Some (Ret 0, s) }
           else do { s \<leftarrow> show_maps addr s; Some (switch_terminal 0 (init_kernel addr s)) } })"

section \<open>Descriptors as the processor reads them\<close>

definition seg_base :: "seg_desc \<Rightarrow> u32" where
  "seg_base d = push_bit 24 (ucast (base_31_24 d)) OR push_bit 16 (ucast (base_23_16 d)) OR ucast (base_15_00 d)"

definition seg_limit :: "seg_desc \<Rightarrow> u32" where
  "seg_limit d = push_bit 16 (ucast (seg_lim_19_16 d)) OR ucast (seg_lim_15_00 d)"

lemma split_base: "push_bit 24 (ucast (ucast (drop_bit 24 (a AND 0xFF000000)) :: u8))
    OR push_bit 16 (ucast (ucast (drop_bit 16 (a AND 0x00FF0000)) :: u8))
    OR ucast (ucast (a AND 0x0000FFFF) :: u16) = (a :: u32)"
proof -
  have m: "0xFF000000 = push_bit 24 (mask 8 :: u32)" "0x00FF0000 = push_bit 16 (mask 8 :: u32)" "0x0000FFFF = (mask 16 :: u32)"
    by (simp_all add: mask_eq_exp_minus_1 push_bit_eq_mult)
  show ?thesis
    unfolding m
  proof (rule bit_word_eqI)
    fix n assume "n < LENGTH(32)"
    then show "bit (push_bit 24 (ucast (ucast (drop_bit 24 (a AND push_bit 24 (mask 8))) :: u8))
        OR push_bit 16 (ucast (ucast (drop_bit 16 (a AND push_bit 16 (mask 8))) :: u8))
        OR ucast (ucast (a AND mask 16) :: u16) :: u32) n = bit a n"
      by (cases "n < 24") (auto simp: bit_simps)
  qed
qed

lemma split_limit: "l < 0x100000 \<Longrightarrow> push_bit 16 (ucast (ucast (drop_bit 16 (l AND 0x000F0000)) :: 4 word))
    OR ucast (ucast (l AND 0x0000FFFF) :: u16) = (l :: u32)"
proof -
  assume l: "l < 0x100000"
  have m: "0x000F0000 = push_bit 16 (mask 4 :: u32)" "0x0000FFFF = (mask 16 :: u32)"
    by (simp_all add: mask_eq_exp_minus_1 push_bit_eq_mult)
  have hi: "n < 20" if "bit l n" for n
  proof (rule ccontr)
    assume n: "\<not> n < 20"
    have "unat l div 2 ^ n = 0"
      using l n power_increasing [of 20 n "2 :: nat"] by (simp add: word_less_nat_alt)
    then have "\<not> bit (unat l) n" by (simp add: bit_iff_odd)
    then show False using that by (simp add: bit_unsigned_iff)
  qed
  have hi': "n - 16 < 4" if "bit l n" "\<not> n < 16" for n using hi [OF that(1)] that(2) by simp
  show ?thesis
    unfolding m by (rule bit_word_eqI) (auto simp: bit_simps hi')
qed

lemma set_params_base [simp]:
  "seg_base (set_ldt_params a l d) = a" "seg_base (set_tss_params a l d) = a"
  "l < 0x100000 \<Longrightarrow> seg_limit (set_ldt_params a l d) = l"
  "l < 0x100000 \<Longrightarrow> seg_limit (set_tss_params a l d) = l"
  using split_base [of a] split_limit [of l]
  by (simp_all add: seg_base_def seg_limit_def set_ldt_params_def set_tss_params_def or.assoc)

section \<open>The report always prints\<close>

definition prints :: "'a console_scheme \<Rightarrow> 'a console_scheme option \<Rightarrow> bool" where
  "prints s r \<longleftrightarrow> (\<exists>x. r = Some (fold putc x s))"

lemma prints_same [simp]: "prints s (Some s)"
  unfolding prints_def by (rule exI [of _ "[]"]) simp

lemma prints_bind:
  assumes "prints s r" "\<And>x. prints (fold putc x s) (f (fold putc x s))"
  shows "prints s (r \<bind> f)"
proof -
  obtain x where x: "r = Some (fold putc x s)" using assms(1) by (auto simp: prints_def)
  obtain y where "f (fold putc x s) = Some (fold putc y (fold putc x s))" using assms(2) [of x] by (auto simp: prints_def)
  then show ?thesis unfolding prints_def x by (intro exI [of _ "x @ y"]) simp
qed

lemma prints_if: "(b \<Longrightarrow> prints s x) \<Longrightarrow> (\<not> b \<Longrightarrow> prints s y) \<Longrightarrow> prints s (if b then x else y)"
  by simp

lemma prints_plain: "plain_format False (str f) \<Longrightarrow> prints s (printk f args s)"
  using plain_printk [of f args s] by (auto simp: prints_def)

lemma prints_bytes: "prints s (show_bytes md is s)"
proof -
  have "\<exists>y. fold (\<lambda>i r. do { s \<leftarrow> r; printk ''0x%x '' [scast (mem s (mod_start md (mem s) + of_nat i))] s }) is
      (Some (fold putc x s)) = Some (fold putc y s)" for x
  proof (induction "is" arbitrary: x)
    case (Cons i "is")
    let ?t = "fold putc x s"
    have "plain_format False (str ''0x%x '')" by (simp add: str_def)
    from plain_printk [OF this] obtain y where
      "printk ''0x%x '' [scast (mem ?t (mod_start md (mem ?t) + of_nat i))] ?t = Some (fold putc y ?t)" by blast
    then show ?case using Cons [of "x @ y"] by simp
  qed auto
  from this [of "[]"] show ?thesis by (simp add: show_bytes_def prints_def)
qed

lemma prints_module: "prints s (show_module i md s)"
  unfolding show_module_def
  by (intro prints_bind prints_plain prints_bytes) (simp_all add: str_def)

lemma prints_region: "prints s (show_region mmap s)"
  unfolding show_region_def Let_def by (rule prints_plain) (simp add: str_def)

text \<open>A structure that does not lie in video memory reads the same while text is printed.\<close>

lemma off_screen_ld32:
  assumes "off_screen m m'" "apart a n VIDEO 4000" "i + 4 \<le> n" "n \<le> 2 ^ 32"
  shows "ld32 m' (a + of_nat i) = ld32 m (a + of_nat i)"
proof (rule keeps_ld32 [OF _ assms(3,4)])
  show "keeps a n m m'" using assms(1) apartD [OF assms(2)] by (auto simp: keeps_def off_screen_def)
qed

lemma mbi_fields:
  assumes "off_screen m m'" "apart mbi 52 VIDEO 4000"
  shows "mbi_flags mbi m' = mbi_flags mbi m" "cmdline mbi m' = cmdline mbi m"
    "mods_count mbi m' = mods_count mbi m" "mods_addr mbi m' = mods_addr mbi m"
    "mmap_length mbi m' = mmap_length mbi m" "mmap_addr mbi m' = mmap_addr mbi m"
  using off_screen_ld32 [OF assms, of 0] off_screen_ld32 [OF assms, of 16] off_screen_ld32 [OF assms, of 20]
    off_screen_ld32 [OF assms, of 24] off_screen_ld32 [OF assms, of 44] off_screen_ld32 [OF assms, of 48]
  by (simp_all add: mbi_flags_def cmdline_def mods_count_def mods_addr_def mmap_length_def mmap_addr_def)

lemma prints_modules:
  assumes "cursor_ok s" "off_screen m (mem s)" "apart mbi 52 VIDEO 4000"
  shows "prints s (show_modules mbi i md s)"
  using assms(1,2)
proof (induction "unat (mods_count mbi m - i)" arbitrary: i md s rule: less_induct)
  case less
  note c = mbi_fields(3) [OF less.prems(2) assms(3)]
  show ?case
  proof (cases "i < mods_count mbi m")
    case True
    have m: "unat (mods_count mbi m - (i + 1)) < unat (mods_count mbi m - i)"
      using True unat_u32_bound [of "mods_count mbi m"]
      by (auto simp: word_less_nat_alt unat_u32_minus unat_u32_plus)
    have "prints (fold putc x s) (show_modules mbi (i + 1) (md + 16) (fold putc x s))" for x
      by (rule less.hyps [OF m con.ok_text [OF less.prems(1)] off_screen_text [OF less.prems]])
    then show ?thesis
      by (subst show_modules.simps) (simp add: c True prints_bind [OF prints_module])
  qed (simp add: show_modules.simps c)
qed

text \<open>The memory map: entries of the sizes \<open>ns\<close> (without their size word) from an address on.\<close>

fun mmap_entries :: "mem \<Rightarrow> u32 \<Rightarrow> nat list \<Rightarrow> bool" where
  "mmap_entries m a [] = True"
| "mmap_entries m a (n # ns) = (apart a 4 VIDEO 4000 \<and> ld32 m a = of_nat n \<and> n < 2 ^ 32
     \<and> mmap_entries m (a + of_nat (n + 4)) ns)"

definition mmap_ok :: "u32 \<Rightarrow> mem \<Rightarrow> bool" where
  "mmap_ok mbi m \<longleftrightarrow> (\<exists>ns. mmap_entries m (mmap_addr mbi m) ns
     \<and> unat (mmap_length mbi m) = (\<Sum>n\<leftarrow>ns. n + 4)
     \<and> unat (mmap_addr mbi m) + unat (mmap_length mbi m) < 2 ^ 32)"

lemma prints_mmap:
  assumes "cursor_ok s" "off_screen m (mem s)" "apart mbi 52 VIDEO 4000"
    and "mmap_entries m a ns" "unat a + (\<Sum>n\<leftarrow>ns. n + 4) = unat (mmap_addr mbi m + mmap_length mbi m)"
  shows "prints s (show_mmap mbi a s)"
  using assms(1,2,4,5)
proof (induction ns arbitrary: a s)
  case Nil
  then have "a = mmap_addr mbi m + mmap_length mbi m" by (simp add: word_unat_eq_iff)
  then show ?case using mbi_fields [OF Nil.prems(2) assms(3)] by (simp add: show_mmap.simps)
next
  case (Cons n ns)
  let ?e = "mmap_addr mbi m + mmap_length mbi m"
  note fl = mbi_fields [OF Cons.prems(2) assms(3)]
  have a: "apart a 4 VIDEO 4000" "ld32 m a = of_nat n" "n < 2 ^ 32" "mmap_entries m (a + of_nat (n + 4)) ns"
    using Cons.prems(3) by auto
  have lt: "a < ?e" using Cons.prems(4) by (simp add: word_less_nat_alt)
  have le: "unat a + (n + 4) < 2 ^ 32" using Cons.prems(4) unat_u32_less [of ?e] by simp
  then have u: "unat (a + of_nat (n + 4)) = unat a + (n + 4)"
    using unat_u32_of_nat [of "n + 4"] by (simp add: unat_u32_plus)
  have "prints (fold putc x s) (show_mmap mbi (a + ld32 (mem (fold putc x s)) a + 4) (fold putc x s))" for x
  proof -
    have ok: "cursor_ok (fold putc x s)" "off_screen m (mem (fold putc x s))"
      using con.ok_text [OF Cons.prems(1)] off_screen_text [OF Cons.prems(1,2)] by auto
    have w: "ld32 (mem (fold putc x s)) a = of_nat n"
      using off_screen_ld32 [OF ok(2) a(1), of 0] a(2) by simp
    have e: "a + ld32 (mem (fold putc x s)) a + 4 = a + of_nat (n + 4)" by (simp add: w)
    have "unat (a + of_nat (n + 4)) + (\<Sum>n\<leftarrow>ns. n + 4) = unat ?e" using u Cons.prems(4) by simp
    then show ?thesis unfolding e by (rule Cons.IH [OF ok a(4)])
  qed
  then show ?case
    by (subst show_mmap.simps) (simp add: fl lt prints_bind [OF prints_region])
qed

text \<open>What the boot loader promises about its information structure.\<close>

definition info_ok :: "u32 \<Rightarrow> mem \<Rightarrow> bool" where
  "info_ok mbi m \<longleftrightarrow> apart mbi 52 VIDEO 4000
     \<and> (CHECK_FLAG (mbi_flags mbi m) 2 \<longrightarrow>
          (\<exists>xs. cstr m (cmdline mbi m) xs \<and> apart (cmdline mbi m) (Suc (length xs)) VIDEO 4000))
     \<and> \<not> (CHECK_FLAG (mbi_flags mbi m) 4 \<and> CHECK_FLAG (mbi_flags mbi m) 5)
     \<and> (CHECK_FLAG (mbi_flags mbi m) 6 \<longrightarrow> mmap_ok mbi m)"

lemma prints_cmdline:
  assumes "cstr (mem s) a xs" "apart a (Suc (length xs)) VIDEO 4000"
  shows "prints s (printk (''cmdline = %s'' @ NL) [a] s)"
proof -
  have "length xs < 2 ^ 32" using assms(1) by (simp add: cstr_def)
  then have "conv_out (mem s) False 0x73 a \<noteq> None"
    using strlen_cstr [OF assms(1)] assms(2) by (simp add: conv_out_def unat_u32_of_nat)
  then have "render (mem s) None (str (''cmdline = %s'' @ NL)) (\<lambda>i. [a] ! i) 0 \<noteq> None"
    by (auto simp: str_def)
  then show ?thesis by (auto simp: printk_def prints_def)
qed

text \<open>A state in which nothing but the display differs from the memory \<open>m\<close>.\<close>

definition printing :: "mem \<Rightarrow> 'a console_scheme \<Rightarrow> bool" where
  "printing m s \<longleftrightarrow> cursor_ok s \<and> off_screen m (mem s)"

lemma printing_text [simp]: "printing m s \<Longrightarrow> printing m (fold putc x s)"
  by (simp add: printing_def con.ok_text off_screen_text)

lemma prints_flag_2:
  assumes "printing m s" "info_ok mbi m" "CHECK_FLAG (mbi_flags mbi (mem s)) 2"
  shows "prints s (printk (''cmdline = %s'' @ NL) [cmdline mbi (mem s)] s)"
proof -
  have o: "off_screen m (mem s)" and ap: "apart mbi 52 VIDEO 4000"
    using assms(1,2) by (auto simp: printing_def info_ok_def)
  note f = mbi_fields [OF o ap]
  obtain xs where "cstr m (cmdline mbi m) xs" "apart (cmdline mbi m) (Suc (length xs)) VIDEO 4000"
    using assms(2,3) by (auto simp: info_ok_def f)
  then show ?thesis using off_screen_cstr [OF o] prints_cmdline f(2) by metis
qed

lemma prints_flags:
  assumes "printing m s" "info_ok mbi m"
  shows "prints s (show_flags mbi s)"
proof -
  have "prints t (show_modules mbi 0 a t)" if "printing m t" for t :: "'a console_scheme" and a
    using that assms(2) prints_modules by (auto simp: printing_def info_ok_def)
  then show ?thesis
    unfolding show_flags_def
    by (intro prints_bind prints_if prints_same prints_plain prints_flag_2 [OF _ assms(2)])
       (simp_all add: str_def assms(1))
qed

lemma prints_maps:
  assumes "printing m s" "info_ok mbi m"
  shows "prints s (show_maps mbi s)"
proof -
  have "prints t (show_mmap mbi (mmap_addr mbi (mem t)) t)"
    if "printing m t" "CHECK_FLAG (mbi_flags mbi (mem u)) 6" "printing m u" for t u :: "'a console_scheme"
  proof -
    have o: "off_screen m (mem t)" "off_screen m (mem u)" "cursor_ok t" and ap: "apart mbi 52 VIDEO 4000"
      using that assms(2) by (auto simp: printing_def info_ok_def)
    note f = mbi_fields [OF o(1) ap] mbi_fields [OF o(2) ap] and fl = that(2)
    obtain ns where ns: "mmap_entries m (mmap_addr mbi m) ns"
        "unat (mmap_length mbi m) = (\<Sum>n\<leftarrow>ns. n + 4)"
        "unat (mmap_addr mbi m) + unat (mmap_length mbi m) < 2 ^ 32"
      using fl assms(2) f by (auto simp: info_ok_def mmap_ok_def)
    then have "unat (mmap_addr mbi m) + (\<Sum>n\<leftarrow>ns. n + 4) = unat (mmap_addr mbi m + mmap_length mbi m)"
      by (simp add: unat_u32_plus)
    from prints_mmap [OF o(3,1) ap ns(1) this] show ?thesis by (simp add: f)
  qed
  then show ?thesis
    unfolding show_maps_def
    by (intro prints_bind prints_if prints_same prints_plain) (simp_all add: str_def assms(1))
qed

section \<open>The initialised kernel\<close>

lemma enable_irq_more: "pic.more (enable_irq i s) = pic.more s"
  by (simp add: enable_irq_def Let_def outb_def)

lemma init_pics_more: "pic.more (i8259_init s) = pic.more s" "pic.more (rtc_init s) = pic.more s"
    "mem (i8259_init s) = mem s" "mem (rtc_init s) = mem s" "iflag (rtc_init s)" "dev (rtc_init s) = dev s"
  by (simp_all add: i8259_init_def rtc_init_def Let_def outb_def cli_def sti_def enable_irq_def)

lemma clear_frame: "off_screen (mem s) (mem (clear s))"
proof -
  have "mem (clear s) p = mem s p" if p: "\<not> inr VIDEO 4000 p" for p
  proof -
    have "fold (\<lambda>i m. m(cell_addr i := 0x20, cell_addr i + 1 := 7)) is m p = m p"
      if "set is \<subseteq> {..<2000}" for "is" and m :: mem
      using that not_video_cell [OF p] by (induction "is" arbitrary: m) auto
    from this [of "[0..<2000]" "mem s"] show ?thesis by (simp add: clear_def atLeast0LessThan)
  qed
  then show ?thesis by (simp add: off_screen_def)
qed

text \<open>The steps change their own component's part of the state only.\<close>

lemma console_of_pic: "pic.more t = pic.more s \<Longrightarrow> console.more t = console.more s"
  by (cases s; cases t) simp

lemma boot_more:
  assumes "paging.more t = paging.more s"
  shows "ldt_desc t = ldt_desc s" "tss_desc t = tss_desc s" "ldtr t = ldtr s" "task_reg t = task_reg s"
    "tss_ldt t = tss_ldt s" "idt t = idt s" "ldt_addr t = ldt_addr s" "tss_addr t = tss_addr s"
    "handler_addr t = handler_addr s"
  using assms by (cases s; cases t; simp)+

lemma paging_init_more: "paging.more (fs_init a s) = paging.more s" "paging.more (initPaging s) = paging.more s"
  by (simp_all add: fs_init_def initPaging_def pagedir_cr3_def enablePaging_def Let_def)

lemma screen_init_more: "console.more (clear s) = console.more s" "console.more (set_screen_x x s) = console.more s"
  "console.more (set_screen_y y s) = console.more s"
  by (simp_all add: clear_def set_screen_x_def set_screen_y_def)

lemmas step_more = paging_more(1) [OF console_of_pic [OF init_pics_more(1)]]
  paging_more(1) [OF console_of_pic [OF init_pics_more(2)]] paging_more(1) [OF console_of_pic [OF enable_irq_more]]
  paging_init_more paging_more(1) [OF screen_init_more(1)] paging_more(1) [OF screen_init_more(2)]
  paging_more(1) [OF screen_init_more(3)] paging_more(1) [OF update_cursor_more]
  paging_more(1) [OF cli_sti_more(1)] paging_more(1) [OF cli_sti_more(2)]

lemmas step_kernel = kernel_more [OF step_more(1)] kernel_more [OF step_more(2)]
  kernel_more [OF step_more(3)] kernel_more [OF step_more(4)]
  kernel_more [OF step_more(5)] kernel_more [OF step_more(6)]
  kernel_more [OF step_more(7)] kernel_more [OF step_more(8)]
  kernel_more [OF step_more(9)] kernel_more [OF step_more(11)]

lemmas step_boot = boot_more [OF step_more(1)] boot_more [OF step_more(2)]
  boot_more [OF step_more(3)] boot_more [OF step_more(4)]
  boot_more [OF step_more(5)] boot_more [OF step_more(6)]
  boot_more [OF step_more(7)] boot_more [OF step_more(8)]
  boot_more [OF step_more(9)] boot_more [OF step_more(11)]

lemma init_kernel_fields:
  "terminals (init_kernel mbi s) = map init_terminal (take 3 (terminals s))"
  "cur_term (init_kernel mbi s) = 0" "running_term (init_kernel mbi s) = 1"
  "process_state (init_kernel mbi s) = process_state s"
  "idt (init_kernel mbi s) = idt_init (handler_addr s) (idt s)"
  by (simp_all add: init_kernel_def Let_def keyboard_init_def step_kernel
      step_boot
      terminal_init_def construct_ldt_def construct_tss_def)

lemmas init_pics_fs = paging_more [OF console_of_pic [OF init_pics_more(1)]]
  paging_more [OF console_of_pic [OF init_pics_more(2)]] paging_more [OF console_of_pic [OF enable_irq_more]]
  paging_more [OF screen_init_more(1)] paging_more [OF screen_init_more(2)] paging_more [OF screen_init_more(3)]
  paging_more [OF update_cursor_more] paging_more [OF cli_sti_more(2)]

lemma init_mem: "mem (initPaging s) = mem s" "mem (terminal_init s) = mem s" "mem (fs_init a s) = mem s"
    "mem (construct_tss b) = mem b" "mem (construct_ldt b) = mem b"
  by (simp_all add: initPaging_def pagedir_cr3_def enablePaging_def terminal_init_def fs_init_def Let_def
      construct_tss_def construct_ldt_def)

text \<open>The file system is the one of the first module.\<close>

definition boot_disk :: "u32 \<Rightarrow> 'a boot_scheme \<Rightarrow> 'a boot_scheme" where
  "boot_disk mbi s = fs_init (mods_addr mbi (mem s)) s"

lemma init_kernel_disk:
  shows "boot_block (init_kernel mbi s) = boot_block (boot_disk mbi s)"
    "boot_block_end (init_kernel mbi s) = boot_block_end (boot_disk mbi s)"
    "len_inodes (init_kernel mbi s) = len_inodes (boot_disk mbi s)"
    "data_block_start (init_kernel mbi s) = data_block_start (boot_disk mbi s)"
    "off_screen (mem s) (mem (init_kernel mbi s))"
proof -
  define a where "a = i8259_init ((construct_tss (construct_ldt s))\<lparr>shell_flag := 0\<rparr>)"
  define b where "b = fs_init (mods_addr mbi (mem a)) a"
  have ma: "mem a = mem s" by (simp add: a_def init_pics_more init_mem)
  have fb: "boot_block b = boot_block (boot_disk mbi s)" "boot_block_end b = boot_block_end (boot_disk mbi s)"
      "len_inodes b = len_inodes (boot_disk mbi s)" "data_block_start b = data_block_start (boot_disk mbi s)"
    by (simp_all add: b_def boot_disk_def ma fs_init_def Let_def inode_count_def)
  define c where "c = (terminal_init (rtc_init (keyboard_init (initPaging b))))
    \<lparr>idt := idt_init (handler_addr (terminal_init (rtc_init (keyboard_init (initPaging b)))))
       (idt (terminal_init (rtc_init (keyboard_init (initPaging b)))))\<rparr>"
  have k: "init_kernel mbi s = sti (update_cursor (uint (get_screen_x (set_screen_y 0 (set_screen_x 0 (clear c)))))
      (uint (get_screen_y (set_screen_y 0 (set_screen_x 0 (clear c))))) (set_screen_y 0 (set_screen_x 0 (clear c))))"
    by (simp add: init_kernel_def Let_def a_def b_def c_def)
  have fc: "boot_block c = boot_block b" "boot_block_end c = boot_block_end b"
      "len_inodes c = len_inodes b" "data_block_start c = data_block_start b" "mem c = mem s"
    by (simp_all add: c_def keyboard_init_def terminal_init_def init_pics_fs initPaging_def pagedir_cr3_def
        enablePaging_def Let_def init_pics_more b_def init_mem ma)
  show "boot_block (init_kernel mbi s) = boot_block (boot_disk mbi s)"
    "boot_block_end (init_kernel mbi s) = boot_block_end (boot_disk mbi s)"
    "len_inodes (init_kernel mbi s) = len_inodes (boot_disk mbi s)"
    "data_block_start (init_kernel mbi s) = data_block_start (boot_disk mbi s)"
    unfolding k using fb fc by (simp_all add: init_pics_fs)
  show "off_screen (mem s) (mem (init_kernel mbi s))"
    unfolding k using clear_frame [of c] fc(5) by simp
qed

lemma kernel_map_cong:
  assumes "kernel_map s" "page_directory t = page_directory s" "page_table t = page_table s"
    "page_table_addr t = page_table_addr s" "vidmem_table_addr t = vidmem_table_addr s"
  shows "kernel_map t"
  using assms by (simp add: kernel_map_def tables_ok_def)

lemma init_kernel_map: "tables_ok s \<Longrightarrow> kernel_map (init_kernel mbi s)"
proof -
  assume t: "tables_ok s"
  define a where "a = i8259_init ((construct_tss (construct_ldt s))\<lparr>shell_flag := 0\<rparr>)"
  define b where "b = fs_init (mods_addr mbi (mem a)) a"
  have "tables_ok b"
    using t by (simp add: tables_ok_def b_def a_def fs_init_def Let_def init_pics_fs construct_tss_def construct_ldt_def)
  note km = kernel_map_init [OF this]
  show ?thesis
    by (rule kernel_map_cong [OF km])
       (simp_all add: init_kernel_def Let_def keyboard_init_def terminal_init_def init_pics_fs
         flip: a_def b_def)
qed

lemma init_kernel_screen: "screen_x (init_kernel mbi s) = 0" "screen_y (init_kernel mbi s) = 0"
    "iflag (init_kernel mbi s)"
  by (simp_all add: init_kernel_def Let_def set_screen_x_def set_screen_y_def)
     (simp_all add: update_cursor_def Let_def outb_def sti_def)

lemma irq_masked_cong: "master_mask t = master_mask s \<Longrightarrow> slave_mask t = slave_mask s \<Longrightarrow>
    irq_masked j t = irq_masked j s"
  by (simp add: irq_masked_def)

lemma mask_fields:
  "master_mask (set_screen_x x c) = master_mask c" "master_mask (set_screen_y x c) = master_mask c"
  "slave_mask (set_screen_x x c) = slave_mask c" "slave_mask (set_screen_y x c) = slave_mask c"
  "master_mask (clear p) = master_mask p" "slave_mask (clear p) = slave_mask p"
  "master_mask (update_cursor y z p) = master_mask p" "slave_mask (update_cursor y z p) = slave_mask p"
  by (simp_all add: set_screen_x_def set_screen_y_def clear_def update_cursor_def Let_def outb_def)

lemma init_kernel_irqs:
  assumes "master_mask s = 0xFF" "slave_mask s = 0xFF" "j < 16"
  shows "irq_masked j (init_kernel mbi s) \<longleftrightarrow> j \<noteq> 1 \<and> j \<noteq> 2 \<and> j \<noteq> 8"
proof -
  define a where "a = i8259_init ((construct_tss (construct_ldt s))\<lparr>shell_flag := 0\<rparr>)"
  define b where "b = initPaging (fs_init (mods_addr mbi (mem a)) a)"
  have all: "irq_masked j s"
  proof -
    have "(0xFF :: u8) = mask 8" by (simp add: mask_eq_exp_minus_1)
    then have "bit (0xFF :: u8) n" if "n < 8" for n using that by (simp only: bit_simps) simp
    then show ?thesis using assms unat_u32_less8 unat_slave_line by (auto simp: irq_masked_def)
  qed
  have i2: "irq_masked j a = (irq_masked j s \<and> j \<noteq> 2)"
  proof -
    have "irq_masked j a = irq_masked j (enable_irq 2 s)"
      by (simp add: a_def i8259_init_def Let_def irq_masked_def enable_irq_def construct_tss_def construct_ldt_def)
    then show ?thesis using irq_masked_enable [of 2 j s] assms(3) by simp
  qed
  have b: "irq_masked j b = irq_masked j a"
    by (rule irq_masked_cong) (simp_all add: b_def initPaging_def pagedir_cr3_def enablePaging_def fs_init_def Let_def)
  have r: "irq_masked j (rtc_init t) = irq_masked j (enable_irq 8 t)" for t :: "'a boot_scheme"
    by (simp add: rtc_init_def Let_def irq_masked_def enable_irq_def)
  have "irq_masked j (init_kernel mbi s) = irq_masked j (enable_irq 8 (enable_irq 1 b))"
    unfolding r [symmetric] keyboard_init_def [symmetric]
    by (rule irq_masked_cong)
       (simp_all add: init_kernel_def Let_def mask_fields terminal_init_def flip: a_def b_def)
  then show ?thesis
    using irq_masked_enable [of 8 j "enable_irq 1 b"] irq_masked_enable [of 1 j b] assms(3) i2 b all by auto
qed

lemma init_kernel_segments:
  defines "k \<equiv> init_kernel"
  shows "seg_base (ldt_desc (k mbi s)) = ldt_addr s" "seg_limit (ldt_desc (k mbi s)) = 31"
    "seg_base (tss_desc (k mbi s)) = tss_addr s" "seg_limit (tss_desc (k mbi s)) = 103"
    "seg_type (tss_desc (k mbi s)) = 9" "seg_type (ldt_desc (k mbi s)) = 2"
    "seg_present (tss_desc (k mbi s))" "seg_present (ldt_desc (k mbi s))"
    "ldtr (k mbi s) = 0x38" "task_reg (k mbi s) = 0x30" "tss_ldt (k mbi s) = 0x38"
proof -
  have f: "seg_type (set_ldt_params a l d) = seg_type d" "seg_type (set_tss_params a l d) = seg_type d"
      "seg_present (set_ldt_params a l d) = seg_present d" "seg_present (set_tss_params a l d) = seg_present d" for a l d
    by (simp_all add: set_ldt_params_def set_tss_params_def)
  define a where "a = (construct_tss (construct_ldt s))\<lparr>shell_flag := 0\<rparr>"
  have "ldt_desc (k mbi s) = ldt_desc a" "tss_desc (k mbi s) = tss_desc a" "ldtr (k mbi s) = ldtr a"
      "task_reg (k mbi s) = task_reg a" "tss_ldt (k mbi s) = tss_ldt a"
    by (simp_all add: k_def init_kernel_def Let_def keyboard_init_def terminal_init_def step_boot flip: a_def)
  then show "seg_base (ldt_desc (k mbi s)) = ldt_addr s" "seg_limit (ldt_desc (k mbi s)) = 31"
    "seg_base (tss_desc (k mbi s)) = tss_addr s" "seg_limit (tss_desc (k mbi s)) = 103"
    "seg_type (tss_desc (k mbi s)) = 9" "seg_type (ldt_desc (k mbi s)) = 2"
    "seg_present (tss_desc (k mbi s))" "seg_present (ldt_desc (k mbi s))"
    "ldtr (k mbi s) = 0x38" "task_reg (k mbi s) = 0x30" "tss_ldt (k mbi s) = 0x38"
    by (simp_all add: a_def construct_tss_def construct_ldt_def Let_def f ldt_size_def tss_size_def
        KERNEL_LDT_def KERNEL_TSS_def)
qed

section \<open>The first shell\<close>

lemma start_rest:
  "kernel.more (start_pcb p s) = kernel.more s" "iflag (start_pcb p s) = iflag s"
  "master_mask (start_pcb p s) = master_mask s" "slave_mask (start_pcb p s) = slave_mask s"
  "page_directory (start_pcb p s) = page_directory s" "page_table (start_pcb p s) = page_table s"
  "page_table_addr (start_pcb p s) = page_table_addr s" "vidmem_table_addr (start_pcb p s) = vidmem_table_addr s"
  "kernel.more (start_process f a p s) = kernel.more s" "iflag (start_process f a p s) = iflag s"
  "master_mask (start_process f a p s) = master_mask s" "slave_mask (start_process f a p s) = slave_mask s"
  "page_directory (start_process f a p s) = page_directory s" "page_table (start_process f a p s) = page_table s"
  "page_table_addr (start_process f a p s) = page_table_addr s"
  "vidmem_table_addr (start_process f a p s) = vidmem_table_addr s"
  by (simp_all add: start_pcb_def claim_slot_def start_process_def Let_def upd_term_def upd_pcb_def)

lemma execute_start_rest:
  "kernel.more (snd (execute_start f a p n s)) = kernel.more s" "iflag (snd (execute_start f a p n s))"
  "master_mask (snd (execute_start f a p n s)) = master_mask s"
  "slave_mask (snd (execute_start f a p n s)) = slave_mask s"
  "page_directory (snd (execute_start f a p n s)) = (page_directory s)[32 := process_frame p OR 0x87]"
  "page_table (snd (execute_start f a p n s)) = page_table s"
  "page_table_addr (snd (execute_start f a p n s)) = page_table_addr s"
  "vidmem_table_addr (snd (execute_start f a p n s)) = vidmem_table_addr s"
  by (simp_all add: execute_start_def enter_program_def load_image_def Let_def upd_term_def upd_pcb_def
      set_process_page_def flush_tlb_def sti_def start_rest process_frame_def)

lemma read_data_only_mem: "read_data i off b n s = (k, t) \<Longrightarrow> \<exists>m. t = s\<lparr>mem := m\<rparr>"
proof (cases "inode_count s \<le> i")
  case True
  assume "read_data i off b n s = (k, t)"
  then have "t = s\<lparr>mem := mem s\<rparr>" using True by (simp add: read_data_def)
  then show ?thesis by (intro exI [of _ "mem s"])
qed (auto simp: read_data_def Let_def split: prod.splits)

lemma execute_load_entered:
  assumes "execute_load f a p s = (Enter_user e, s')"
  shows "\<exists>n m. (Enter_user e, s') = execute_start f a p n (s\<lparr>mem := m\<rparr>)"
proof -
  obtain d where d: "read_dentry_by_name (arr f) s = Some d"
    using assms by (auto simp: execute_load_def split: option.splits)
  obtain n t where nt: "read_data (of_int (inode_num d)) 0 (file_data_addr s) (len_inodes s) s = (n, t)"
    by fastforce
  then obtain m where "t = s\<lparr>mem := m\<rparr>" using read_data_only_mem by blast
  moreover have "(Enter_user e, s') = execute_start f a p (of_nat n) t"
    using assms by (simp add: execute_load_def d nt Let_def split: if_splits)
  ultimately show ?thesis by blast
qed

lemma execute_cmd_rest:
  assumes "execute_cmd c s = (Enter_user e, s')"
  shows "kernel.more s' = kernel.more s" "iflag s'" "master_mask s' = master_mask s" "slave_mask s' = slave_mask s"
    "page_directory s' = (page_directory s)[32 := process_frame (free_pid (process_state s)) OR 0x87]"
    "page_table s' = page_table s" "page_table_addr s' = page_table_addr s"
    "vidmem_table_addr s' = vidmem_table_addr s"
proof -
  let ?p = "free_pid (process_state s)"
  define u where "u = (if ?p < 6 then (s\<lparr>shell_flag := 1\<rparr>)\<lparr>process_state := (process_state s)[?p := 1]\<rparr>
     else (s\<lparr>shell_flag := 1\<rparr>)\<lparr>wild := True\<rparr>)"
  have "\<exists>f a. execute_load f a ?p u = (Enter_user e, s')"
    using assms by (auto simp: execute_cmd_def Let_def u_def split: if_splits option.splits)
  then obtain f a n m where r: "(Enter_user e, s') = execute_start f a ?p n (u\<lparr>mem := m\<rparr>)"
    using execute_load_entered by blast
  have s': "s' = snd (execute_start f a ?p n (u\<lparr>mem := m\<rparr>))" by (simp flip: r)
  show "kernel.more s' = kernel.more s" "iflag s'" "master_mask s' = master_mask s" "slave_mask s' = slave_mask s"
    "page_directory s' = (page_directory s)[32 := process_frame ?p OR 0x87]"
    "page_table s' = page_table s" "page_table_addr s' = page_table_addr s"
    "vidmem_table_addr s' = vidmem_table_addr s"
    unfolding s' by (simp_all add: execute_start_rest u_def)
qed

lemma loadable_same_disk:
  assumes "disk n s" "same_disk n s t" "file_data_addr t = file_data_addr s" "loadable ino s"
  shows "loadable ino t"
proof -
  have "ino < inode_count s" using assms(4) by (simp add: loadable_def)
  then show ?thesis
    using assms disk_count [OF assms(1,2)] disk_contents [OF assms(1,2)] disk_buffer_cong [OF assms(1,2)]
    by (simp add: loadable_def same_disk_def)
qed

text \<open>The state in which the switch to a terminal that was never shown starts its shell.\<close>

definition switched :: "u8 \<Rightarrow> 'a kernel_scheme \<Rightarrow> 'a kernel_scheme" where
  "switched tid s =
     (let s = show_terminal tid (save_terminal tid s); p = pcbs s (get_pcb_address s);
          s = set_process_page (0x800000 + of_int (pcb_pid p) * 0x400000) s;
          s = s\<lparr>tss_ss0 := 0x18, tss_esp0 := 0x800000 - of_int (pcb_pid p) * 0x2000 - 4\<rparr>
      in s\<lparr>cpu_ebp := pcb_ebp p, cpu_esp := pcb_esp p\<rparr>)"

lemma switch_first:
  assumes "first_run (terminals (switched tid s) ! cur_term (switched tid s)) \<noteq> 0"
    and "execute_cmd (str ''shell'') (switched tid s) = (Enter_user e, s')"
  shows "switch_terminal tid s = (Enter_user e, s')"
  using assms unfolding switched_def Let_def switch_terminal_def resume_terminal_def by simp

lemma save_rest:
  "kernel.more (save_terminal tid s) = kernel.more s" "master_mask (save_terminal tid s) = master_mask s"
  "slave_mask (save_terminal tid s) = slave_mask s" "page_directory (save_terminal tid s) = page_directory s"
  "page_table (save_terminal tid s) = page_table s" "page_table_addr (save_terminal tid s) = page_table_addr s"
  "vidmem_table_addr (save_terminal tid s) = vidmem_table_addr s" "boot_block (save_terminal tid s) = boot_block s"
  "boot_block_end (save_terminal tid s) = boot_block_end s" "len_inodes (save_terminal tid s) = len_inodes s"
  "data_block_start (save_terminal tid s) = data_block_start s" "file_data_addr (save_terminal tid s) = file_data_addr s"
  by (simp_all add: save_terminal_def Let_def reset_keyboard_def set_kb_buffer_def set_kb_index_def upd_pcb_def upd_term_def)

lemma show_rest:
  "kernel.more (show_terminal tid s) = kernel.more s" "master_mask (show_terminal tid s) = master_mask s"
  "slave_mask (show_terminal tid s) = slave_mask s" "page_directory (show_terminal tid s) = page_directory s"
  "page_table (show_terminal tid s) = page_table s" "page_table_addr (show_terminal tid s) = page_table_addr s"
  "vidmem_table_addr (show_terminal tid s) = vidmem_table_addr s" "boot_block (show_terminal tid s) = boot_block s"
  "boot_block_end (show_terminal tid s) = boot_block_end s" "len_inodes (show_terminal tid s) = len_inodes s"
  "data_block_start (show_terminal tid s) = data_block_start s" "file_data_addr (show_terminal tid s) = file_data_addr s"
  by (simp_all add: show_terminal_def Let_def update_cursor_def outb_def set_screen_x_def set_screen_y_def)

lemma page_rest:
  "kernel.more (set_process_page a s) = kernel.more s" "master_mask (set_process_page a s) = master_mask s"
  "slave_mask (set_process_page a s) = slave_mask s" "page_table (set_process_page a s) = page_table s"
  "page_table_addr (set_process_page a s) = page_table_addr s"
  "vidmem_table_addr (set_process_page a s) = vidmem_table_addr s" "boot_block (set_process_page a s) = boot_block s"
  "boot_block_end (set_process_page a s) = boot_block_end s" "len_inodes (set_process_page a s) = len_inodes s"
  "data_block_start (set_process_page a s) = data_block_start s" "file_data_addr (set_process_page a s) = file_data_addr s"
  by (simp_all add: set_process_page_def flush_tlb_def Let_def)

lemma switched_rest:
  "kernel.more (switched tid s) = kernel.more s" "master_mask (switched tid s) = master_mask s"
  "slave_mask (switched tid s) = slave_mask s" 
  "\<exists>pde. page_directory (switched tid s) = (page_directory s)[32 := pde]"
  "page_table (switched tid s) = page_table s" "page_table_addr (switched tid s) = page_table_addr s"
  "vidmem_table_addr (switched tid s) = vidmem_table_addr s" "boot_block (switched tid s) = boot_block s"
  "boot_block_end (switched tid s) = boot_block_end s" "len_inodes (switched tid s) = len_inodes s"
  "data_block_start (switched tid s) = data_block_start s" "file_data_addr (switched tid s) = file_data_addr s"
  "terminals (switched tid s) = terminals (save_terminal tid s)" "cur_term (switched tid s) = unat tid"
  "process_state (switched tid s) = process_state s"
  by (simp_all add: switched_def Let_def show_rest save_rest page_rest show_terminal_fields set_process_page_dir)
     (simp_all add: save_terminal_def Let_def upd_pcb_def upd_term_def reset_keyboard_def set_kb_buffer_def set_kb_index_def, blast)

lemma switched_procs:
  assumes "procs s gs" "unat tid < 3"
  shows "procs (switched tid s) gs"
proof -
  have "procs (save_terminal tid s) gs" using assms(1) procs_table table_save by blast
  then have "procs (show_terminal tid (save_terminal tid s)) gs"
    using assms(2) by (auto simp: procs_def show_terminal_fields)
  then show ?thesis by (rule procs_table) (simp add: switched_def Let_def table_simps)
qed

lemma switched_mem:
  assumes "cur_term s = 0" "\<not> inr VIDEO 0x2000 p" "\<not> inr USER 0x400000 p" "0 < length (terminals s)"
  shows "mem (switched 0 s) p = mem s p"
proof -
  have pages: "\<not> inr (save_page 0) 4096 p" "\<not> inr display_page 4096 p"
  proof -
    have "inr VIDEO 0x2000 p" if "inr (VIDEO + of_nat 4096) 4096 p" by (rule inr_sub [OF that]) simp_all
    then show "\<not> inr (save_page 0) 4096 p" using assms(2) by (auto simp: save_page_addr)
    show "\<not> inr display_page 4096 p" using assms(2) inr_mono [of display_page 4096 p "0x2000"]
      by (auto simp: display_page_addr)
  qed
  have c: "memcpy a b 0x1000 m p = m p" if "apart a 4096 b 4096" "\<not> inr a 4096 p" for a b m
    using that memcpy_apart [of a "0x1000" b 4096 m] by (simp add: copied_other)
  have ap: "apart (save_page 0) 4096 display_page 4096" by (rule pages_apart(1)) simp
  then have ap': "apart display_page 4096 (save_page 0) 4096" by (simp add: apart_sym)
  have "mem (switched 0 s) p = mem (show_terminal 0 (save_terminal 0 s)) p"
    using assms(3) by (simp add: switched_def Let_def set_process_page_mem)
  also have "\<dots> = mem (save_terminal 0 s) p"
    using c [OF ap' pages(2)] by (simp add: show_terminal_fields)
  also have "\<dots> = mem s p"
    using c [OF ap pages(1)] assms(1,4) by (simp add: saved_terminal(4))
  finally show ?thesis .
qed

section \<open>What the linker and the boot loader provide\<close>

definition boot_ok :: "nat \<Rightarrow> u32 \<Rightarrow> 'a boot_scheme \<Rightarrow> bool" where
  "boot_ok n mbi s \<longleftrightarrow> info_ok mbi (mem s) \<and> apart (mods_addr mbi (mem s)) 4 VIDEO 4000
     \<and> screen_x s = 0 \<and> screen_y s = 0 \<and> length (terminals s) = 3 \<and> process_state s = replicate 6 0
     \<and> master_mask s = 0xFF \<and> slave_mask s = 0xFF \<and> tables_ok s \<and> disk n (boot_disk mbi s)
     \<and> apart VIDEO 0x2000 (boot_block (boot_disk mbi s)) n
     \<and> apart USER 0x400000 (boot_block (boot_disk mbi s)) n"

lemma boot_printed:
  assumes "boot_ok n mbi s"
  shows "\<exists>x. entry 0x2BADB002 mbi s = Some (switch_terminal 0 (init_kernel mbi (fold putc x (clear s))))
    \<and> off_screen (mem s) (mem (fold putc x (clear s)))"
proof -
  have i: "info_ok mbi (mem s)" and c: "cursor_ok (clear s)"
    using assms by (auto simp: boot_ok_def cursor_ok_def clear_def)
  have p: "printing (mem s) (clear s)" using c clear_frame by (simp add: printing_def)
  obtain x where x: "show_flags mbi (clear s) = Some (fold putc x (clear s))"
    using prints_flags [OF p i] by (auto simp: prints_def)
  let ?t = "fold putc x (clear s)"
  have pt: "printing (mem s) ?t" using p by simp
  obtain y where y: "show_maps mbi ?t = Some (fold putc y ?t)"
    using prints_maps [OF pt i] by (auto simp: prints_def)
  have "off_screen (mem s) (mem ?t)" "apart mbi 52 VIDEO 4000" using pt i by (auto simp: printing_def info_ok_def)
  note f = mbi_fields [OF this]
  have "entry 0x2BADB002 mbi s = Some (switch_terminal 0 (init_kernel mbi (fold putc y ?t)))"
    using i by (auto simp: entry_def MULTIBOOT_BOOTLOADER_MAGIC_def Let_def x y f info_ok_def)
  moreover have "off_screen (mem s) (mem (fold putc y ?t))" using printing_text [OF pt] by (simp add: printing_def)
  ultimately show ?thesis by (intro exI [of _ "x @ y"]) simp
qed

text \<open>The image is the same after all that is printed and initialised.\<close>

lemma boot_same_disk:
  assumes "boot_ok n mbi s" "off_screen (mem s) (mem t)"
  shows "same_disk n (boot_disk mbi s) (boot_disk mbi t)" "same_disk n (boot_disk mbi s) (init_kernel mbi t)"
proof -
  have i: "apart mbi 52 VIDEO 4000" "apart (mods_addr mbi (mem s)) 4 VIDEO 4000" and d: "disk n (boot_disk mbi s)"
    and av: "apart VIDEO 0x2000 (boot_block (boot_disk mbi s)) n"
    using assms(1) by (auto simp: boot_ok_def info_ok_def)
  note f = mbi_fields [OF assms(2) i(1)]
  have mods: "ld32 (mem t) (mods_addr mbi (mem s)) = ld32 (mem s) (mods_addr mbi (mem s))"
    using off_screen_ld32 [OF assms(2) i(2), of 0] by simp
  have keep: "keeps (boot_block (boot_disk mbi s)) n (mem s) m" if "off_screen (mem s) m" for m
  proof (rule keeps_apart [OF _ av])
    fix p assume "\<not> inr VIDEO 0x2000 p"
    then have "\<not> inr VIDEO 4000 p" using inr_mono [of VIDEO 4000 p "0x2000"] by auto
    then show "m p = mem s p" using that by (simp add: off_screen_def)
  qed
  have k: "keeps (boot_block (boot_disk mbi s)) n (mem s) (mem t)" by (rule keep [OF assms(2)])
  have bb: "boot_block (boot_disk mbi s) = ld32 (mem s) (mods_addr mbi (mem s))"
      "mem (boot_disk mbi s) = mem s" "mem (boot_disk mbi t) = mem t"
    by (simp_all add: boot_disk_def fs_init_def Let_def)
  have w: "ld32 (mem t) (boot_block (boot_disk mbi s) + 4) = ld32 (mem s) (boot_block (boot_disk mbi s) + 4)"
    using keeps_ld32 [OF k, of 4] disk_size [OF d] by simp
  have fs: "boot_block (boot_disk mbi t) = boot_block (boot_disk mbi s)"
      "boot_block_end (boot_disk mbi t) = boot_block_end (boot_disk mbi s)"
      "len_inodes (boot_disk mbi t) = len_inodes (boot_disk mbi s)"
      "data_block_start (boot_disk mbi t) = data_block_start (boot_disk mbi s)"
    using w unfolding bb(1) by (simp_all add: boot_disk_def fs_init_def Let_def f mods inode_count_def)
  then show "same_disk n (boot_disk mbi s) (boot_disk mbi t)" using k by (simp add: same_disk_def bb)
  have "off_screen (mem s) (mem (init_kernel mbi t))"
    using init_kernel_disk(5) [of t mbi] assms(2) by (auto simp: off_screen_def)
  then show "same_disk n (boot_disk mbi s) (init_kernel mbi t)"
    using keep by (simp add: same_disk_def init_kernel_disk fs bb)
qed

lemma printed_rest:
  "kernel.more (fold putc x (clear s)) = kernel.more (s :: 'a boot_scheme)"
  "terminals (fold putc x (clear s)) = terminals s" "process_state (fold putc x (clear s)) = process_state s"
  "master_mask (fold putc x (clear s)) = master_mask s" "slave_mask (fold putc x (clear s)) = slave_mask s"
  "page_table_addr (fold putc x (clear s)) = page_table_addr s"
  "vidmem_table_addr (fold putc x (clear s)) = vidmem_table_addr s"
  "file_data_addr (fold putc x (clear s)) = file_data_addr s"
proof -
  have m: "master_mask (fold putc x t) = master_mask t \<and> slave_mask (fold putc x t) = slave_mask t
      \<and> console.more (fold putc x t) = console.more t" for t :: "'a boot_scheme"
  proof (induction x arbitrary: t)
    case (Cons c x)
    have "master_mask (putc c t) = master_mask t \<and> slave_mask (putc c t) = slave_mask t"
      by (simp add: putc_def Let_def scroll_down_def update_cursor_def outb_def poke_def)
    then show ?case using Cons [of "putc c t"] by (simp add: putc_more)
  qed simp
  have c: "console.more (fold putc x (clear s)) = console.more s"
    using m [of "clear s"] by (simp add: screen_init_more)
  note p = paging_more [OF c]
  show "terminals (fold putc x (clear s)) = terminals s" "process_state (fold putc x (clear s)) = process_state s"
    "file_data_addr (fold putc x (clear s)) = file_data_addr s"
    using kernel_more [OF p(1)] by simp_all
  show "page_table_addr (fold putc x (clear s)) = page_table_addr s"
    "vidmem_table_addr (fold putc x (clear s)) = vidmem_table_addr s" using p by simp_all
  show "kernel.more (fold putc x (clear s)) = kernel.more s"
    using p(1) by (cases s; cases "fold putc x (clear s)") simp
  show "master_mask (fold putc x (clear s)) = master_mask s" "slave_mask (fold putc x (clear s)) = slave_mask s"
    using m [of "clear s"] by (simp_all add: mask_fields)
qed

lemma boot_fields: "kernel.more t = kernel.more s \<Longrightarrow> idt t = idt s \<and> ldt_desc t = ldt_desc s \<and> tss_desc t = tss_desc s
    \<and> ldtr t = ldtr s \<and> task_reg t = task_reg s \<and> tss_ldt t = tss_ldt s \<and> handler_addr t = handler_addr s
    \<and> ldt_addr t = ldt_addr s \<and> tss_addr t = tss_addr s"
  by (cases s; cases t) simp

lemma init_kernel_procs:
  assumes "length (terminals s) = 3" "process_state s = replicate 6 0"
  shows "procs (init_kernel mbi s) [[], [], []]"
proof (rule procs_cong)
  show "procs (terminal_init s) [[], [], []]" by (rule terminal_init_procs [OF assms])
  show "list_all2 term_ok [[], [], []] (terminals (init_kernel mbi s))"
    using terminal_init_procs [OF assms] by (simp add: procs_def init_kernel_fields terminal_init_def)
  show "pcb_pid (pcbs (init_kernel mbi s) (get_pcb (of_int p))) = pcb_pid (pcbs (terminal_init s) (get_pcb (of_int p)))" for p
    by (simp add: init_kernel_def Let_def keyboard_init_def step_kernel
      terminal_init_def construct_ldt_def construct_tss_def)
qed (simp_all add: init_kernel_fields terminal_init_def)

text \<open>The state in which the first shell is executed.\<close>

definition first_state :: "u8 list \<Rightarrow> u32 \<Rightarrow> 'a boot_scheme \<Rightarrow> 'a boot_scheme" where
  "first_state x mbi s = switched 0 (init_kernel mbi (fold putc x (clear s)))"

lemma first_state_disk:
  assumes "boot_ok n mbi s" "off_screen (mem s) (mem (fold putc x (clear s)))"
  shows "same_disk n (boot_disk mbi s) (first_state x mbi s)"
    and "file_data_addr (first_state x mbi s) = file_data_addr (boot_disk mbi s)"
proof -
  define t where "t = fold putc x (clear s)"
  define k where "k = init_kernel mbi t"
  have b: "length (terminals t) = 3" "apart VIDEO 0x2000 (boot_block (boot_disk mbi s)) n"
      "apart USER 0x400000 (boot_block (boot_disk mbi s)) n"
    using assms(1) by (auto simp: boot_ok_def t_def printed_rest)
  have ct: "cur_term k = 0" "0 < length (terminals k)"
    using b(1) by (simp_all add: k_def init_kernel_fields)
  have sk: "same_disk n (boot_disk mbi s) k"
    unfolding k_def by (rule boot_same_disk(2) [OF assms(1)]) (use assms(2) in \<open>simp add: t_def\<close>)
  have "mem (switched 0 k) p = mem k p" if p: "inr (boot_block k) n p" for p
  proof -
    have "inr (boot_block (boot_disk mbi s)) n p" using p sk by (simp add: same_disk_def)
    then have "\<not> inr VIDEO 0x2000 p" "\<not> inr USER 0x400000 p" using b(2,3) apartD by blast+
    then show ?thesis by (intro switched_mem [OF ct(1) _ _ ct(2)])
  qed
  then have "same_disk n k (switched 0 k)" unfolding same_disk_def keeps_def by (simp add: switched_rest)
  then show "same_disk n (boot_disk mbi s) (first_state x mbi s)"
    unfolding first_state_def using same_disk_trans [OF sk] by (simp add: k_def t_def)
  have "file_data_addr k = file_data_addr t"
    by (simp add: k_def init_kernel_def Let_def keyboard_init_def step_kernel
      terminal_init_def construct_ldt_def construct_tss_def)
  then show "file_data_addr (first_state x mbi s) = file_data_addr (boot_disk mbi s)"
    unfolding first_state_def t_def [symmetric] k_def [symmetric]
    by (simp add: switched_rest boot_disk_def fs_init_def Let_def) (simp add: t_def printed_rest)
qed

lemma first_state_table:
  assumes "boot_ok n mbi s"
  shows "procs (first_state x mbi s) [[], [], []]" "cur_term (first_state x mbi s) = 0"
    "process_state (first_state x mbi s) = replicate 6 0"
    "first_run (terminals (first_state x mbi s) ! 0) \<noteq> 0"
proof -
  define t where "t = fold putc x (clear s)"
  define k where "k = init_kernel mbi t"
  have w: "first_state x mbi s = switched 0 k" by (simp add: first_state_def k_def t_def)
  have b: "length (terminals t) = 3" "process_state t = replicate 6 0"
    using assms by (auto simp: boot_ok_def t_def printed_rest)
  have "procs k [[], [], []]" unfolding k_def by (rule init_kernel_procs [OF b])
  then show "procs (first_state x mbi s) [[], [], []]" unfolding w by (rule switched_procs) simp
  show "cur_term (first_state x mbi s) = 0" "process_state (first_state x mbi s) = replicate 6 0"
    by (simp_all add: w switched_rest k_def init_kernel_fields b(2))
  have "first_run (terminals (switched 0 k) ! 0) = first_run (terminals k ! 0)"
    using saved_terminal(1) [of k 0] b(1) by (simp add: switched_rest k_def init_kernel_fields)
  also have "\<dots> = 1" using b(1) by (simp add: k_def init_kernel_fields init_terminal_def)
  finally show "first_run (terminals (first_state x mbi s) ! 0) \<noteq> 0" by (simp add: w)
qed

lemma boot_shell:
  assumes "boot_ok n mbi s" "read_dentry_by_name (arr (str ''shell'')) (boot_disk mbi s) = Some d"
    and "loadable (of_int (inode_num d)) (boot_disk mbi s)"
  defines "img \<equiv> contents (boot_disk mbi s) (of_int (inode_num d))"
  shows "\<exists>x s'. entry 0x2BADB002 mbi s = Some (Enter_user (le32 (img ! 24) (img ! 25) (img ! 26) (img ! 27)), s')
    \<and> execute_cmd (str ''shell'') (first_state x mbi s) =
        (Enter_user (le32 (img ! 24) (img ! 25) (img ! 26) (img ! 27)), s')
    \<and> procs s' [[0], [], []] \<and> rd (mem s') PROGRAM_IMG_ADDR (length img) = img"
proof -
  obtain x where x: "entry 0x2BADB002 mbi s = Some (switch_terminal 0 (init_kernel mbi (fold putc x (clear s))))"
      "off_screen (mem s) (mem (fold putc x (clear s)))"
    using boot_printed [OF assms(1)] by blast
  let ?w = "first_state x mbi s" and ?ino = "of_int (inode_num d) :: u32"
  let ?e = "le32 (img ! 24) (img ! 25) (img ! 26) (img ! 27)"
  have d: "disk n (boot_disk mbi s)" using assms(1) by (simp add: boot_ok_def)
  note fd = first_state_disk [OF assms(1) x(2)] and ft = first_state_table [OF assms(1), of x]
  have look: "read_dentry_by_name (arr (command_name (str ''shell''))) ?w = Some d"
    using disk_lookup [OF d fd(1)] assms(2) by (simp add: shell_name)
  have ld: "loadable ?ino ?w" by (rule loadable_same_disk [OF d fd assms(3)])
  have cn: "contents ?w ?ino = img"
    unfolding img_def by (rule disk_contents [OF d fd(1)]) (use assms(3) in \<open>simp add: loadable_def\<close>)
  have free: "free_pid (process_state ?w) = 0" "\<not> all_busy (process_state ?w)"
    by (simp_all add: ft free_pid_def all_busy_def)
  have nm: "command_name (str ''shell'') \<noteq> []" unfolding shell_name by (simp add: str_def)
  obtain s' where s': "execute_cmd (str ''shell'') ?w = (Enter_user ?e, s')"
      "rd (mem s') PROGRAM_IMG_ADDR (length img) = img" "procs s' [[0], [], []]"
    using execute_program [OF ft(1) free(2) _ nm _ look ld] unfolding cn free ft(2) by (auto simp: shell_name)
  have "switch_terminal 0 (init_kernel mbi (fold putc x (clear s))) = (Enter_user ?e, s')"
    by (rule switch_first) (use ft s'(1) in \<open>simp_all add: first_state_def\<close>)
  then show ?thesis using x(1) s' by auto
qed

lemma boot_init_rest:
  assumes "boot_ok n mbi s" "execute_cmd (str ''shell'') (first_state x mbi s) = (Enter_user e, s')"
  shows "iflag s'" "kernel_map s'" "page_directory s' ! 32 = process_frame 0 OR 0x87"
    "j < 16 \<Longrightarrow> irq_masked j s' \<longleftrightarrow> j \<noteq> 1 \<and> j \<noteq> 2 \<and> j \<noteq> 8"
    "idt s' = idt_init (handler_addr s) (idt s)" "seg_base (tss_desc s') = tss_addr s" "seg_limit (tss_desc s') = 103"
    "seg_base (ldt_desc s') = ldt_addr s" "seg_limit (ldt_desc s') = 31" "task_reg s' = 0x30" "ldtr s' = 0x38"
proof -
  define t where "t = fold putc x (clear s)"
  define k where "k = init_kernel mbi t"
  have w: "first_state x mbi s = switched 0 k" by (simp add: first_state_def k_def t_def)
  note er = execute_cmd_rest [OF assms(2)]
  note pr = printed_rest [of x s, folded t_def] and pf = boot_fields [OF printed_rest(1) [of x s, folded t_def]]
  have km: "kernel_map k"
    unfolding k_def using assms(1) by (intro init_kernel_map) (simp add: boot_ok_def tables_ok_def pr)
  obtain pde where pde: "page_directory (switched 0 k) = (page_directory k)[32 := pde]"
    using switched_rest(4) by blast
  have free: "free_pid (process_state (first_state x mbi s)) = 0"
    by (simp add: first_state_table [OF assms(1)] free_pid_def)
  have dir: "page_directory s' = (page_directory k)[32 := process_frame 0 OR 0x87]"
    unfolding er(5) free unfolding w pde by simp
  show "iflag s'" by (rule er(2))
  have l: "length (page_directory k) = 1024" using km by (simp add: kernel_map_def)
  show "page_directory s' ! 32 = process_frame 0 OR 0x87" unfolding dir using l by simp
  have tabs: "page_table s' = page_table k" "page_table_addr s' = page_table_addr k"
      "vidmem_table_addr s' = vidmem_table_addr k"
    using er(6-8) by (simp_all add: w switched_rest)
  show "kernel_map s'"
    using km l unfolding kernel_map_def tables_ok_def dir tabs by (simp add: nth_list_update)
  have mm: "master_mask t = 0xFF" "slave_mask t = 0xFF" using assms(1) by (auto simp: boot_ok_def pr)
  show "irq_masked j s' \<longleftrightarrow> j \<noteq> 1 \<and> j \<noteq> 2 \<and> j \<noteq> 8" if "j < 16"
  proof -
    have "irq_masked j s' = irq_masked j k"
      by (rule irq_masked_cong) (simp_all add: er(3,4) w switched_rest)
    then show ?thesis using init_kernel_irqs [OF mm that] by (simp add: k_def)
  qed
  have km': "kernel.more s' = kernel.more k" using er(1) by (simp add: w switched_rest)
  show "idt s' = idt_init (handler_addr s) (idt s)" "seg_base (tss_desc s') = tss_addr s" "seg_limit (tss_desc s') = 103"
    "seg_base (ldt_desc s') = ldt_addr s" "seg_limit (ldt_desc s') = 31" "task_reg s' = 0x30" "ldtr s' = 0x38"
    using boot_fields [OF km'] pf by (simp_all add: k_def init_kernel_fields init_kernel_segments)
qed

section \<open>Properties\<close>



section \<open>A sample machine\<close>

text \<open>The image of \<open>exe_kernel\<close> with its program named shell, and the boot loader's structures at
  0x9000 and 0x9100.\<close>

definition boot_mem :: mem where
  "boot_mem a = (case map_of [(0x400040, 0x73), (0x400041, 0x68), (0x400042, 0x65), (0x400043, 0x6C),
       (0x400044, 0x6C), (0x9019, 0x91), (0x9102, 0x40)] a of None \<Rightarrow> exe_image a | Some b \<Rightarrow> b)"

definition no_seg :: seg_desc where
  "no_seg = \<lparr>seg_lim_15_00 = 0, base_15_00 = 0, base_23_16 = 0, seg_type = 0, seg_sys = False, seg_dpl = 0,
     seg_present = False, seg_lim_19_16 = 0, seg_avail = False, seg_reserved = False, seg_opsize = False,
     seg_granularity = False, base_31_24 = 0\<rparr>"

definition boot_machine :: boot where
  "boot_machine = kernel.extend (exe_kernel\<lparr>mem := boot_mem, screen_x := 0, screen_y := 0,
       process_state := replicate 6 0, master_mask := 0xFF, slave_mask := 0xFF\<rparr>)
     (boot.fields no_seg no_seg 0 0 0 [] 0x402000 0x401000 (\<lambda>_. 0))"

lemma boot_machine_fields:
  "mem boot_machine = boot_mem" "screen_x boot_machine = 0" "screen_y boot_machine = 0"
  "process_state boot_machine = replicate 6 0" "master_mask boot_machine = 0xFF" "slave_mask boot_machine = 0xFF"
  "length (terminals boot_machine) = 3" "tables_ok boot_machine" "file_data_addr boot_machine = 0x700000"
  "tss_addr boot_machine = 0x401000"
  by (simp_all add: boot_machine_def kernel.defs boot.defs exe_kernel_def sample_kernel_def tables_ok_def)

lemma boot_words:
  "ld32 boot_mem 0x9000 = 0" "ld32 boot_mem 0x9018 = 0x9100" "ld32 boot_mem 0x9100 = 0x400000"
  "ld32 boot_mem 0x400000 = 1" "ld32 boot_mem 0x400004 = 1" "ld32 boot_mem 0x401000 = 28"
  "ld32 boot_mem 0x401004 = 0" "ld32 boot_mem 0x400060 = 2" "ld32 boot_mem 0x400064 = 0"
  by (simp_all add: ld32_def le32_def boot_mem_def exe_image_def inr_def unat_u32_minus)

lemma boot_machine_disk:
  defines "d \<equiv> boot_disk 0x9000 boot_machine"
  shows "boot_block d = 0x400000" "boot_block_end d = 0x401000" "len_inodes d = 4096"
    "data_block_start d = 0x402000" "mem d = boot_mem" "inode_count d = 1" "dir_size d = 1"
    "inode_addr d 0 = 0x401000" "file_data_addr d = 0x700000"
  by (simp_all add: d_def boot_disk_def fs_init_def Let_def mods_addr_def boot_machine_fields boot_words
      inode_count_def dir_size_def dir_count_def inode_addr_def)

lemma boot_machine_contents: "contents (boot_disk 0x9000 boot_machine) 0 = elf_bytes"
proof -
  have "file_byte boot_mem 0x401000 0x402000 p = elf_bytes ! p" if "p < 28" for p
  proof -
    have "unat (0x402000 + of_nat p :: u32) = 0x402000 + p"
      using that by (simp add: unat_u32_plus unat_u32_of_nat)
    then have "map_of [(0x400040, 0x73), (0x400041, 0x68), (0x400042, 0x65), (0x400043, 0x6C),
       (0x400044, 0x6C), (0x9019, 0x91), (0x9102, 0x40 :: u8)] (0x402000 + of_nat p :: u32) = None"
      by (auto simp: word_unat_eq_iff)
    then show ?thesis
      using that by (simp add: file_byte_def block_addr_def boot_words boot_mem_def exe_image_def unat_u32_of_nat)
  qed
  then have "contents (boot_disk 0x9000 boot_machine) 0 = map (\<lambda>p. elf_bytes ! p) [0..<28]"
    by (simp add: contents_def file_length_def boot_machine_disk boot_words)
  also have "\<dots> = elf_bytes"
    using map_nth [of elf_bytes] by (simp add: elf_bytes_def exe_identifier_def)
  finally show ?thesis .
qed

lemma boot_machine_ok: "boot_ok 0x3000 0x9000 boot_machine"
proof -
  have "disk 0x3000 (boot_disk 0x9000 boot_machine)"
  proof -
    have "ino = 0" if "ino < 1" for ino :: u32 using that by (simp add: word_less_nat_alt word_unat_eq_iff)
    moreover have "blocks_in 0x3000 0x400000 boot_mem 0x401000 0x402000"
      by (auto simp: blocks_in_def file_length_def boot_words block_addr_def intro!: exI [of _ "0x2000"])
    ultimately show ?thesis by (auto simp: disk_def boot_machine_disk)
  qed
  then show ?thesis
    by (simp add: boot_ok_def info_ok_def CHECK_FLAG_def mbi_flags_def mods_addr_def boot_machine_fields
        boot_words boot_machine_disk apart_def unat_u32_minus)
qed

lemma boot_machine_shell:
  "read_dentry_by_name (arr (str ''shell'')) (boot_disk 0x9000 boot_machine) = Some (dentry_at boot_mem 0x400040)"
proof -
  let ?d = "boot_disk 0x9000 boot_machine"
  have "rd boot_mem 0x400040 (length (str ''shell'')) = str ''shell''"
    by (simp add: rd_def upt_rec boot_mem_def str_def)
  then have "cstr boot_mem 0x400040 (str ''shell'')"
    by (simp add: cstr_def str_def boot_mem_def exe_image_def inr_def unat_u32_minus)
  then have "entry_name ?d 0 = str ''shell''"
    using cstrn_cstr [of boot_mem "0x400040" "str ''shell''" 32]
    by (simp add: entry_name_def dir_entry_addr_def boot_machine_disk str_def)
  moreover have "upto0 (arr (str ''shell'')) 0 32 = str ''shell''"
    by (simp add: upto0_def arr_def str_def upt_rec)
  ultimately have "entry_named (arr (str ''shell'')) ?d 0" by (simp add: entry_named_def)
  then have "read_dentry_by_name (arr (str ''shell'')) ?d = dir_entry ?d 0"
    by (intro root_dir.lookup_first) (auto simp: boot_machine_disk)
  then show ?thesis by (simp add: dir_entry_def dir_entry_addr_def boot_machine_disk)
qed

lemma boot_machine_loadable:
  "loadable (of_int (inode_num (dentry_at boot_mem 0x400040))) (boot_disk 0x9000 boot_machine)"
proof -
  have i: "of_int (inode_num (dentry_at boot_mem 0x400040)) = (0 :: u32)"
    by (simp add: dentry_at_def boot_words)
  have "buffer_apart 0x700000 4096 0 (boot_disk 0x9000 boot_machine)"
    by (simp add: buffer_apart_def blocks_apart_def boot_machine_disk file_length_def boot_words
        block_addr_def apart_def unat_u32_minus)
  then show ?thesis
    unfolding i loadable_def boot_machine_contents
    by (simp add: boot_machine_disk apart_def unat_u32_minus elf_bytes_def exe_identifier_def)
qed

lemma boot_machine_entry:
  "le32 (elf_bytes ! 24) (elf_bytes ! 25) (elf_bytes ! 26) (elf_bytes ! 27) = 0x08048020"
  "of_int (inode_num (dentry_at boot_mem 0x400040)) = (0 :: u32)"
  by (simp_all add: elf_bytes_def exe_identifier_def le32_def nth_append dentry_at_def boot_words)



end
