(* ===== verification/User_Lib.thy ===== *)
theory User_Lib
  imports Kernel_Steps Disk Printf
begin

text \<open>
  The library of the user programs, \<^verbatim>\<open>syscalls/ece391support.c\<close>, and the wrappers of the system
  calls, \<^verbatim>\<open>syscalls/ece391syscall.S\<close>.  A program is a function on the kernel's state: its loads and
  stores go to the page of the process at 128 MB, and a call is the entry \<open>syscall_handler\<close>.  The
  addresses of its local arrays are arguments.  \<open>None\<close> means that it does not return.
\<close>

section \<open>System calls from a program\<close>

text \<open>What the repository does not fix: the interrupts that come while a call waits, the addresses
  of the string constants, and what is in the registers ebx, ecx and edx where the code does not
  set them.\<close>

record 's user_env =
  polls_at :: "'s \<Rightarrow> bool list"
  lit :: "string \<Rightarrow> u32"
  regs :: "nat \<Rightarrow> u32"

definition do_call :: "'a kernel_scheme user_env \<Rightarrow> u32 \<Rightarrow> u32 \<Rightarrow> u32 \<Rightarrow> u32 \<Rightarrow> 'a kernel_scheme
    \<Rightarrow> (outcome \<times> 'a kernel_scheme) option" where
  "do_call env number ebx ecx edx s = syscall_handler (polls_at env s) number ebx ecx edx s"

text \<open>The rest of a program behind a call runs when the call returns to it.\<close>

definition andthen :: "(outcome \<times> 's) option \<Rightarrow> (int \<Rightarrow> 's \<Rightarrow> (outcome \<times> 's) option)
    \<Rightarrow> (outcome \<times> 's) option" where
  "andthen r f = (case r of Some (Ret k, s) \<Rightarrow> f k s | r \<Rightarrow> r)"

lemma andthen_simps [simp]:
  "andthen (Some (Ret k, s)) f = f k s" "andthen None f = None"
  "andthen (Some (Enter_user e, s)) f = Some (Enter_user e, s)"
  by (simp_all add: andthen_def)

lemma andthen_bind: "andthen r f =
    Option.bind r (\<lambda>(q, s). case q of Ret k \<Rightarrow> f k s | _ \<Rightarrow> Some (q, s))"
  by (cases r) (auto simp: andthen_def split: outcome.split)

lemma andthen_mono [partial_function_mono]:
  assumes "mono_option B" and "\<And>k s. mono_option (\<lambda>f. C k s f)"
  shows "mono_option (\<lambda>f. andthen (B f) (\<lambda>k s. C k s f))"
proof -
  have c: "mono_option (\<lambda>f. case q of Ret k \<Rightarrow> C k s f | _ \<Rightarrow> Some (q, s))" for q s
    using assms(2) by (cases q) (auto intro: monotoneI simp: option.leq_refl)
  show ?thesis
    unfolding andthen_bind by (rule bind_mono [OF assms(1)]) (simp add: split_beta c)
qed

definition ece391_halt :: "'a kernel_scheme user_env \<Rightarrow> u8 \<Rightarrow> 'a kernel_scheme \<Rightarrow> (outcome \<times> 'a kernel_scheme) option" where
  "ece391_halt env status s = do_call env 1 (ucast status) (regs env 1) (regs env 2) s"

definition ece391_execute :: "'a kernel_scheme user_env \<Rightarrow> u32 \<Rightarrow> 'a kernel_scheme \<Rightarrow> (outcome \<times> 'a kernel_scheme) option" where
  "ece391_execute env command s = do_call env 2 command (regs env 1) (regs env 2) s"

definition ece391_read :: "'a kernel_scheme user_env \<Rightarrow> int \<Rightarrow> u32 \<Rightarrow> int \<Rightarrow> 'a kernel_scheme
    \<Rightarrow> (outcome \<times> 'a kernel_scheme) option" where
  "ece391_read env fd buf nbytes s = do_call env 3 (of_int fd) buf (of_int nbytes) s"

definition ece391_write :: "'a kernel_scheme user_env \<Rightarrow> int \<Rightarrow> u32 \<Rightarrow> int \<Rightarrow> 'a kernel_scheme
    \<Rightarrow> (outcome \<times> 'a kernel_scheme) option" where
  "ece391_write env fd buf nbytes s = do_call env 4 (of_int fd) buf (of_int nbytes) s"

definition ece391_open :: "'a kernel_scheme user_env \<Rightarrow> u32 \<Rightarrow> 'a kernel_scheme \<Rightarrow> (outcome \<times> 'a kernel_scheme) option" where
  "ece391_open env filename s = do_call env 5 filename (regs env 1) (regs env 2) s"

definition ece391_close :: "'a kernel_scheme user_env \<Rightarrow> int \<Rightarrow> 'a kernel_scheme \<Rightarrow> (outcome \<times> 'a kernel_scheme) option" where
  "ece391_close env fd s = do_call env 6 (of_int fd) (regs env 1) (regs env 2) s"

definition ece391_getargs :: "'a kernel_scheme user_env \<Rightarrow> u32 \<Rightarrow> int \<Rightarrow> 'a kernel_scheme
    \<Rightarrow> (outcome \<times> 'a kernel_scheme) option" where
  "ece391_getargs env buf nbytes s = do_call env 7 buf (of_int nbytes) (regs env 2) s"

definition ece391_vidmap :: "'a kernel_scheme user_env \<Rightarrow> u32 \<Rightarrow> 'a kernel_scheme \<Rightarrow> (outcome \<times> 'a kernel_scheme) option" where
  "ece391_vidmap env screen_start s = do_call env 8 screen_start (regs env 1) (regs env 2) s"

text \<open>\<^verbatim>\<open>_start\<close>: \<open>main\<close>, and \<open>halt\<close> with its result.\<close>

definition start_program :: "'a kernel_scheme user_env \<Rightarrow> ('a kernel_scheme \<Rightarrow> (outcome \<times> 'a kernel_scheme) option)
    \<Rightarrow> 'a kernel_scheme \<Rightarrow> (outcome \<times> 'a kernel_scheme) option" where
  "start_program env main s = andthen (main s) (\<lambda>r s. do_call env 1 (of_int r) 0 0 s)"

section \<open>The library\<close>

partial_function (option) ece391_strlen_from :: "mem \<Rightarrow> u32 \<Rightarrow> u32 \<Rightarrow> u32 option" where
  "ece391_strlen_from m s len =
     (if m s \<noteq> 0 then ece391_strlen_from m (s + 1) (len + 1) else Some len)"

definition ece391_strlen :: "mem \<Rightarrow> u32 \<Rightarrow> u32 option" where
  "ece391_strlen m s = ece391_strlen_from m s 0"

partial_function (option) ece391_strcpy :: "u32 \<Rightarrow> u32 \<Rightarrow> mem \<Rightarrow> mem option" where
  "ece391_strcpy dst src m =
     (let c = m src; m = m(dst := c)
      in if c \<noteq> 0 then ece391_strcpy (dst + 1) (src + 1) m else Some m)"

definition ece391_fdputs :: "'a kernel_scheme user_env \<Rightarrow> int \<Rightarrow> u32 \<Rightarrow> 'a kernel_scheme
    \<Rightarrow> (outcome \<times> 'a kernel_scheme) option" where
  "ece391_fdputs env fd s st =
     (case ece391_strlen (mem st) s of
        None \<Rightarrow> None
      | Some len \<Rightarrow> ece391_write env fd s (sint len) st)"

partial_function (option) ece391_strcmp :: "u32 \<Rightarrow> u32 \<Rightarrow> mem \<Rightarrow> int option" where
  "ece391_strcmp s1 s2 m =
     (if m s1 = m s2
      then if m s1 = 0 then Some 0 else ece391_strcmp (s1 + 1) (s2 + 1) m
      else Some (uint (m s1) - uint (m s2)))"

fun ece391_strncmp_loop :: "nat \<Rightarrow> u32 \<Rightarrow> u32 \<Rightarrow> mem \<Rightarrow> int" where
  "ece391_strncmp_loop 0 s1 s2 m = 0"
| "ece391_strncmp_loop (Suc n) s1 s2 m =
     (if m s1 = m s2
      then if m s1 = 0 \<or> n = 0 then 0 else ece391_strncmp_loop n (s1 + 1) (s2 + 1) m
      else uint (m s1) - uint (m s2))"

definition ece391_strncmp :: "u32 \<Rightarrow> u32 \<Rightarrow> u32 \<Rightarrow> mem \<Rightarrow> int" where
  "ece391_strncmp s1 s2 n m = (if n = 0 then 0 else ece391_strncmp_loop (unat n) s1 s2 m)"

definition ece391_strrev :: "u32 \<Rightarrow> mem \<Rightarrow> mem option" where
  "ece391_strrev s m =
     (case ece391_strlen m s of
        None \<Rightarrow> None
      | Some len \<Rightarrow>
          let en = sint (len - 1)
          in Some (if en \<le> 0 then m else strrev_loop 0 en s m))"

partial_function (option) ece391_itoa_loop :: "u32 \<Rightarrow> u32 \<Rightarrow> u32 \<Rightarrow> mem \<Rightarrow> (u32 \<times> mem) option" where
  "ece391_itoa_loop newval radix newbuf m =
     (if newval > 0
      then if radix = 0 \<or> 36 \<le> unat (newval mod radix) then None
           else ece391_itoa_loop (newval div radix) radix (newbuf + 1)
             (m(newbuf := itoa_lookup ! unat (newval mod radix)))
      else Some (newbuf, m))"

definition ece391_itoa :: "u32 \<Rightarrow> u32 \<Rightarrow> u32 \<Rightarrow> mem \<Rightarrow> mem option" where
  "ece391_itoa value buf radix m =
     (if value = 0 then Some (m(buf := 0x30, buf + 1 := 0))
      else case ece391_itoa_loop value radix buf m of
             None \<Rightarrow> None
           | Some (newbuf, m') \<Rightarrow> ece391_strrev buf (m'(newbuf := 0)))"

section \<open>The library computes what the kernel's string routines compute\<close>

lemma user_strlen_from_cstr:
  "cstr m s xs \<Longrightarrow> ece391_strlen_from m s len = Some (len + of_nat (length xs))"
proof (induction xs arbitrary: s len)
  case Nil
  then show ?case by (simp add: ece391_strlen_from.simps cstr_def)
next
  case (Cons x xs)
  have c: "m s \<noteq> 0" using cstr_nth [OF Cons.prems, of 0] by (auto simp: cstr_def)
  have "cstr m (s + 1) xs" using Cons.prems by (auto simp: cstr_def rd_Suc add.assoc)
  from Cons.IH [OF this, of "len + 1"] show ?case
    by (subst ece391_strlen_from.simps) (simp add: c add.assoc)
qed

lemma user_strlen_from_zero: "ece391_strlen_from m s len = Some n \<Longrightarrow> \<exists>p. m p = 0"
proof (rule ece391_strlen_from.raw_induct [where P = "\<lambda>m s len n. \<exists>p. m p = 0"])
  fix f m s len n
  assume IH: "\<And>m s len n. f m s len = Some n \<Longrightarrow> \<exists>p. m p = (0 :: u8)"
    and eq: "(if m s \<noteq> 0 then f m (s + 1) (len + 1) else Some len) = Some n"
  show "\<exists>p. m p = 0" using IH [of m "s + 1" "len + 1" n] eq by (cases "m s = 0") auto
qed

lemma user_strlen: "ece391_strlen m s = strlen m s"
proof (cases "\<exists>p. m p = 0")
  case True
  then obtain xs where "cstr m s xs" using cstr_exists by blast
  then show ?thesis by (simp add: ece391_strlen_def user_strlen_from_cstr strlen_cstr)
next
  case False
  then have "ece391_strlen m s = None" "strlen m s = None"
    using user_strlen_from_zero [of m s 0] strlen_None_iff [of m s]
    by (auto simp: ece391_strlen_def) (metis not_None_eq)
  then show ?thesis by simp
qed

text \<open>\<open>strcpy\<close> copies upwards, so the place may overlap the string from below.\<close>

lemma user_strcpy_below:
  assumes "cstr m src xs" "\<not> inr src (Suc (length xs)) dst"
  shows "ece391_strcpy dst src m = Some (wr dst (xs @ [0]) m)"
  using assms
proof (induction xs arbitrary: dst src m)
  case Nil
  then show ?case by (simp add: ece391_strcpy.simps Let_def cstr_def fun_upd_def)
next
  case (Cons x xs)
  note c = cstr_nth [OF Cons.prems(1)]
  have x: "m src = x" "x \<noteq> 0" using c(1) [of 0] Cons.prems(1) by (auto simp: cstr_def)
  have l: "Suc (length (x # xs)) \<le> 2 ^ 32" using Cons.prems(1) by (simp add: cstr_def)
  have tl: "cstr m (src + 1) xs" using Cons.prems(1) by (auto simp: cstr_def rd_Suc add.assoc)
  have "cstr (m(dst := x)) (src + 1) xs"
  proof (rule cstr_update [OF tl])
    fix i assume "i \<le> length xs"
    then have "inr src (Suc (length (x # xs))) (src + of_nat (Suc i))"
      using l by (subst inr_offset) auto
    then have "src + of_nat (Suc i) \<noteq> dst" using Cons.prems(2) by blast
    then show "(m(dst := x)) (src + 1 + of_nat i) = m (src + 1 + of_nat i)"
      by (auto simp: add.assoc)
  qed
  moreover have "\<not> inr (src + 1) (Suc (length xs)) (dst + 1)"
    using Cons.prems(2) by (simp add: inr_def)
  ultimately show ?case using Cons.IH by (subst ece391_strcpy.simps) (simp add: x Let_def)
qed

lemma user_strcpy_wr:
  assumes "cstr m src xs" "apart dst (Suc (length xs)) src (Suc (length xs))"
  shows "ece391_strcpy dst src m = Some (wr dst (xs @ [0]) m)"
proof (rule user_strcpy_below [OF assms(1)])
  have "inr dst (Suc (length xs)) dst" by (simp add: inr_def)
  then show "\<not> inr src (Suc (length xs)) dst" using apartD [OF assms(2)] by blast
qed

lemma user_strcmp:
  assumes "cstr m s1 xs" "cstr m s2 ys"
  shows "\<exists>k. ece391_strcmp s1 s2 m = Some k \<and> (k = 0 \<longleftrightarrow> xs = ys)"
  using assms
proof (induction xs arbitrary: s1 s2 ys)
  case Nil
  then have "m s1 = 0" "m s2 = 0 \<longleftrightarrow> ys = []"
    using cstr_nth [OF Nil(2), of 0] by (cases ys; auto simp: cstr_def rd_Suc)+
  then show ?case by (subst ece391_strcmp.simps) (auto simp: uint_0_iff)
next
  case (Cons x xs)
  have x: "m s1 = x" "x \<noteq> 0" using cstr_nth [OF Cons.prems(1), of 0] Cons.prems(1) by (auto simp: cstr_def)
  have t1: "cstr m (s1 + 1) xs" using Cons.prems(1) by (auto simp: cstr_def rd_Suc add.assoc)
  show ?case
  proof (cases ys)
    case Nil
    then have "m s2 = 0" using Cons.prems(2) by (simp add: cstr_def)
    then show ?thesis using x Nil by (subst ece391_strcmp.simps) (auto simp: uint_0_iff)
  next
    case (Cons y zs)
    have y: "m s2 = y" "y \<noteq> 0" using cstr_nth [OF Cons.prems(2), of 0] Cons.prems(2) Cons by (auto simp: cstr_def)
    have t2: "cstr m (s2 + 1) zs" using Cons.prems(2) Cons by (auto simp: cstr_def rd_Suc add.assoc)
    show ?thesis
      using Cons.IH [OF t1 t2] x y Cons by (subst ece391_strcmp.simps) (auto simp flip: word_uint_eq_iff)
  qed
qed

lemma uint_u8_eq: "(uint (a :: u8) = uint b) = (a = b)"
  by (simp flip: word_uint_eq_iff)

lemma user_strncmp_loop: "ece391_strncmp_loop n s1 s2 m = 0 \<longleftrightarrow> cstrn m s1 n = cstrn m s2 n"
proof (induction n arbitrary: s1 s2)
  case (Suc n)
  show ?case
    by (cases "m s1 = m s2"; cases n) (use Suc in \<open>auto simp: cstrn_Suc uint_u8_eq\<close>)
qed simp

lemma user_strncmp: "ece391_strncmp s1 s2 n m = 0 \<longleftrightarrow> cstrn m s1 (unat n) = cstrn m s2 (unat n)"
  by (simp add: ece391_strncmp_def user_strncmp_loop)

lemma user_strrev: "ece391_strrev s m = strrev s m"
  by (auto simp: ece391_strrev_def strrev_def user_strlen Let_def strrev_loop.simps [of 0] split: option.split)

lemma user_itoa_loop_1: "ece391_itoa_loop v r b m = Some x \<Longrightarrow> itoa_loop v r b m = Some x"
proof (rule ece391_itoa_loop.raw_induct [where P = "\<lambda>v r b m x. itoa_loop v r b m = Some x"])
  fix f v r b m x
  assume IH: "\<And>v r b m x. f v r b m = Some x \<Longrightarrow> itoa_loop v r b m = Some x"
    and eq: "(if v > 0 then if r = 0 \<or> 36 \<le> unat (v mod r) then None
      else f (v div r) r (b + 1) (m(b := itoa_lookup ! unat (v mod r))) else Some (b, m)) = Some x"
  then show "itoa_loop v r b m = Some x"
    by (subst itoa_loop.simps) (auto simp: word_gt_0 split: if_splits)
qed

lemma user_itoa_loop_2: "itoa_loop v r b m = Some x \<Longrightarrow> ece391_itoa_loop v r b m = Some x"
proof (rule itoa_loop.raw_induct [where P = "\<lambda>v r b m x. ece391_itoa_loop v r b m = Some x"])
  fix f v r b m x
  assume IH: "\<And>v r b m x. f v r b m = Some x \<Longrightarrow> ece391_itoa_loop v r b m = Some x"
    and eq: "(if v = 0 then Some (b, m) else if r = 0 \<or> 36 \<le> unat (v mod r) then None
      else f (v div r) r (b + 1) (m(b := itoa_lookup ! unat (v mod r)))) = Some x"
  then show "ece391_itoa_loop v r b m = Some x"
    by (subst ece391_itoa_loop.simps) (auto simp: word_gt_0 split: if_splits)
qed

lemma user_itoa: "ece391_itoa v b r m = itoa v b r m"
proof -
  have "ece391_itoa_loop v r b m = itoa_loop v r b m"
    using user_itoa_loop_1 [of v r b m] user_itoa_loop_2 [of v r b m] by (metis not_None_eq)
  then show ?thesis by (auto simp: ece391_itoa_def itoa_def user_strrev split: option.split)
qed

section \<open>Calls whose arguments fit in an int\<close>

abbreviation int32 :: "int \<Rightarrow> bool" where
  "int32 i \<equiv> - (2 ^ 31) \<le> i \<and> i < 2 ^ 31"

lemma user_calls:
  "int32 fd \<Longrightarrow> int32 n \<Longrightarrow> ece391_read env fd buf n s = sys_read (polls_at env s) fd buf n s"
  "int32 fd \<Longrightarrow> int32 n \<Longrightarrow> ece391_write env fd buf n s = returns (sys_write fd buf n s)"
  "int32 fd \<Longrightarrow> ece391_close env fd s = returns (sys_close fd s)"
  "int32 n \<Longrightarrow> ece391_getargs env buf n s = returns (getargs buf n s)"
  "ece391_open env a s = result_of (sys_open a s)"
  "ece391_vidmap env a s = returns (vidmap a s)"
  "ece391_execute env a s = execute a s"
  by (simp_all add: ece391_read_def ece391_write_def ece391_close_def ece391_getargs_def ece391_open_def
      ece391_vidmap_def ece391_execute_def do_call_def syscall_handler_def sint_u32_of_int)

section \<open>Properties\<close>



end
