(* ===== verification/User_Frame.thy ===== *)
theory User_Frame
  imports User_Lib
begin

text \<open>
  What the proofs about user programs share: the state a program starts in (\<open>ready\<close>), the relation
  between two points of its run (\<open>since\<close>: the text printed between them, and what stays), and for
  each system call its result and effect in these terms.
\<close>

section \<open>The state of a running program\<close>

text \<open>Standard output is open, the cursor is on the screen, and the file system image is not.\<close>

definition ready :: "nat \<Rightarrow> 'a kernel_scheme \<Rightarrow> bool" where
  "ready n s \<longleftrightarrow> cursor_ok s \<and> disk n s \<and> apart VIDEO 4000 (boot_block s) n \<and> fd_wf (cur_pcb s)
     \<and> fd_flags (pcb_file (cur_pcb s) ! 1) = 1 \<and> fd_op (pcb_file (cur_pcb s) ! 1) = Some Stdout_op"

text \<open>What a call that is neither \<open>execute\<close> nor \<open>halt\<close> nor a wait leaves alone: the pages, the terminals, the
  process table, and of the PCBs all but the descriptors of the process that makes it.\<close>

definition still :: "'a kernel_scheme \<Rightarrow> 'a kernel_scheme \<Rightarrow> bool" where
  "still s t \<longleftrightarrow> frames t = frames s \<and> tlb_user t = tlb_user s \<and> page_directory t = page_directory s
     \<and> terminals t = terminals s \<and> cur_term t = cur_term s \<and> running_term t = running_term s
     \<and> process_state t = process_state s \<and> last_shell t = last_shell s \<and> before_processes t = before_processes s
     \<and> exception_status t = exception_status s \<and> file_data_addr t = file_data_addr s
     \<and> (\<forall>a. (pcbs t a)\<lparr>pcb_file := []\<rparr> = (pcbs s a)\<lparr>pcb_file := []\<rparr>)
     \<and> (\<forall>a. a \<noteq> get_pcb_address s \<longrightarrow> pcbs t a = pcbs s a)"

lemma still_address: "still s t \<Longrightarrow> get_pcb_address t = get_pcb_address s"
  by (rule get_pcb_address_cong) (simp_all add: still_def)

lemma still_refl: "still s s"
  by (simp add: still_def)

lemma still_trans: "still s t \<Longrightarrow> still t u \<Longrightarrow> still s u"
  using still_address [of s t] by (simp add: still_def)

lemma still_more: "console.more t = console.more s \<Longrightarrow> still s t"
  using kernel_more [OF paging_more(1), of t s] paging_more [of t s] by (simp add: still_def)

text \<open>The keyboard's part of the state.\<close>

definition keys_same :: "'a kernel_scheme \<Rightarrow> 'a kernel_scheme \<Rightarrow> bool" where
  "keys_same s t \<longleftrightarrow> kb_buffer t = kb_buffer s \<and> kb_buffer_index t = kb_buffer_index s \<and> enter_flag t = enter_flag s
     \<and> cl_flag t = cl_flag s \<and> lshift_flag t = lshift_flag s \<and> rshift_flag t = rshift_flag s
     \<and> ctrl_flag t = ctrl_flag s \<and> alt_flag t = alt_flag s"

lemma keys_more: "console.more t = console.more s \<Longrightarrow> keys_same s t"
  by (cases s; cases t) (simp add: keys_same_def)

lemma keys_same_trans [trans]: "keys_same s t \<Longrightarrow> keys_same t u \<Longrightarrow> keys_same s u"
  by (simp add: keys_same_def)

definition kept :: "'a kernel_scheme \<Rightarrow> 'a kernel_scheme \<Rightarrow> bool" where
  "kept s t \<longleftrightarrow> still s t \<and> keys_same s t"

lemmas kept_defs = kept_def still_def keys_same_def

lemma kept_address: "kept s t \<Longrightarrow> get_pcb_address t = get_pcb_address s"
  by (simp add: kept_def still_address)

lemma kept_refl: "kept s s"
  by (simp add: kept_def still_refl keys_same_def)

lemma kept_trans: "kept s t \<Longrightarrow> kept t u \<Longrightarrow> kept s u"
  unfolding kept_def by (blast intro: still_trans keys_same_trans)

lemma kept_more: "console.more t = console.more s \<Longrightarrow> kept s t"
  by (simp add: kept_def still_more keys_more)

text \<open>From \<open>s\<close> to \<open>t\<close> the program prints \<open>x\<close>; memory changes only on the screen and in the program's
  array of \<open>k\<close> bytes at \<open>buf\<close>.\<close>

definition since :: "u32 \<Rightarrow> nat \<Rightarrow> u8 list \<Rightarrow> 'a kernel_scheme \<Rightarrow> 'a kernel_scheme \<Rightarrow> bool" where
  "since buf k x s t \<longleftrightarrow> cursor_ok t \<and> screen_view t = fold put_char x (screen_view s)
     \<and> (\<forall>p. inr VIDEO 4000 p \<or> inr buf k p \<or> mem t p = mem s p)
     \<and> boot_block t = boot_block s \<and> boot_block_end t = boot_block_end s
     \<and> data_block_start t = data_block_start s \<and> len_inodes t = len_inodes s
     \<and> get_pcb_address t = get_pcb_address s \<and> kept s t"

text \<open>The part of it that does not speak of the display.\<close>

definition within :: "u32 \<Rightarrow> nat \<Rightarrow> 'a kernel_scheme \<Rightarrow> 'a kernel_scheme \<Rightarrow> bool" where
  "within buf k s t \<longleftrightarrow> cursor_ok t \<and> (\<forall>p. inr VIDEO 4000 p \<or> inr buf k p \<or> mem t p = mem s p)
     \<and> boot_block t = boot_block s \<and> boot_block_end t = boot_block_end s
     \<and> data_block_start t = data_block_start s \<and> len_inodes t = len_inodes s
     \<and> get_pcb_address t = get_pcb_address s"

lemma since_within: "since buf k x s t \<Longrightarrow> within buf k s t"
  by (simp add: since_def within_def)

lemma since_refl: "cursor_ok s \<Longrightarrow> since buf k [] s s"
  by (simp add: since_def kept_refl)

lemma since_trans [trans]: "since buf k x s t \<Longrightarrow> since buf k y t u \<Longrightarrow> since buf k (x @ y) s u"
  using kept_trans [of s t u] unfolding since_def by (simp add: fold_append) metis

lemma within_trans [trans]: "within buf k s t \<Longrightarrow> within buf k t u \<Longrightarrow> within buf k s u"
  unfolding within_def by simp metis

lemma since_none: "since buf 0 x s t \<Longrightarrow> since a k x s t"
  by (auto simp: since_def)

lemma within_disk:
  assumes "within buf k s t" "disk n s" "apart VIDEO 4000 (boot_block s) n" "apart buf k (boot_block s) n"
  shows "same_disk n s t" "disk n t" "boot_block t = boot_block s"
proof -
  have "mem t p = mem s p" if "inr (boot_block s) n p" for p
    using assms(1) that apartD [OF assms(3)] apartD [OF assms(4)] unfolding within_def by blast
  then show d: "same_disk n s t" using assms(1) by (simp add: same_disk_def keeps_def within_def)
  show "disk n t" by (rule disk_cong [OF assms(2) d])
  show "boot_block t = boot_block s" using assms(1) by (simp add: within_def)
qed

lemmas since_disk = within_disk [OF since_within]

lemma within_ready:
  assumes "within buf k s t" "ready n s" "apart buf k (boot_block s) n" "fd_wf (cur_pcb t)"
    and "pcb_file (cur_pcb t) ! 1 = pcb_file (cur_pcb s) ! 1"
  shows "ready n t"
  using assms within_disk [OF assms(1) _ _ assms(3)] by (auto simp: ready_def) (simp add: within_def)

lemmas since_ready = within_ready [OF since_within]

text \<open>The string constants of a program: not null, not on the screen, not in its array.\<close>

definition lit_ok :: "'a kernel_scheme user_env \<Rightarrow> u32 \<Rightarrow> nat \<Rightarrow> 'a kernel_scheme \<Rightarrow> string \<Rightarrow> bool" where
  "lit_ok env buf k s w \<longleftrightarrow> cstr (mem s) (lit env w) (str w) \<and> lit env w \<noteq> 0
     \<and> apart (lit env w) (Suc (length w)) VIDEO 4000 \<and> apart (lit env w) (Suc (length w)) buf k"

lemma length_str [simp]: "length (str w) = length w"
  by (simp add: str_def)

lemma within_bytes:
  assumes "within buf k s t" "apart a n VIDEO 4000" "apart a n buf k" "i < n" "n \<le> 2 ^ 32"
  shows "mem t (a + of_nat i) = mem s (a + of_nat i)"
proof -
  have "inr a n (a + of_nat i)" using assms(4,5) by (subst inr_offset) auto
  then show ?thesis using assms(1) apartD [OF assms(2)] apartD [OF assms(3)] unfolding within_def by blast
qed

lemma within_cstr:
  assumes "within buf k s t" "cstr (mem s) a xs" "apart a (Suc (length xs)) VIDEO 4000" "apart a (Suc (length xs)) buf k"
  shows "cstr (mem t) a xs"
proof (rule cstr_update [OF assms(2)])
  fix i assume "i \<le> length xs"
  then show "mem t (a + of_nat i) = mem s (a + of_nat i)"
    by (intro within_bytes [OF assms(1,3,4)]) (use assms(2) in \<open>auto simp: cstr_def\<close>)
qed

lemma within_lit: "within buf k s t \<Longrightarrow> lit_ok env buf k s w \<Longrightarrow> lit_ok env buf k t w"
  using within_cstr [of buf k s t "lit env w" "str w"] by (simp add: lit_ok_def)

lemmas since_bytes = within_bytes [OF since_within]
lemmas since_cstr = within_cstr [OF since_within]
lemmas since_lit = within_lit [OF since_within]

section \<open>Writing\<close>

lemma putc_dev: "dev (putc c s) = dev s"
  by (simp add: putc_def Let_def)

lemma fold_putc_more: "console.more (fold putc xs s) = console.more s"
  by (induction xs arbitrary: s) (simp_all add: putc_more)

lemma user_write_state:
  fixes s :: "'a kernel_scheme"
  assumes "ready n s" "apart p (nat k) VIDEO 4000" "0 < k" "k < 2 ^ 31" "p \<noteq> 0"
  defines "u \<equiv> fold putc (rd (mem s) p (nat k)) (cli s)"
  shows "ece391_write env 1 p k s = Some (Ret k, sti (set_stop_x (get_screen_x u) u))" "console.more u = console.more s"
    "dev u = dev s" "acks (out u) = acks (out s)"
proof -
  have c: "cursor_ok s" using assms(1) by (simp add: ready_def)
  have k: "nat k < 2 ^ 32" "k \<noteq> 0" "\<not> k < 0" using assms(3,4) by simp_all
  have w: "terminal_write 1 p k s = (k, sti (set_stop_x (get_screen_x u) u))"
    using terminal_write_out [OF c assms(2) k(1,2) assms(5)] by (simp add: u_def)
  have "sys_write 1 p k s = (k, sti (set_stop_x (get_screen_x u) u))"
    using assms(1,5) w k(3) by (simp add: sys_write_def ready_def)
  then show "ece391_write env 1 p k s = Some (Ret k, sti (set_stop_x (get_screen_x u) u))"
    using user_calls(2) [of 1 k env p s] assms(3,4) by (simp add: returns_def)
  show "console.more u = console.more s" by (simp add: u_def fold_putc_more cli_def)
  have "dev (fold putc xs v) = dev v \<and> acks (out (fold putc xs v)) = acks (out v)" for xs and v :: "'a kernel_scheme"
    by (induction xs arbitrary: v) (simp_all add: acks_putc putc_dev)
  then show "dev u = dev s" "acks (out u) = acks (out s)" by (simp_all add: u_def cli_def)
qed

lemma user_write:
  fixes s :: "'a kernel_scheme"
  assumes "ready n s" "apart p (nat k) VIDEO 4000" "0 < k" "k < 2 ^ 31" "p \<noteq> 0"
  shows "\<exists>t. ece391_write env 1 p k s = Some (Ret k, t) \<and> since buf b (rd (mem s) p (nat k)) s t \<and> cur_pcb t = cur_pcb s"
proof -
  define u where "u = fold putc (rd (mem s) p (nat k)) (cli s)"
  define t where "t = sti (set_stop_x (get_screen_x u) u)"
  have c: "cursor_ok s" "cursor_ok (cli s)" using assms(1) by (auto simp: ready_def cursor_ok_def cli_def)
  note ws = user_write_state [OF assms, folded u_def]
  have r: "ece391_write env 1 p k s = Some (Ret k, t)" using ws(1) by (simp add: t_def)
  note cm = ws(2)
  have pm: "paging.more t = paging.more s"
    using paging_more(1) [OF cm] by (simp add: t_def set_stop_x_def sti_def)
  have f: "boot_block t = boot_block s" "boot_block_end t = boot_block_end s" "data_block_start t = data_block_start s"
      "len_inodes t = len_inodes s"
    using paging_more [OF cm] by (simp_all add: t_def set_stop_x_def)
  have "cursor_ok t" using con.ok_text [OF c(2)] by (simp add: t_def u_def set_stop_x_def sti_def cursor_ok_def)
  moreover have "screen_view t = fold put_char (rd (mem s) p (nat k)) (screen_view s)"
    using con.view_text [OF c(2), of "rd (mem s) p (nat k)"]
    by (simp add: t_def u_def screen_view_def set_stop_x_def sti_def cli_def)
  moreover have "mem t q = mem s q" if "\<not> inr VIDEO 4000 q" for q
    using con.frame_text [OF c(2) that] by (simp add: t_def u_def set_stop_x_def sti_def cli_def)
  moreover have g: "get_pcb_address t = get_pcb_address s"
    by (rule get_pcb_address_cong) (simp_all add: kernel_more [OF pm])
  moreover have "kept s t"
    using kept_more [OF cm] by (simp add: t_def set_stop_x_def sti_def kept_defs get_pcb_address_def get_current_terminal_def)
  ultimately have "since buf b (rd (mem s) p (nat k)) s t" using f unfolding since_def by blast
  moreover have "cur_pcb t = cur_pcb s" by (simp add: cur_pcb_def g kernel_more [OF pm])
  ultimately show ?thesis using r by blast
qed

lemma user_puts:
  assumes "ready n s" "cstr (mem s) p xs" "apart p (Suc (length xs)) VIDEO 4000" "xs \<noteq> []" "length xs < 2 ^ 31" "p \<noteq> 0"
  shows "\<exists>t. ece391_fdputs env 1 p s = Some (Ret (int (length xs)), t) \<and> since buf b xs s t \<and> cur_pcb t = cur_pcb s"
proof -
  have l: "sint (of_nat (length xs) :: u32) = int (length xs)" using sint_u32_of_int [of "int (length xs)"] assms(5) by simp
  have "apart p (nat (int (length xs))) VIDEO 4000" using apart_mono [OF assms(3)] by simp
  then show ?thesis
    using user_write [OF assms(1), of p "int (length xs)"] assms(2,4-6)
    by (simp add: ece391_fdputs_def user_strlen strlen_cstr [OF assms(2)] l) (simp add: cstr_def)
qed

lemma user_text:
  assumes "ready n s" "lit_ok env buf b s w" "w \<noteq> []" "length w < 2 ^ 31"
  shows "\<exists>t. ece391_fdputs env 1 (lit env w) s = Some (Ret (int (length w)), t) \<and> since buf b (str w) s t \<and> cur_pcb t = cur_pcb s"
  using user_puts [OF assms(1), of "lit env w" "str w"] assms(2-4) by (simp add: lit_ok_def) (simp add: str_def)

text \<open>The keyboard's side of a write: the line starts at the cursor, and nothing else changes.\<close>

lemma user_puts_keys:
  assumes "ready n s" "cstr (mem s) p xs" "apart p (Suc (length xs)) VIDEO 4000" "xs \<noteq> []" "length xs < 2 ^ 31" "p \<noteq> 0"
    and "ece391_fdputs env 1 p s = Some (r, t)" "cursor_ok t"
  shows "keys_same s t" "unat (cursor_x t) = nat (screen_x t)" "paging.more t = paging.more s"
    "dev t = dev s" "acks (out t) = acks (out s)"
proof -
  have l: "sint (of_nat (length xs) :: u32) = int (length xs)" using sint_u32_of_int [of "int (length xs)"] assms(5) by simp
  have "apart p (nat (int (length xs))) VIDEO 4000" using apart_mono [OF assms(3)] by simp
  note ws = user_write_state [OF assms(1) this _ _ assms(6)]
  have "ece391_fdputs env 1 p s = ece391_write env 1 p (int (length xs)) s"
    by (simp add: ece391_fdputs_def user_strlen strlen_cstr [OF assms(2)] l)
  then obtain u where u: "console.more u = console.more s" "t = sti (set_stop_x (get_screen_x u) u)"
      "dev u = dev s" "acks (out u) = acks (out s)"
    using ws assms(4,5,7) by auto
  show "dev t = dev s" "acks (out t) = acks (out s)" using u(3,4) by (simp_all add: u(2) set_stop_x_def sti_def)
  show "keys_same s t" using keys_more [OF u(1)] by (simp add: u(2) keys_same_def set_stop_x_def sti_def)
  show "paging.more t = paging.more s" using paging_more(1) [OF u(1)] by (simp add: u(2) set_stop_x_def sti_def)
  have "cursor_x t = of_int (screen_x t)" by (simp add: u(2) set_stop_x_def sti_def get_screen_x_def)
  moreover have "0 \<le> screen_x t" "screen_x t < 80" using assms(8) by (auto simp: cursor_ok_def)
  ultimately show "unat (cursor_x t) = nat (screen_x t)" by (simp add: unat_eq_nat_uint uint_word_of_int)
qed

section \<open>Opening and reading\<close>

lemma op_open_screen: "screen_x (snd (op_open ops a s)) = screen_x s" "screen_y (snd (op_open ops a s)) = screen_y s"
  by (cases ops; simp add: rtc_open_def; simp add: set_frequency_def cli_def sti_def outb_def Let_def split: option.split)+

definition fresh_fd :: "file_ops \<Rightarrow> u32 \<Rightarrow> fd_t" where
  "fresh_fd ops ino = \<lparr>fd_op = Some ops, fd_inode = ino, fd_pos = 0, fd_flags = 1\<rparr>"

lemma user_open:
  assumes "ready n s" "cstr (mem s) a name" "a \<noteq> 0" "name \<noteq> []" "length name \<le> 32"
    and "read_dentry_by_name (at (mem s) a) s = Some d" "opened_as name d = Some ops" "lowest_free (cur_pcb s) fd"
  defines "ino \<equiv> (if ops = File_op then of_int (inode_num d) else 0)"
  shows "\<exists>t. ece391_open env a s = Some (Ret (int fd), t) \<and> since buf k [] s t
    \<and> cur_pcb t = (cur_pcb s)\<lparr>pcb_file := (pcb_file (cur_pcb s))[fd := fresh_fd ops ino]\<rparr>"
proof -
  have wf: "fd_wf (cur_pcb s)" "cursor_ok s" using assms(1) by (auto simp: ready_def)
  have fd: "fd < 8" "length (pcb_file (cur_pcb s)) = 8" using wf(1) assms(8) by (auto simp: lowest_free_def fd_wf_def)
  note ol = open_lowest [OF assms(2-7) wf(1) assms(8), folded ino_def]
  define t where "t = snd (open_as ops ino a fd s)"
  note od = open_as_done [OF ol(2) fd, of ino, folded t_def]
  have r: "ece391_open env a s = Some (Ret (int fd), t)"
    using od(1) by (simp add: user_calls ol(1) result_of_def returns_def t_def)
  have "screen_x t = screen_x s" "screen_y t = screen_y s" "len_inodes t = len_inodes s"
    by (simp_all add: t_def open_as_def Let_def split_beta upd_pcb_def op_open_screen
        paging_more(4) [OF op_open_fields(1)])
  moreover have "kept s (snd (op_open ops a s))" by (rule kept_more [OF op_open_fields(1)])
  then have "kept s t" using ol(2) fd(1) by (simp add: t_def open_as_def Let_def split_beta kept_defs upd_pcb_def set_fd_def)
  ultimately have "since buf k [] s t"
    using wf(2) od(3,4,6-8) by (simp add: since_def cursor_ok_def screen_view_def)
  then show ?thesis using r od(2) by (auto simp: fresh_fd_def)
qed

lemma open_ready:
  assumes "fd_wf p" "lowest_free p fd" "t = p\<lparr>pcb_file := (pcb_file p)[fd := fresh_fd ops ino]\<rparr>"
  shows "fd_wf t" "pcb_file t ! 1 = pcb_file p ! 1" "pcb_file t ! fd = fresh_fd ops ino"
  using assms fd_wf_update [OF assms(1), of "fresh_fd ops ino" fd]
  by (auto simp: lowest_free_def fd_wf_def fresh_fd_def fd_ok_def)

text \<open>Stores into the program's array.\<close>

lemma kept_mem [simp]: "kept s (s\<lparr>mem := m\<rparr>)" "kept s (poke a v s)"
  by (simp_all add: kept_defs poke_def)

lemma since_mem:
  assumes "cursor_ok s" "\<And>p. \<not> inr buf b p \<Longrightarrow> mem t p = mem s p" "\<And>p. inr VIDEO 4000 p \<Longrightarrow> mem t p = mem s p"
    and "screen_x t = screen_x s" "screen_y t = screen_y s"
    and "boot_block t = boot_block s" "boot_block_end t = boot_block_end s" "data_block_start t = data_block_start s"
    and "len_inodes t = len_inodes s" "kept s t"
  shows "since buf b [] s t"
proof -
  have "text_cells (mem t) = text_cells (mem s)" by (intro nth_equalityI) (use assms(3) cell_in_video in auto)
  then have "screen_view t = screen_view s" using assms(4,5) by (simp add: screen_view_def)
  then show ?thesis using assms kept_address [OF assms(10)] by (auto simp: since_def cursor_ok_def)
qed

lemma since_wr:
  assumes "cursor_ok s" "length xs \<le> b" "length xs \<le> 2 ^ 32" "apart buf (length xs) VIDEO 4000"
    and "mem t = wr buf xs (mem s)" "screen_x t = screen_x s" "screen_y t = screen_y s"
    and "boot_block t = boot_block s" "boot_block_end t = boot_block_end s" "data_block_start t = data_block_start s"
    and "len_inodes t = len_inodes s" "kept s t"
  shows "since buf b [] s t"
proof (rule since_mem [OF assms(1) _ _ assms(6-)])
  have m: "mem t q = mem s q" if "\<not> inr buf (length xs) q" for q
    unfolding assms(5) by (rule wr_other [OF that assms(3)])
  show "mem t p = mem s p" if "\<not> inr buf b p" for p using m inr_mono [OF _ assms(2)] that by blast
  show "mem t p = mem s p" if "inr VIDEO 4000 p" for p using m apartD [OF assms(4)] that by blast
qed

lemma since_poke:
  assumes "cursor_ok s" "i < b" "b \<le> 2 ^ 32" "apart buf b VIDEO 4000"
  shows "since buf b [] s (poke (buf + of_nat i) v s)"
proof (rule since_mem [OF assms(1)])
  have r: "inr buf b (buf + of_nat i)" using assms(2,3) by (subst inr_offset) auto
  show "mem (poke (buf + of_nat i) v s) p = mem s p" if "\<not> inr buf b p" for p
    using that r by (auto simp: poke_def)
  show "mem (poke (buf + of_nat i) v s) p = mem s p" if "inr VIDEO 4000 p" for p
    using apartD [OF assms(4) r] that by (auto simp: poke_def)
qed (simp_all add: poke_def)

lemma user_read_file:
  assumes "ready n s" "fd < 8" "pcb_file (cur_pcb s) ! fd = \<lparr>fd_op = Some File_op, fd_inode = ino, fd_pos = p, fd_flags = 1\<rparr>"
    and "ino < inode_count s" "buffer_apart buf (nat k) ino s" "buf \<noteq> 0" "0 \<le> k" "k < 2 ^ 31"
    and "apart buf (nat k) VIDEO 4000" "nat k \<le> b"
  defines "bytes \<equiv> slice (unat p) (nat k) (contents s ino)"
  shows "\<exists>t. ece391_read env (int fd) buf k s = Some (Ret (int (length bytes)), t) \<and> since buf b [] s t
    \<and> rd (mem t) buf (length bytes) = bytes
    \<and> cur_pcb t = (cur_pcb s)\<lparr>pcb_file := (pcb_file (cur_pcb s))
        [fd := \<lparr>fd_op = Some File_op, fd_inode = ino, fd_pos = p + of_nat (length bytes), fd_flags = 1\<rparr>]\<rparr>"
proof -
  have l: "length bytes \<le> nat k" by (simp add: bytes_def slice_bound)
  then have l': "length bytes \<le> 2 ^ 32" using assms(7,8) by simp
  have uk: "unat (of_int k :: u32) = nat k" using assms(7,8) by (simp add: unat_eq_nat_uint uint_word_of_int)
  define v where "v = s\<lparr>mem := wr buf bytes (mem s)\<rparr>"
  define t where "t = upd_fd (get_pcb_address s) fd (\<lambda>f. f\<lparr>fd_pos := fd_pos f + of_nat (length bytes)\<rparr>) v"
  have "read_file (int fd) buf (of_int k) s = (int (length bytes), t)"
    using read_file_slice [OF refl, of s "int fd" buf "of_int k"] assms(3-5)
    by (simp add: uk bytes_def t_def v_def Let_def)
  then have "sys_read (polls_at env s) (int fd) buf k s = Some (Ret (int (length bytes)), t)"
    using assms(2,3,6,7) by (simp add: sys_read_def returns_def Let_def)
  then have r: "ece391_read env (int fd) buf k s = Some (Ret (int (length bytes)), t)"
    using assms(2,7,8) by (simp add: user_calls)
  have "since buf b [] s t"
  proof (rule since_wr [of s bytes])
    show "length bytes \<le> b" using l assms(10) by simp
    show "apart buf (length bytes) VIDEO 4000" using apart_mono [OF assms(9) l] .
    show "kept s t" by (simp add: t_def v_def upd_fd_def upd_pcb_def kept_defs)
  qed (use assms(1) l' in \<open>simp_all add: t_def v_def ready_def upd_fd_def upd_pcb_def\<close>)
  moreover have "rd (mem t) buf (length bytes) = bytes" using rd_wr_same [OF l'] by (simp add: t_def v_def)
  moreover have "cur_pcb t = (cur_pcb s)\<lparr>pcb_file := (pcb_file (cur_pcb s))
      [fd := \<lparr>fd_op = Some File_op, fd_inode = ino, fd_pos = p + of_nat (length bytes), fd_flags = 1\<rparr>]\<rparr>"
    using assms(3) by (simp add: cur_pcb_def t_def v_def)
  ultimately show ?thesis using r by blast
qed

lemma user_read_dir:
  assumes "ready n s" "fd < 8" "pcb_file (cur_pcb s) ! fd = \<lparr>fd_op = Some Dir_op, fd_inode = ino, fd_pos = of_nat i, fd_flags = 1\<rparr>"
    and "i < dir_size s" "buf \<noteq> 0" "apart buf 33 VIDEO 4000" "33 \<le> b"
  defines "name \<equiv> entry_name s i"
  shows "\<exists>t. ece391_read env (int fd) buf 32 s = Some (Ret (int (length name)), t) \<and> since buf b [] s t
    \<and> rd (mem t) buf 33 = padded 33 name
    \<and> cur_pcb t = (cur_pcb s)\<lparr>pcb_file := (pcb_file (cur_pcb s))
        [fd := \<lparr>fd_op = Some Dir_op, fd_inode = ino, fd_pos = of_nat (Suc i), fd_flags = 1\<rparr>]\<rparr>"
proof -
  have l: "length name \<le> 32" by (simp add: name_def entry_name_def length_cstrn)
  then have l': "length (padded 33 name) = 33" by simp
  define v where "v = s\<lparr>mem := wr buf (padded 33 name) (mem s)\<rparr>"
  define t where "t = upd_fd (get_pcb_address s) fd (\<lambda>f. f\<lparr>fd_pos := fd_pos f + 1\<rparr>) v"
  have "read_dir (int fd) buf 32 s = (int (length name), t)"
    using read_dir_entry [of s "int fd" i 32 buf] assms(3,4) l by (simp add: t_def v_def name_def)
  then have r: "ece391_read env (int fd) buf 32 s = Some (Ret (int (length name)), t)"
    using assms(2,3,5) by (simp add: user_calls sys_read_def returns_def Let_def)
  have "since buf b [] s t"
  proof (rule since_wr [of s "padded 33 name"])
    show "length (padded 33 name) \<le> b" using l' assms(7) by simp
    show "kept s t" by (simp add: t_def v_def upd_fd_def upd_pcb_def kept_defs)
  qed (use assms(1,6) l' in \<open>simp_all add: t_def v_def ready_def upd_fd_def upd_pcb_def\<close>)
  moreover have "rd (mem t) buf 33 = padded 33 name"
    using rd_wr_same [of "padded 33 name" buf "mem s"] l' by (simp add: t_def v_def)
  moreover have "cur_pcb t = (cur_pcb s)\<lparr>pcb_file := (pcb_file (cur_pcb s))
      [fd := \<lparr>fd_op = Some Dir_op, fd_inode = ino, fd_pos = of_nat (Suc i), fd_flags = 1\<rparr>]\<rparr>"
    using assms(3) by (simp add: cur_pcb_def t_def v_def add.commute)
  ultimately show ?thesis using r by blast
qed

lemma user_read_dir_end:
  assumes "fd < 8" "pcb_file (cur_pcb s) ! fd = \<lparr>fd_op = Some Dir_op, fd_inode = ino, fd_pos = of_nat i, fd_flags = 1\<rparr>"
    and "dir_size s \<le> i" "i < 2 ^ 32" "buf \<noteq> 0"
  shows "ece391_read env (int fd) buf 32 s = Some (Ret 0, s)"
  using read_dir_end [where s = s and fd = "int fd" and i = i and n = 32 and buf = buf] assms
  by (simp add: user_calls sys_read_def returns_def Let_def)

lemma user_getargs:
  assumes "ready n s" "pcb_arg (cur_pcb s) = args @ [0] @ rest" "0 \<notin> set args" "args \<noteq> []"
    and "buf \<noteq> 0" "0 \<le> k" "k < 2 ^ 31" "apart buf (nat k) VIDEO 4000"
  shows "\<exists>t. ece391_getargs env buf k s = Some (Ret 0, t) \<and> since buf (nat k) [] s t \<and> cur_pcb t = cur_pcb s
    \<and> rd (mem t) buf (nat k) = padded (nat k) (take (nat k) args)"
proof -
  define xs where "xs = padded (nat k) (take (nat k) args)"
  have l: "length xs = nat k" by (simp add: xs_def)
  have l': "length xs \<le> 2 ^ 32" using l assms(7) by simp
  define t where "t = s\<lparr>mem := wr buf xs (mem s)\<rparr>"
  have "ece391_getargs env buf k s = Some (Ret 0, t)"
    using assms(6,7) getargs_string [OF assms(2-7)] by (simp add: user_calls returns_def t_def xs_def)
  moreover have "since buf (nat k) [] s t"
    by (rule since_wr [of s xs]) (use assms(1,8) l l' in \<open>simp_all add: t_def ready_def\<close>)
  moreover have "rd (mem t) buf (nat k) = xs" using rd_wr_same [OF l', of buf "mem s"] l by (simp add: t_def)
  moreover have "cur_pcb t = cur_pcb s" by (simp add: t_def cur_pcb_def)
  ultimately show ?thesis by (auto simp: xs_def)
qed

lemma user_close_open:
  assumes "cursor_ok s" "2 \<le> fd" "fd < 8" "fd_flags (pcb_file (cur_pcb s) ! fd) = 1" "fd_op (pcb_file (cur_pcb s) ! fd) = Some ops"
  shows "\<exists>t. ece391_close env (int fd) s = Some (Ret 0, t) \<and> since buf k [] s t
    \<and> cur_pcb t = (cur_pcb s)\<lparr>pcb_file := (pcb_file (cur_pcb s))
        [fd := (pcb_file (cur_pcb s) ! fd)\<lparr>fd_flags := 0, fd_inode := 0, fd_pos := 0\<rparr>]\<rparr>"
proof -
  define t where "t = upd_fd (get_pcb_address s) fd (\<lambda>f. f\<lparr>fd_flags := 0, fd_inode := 0, fd_pos := 0\<rparr>) s"
  have "sys_close (int fd) s = (0, t)"
    using assms(2-5) by (simp add: sys_close_def cur_pcb_def t_def Let_def)
  then have "ece391_close env (int fd) s = Some (Ret 0, t)" using assms(3) by (simp add: user_calls returns_def)
  moreover have "since buf k [] s t"
    by (rule since_mem) (use assms(1) in \<open>simp_all add: t_def upd_fd_def upd_pcb_def kept_defs\<close>)
  moreover have "cur_pcb t = (cur_pcb s)\<lparr>pcb_file := (pcb_file (cur_pcb s))
      [fd := (pcb_file (cur_pcb s) ! fd)\<lparr>fd_flags := 0, fd_inode := 0, fd_pos := 0\<rparr>]\<rparr>"
    by (simp add: t_def cur_pcb_def)
  ultimately show ?thesis by blast
qed

end
