(* ===== verification/Programs.thy ===== *)
theory Programs
  imports User_Frame
begin

text \<open>
  The user programs \<^verbatim>\<open>syscalls/ece391cat.c\<close>, \<^verbatim>\<open>ece391ls.c\<close>, \<^verbatim>\<open>ece391hello.c\<close> and
  \<^verbatim>\<open>ece391testprint.c\<close>, run on the kernel: \<open>cat\<close> prints the contents of the file it is given, \<open>ls\<close>
  the names in the directory.
\<close>

section \<open>The programs\<close>

partial_function (option) cat_loop :: "'a kernel_scheme user_env \<Rightarrow> int \<Rightarrow> u32 \<Rightarrow> 'a kernel_scheme
    \<Rightarrow> (outcome \<times> 'a kernel_scheme) option" where
  "cat_loop env fd buf s =
     andthen (ece391_read env fd buf 1024 s) (\<lambda>cnt s.
       if cnt \<noteq> 0
       then if cnt = - 1
            then andthen (ece391_fdputs env 1 (lit env (''file read failed'' @ NL)) s) (\<lambda>_ s. Some (Ret 3, s))
            else andthen (ece391_write env 1 buf cnt s) (\<lambda>r s.
              if r = - 1 then Some (Ret 3, s) else cat_loop env fd buf s)
       else Some (Ret 0, s))"

definition cat_main :: "'a kernel_scheme user_env \<Rightarrow> u32 \<Rightarrow> 'a kernel_scheme \<Rightarrow> (outcome \<times> 'a kernel_scheme) option" where
  "cat_main env buf s =
     andthen (ece391_getargs env buf 1024 s) (\<lambda>r s.
       if r \<noteq> 0
       then andthen (ece391_fdputs env 1 (lit env (''could not read arguments'' @ NL)) s) (\<lambda>_ s. Some (Ret 3, s))
       else andthen (ece391_open env buf s) (\<lambda>fd s.
         if fd = - 1
         then andthen (ece391_fdputs env 1 (lit env (''file not found'' @ NL)) s) (\<lambda>_ s. Some (Ret 2, s))
         else cat_loop env fd buf s))"

partial_function (option) ls_loop :: "'a kernel_scheme user_env \<Rightarrow> int \<Rightarrow> u32 \<Rightarrow> 'a kernel_scheme
    \<Rightarrow> (outcome \<times> 'a kernel_scheme) option" where
  "ls_loop env fd buf s =
     andthen (ece391_read env fd buf 32 s) (\<lambda>cnt s.
       if cnt \<noteq> 0
       then if cnt = - 1
            then andthen (ece391_fdputs env 1 (lit env (''directory entry read failed'' @ NL)) s)
                   (\<lambda>_ s. Some (Ret 3, s))
            else andthen (ece391_write env 1 buf (cnt + 1) (poke (buf + of_int cnt) 0x0A s)) (\<lambda>r s.
              if r = - 1 then Some (Ret 3, s) else ls_loop env fd buf s)
       else Some (Ret 0, s))"

definition ls_main :: "'a kernel_scheme user_env \<Rightarrow> u32 \<Rightarrow> 'a kernel_scheme \<Rightarrow> (outcome \<times> 'a kernel_scheme) option" where
  "ls_main env buf s =
     andthen (ece391_open env (lit env ''.'') s) (\<lambda>fd s.
       if fd = - 1
       then andthen (ece391_fdputs env 1 (lit env (''directory open failed'' @ NL)) s) (\<lambda>_ s. Some (Ret 2, s))
       else ls_loop env fd buf s)"

definition hello_main :: "'a kernel_scheme user_env \<Rightarrow> u32 \<Rightarrow> 'a kernel_scheme \<Rightarrow> (outcome \<times> 'a kernel_scheme) option" where
  "hello_main env buf s =
     andthen (ece391_fdputs env 1 (lit env ''Hi, what's your name? '') s) (\<lambda>_ s.
     andthen (ece391_read env 0 buf 1023 s) (\<lambda>cnt s.
       if cnt = - 1
       then andthen (ece391_fdputs env 1 (lit env (''Can't read name from keyboard.'' @ NL)) s)
              (\<lambda>_ s. Some (Ret 3, s))
       else let s = poke (buf + of_int cnt) 0 s
            in andthen (ece391_fdputs env 1 (lit env ''Hello, '') s) (\<lambda>_ s.
               andthen (ece391_fdputs env 1 buf s) (\<lambda>_ s. Some (Ret 0, s)))))"

definition testprint_main :: "'a kernel_scheme user_env \<Rightarrow> 'a kernel_scheme \<Rightarrow> (outcome \<times> 'a kernel_scheme) option" where
  "testprint_main env s =
     andthen (ece391_fdputs env 1 (lit env (''Hello, if this ran, the program was correct. Yay!'' @ NL)) s)
       (\<lambda>_ s. Some (Ret 0, s))"

section \<open>cat\<close>

lemma slice_drop: "p \<le> length xs \<Longrightarrow> drop p xs = slice p n xs @ drop (p + length (slice p n xs)) xs"
proof (cases "p + n \<le> length xs")
  case True
  have "slice p n xs = take n (drop p xs)" by (simp add: slice_def take_drop add.commute)
  then show ?thesis using True append_take_drop_id [of n "drop p xs"] by (simp add: add.commute)
qed (simp add: slice_def)

text \<open>An array of a program: not on the screen and not in the file system image.\<close>

definition array_ok :: "u32 \<Rightarrow> nat \<Rightarrow> nat \<Rightarrow> 'a kernel_scheme \<Rightarrow> bool" where
  "array_ok buf k n s \<longleftrightarrow> buf \<noteq> 0 \<and> apart buf k VIDEO 4000 \<and> apart buf k (boot_block s) n \<and> k \<le> 2 ^ 31"

lemma array_cong: "boot_block t = boot_block s \<Longrightarrow> array_ok buf k n t = array_ok buf k n s"
  by (simp add: array_ok_def)

lemma array_apart: "array_ok buf k n s \<Longrightarrow> j \<le> k \<Longrightarrow> apart buf j VIDEO 4000"
  using apart_mono by (auto simp: array_ok_def)

text \<open>What stays while a program prints and uses its array.\<close>

lemma within_image:
  assumes "within buf k s t" "ready n s" "array_ok buf k n s"
  shows "inode_count t = inode_count s" "ino < inode_count s \<Longrightarrow> contents t ino = contents s ino"
    "dir_size t = dir_size s" "i < dir_size s \<Longrightarrow> entry_name t i = entry_name s i"
    "array_ok buf k n t" "read_dentry_by_name f t = read_dentry_by_name f s"
proof -
  have d: "disk n s" and ap: "apart VIDEO 4000 (boot_block s) n" "apart buf k (boot_block s) n"
    using assms(2,3) by (auto simp: ready_def array_ok_def)
  note sd = within_disk [OF assms(1) d ap]
  show "inode_count t = inode_count s" "ino < inode_count s \<Longrightarrow> contents t ino = contents s ino"
    "dir_size t = dir_size s" "i < dir_size s \<Longrightarrow> entry_name t i = entry_name s i"
    "read_dentry_by_name f t = read_dentry_by_name f s"
    using disk_count [OF d sd(1)] disk_contents [OF d sd(1)] disk_entry [OF d sd(1)] disk_lookup [OF d sd(1)]
    by auto
  show "array_ok buf k n t" using assms(3) sd(3) by (simp add: array_ok_def)
qed

lemma array_within:
  assumes "within buf k s t" "ready n s" "array_ok buf k n s" "fd_wf (cur_pcb t)"
    and "pcb_file (cur_pcb t) ! 1 = pcb_file (cur_pcb s) ! 1"
  shows "ready n t"
  by (rule within_ready [OF assms(1,2) _ assms(4,5)]) (use assms(3) in \<open>simp add: array_ok_def\<close>)

lemmas since_image = within_image [OF since_within]
lemmas array_ready = array_within [OF since_within]

lemma array_file:
  assumes "ready n s" "array_ok buf k n s" "ino < inode_count s" "j \<le> k"
  shows "buffer_apart buf j ino s"
proof -
  have "disk n s" "apart buf k (boot_block s) n" "k \<le> 2 ^ 32" using assms(1,2) by (auto simp: ready_def array_ok_def)
  then show ?thesis using disk_buffer(1) [OF _ assms(3)] buffer_apart_mono [OF _ assms(4)] by blast
qed

lemma cat_loop_prints:
  assumes "ready n s" "array_ok buf 1024 n s" "2 \<le> fd" "fd < 8" "ino < inode_count s"
    and "pcb_file (cur_pcb s) ! fd = \<lparr>fd_op = Some File_op, fd_inode = ino, fd_pos = p, fd_flags = 1\<rparr>"
    and "unat p \<le> length (contents s ino)"
  shows "\<exists>t. cat_loop env (int fd) buf s = Some (Ret 0, t) \<and> since buf 1024 (drop (unat p) (contents s ino)) s t"
  using assms
proof (induction "length (contents s ino) - unat p" arbitrary: s p rule: less_induct)
  case less
  let ?c = "contents s ino" and ?f = "\<lambda>q. \<lparr>fd_op = Some File_op, fd_inode = ino, fd_pos = q, fd_flags = 1\<rparr>"
  define bytes where "bytes = slice (unat p) 1024 ?c"
  let ?q = "p + of_nat (length bytes)"
  have b: "buf \<noteq> 0" "apart buf (nat 1024) VIDEO 4000" using less.prems(2) by (auto simp: array_ok_def)
  have "buffer_apart buf (nat 1024) ino s" by (rule array_file [OF less.prems(1,2,5)]) simp
  from user_read_file [OF less.prems(1,4,6,5) this b(1) _ _ b(2), of 1024 env]
  obtain t where t: "ece391_read env (int fd) buf 1024 s = Some (Ret (int (length bytes)), t)" "since buf 1024 [] s t"
      "rd (mem t) buf (length bytes) = bytes" "cur_pcb t = (cur_pcb s)\<lparr>pcb_file := (pcb_file (cur_pcb s))[fd := ?f ?q]\<rparr>"
    by (auto simp: bytes_def)
  have wf: "fd_wf (cur_pcb s)" "length (pcb_file (cur_pcb s)) = 8" using less.prems(1) by (auto simp: ready_def fd_wf_def)
  have pt: "fd_wf (cur_pcb t)" "pcb_file (cur_pcb t) ! 1 = pcb_file (cur_pcb s) ! 1" "pcb_file (cur_pcb t) ! fd = ?f ?q"
    using fd_wf_update [OF wf(1), of "?f ?q" fd] wf(2) less.prems(3,4) by (simp_all add: t(4) fd_ok_def)
  note rt = array_ready [OF t(2) less.prems(1,2) pt(1,2)] and it = since_image [OF t(2) less.prems(1,2)]
  have split: "drop (unat p) ?c = bytes @ drop (unat p + length bytes) ?c"
    unfolding bytes_def by (rule slice_drop [OF less.prems(7)])
  show ?case
  proof (cases "bytes = []")
    case True
    then have "drop (unat p) ?c = []" by (simp add: bytes_def slice_def)
    then show ?thesis using t(1,2) True by (subst cat_loop.simps) simp
  next
    case False
    have lb: "length bytes \<le> 1024" "unat p + length bytes \<le> length ?c"
      using slice_bound less.prems(7) by (auto simp: bytes_def)
    have k: "0 < int (length bytes)" "int (length bytes) < 2 ^ 31" using False lb(1) by auto
    have "apart buf (nat (int (length bytes))) VIDEO 4000" using array_apart [OF less.prems(2)] lb(1) by simp
    from user_write [OF rt this k b(1), where b = 1024]
    obtain u where u: "ece391_write env 1 buf (int (length bytes)) t = Some (Ret (int (length bytes)), u)"
        "since buf 1024 bytes t u" "cur_pcb u = cur_pcb t" using t(3) by auto
    have su: "since buf 1024 bytes s u" using since_trans [OF t(2) u(2)] by simp
    have ru: "ready n u" by (rule array_ready [OF su less.prems(1,2)]) (use u(3) pt in simp_all)
    note iu = since_image [OF su less.prems(1,2)]
    have q: "unat ?q = unat p + length bytes"
      using lb(2) length_contents [of s ino] by (simp add: unat_u32_plus unat_u32_of_nat)
    have "length (contents u ino) - unat ?q < length ?c - unat p"
      unfolding iu(2) [OF less.prems(5)] q using k(1) lb(2) by linarith
    from less.hyps [OF this ru iu(5) less.prems(3,4)] obtain v where
        v: "cat_loop env (int fd) buf u = Some (Ret 0, v)" "since buf 1024 (drop (unat ?q) (contents u ino)) u v"
      using less.prems(5) pt(3) u(3) lb(2) iu by (auto simp: q)
    have "since buf 1024 (drop (unat p) ?c) s v"
      using since_trans [OF su v(2)] iu(2) [OF less.prems(5)] split by (simp add: q)
    moreover have "int (length bytes) \<noteq> 0" "int (length bytes) \<noteq> - 1" using False by auto
    ultimately show ?thesis using t(1) u(1) v(1) by (subst cat_loop.simps) simp
  qed
qed

lemma cstr_padded:
  assumes "rd m a k = padded k xs" "length xs < k" "0 \<notin> set xs" "k \<le> 2 ^ 32"
  shows "cstr m a xs"
proof -
  have "rd m a (length xs) = take (length xs) (padded k xs)" using take_rd [of "length xs" k m a] assms(1,2) by simp
  then have "rd m a (length xs) = xs" by (simp add: padded_def)
  moreover have "m (a + of_nat (length xs)) = padded k xs ! length xs" using nth_rd [of "length xs" k m a] assms(1,2) by simp
  then have "m (a + of_nat (length xs)) = 0" using assms(2) by (simp add: padded_def nth_append)
  ultimately show ?thesis using assms(2-4) by (simp add: cstr_def)
qed

lemma lookup_arr:
  assumes "cstr (mem s) a name" "0 \<notin> set name"
  shows "read_dentry_by_name (at (mem s) a) s = read_dentry_by_name (arr name) s"
proof (rule read_dentry_name_cong)
  have "upto0 (arr name) 0 32 = take 32 name" by (rule upto0_string) (use assms(2) in \<open>auto simp: arr_def\<close>)
  then show "upto0 (at (mem s) a) 0 32 = upto0 (arr name) 0 32" using cstrn_cstr [OF assms(1)] by (simp add: upto0_at)
qed

text \<open>The arguments in the array of the program.\<close>

lemma user_name:
  assumes "ready n s" "array_ok buf 1024 n s" "pcb_arg (cur_pcb s) = name @ [0] @ rest" "0 \<notin> set name" "name \<noteq> []"
    and "length name \<le> 32"
  shows "\<exists>t. ece391_getargs env buf 1024 s = Some (Ret 0, t) \<and> since buf 1024 [] s t \<and> cur_pcb t = cur_pcb s
    \<and> ready n t \<and> cstr (mem t) buf name \<and> read_dentry_by_name (at (mem t) buf) t = read_dentry_by_name (arr name) s"
proof -
  have b: "buf \<noteq> 0" "apart buf (nat 1024) VIDEO 4000" using assms(2) by (auto simp: array_ok_def)
  from user_getargs [OF assms(1,3-5) b(1) _ _ b(2), of env] obtain t where
      t: "ece391_getargs env buf 1024 s = Some (Ret 0, t)" "since buf 1024 [] s t" "cur_pcb t = cur_pcb s"
        "rd (mem t) buf 1024 = padded 1024 (take 1024 name)" by auto
  have c: "cstr (mem t) buf name" by (rule cstr_padded [of _ _ 1024]) (use t(4) assms(4,6) in simp_all)
  have "ready n t" by (rule array_ready [OF t(2) assms(1,2)]) (use t(3) assms(1) in \<open>simp_all add: ready_def\<close>)
  then show ?thesis using t lookup_arr [OF c assms(4)] since_image(6) [OF t(2) assms(1,2)] c by auto
qed

lemma cat_prints:
  assumes "ready n s" "array_ok buf 1024 n s" "pcb_arg (cur_pcb s) = name @ [0] @ rest" "0 \<notin> set name" "name \<noteq> []"
    and "length name \<le> 32" "read_dentry_by_name (arr name) s = Some d" "opened_as name d = Some File_op"
    and "of_int (inode_num d) < inode_count s" "lowest_free (cur_pcb s) fd"
  shows "\<exists>t. cat_main env buf s = Some (Ret 0, t) \<and> since buf 1024 (contents s (of_int (inode_num d))) s t"
proof -
  let ?ino = "of_int (inode_num d) :: u32"
  obtain t where t: "ece391_getargs env buf 1024 s = Some (Ret 0, t)" "since buf 1024 [] s t" "cur_pcb t = cur_pcb s"
      "ready n t" "cstr (mem t) buf name" "read_dentry_by_name (at (mem t) buf) t = Some d"
    using user_name [OF assms(1-6)] assms(7) by metis
  have b: "buf \<noteq> 0" using assms(2) by (simp add: array_ok_def)
  obtain u where u: "ece391_open env buf t = Some (Ret (int fd), u)" "since buf 1024 [] t u"
      "cur_pcb u = (cur_pcb t)\<lparr>pcb_file := (pcb_file (cur_pcb t))[fd := fresh_fd File_op ?ino]\<rparr>"
    using user_open [OF t(4,5) b assms(5,6) t(6) assms(8), of fd env buf 1024] assms(10) t(3) by auto
  have su: "since buf 1024 [] s u" using since_trans [OF t(2) u(2)] by simp
  have wf: "fd_wf (cur_pcb s)" using assms(1) by (simp add: ready_def)
  note od = open_ready [OF wf assms(10) u(3) [unfolded t(3)]]
  have fd: "2 \<le> fd" "fd < 8" using assms(10) by (auto simp: lowest_free_def)
  note iu = since_image [OF su assms(1,2)]
  have "ready n u" by (rule array_ready [OF su assms(1,2) od(1,2)])
  from cat_loop_prints [OF this iu(5) fd, of ?ino 0 env] obtain v where
      "cat_loop env (int fd) buf u = Some (Ret 0, v)" "since buf 1024 (contents u ?ino) u v"
    using od(3) iu(1) assms(9) by (auto simp: fresh_fd_def)
  moreover have "int fd \<noteq> - 1" by simp
  ultimately show ?thesis
    using t(1) u(1) since_trans [OF su] iu(2) [OF assms(9)] by (auto simp: cat_main_def)
qed

section \<open>ls\<close>

text \<open>The listing ends at an entry with an empty name, for which the call returns 0.\<close>

definition listing :: "u8 list list \<Rightarrow> u8 list" where
  "listing names = concat (map (\<lambda>x. x @ [0x0A]) (takeWhile (\<lambda>x. x \<noteq> []) names))"

lemma listing_simps [simp]:
  "listing [] = []" "listing ([] # xs) = []" "x \<noteq> [] \<Longrightarrow> listing (x # xs) = x @ 0x0A # listing xs"
  by (simp_all add: listing_def)

lemma rd_append_byte: "rd (m(a + of_nat n := v)) a (Suc n) = rd m a n @ [v]" if "n < 2 ^ 32"
proof -
  have "rd (m(a + of_nat n := v)) a n = rd m a n"
    using that by (intro nth_equalityI) (auto simp: u32_of_nat_inj)
  moreover have "rd m' a (Suc n) = rd m' a n @ [m' (a + of_nat n)]" for m' by (simp add: rd_def)
  ultimately show ?thesis by simp
qed

lemma ls_loop_prints:
  assumes "ready n s" "array_ok buf 33 n s" "2 \<le> fd" "fd < 8" "i \<le> dir_size s"
    and "pcb_file (cur_pcb s) ! fd = \<lparr>fd_op = Some Dir_op, fd_inode = ino, fd_pos = of_nat i, fd_flags = 1\<rparr>"
  shows "\<exists>t. ls_loop env (int fd) buf s = Some (Ret 0, t)
    \<and> since buf 33 (listing (map (entry_name s) [i..<dir_size s])) s t"
  using assms
proof (induction "dir_size s - i" arbitrary: s i)
  case 0
  then have i: "i = dir_size s" "cursor_ok s" "buf \<noteq> 0" by (auto simp: ready_def array_ok_def)
  have "dir_size s < 2 ^ 32" by (simp add: dir_size_def unat_u32_bound)
  then have "ece391_read env (int fd) buf 32 s = Some (Ret 0, s)"
    using user_read_dir_end [OF "0.prems"(4,6)] i by simp
  then show ?case using since_refl i by (subst ls_loop.simps) auto
next
  case (Suc k)
  let ?names = "\<lambda>s. map (entry_name s)" and ?x = "entry_name s i"
  let ?f = "\<lparr>fd_op = Some Dir_op, fd_inode = ino, fd_pos = of_nat (Suc i), fd_flags = 1\<rparr>"
  have i: "i < dir_size s" "k = dir_size s - Suc i" using Suc.hyps(2) by auto
  have b: "buf \<noteq> 0" "apart buf 33 VIDEO 4000" using Suc.prems(2) by (auto simp: array_ok_def)
  have l: "length ?x \<le> 32" by (simp add: entry_name_def length_cstrn)
  from user_read_dir [OF Suc.prems(1,4,6) i(1) b, of 33 env]
  obtain t where t: "ece391_read env (int fd) buf 32 s = Some (Ret (int (length ?x)), t)" "since buf 33 [] s t"
      "rd (mem t) buf 33 = padded 33 ?x" "cur_pcb t = (cur_pcb s)\<lparr>pcb_file := (pcb_file (cur_pcb s))[fd := ?f]\<rparr>" by auto
  have up: "[i..<dir_size s] = i # [Suc i..<dir_size s]" using i(1) by (rule upt_conv_Cons)
  show ?case
  proof (cases "?x = []")
    case True
    then show ?thesis using t(1,2) by (subst ls_loop.simps) (auto simp: up)
  next
    case False
    have wf: "fd_wf (cur_pcb s)" "length (pcb_file (cur_pcb s)) = 8" using Suc.prems(1) by (auto simp: ready_def fd_wf_def)
    have pt: "fd_wf (cur_pcb t)" "pcb_file (cur_pcb t) ! 1 = pcb_file (cur_pcb s) ! 1" "pcb_file (cur_pcb t) ! fd = ?f"
      using fd_wf_update [OF wf(1), of ?f fd] wf(2) Suc.prems(3,4) by (simp_all add: t(4) fd_ok_def)
    note rt = array_ready [OF t(2) Suc.prems(1,2) pt(1,2)] and it = since_image [OF t(2) Suc.prems(1,2)]
    define p where "p = poke (buf + of_nat (length ?x)) 0x0A t"
    have sp: "since buf 33 [] t p"
      unfolding p_def by (rule since_poke) (use rt b(2) l in \<open>auto simp: ready_def\<close>)
    have cp: "cur_pcb p = cur_pcb t" by (simp add: p_def poke_def cur_pcb_def)
    have "rd (mem t) buf (length ?x) = ?x"
      using l t(3) take_rd [of "length ?x" 33 "mem t" buf] by (simp add: padded_def)
    then have line: "rd (mem p) buf (Suc (length ?x)) = ?x @ [0x0A]"
      using rd_append_byte [of "length ?x"] l by (simp add: p_def poke_def)
    have rp: "ready n p" by (rule array_ready [OF sp rt it(5)]) (use cp pt(1) in simp_all)
    have k: "0 < int (Suc (length ?x))" "int (Suc (length ?x)) < 2 ^ 31" using l by auto
    have "apart buf (nat (int (Suc (length ?x)))) VIDEO 4000" using apart_mono [OF b(2)] l by simp
    from user_write [OF rp this k b(1), where env = env and b = 33] obtain u where
        u: "ece391_write env 1 buf (int (Suc (length ?x))) p = Some (Ret (int (Suc (length ?x))), u)"
          "since buf 33 (?x @ [0x0A]) p u" "cur_pcb u = cur_pcb p" using line by (auto simp del: of_nat_Suc)
    have su: "since buf 33 (?x @ [0x0A]) s u" using since_trans [OF since_trans [OF t(2) sp] u(2)] by simp
    note iu = since_image [OF su Suc.prems(1,2)]
    have ru: "ready n u" by (rule array_ready [OF su Suc.prems(1,2)]) (use u(3) cp pt in simp_all)
    have "k = dir_size u - Suc i" "Suc i \<le> dir_size u" using i iu(3) by auto
    moreover have "pcb_file (cur_pcb u) ! fd = ?f" using u(3) cp pt(3) by simp
    ultimately obtain v where v: "ls_loop env (int fd) buf u = Some (Ret 0, v)"
        "since buf 33 (listing (?names u [Suc i..<dir_size u])) u v"
      using Suc.hyps(1) [OF _ ru iu(5) Suc.prems(3,4)] by blast
    have names: "?names u [Suc i..<dir_size u] = ?names s [Suc i..<dir_size s]" using iu(3,4) by simp
    have "since buf 33 (listing (?names s [i..<dir_size s])) s v"
      using since_trans [OF su v(2)] False unfolding names up by simp
    moreover have "int (length ?x) \<noteq> 0" "int (length ?x) \<noteq> - 1" "int (length ?x) + 1 \<noteq> - 1" using False by auto
    ultimately show ?thesis using t(1) u(1) v(1) by (subst ls_loop.simps) (simp add: p_def add.commute)
  qed
qed

lemma ls_prints:
  assumes "ready n s" "array_ok buf 33 n s" "lit_ok env buf 33 s ''.''" "lowest_free (cur_pcb s) fd"
    and "read_dentry_by_name (arr (str ''.'')) s = Some d" "file_type d \<noteq> 0"
  shows "\<exists>t. ls_main env buf s = Some (Ret 0, t) \<and> since buf 33 (listing (map (entry_name s) [0..<dir_size s])) s t"
proof -
  have a: "cstr (mem s) (lit env ''.'') (str ''.'')" "lit env ''.'' \<noteq> 0" using assms(3) by (auto simp: lit_ok_def)
  have n: "str ''.'' \<noteq> []" "length (str ''.'') \<le> 32" "0 \<notin> set (str ''.'')" by (simp_all add: str_def)
  have o: "opened_as (str ''.'') d = Some Dir_op" using assms(6) by (simp add: opened_as_def str_def)
  obtain t where t: "ece391_open env (lit env ''.'') s = Some (Ret (int fd), t)" "since buf 33 [] s t"
      "cur_pcb t = (cur_pcb s)\<lparr>pcb_file := (pcb_file (cur_pcb s))[fd := fresh_fd Dir_op 0]\<rparr>"
    using user_open [OF assms(1) a n(1,2) _ o assms(4), of env buf 33] lookup_arr [OF a(1) n(3)] assms(5) by auto
  have wf: "fd_wf (cur_pcb s)" using assms(1) by (simp add: ready_def)
  note od = open_ready [OF wf assms(4) t(3)]
  have fd: "2 \<le> fd" "fd < 8" using assms(4) by (auto simp: lowest_free_def)
  note it = since_image [OF t(2) assms(1,2)]
  have "ready n t" by (rule array_ready [OF t(2) assms(1,2) od(1,2)])
  from ls_loop_prints [OF this it(5) fd, of 0 0 env] obtain u where
      "ls_loop env (int fd) buf t = Some (Ret 0, u)" "since buf 33 (listing (map (entry_name t) [0..<dir_size t])) t u"
    using od(3) by (auto simp: fresh_fd_def)
  moreover have "map (entry_name t) [0..<dir_size t] = map (entry_name s) [0..<dir_size s]" using it(3,4) by simp
  ultimately show ?thesis using t(1) since_trans [OF t(2)] by (auto simp: ls_main_def)
qed

section \<open>A sample machine\<close>

text \<open>An image with the directory itself and one text file, string constants in the program's page, and a
  process with the file's name as its argument.\<close>

definition user_image :: mem where
  "user_image a = (case map_of [(0x400000, 2), (0x400004, 1), (0x400008, 1), (0x400040, 0x2E), (0x400060, 1),
     (0x400080, 0x72), (0x400081, 0x75), (0x400082, 0x6E), (0x4000A0, 2), (0x401000, 3),
     (0x402000, 0x68), (0x402001, 0x69), (0x402002, 0x0A)] a of None \<Rightarrow> 0 | Some b \<Rightarrow> b)"

fun lit_bytes :: "string list \<Rightarrow> u8 list" where
  "lit_bytes [] = []"
| "lit_bytes (v # ws) = str v @ 0 # lit_bytes ws"

fun lit_offset :: "string list \<Rightarrow> string \<Rightarrow> nat" where
  "lit_offset [] w = 0"
| "lit_offset (v # ws) w = (if v = w then 0 else Suc (length v) + lit_offset ws w)"

definition user_pcb :: pcb_t where
  "user_pcb = sample_pcb\<lparr>pcb_file := [sample_fd\<lparr>fd_op := Some Stdin_op\<rparr>, sample_fd\<lparr>fd_op := Some Stdout_op\<rparr>]
     @ replicate 6 (sample_fd\<lparr>fd_flags := 0\<rparr>), pcb_arg := str ''run'' @ [0] @ replicate 125 0\<rparr>"

definition user_kernel :: "string list \<Rightarrow> kernel" where
  "user_kernel ws = sample_kernel\<lparr>mem := wr 0x08050000 (lit_bytes ws) user_image, pcbs := \<lambda>_. user_pcb\<rparr>"

definition sample_env :: "string list \<Rightarrow> kernel user_env" where
  "sample_env ws = \<lparr>polls_at = \<lambda>_. [], lit = \<lambda>w. 0x08050000 + of_nat (lit_offset ws w), regs = \<lambda>_. 0\<rparr>"

lemma lit_offset_bound: "w \<in> set ws \<Longrightarrow> lit_offset ws w + Suc (length w) \<le> length (lit_bytes ws)"
  by (induction ws) auto

lemma lit_bytes_at:
  "w \<in> set ws \<Longrightarrow> take (length w) (drop (lit_offset ws w) (lit_bytes ws)) = str w
    \<and> lit_bytes ws ! (lit_offset ws w + length w) = 0"
  by (induction ws) (auto simp: nth_append)

lemma user_mem_low: "unat a < 0x08050000 \<Longrightarrow> length (lit_bytes ws) \<le> 0x10000 \<Longrightarrow>
    wr 0x08050000 (lit_bytes ws) user_image a = user_image a"
  by (rule wr_other) (auto simp: inr_def unat_u32_minus)

lemma placed_lit:
  assumes "w \<in> set ws" "0 \<notin> set (str w)" "length (lit_bytes ws) \<le> 0x10000" "unat buf + k \<le> 0x08050000"
    and "mem s = wr 0x08050000 (lit_bytes ws) m"
  shows "lit_ok (sample_env ws) buf k s w"
proof -
  let ?o = "lit_offset ws w" and ?n = "length (lit_bytes ws)" and ?b = "0x08050000 :: u32"
  let ?m = "wr ?b (lit_bytes ws) m"
  have o: "?o + Suc (length w) \<le> ?n" by (rule lit_offset_bound [OF assms(1)])
  have r: "rd ?m ?b ?n = lit_bytes ws" using rd_wr_same [of "lit_bytes ws" ?b m] assms(3) by simp
  have "rd ?m (?b + of_nat ?o) (length w) = take (length w) (drop ?o (rd ?m ?b ?n))"
    using o by (intro nth_equalityI) (auto simp: add.assoc)
  then have "rd ?m (?b + of_nat ?o) (length w) = str w" using lit_bytes_at [OF assms(1)] by (simp only: r)
  moreover have "?m (?b + of_nat ?o + of_nat (length w)) = rd ?m ?b ?n ! (?o + length w)"
    using o by (subst nth_rd) (auto simp: add.assoc)
  then have "?m (?b + of_nat ?o + of_nat (length w)) = 0" using lit_bytes_at [OF assms(1)] by (simp only: r)
  ultimately have "cstr ?m (?b + of_nat ?o) (str w)" using o assms(2,3) by (simp add: cstr_def)
  moreover have "apart (?b + of_nat ?o) (Suc (length w)) VIDEO 4000" "apart (?b + of_nat ?o) (Suc (length w)) buf k"
    using o assms(3,4) by (auto simp: apart_def unat_u32_minus unat_u32_plus unat_u32_of_nat)
  moreover have "?b + of_nat ?o \<noteq> 0" using o assms(3) by (auto simp: word_unat_eq_iff unat_u32_plus unat_u32_of_nat)
  ultimately show ?thesis by (simp add: lit_ok_def sample_env_def assms(5))
qed

lemma sample_lit:
  assumes "w \<in> set ws" "0 \<notin> set (str w)" "length (lit_bytes ws) \<le> 0x10000" "unat buf + k \<le> 0x08050000"
  shows "lit_ok (sample_env ws) buf k (user_kernel ws) w"
  by (rule placed_lit [OF assms]) (simp add: user_kernel_def)

lemma user_words:
  "ld32 user_image 0x400000 = 2" "ld32 user_image 0x400004 = 1" "ld32 user_image 0x401000 = 3"
  "ld32 user_image 0x401004 = 0" "ld32 user_image 0x400060 = 1" "ld32 user_image 0x400064 = 0"
  "ld32 user_image 0x4000A0 = 2" "ld32 user_image 0x4000A4 = 0"
  by (simp_all add: ld32_def le32_def user_image_def)

lemma user_kernel_low: "length (lit_bytes ws) \<le> 0x10000 \<Longrightarrow> unat a < 0x08050000 \<Longrightarrow> mem (user_kernel ws) a = user_image a"
  using user_mem_low by (simp add: user_kernel_def)

lemma user_kernel_rd:
  assumes "length (lit_bytes ws) \<le> 0x10000" "unat a + n \<le> 0x08050000"
  shows "rd (mem (user_kernel ws)) a n = rd user_image a n"
proof (rule nth_equalityI)
  fix i assume "i < length (rd (mem (user_kernel ws)) a n)"
  then have "unat (a + of_nat i) < 0x08050000" "i < n" using assms(2) by (simp_all add: unat_u32_plus unat_u32_of_nat)
  then show "rd (mem (user_kernel ws)) a n ! i = rd user_image a n ! i"
    using user_kernel_low [OF assms(1), of "a + of_nat i"] by simp
qed simp

lemma user_kernel_ld32: "length (lit_bytes ws) \<le> 0x10000 \<Longrightarrow> unat a + 4 \<le> 0x08050000 \<Longrightarrow>
    ld32 (mem (user_kernel ws)) a = ld32 user_image a"
  by (rule ld32_cong) (rule user_kernel_rd)

lemma user_kernel_fields [simp]:
  "boot_block (user_kernel ws) = 0x400000" "boot_block_end (user_kernel ws) = 0x401000"
  "data_block_start (user_kernel ws) = 0x402000" "cur_pcb (user_kernel ws) = user_pcb"
  "screen_x (user_kernel ws) = 0" "screen_y (user_kernel ws) = 0"
  by (simp_all add: user_kernel_def sample_kernel_def cur_pcb_def)

lemma user_kernel_image:
  assumes "length (lit_bytes ws) \<le> 0x10000"
  shows "inode_count (user_kernel ws) = 1" "dir_size (user_kernel ws) = 2" "inode_addr (user_kernel ws) 0 = 0x401000"
    "contents (user_kernel ws) 0 = str (''hi'' @ NL)"
    "entry_name (user_kernel ws) 0 = str ''.''" "entry_name (user_kernel ws) 1 = str ''run''"
    "dir_entry (user_kernel ws) 0 = Some (dentry_at user_image 0x400040)"
    "dir_entry (user_kernel ws) 1 = Some (dentry_at user_image 0x400080)"
proof -
  note w = user_kernel_ld32 [OF assms] and l = user_kernel_low [OF assms] and r = user_kernel_rd [OF assms]
  show n: "inode_count (user_kernel ws) = 1" and d: "dir_size (user_kernel ws) = 2"
    and i: "inode_addr (user_kernel ws) 0 = 0x401000"
    by (simp_all add: inode_count_def dir_size_def dir_count_def inode_addr_def w user_words)
  have "[0..<3] = [0, 1, 2 :: nat]" by (simp add: upt_rec)
  moreover have "file_byte (mem (user_kernel ws)) 0x401000 0x402000 p = user_image (0x402000 + of_nat p)" if "p < 3" for p
    using that by (simp add: file_byte_def block_addr_def w user_words l unat_u32_plus unat_u32_of_nat)
  ultimately show "contents (user_kernel ws) 0 = str (''hi'' @ NL)"
    by (simp add: contents_def file_length_def i w user_words) (simp add: user_image_def str_def)
  have c: "cstr user_image 0x400040 (str ''.'')" "cstr user_image 0x400080 (str ''run'')"
    by (simp_all add: cstr_def str_def rd_def upt_rec user_image_def)
  have "cstrn user_image 0x400040 32 = str ''.''" "cstrn user_image 0x400080 32 = str ''run''"
    using cstrn_cstr [OF c(1), of 32] cstrn_cstr [OF c(2), of 32] by (simp_all add: str_def)
  moreover have "cstrn (mem (user_kernel ws)) a 32 = cstrn user_image a 32" if "unat a + 32 \<le> 0x08050000" for a
    using r [OF that] by (simp add: cstrn_def)
  ultimately show "entry_name (user_kernel ws) 0 = str ''.''" "entry_name (user_kernel ws) 1 = str ''run''"
    "dir_entry (user_kernel ws) 0 = Some (dentry_at user_image 0x400040)"
    "dir_entry (user_kernel ws) 1 = Some (dentry_at user_image 0x400080)"
    using d by (simp_all add: entry_name_def dir_entry_addr_def dir_entry_def dentry_at_def w)
qed

lemma user_kernel_ready:
  assumes "length (lit_bytes ws) \<le> 0x10000"
  shows "ready 0x3000 (user_kernel ws)" "lowest_free (cur_pcb (user_kernel ws)) 2"
proof -
  note im = user_kernel_image [OF assms] and w = user_kernel_ld32 [OF assms]
  have "ino = 0" if "ino < 1" for ino :: u32 using that by (simp add: word_less_nat_alt word_unat_eq_iff)
  moreover have "blocks_in 0x3000 0x400000 (mem (user_kernel ws)) 0x401000 0x402000"
    by (auto simp: blocks_in_def file_length_def w user_words block_addr_def intro!: exI [of _ "0x2000"])
  ultimately have "disk 0x3000 (user_kernel ws)" by (auto simp: disk_def im(1-3))
  moreover have "apart VIDEO 4000 0x400000 0x3000" by (simp add: apart_def unat_u32_minus)
  ultimately show "ready 0x3000 (user_kernel ws)"
    by (simp add: ready_def cursor_ok_def fd_wf_def user_pcb_def sample_fd_def fd_ok_def)
  show "lowest_free (cur_pcb (user_kernel ws)) 2" by (simp add: lowest_free_def user_pcb_def sample_fd_def)
qed

lemma user_kernel_lookup:
  assumes "length (lit_bytes ws) \<le> 0x10000"
  shows "read_dentry_by_name (arr (str ''run'')) (user_kernel ws) = Some (dentry_at user_image 0x400080)"
    "read_dentry_by_name (arr (str ''.'')) (user_kernel ws) = Some (dentry_at user_image 0x400040)"
proof -
  note im = user_kernel_image [OF assms]
  have u: "upto0 (arr (str ''run'')) 0 32 = str ''run''" "upto0 (arr (str ''.'')) 0 32 = str ''.''"
    by (simp_all add: upto0_def arr_def str_def upt_rec)
  have ne: "str ''.'' \<noteq> str ''run''" by (simp add: str_def)
  have n: "entry_named (arr (str ''run'')) (user_kernel ws) 1" "\<not> entry_named (arr (str ''run'')) (user_kernel ws) 0"
    "entry_named (arr (str ''.'')) (user_kernel ws) 0" using im(5,6) ne by (simp_all add: entry_named_def u)
  show "read_dentry_by_name (arr (str ''run'')) (user_kernel ws) = Some (dentry_at user_image 0x400080)"
    using root_dir.lookup_first [of 1 "user_kernel ws" "arr (str ''run'')"] n im(2,8) by auto
  show "read_dentry_by_name (arr (str ''.'')) (user_kernel ws) = Some (dentry_at user_image 0x400040)"
    using root_dir.lookup_first [of 0 "user_kernel ws" "arr (str ''.'')"] n im(2,7) by auto
qed

section \<open>Properties\<close>

text \<open>C4: \<open>cat\<close> run with the name of a regular file prints exactly the contents of the file, whatever
  its length, and returns 0: the arguments the shell stored, the lookup, the reads in pieces
  of 1024 bytes with the position kept in the descriptor, the writes to the terminal and the
  end of the file work together.\<close>
theorem cat_correct:
  assumes "ready n s" "array_ok buf 1024 n s" "pcb_arg (cur_pcb s) = name @ [0] @ rest" "0 \<notin> set name" "name \<noteq> []"
    and "length name \<le> 32" "read_dentry_by_name (arr name) s = Some d" "opened_as name d = Some File_op"
    and "of_int (inode_num d) < inode_count s" "lowest_free (cur_pcb s) fd"
  shows "\<exists>t. cat_main env buf s = Some (Ret 0, t)
    \<and> screen_view t = fold put_char (contents s (of_int (inode_num d))) (screen_view s)"
  using cat_prints [OF assms] by (auto simp: since_def)

theorem cat_correct_witness:
  "\<exists>t. cat_main (sample_env []) 0x08049000 (user_kernel []) = Some (Ret 0, t)
     \<and> screen_view t = fold put_char (str (''hi'' @ NL)) (screen_view (user_kernel []))"
proof -
  let ?s = "user_kernel []" and ?d = "dentry_at user_image 0x400080"
  have l: "length (lit_bytes []) \<le> 0x10000" by simp
  have b: "array_ok 0x08049000 1024 0x3000 ?s" by (simp add: array_ok_def apart_def unat_u32_minus)
  have a: "pcb_arg (cur_pcb ?s) = str ''run'' @ [0] @ replicate 125 0" by (simp add: user_pcb_def)
  have n: "0 \<notin> set (str ''run'')" "str ''run'' \<noteq> []" "length (str ''run'') \<le> 32" by (simp_all add: str_def)
  have o: "opened_as (str ''run'') ?d = Some File_op"
    by (simp add: opened_as_def dentry_at_def user_words) (simp add: str_def)
  have i: "of_int (inode_num ?d) = (0 :: u32)" by (simp add: dentry_at_def user_words)
  have "of_int (inode_num ?d) < inode_count ?s" by (simp add: i user_kernel_image [OF l])
  from cat_correct [OF user_kernel_ready(1) [OF l] b a n user_kernel_lookup(1) [OF l] o this user_kernel_ready(2) [OF l]]
  show ?thesis by (simp add: i user_kernel_image [OF l])
qed

text \<open>C9: \<open>ls\<close> prints the names of the directory's entries in order, each cut at 32 characters and on
  a line of its own, up to the first entry with an empty name, and returns 0.\<close>
theorem ls_correct:
  assumes "ready n s" "array_ok buf 33 n s" "lit_ok env buf 33 s ''.''" "lowest_free (cur_pcb s) fd"
    and "read_dentry_by_name (arr (str ''.'')) s = Some d" "file_type d \<noteq> 0"
  shows "\<exists>t. ls_main env buf s = Some (Ret 0, t)
    \<and> screen_view t = fold put_char (listing (map (entry_name s) [0..<dir_size s])) (screen_view s)"
  using ls_prints [OF assms] by (auto simp: since_def)

theorem ls_correct_witness:
  "\<exists>t. ls_main (sample_env [''.'']) 0x08049000 (user_kernel [''.'']) = Some (Ret 0, t)
     \<and> screen_view t = fold put_char (str (''.'' @ NL @ ''run'' @ NL)) (screen_view (user_kernel [''.'']))"
proof -
  let ?s = "user_kernel [''.'']" and ?d = "dentry_at user_image 0x400040"
  have l: "length (lit_bytes [''.'']) \<le> 0x10000" by simp
  have b: "array_ok 0x08049000 33 0x3000 ?s" by (simp add: array_ok_def apart_def unat_u32_minus)
  have lit: "lit_ok (sample_env [''.'']) 0x08049000 33 ?s ''.''"
    by (rule sample_lit [OF _ _ l]) (simp_all add: str_def)
  have k: "file_type ?d \<noteq> 0" by (simp add: dentry_at_def user_words)
  have "[0..<2] = [0, 1 :: nat]" by (simp add: upt_rec)
  then have "listing (map (entry_name ?s) [0..<dir_size ?s]) = listing [str ''.'', str ''run'']"
    using user_kernel_image [OF l] by simp
  also have "\<dots> = str (''.'' @ NL @ ''run'' @ NL)" by (simp add: str_def)
  finally show ?thesis
    using ls_correct [OF user_kernel_ready(1) [OF l] b lit user_kernel_ready(2) [OF l] user_kernel_lookup(2) [OF l] k]
    by simp
qed

end
