(* ===== verification/Syserr.thy ===== *)
theory Syserr
  imports Programs
begin

text \<open>
  \<^verbatim>\<open>syscalls/ece391syserr.c\<close>, the program that tests how the kernel handles bad system calls.  Each
  test makes its calls, prints a line for each that does not fail, and its verdict.
\<close>

section \<open>The program\<close>

definition NEG_FD :: int where "NEG_FD = - 1073741823"
definition BIG_FD :: int where "BIG_FD = 1073741823"
definition BIG_NUM :: int where "BIG_NUM = 1073741823"
definition NEG_NUM :: int where "NEG_NUM = - 1073741823"

definition call_sys :: "'a kernel_scheme user_env \<Rightarrow> int \<Rightarrow> 'a kernel_scheme \<Rightarrow> (outcome \<times> 'a kernel_scheme) option" where
  "call_sys env num s = do_call env (of_int num) (regs env 0) (regs env 1) (regs env 2) s"

text \<open>\<^verbatim>\<open>if (-1 != call) { fail = 2; ece391_fdputs (1, msg); }\<close>\<close>

definition expect_failure :: "'a kernel_scheme user_env \<Rightarrow> (outcome \<times> 'a kernel_scheme) option \<Rightarrow> string \<Rightarrow> int
    \<Rightarrow> (int \<Rightarrow> 'a kernel_scheme \<Rightarrow> (outcome \<times> 'a kernel_scheme) option) \<Rightarrow> (outcome \<times> 'a kernel_scheme) option" where
  "expect_failure env call msg fail rest =
     andthen call (\<lambda>r s.
       if - 1 \<noteq> r then andthen (ece391_fdputs env 1 (lit env (msg @ NL)) s) (\<lambda>_ s. rest 2 s) else rest fail s)"

definition verdict :: "'a kernel_scheme user_env \<Rightarrow> string \<Rightarrow> int \<Rightarrow> 'a kernel_scheme \<Rightarrow> (outcome \<times> 'a kernel_scheme) option" where
  "verdict env name fail s =
     andthen (ece391_fdputs env 1 (lit env (name @ (if fail \<noteq> 0 then '': FAIL'' else '': PASS'') @ NL)) s)
       (\<lambda>_ s. Some (Ret fail, s))"

definition err_neg_fd :: "'a kernel_scheme user_env \<Rightarrow> u32 \<Rightarrow> 'a kernel_scheme \<Rightarrow> (outcome \<times> 'a kernel_scheme) option" where
  "err_neg_fd env buf s =
     expect_failure env (ece391_read env NEG_FD buf 31 s) ''read fail'' 0 (\<lambda>fail s.
     expect_failure env (ece391_write env NEG_FD buf 31 s) ''write fail'' fail (\<lambda>fail s.
     expect_failure env (ece391_close env NEG_FD s) ''close fail'' fail (\<lambda>fail s.
     verdict env ''err_neg_fd'' fail s)))"

definition err_big_fd :: "'a kernel_scheme user_env \<Rightarrow> u32 \<Rightarrow> 'a kernel_scheme \<Rightarrow> (outcome \<times> 'a kernel_scheme) option" where
  "err_big_fd env buf s =
     expect_failure env (ece391_read env BIG_FD buf 31 s) ''read fail'' 0 (\<lambda>fail s.
     expect_failure env (ece391_write env BIG_FD buf 31 s) ''write fail'' fail (\<lambda>fail s.
     expect_failure env (ece391_close env BIG_FD s) ''close fail'' fail (\<lambda>fail s.
     verdict env ''err_big_fd'' fail s)))"

fun open_dots :: "'a kernel_scheme user_env \<Rightarrow> nat \<Rightarrow> int \<Rightarrow> 'a kernel_scheme \<Rightarrow> (outcome \<times> 'a kernel_scheme) option" where
  "open_dots env 0 cnt s = Some (Ret cnt, s)"
| "open_dots env (Suc k) cnt s =
     andthen (ece391_open env (lit env ''.'') s) (\<lambda>r s. open_dots env k (if - 1 = r then cnt + 1 else cnt) s)"

fun close_each :: "'a kernel_scheme user_env \<Rightarrow> nat list \<Rightarrow> 'a kernel_scheme \<Rightarrow> (outcome \<times> 'a kernel_scheme) option" where
  "close_each env [] s = Some (Ret 0, s)"
| "close_each env (i # is) s = andthen (ece391_close env (int i) s) (\<lambda>_ s. close_each env is s)"

definition err_open_lots :: "'a kernel_scheme user_env \<Rightarrow> 'a kernel_scheme \<Rightarrow> (outcome \<times> 'a kernel_scheme) option" where
  "err_open_lots env s =
     andthen (open_dots env 7 0 s) (\<lambda>cnt s.
     andthen (close_each env [2..<8] s) (\<lambda>_ s.
       if cnt = 1
       then andthen (ece391_fdputs env 1 (lit env (''err_open_lots: PASS'' @ NL)) s) (\<lambda>_ s. Some (Ret 0, s))
       else andthen (ece391_fdputs env 1 (lit env (''err_open_lots: FAIL'' @ NL)) s) (\<lambda>_ s. Some (Ret 2, s))))"

definition err_open :: "'a kernel_scheme user_env \<Rightarrow> 'a kernel_scheme \<Rightarrow> (outcome \<times> 'a kernel_scheme) option" where
  "err_open env s =
     expect_failure env (ece391_open env (lit env ''helloo'') s) (CHR 0x27 # ''helloo'' @ CHR 0x27 # '' fail'') 0 (\<lambda>fail s.
     expect_failure env (ece391_open env (lit env ''shel'') s) (CHR 0x27 # ''shel'' @ CHR 0x27 # '' fail'') fail (\<lambda>fail s.
     expect_failure env (ece391_open env (lit env '''') s) ''empty string fail'' fail (\<lambda>fail s.
     verdict env ''err_open'' fail s)))"

fun expect_each :: "'a kernel_scheme user_env \<Rightarrow> (nat \<Rightarrow> 'a kernel_scheme \<Rightarrow> (outcome \<times> 'a kernel_scheme) option) \<Rightarrow> string
    \<Rightarrow> nat list \<Rightarrow> int \<Rightarrow> 'a kernel_scheme \<Rightarrow> (outcome \<times> 'a kernel_scheme) option" where
  "expect_each env call msg [] fail s = Some (Ret fail, s)"
| "expect_each env call msg (i # is) fail s =
     expect_failure env (call i s) msg fail (\<lambda>fail s. expect_each env call msg is fail s)"

definition err_unopened :: "'a kernel_scheme user_env \<Rightarrow> u32 \<Rightarrow> 'a kernel_scheme \<Rightarrow> (outcome \<times> 'a kernel_scheme) option" where
  "err_unopened env buf s =
     andthen (expect_each env (\<lambda>i. ece391_close env (int i)) ''close unopened or invalid fd fail'' [0..<8] 0 s) (\<lambda>fail s.
     andthen (expect_each env (\<lambda>i. ece391_read env (int i) buf 31) ''read from unopened fd fail'' [2..<8] fail s) (\<lambda>fail s.
     andthen (expect_each env (\<lambda>i. ece391_write env (int i) buf 31) ''write to unopened fd fail'' [2..<8] fail s) (\<lambda>fail s.
     verdict env ''err_unopened'' fail s)))"

definition err_vidmap :: "'a kernel_scheme user_env \<Rightarrow> 'a kernel_scheme \<Rightarrow> (outcome \<times> 'a kernel_scheme) option" where
  "err_vidmap env s =
     expect_failure env (ece391_vidmap env 0 s) ''Null pointer fail'' 0 (\<lambda>fail s.
     expect_failure env (ece391_vidmap env 0x400000 s) ''Kernel pointer fail fail'' fail (\<lambda>fail s.
     verdict env ''err_vidmap'' fail s))"

definition err_stdin_out :: "'a kernel_scheme user_env \<Rightarrow> u32 \<Rightarrow> 'a kernel_scheme \<Rightarrow> (outcome \<times> 'a kernel_scheme) option" where
  "err_stdin_out env buf s =
     expect_failure env (ece391_write env 0 buf 31 s) ''write to stdin fail'' 0 (\<lambda>fail s.
     expect_failure env (ece391_read env 1 buf 31 s) ''read from stdout fail'' fail (\<lambda>fail s.
     verdict env ''err_stdin_out'' fail s))"

definition err_syscall_num :: "'a kernel_scheme user_env \<Rightarrow> 'a kernel_scheme \<Rightarrow> (outcome \<times> 'a kernel_scheme) option" where
  "err_syscall_num env s =
     expect_failure env (call_sys env BIG_NUM s) ''syscall 0 fail'' 0 (\<lambda>fail s.
     expect_failure env (call_sys env NEG_NUM s) ''big num syscall fail'' fail (\<lambda>fail s.
     expect_failure env (call_sys env 0 s) ''neg num syscall fail'' fail (\<lambda>fail s.
     verdict env ''err_syscall_num'' fail s)))"

text \<open>\<^verbatim>\<open>case 0\<close> of \<open>main\<close> runs all tests; the arrays of the tests have the addresses \<open>buf1\<close> to \<open>buf7\<close>.\<close>

definition err_all :: "'a kernel_scheme user_env \<Rightarrow> (nat \<Rightarrow> u32) \<Rightarrow> 'a kernel_scheme \<Rightarrow> (outcome \<times> 'a kernel_scheme) option" where
  "err_all env bufs s =
     andthen (err_neg_fd env (bufs 1) s) (\<lambda>f1 s. andthen (err_big_fd env (bufs 2) s) (\<lambda>f2 s.
     andthen (err_open_lots env s) (\<lambda>f3 s. andthen (err_open env s) (\<lambda>f4 s.
     andthen (err_unopened env (bufs 5) s) (\<lambda>f5 s. andthen (err_vidmap env s) (\<lambda>f6 s.
     andthen (err_stdin_out env (bufs 7) s) (\<lambda>f7 s. andthen (err_syscall_num env s) (\<lambda>f8 s.
       let fail = f1 + f2 + f3 + f4 + f5 + f6 + f7 + f8
       in if fail \<noteq> 0
          then andthen (ece391_fdputs env 1 (lit env (NL @ ''Overall Tests: FAIL'' @ NL)) s) (\<lambda>_ s. Some (Ret fail, s))
          else andthen (ece391_fdputs env 1 (lit env (NL @ ''Overall Tests: PASS'' @ NL)) s)
            (\<lambda>_ s. Some (Ret fail, s))))))))))"

definition syserr_main :: "'a kernel_scheme user_env \<Rightarrow> (nat \<Rightarrow> u32) \<Rightarrow> 'a kernel_scheme \<Rightarrow> (outcome \<times> 'a kernel_scheme) option" where
  "syserr_main env bufs s =
     andthen (ece391_fdputs env 1 (lit env ''Choose from tests 1-8. 0 to run all: '') s) (\<lambda>_ s.
     andthen (ece391_read env 0 (bufs 0) 127 s) (\<lambda>cnt s.
       if cnt = - 1
       then andthen (ece391_fdputs env 1 (lit env (''Can't read test #'' @ NL)) s) (\<lambda>_ s. Some (Ret 2, s))
       else let select = uint (mem s (bufs 0)) - 0x30
            in if select = 0 then err_all env bufs s
               else if select = 1 then err_neg_fd env (bufs 1) s
               else if select = 2 then err_big_fd env (bufs 2) s
               else if select = 3 then err_open_lots env s
               else if select = 4 then err_open env s
               else if select = 5 then err_unopened env (bufs 5) s
               else if select = 6 then err_vidmap env s
               else if select = 7 then err_stdin_out env (bufs 7) s
               else if select = 8 then err_syscall_num env s
               else andthen (ece391_fdputs env 1 (lit env ''Invalid test number. Choose from tests 1-8 or 0'') s)
                      (\<lambda>_ s. Some (Ret 0, s))))"

section \<open>Calls that the kernel refuses\<close>

lemma expect_refused: "r = Some (Ret (- 1), s) \<Longrightarrow> expect_failure env r msg fail rest = rest fail s"
  by (simp add: expect_failure_def)

lemma refused_open:
  "cstr (mem s) a name \<Longrightarrow> name = [] \<or> 32 < length name \<or> read_dentry_by_name (at (mem s) a) s = None \<Longrightarrow>
    ece391_open env a s = Some (Ret (- 1), s)"
  by (simp add: user_calls sys_open_refused result_of_def returns_def)

lemma refused_rw:
  assumes "int32 fd" "fd < 0 \<or> 7 < fd \<or> fd_flags (pcb_file (cur_pcb s) ! nat fd) = 0"
  shows "ece391_read env fd buf 31 s = Some (Ret (- 1), s)" "ece391_write env fd buf 31 s = Some (Ret (- 1), s)"
  using sys_rw_refused [of buf 31 fd s] assms by (auto simp: user_calls returns_def)

lemma refused_close:
  "int32 fd \<Longrightarrow> fd < 2 \<or> 7 < fd \<or> fd_flags (pcb_file (cur_pcb s) ! nat fd) \<noteq> 1 \<Longrightarrow>
    ece391_close env fd s = Some (Ret (- 1), s)"
  by (auto simp: user_calls sys_close_refused returns_def)

lemma refused_number: "8 < n \<or> n < 1 \<Longrightarrow> do_call env n a b c s = Some (Ret (- 1), s)"
  by (auto simp: do_call_def syscall_handler_def returns_def)

lemma refused_vidmap: "p = 0 \<or> ld32 (mem s) p \<noteq> 0 \<Longrightarrow> ece391_vidmap env p s = Some (Ret (- 1), s)"
  by (auto simp: user_calls returns_def vidmap_def Let_def low8_def word_gt_0)

section \<open>The tests pass\<close>

text \<open>What the tests need: nothing open but standard input and output, no files with the two names that
  the program expects not to exist, and a word other than 0 at 4 MB, in the kernel.\<close>

definition syserr_lits :: "string list" where
  "syserr_lits = [''.'', ''helloo'', ''shel'', '''', ''err_neg_fd: PASS'' @ NL, ''err_big_fd: PASS'' @ NL,
     ''err_open_lots: PASS'' @ NL, ''err_open: PASS'' @ NL, ''err_unopened: PASS'' @ NL, ''err_vidmap: PASS'' @ NL,
     ''err_stdin_out: PASS'' @ NL, ''err_syscall_num: PASS'' @ NL, NL @ ''Overall Tests: PASS'' @ NL]"

definition standard_fds :: "pcb_t \<Rightarrow> bool" where
  "standard_fds p \<longleftrightarrow> fd_op (pcb_file p ! 0) = Some Stdin_op \<and> fd_op (pcb_file p ! 1) = Some Stdout_op
     \<and> (\<forall>i < 2. fd_flags (pcb_file p ! i) = 1) \<and> (\<forall>i. 2 \<le> i \<and> i < 8 \<longrightarrow> fd_flags (pcb_file p ! i) = 0)"

definition testable :: "nat \<Rightarrow> 'a kernel_scheme user_env \<Rightarrow> 'a kernel_scheme \<Rightarrow> bool" where
  "testable n env s \<longleftrightarrow> ready n s \<and> standard_fds (cur_pcb s) \<and> (\<forall>w \<in> set syserr_lits. lit_ok env 0 0 s w)
     \<and> (\<exists>d. read_dentry_by_name (arr (str ''.'')) s = Some d \<and> file_type d \<noteq> 0)
     \<and> read_dentry_by_name (arr (str ''helloo'')) s = None \<and> read_dentry_by_name (arr (str ''shel'')) s = None
     \<and> ld32 (mem s) 0x400000 \<noteq> 0"

definition passes :: "nat \<Rightarrow> 'a kernel_scheme user_env \<Rightarrow> ('a kernel_scheme \<Rightarrow> (outcome \<times> 'a kernel_scheme) option)
    \<Rightarrow> string \<Rightarrow> bool" where
  "passes n env test text \<longleftrightarrow> (\<forall>s. testable n env s \<longrightarrow>
     (\<exists>t. test s = Some (Ret 0, t) \<and> since 0 0 (str text) s t \<and> testable n env t))"

lemma testable_since:
  assumes "since 0 0 x s t" "testable n env s" "fd_wf (cur_pcb t)" "standard_fds (cur_pcb t)"
  shows "testable n env t"
proof -
  have r: "ready n s" using assms(2) by (simp add: testable_def)
  have a: "apart 0 0 (boot_block s) n" by (simp add: apart_def)
  have d: "disk n s" "apart VIDEO 4000 (boot_block s) n" using r by (auto simp: ready_def)
  note l = disk_lookup [OF d(1) since_disk(1) [OF assms(1) d a]]
  have "ready n t"
    using assms(1,3,4) since_disk [OF assms(1) d a] d(2)
    by (auto simp: ready_def since_def standard_fds_def)
  moreover have "ld32 (mem t) 0x400000 = ld32 (mem s) 0x400000"
  proof (rule ld32_cong, rule nth_equalityI)
    have v: "apart 0x400000 4 VIDEO 4000" by (simp add: apart_def unat_u32_minus)
    have e: "apart 0x400000 4 0 0" by (simp add: apart_def)
    show "rd (mem t) 0x400000 4 ! i = rd (mem s) 0x400000 4 ! i" if "i < length (rd (mem t) 0x400000 4)" for i
      using since_bytes [OF assms(1) v e, of i] that by simp
  qed simp
  ultimately show ?thesis using assms(2,4) since_lit [OF assms(1)] l by (auto simp: testable_def)
qed

lemma testable_print:
  assumes "testable n env s" "w \<in> set syserr_lits" "w \<noteq> []" "length w < 2 ^ 31"
  shows "\<exists>t. ece391_fdputs env 1 (lit env w) s = Some (Ret (int (length w)), t) \<and> since 0 0 (str w) s t \<and> testable n env t"
proof -
  have r: "ready n s" "lit_ok env 0 0 s w" using assms(1,2) by (auto simp: testable_def)
  from user_text [OF r assms(3,4)] obtain t where t: "ece391_fdputs env 1 (lit env w) s = Some (Ret (int (length w)), t)"
      "since 0 0 (str w) s t" "cur_pcb t = cur_pcb s" by blast
  have "testable n env t"
    by (rule testable_since [OF t(2) assms(1)]) (use assms(1) t(3) in \<open>simp_all add: testable_def ready_def\<close>)
  then show ?thesis using t by blast
qed

lemma passes_verdict:
  assumes "\<And>s. testable n env s \<Longrightarrow> test s = verdict env name 0 s" "name @ '': PASS'' @ NL \<in> set syserr_lits"
    and "length name < 2 ^ 30"
  shows "passes n env test (name @ '': PASS'' @ NL)"
  unfolding passes_def
proof (intro allI impI)
  fix s assume s: "testable n env s"
  from testable_print [OF s assms(2)] assms(3) obtain t where
      "ece391_fdputs env 1 (lit env (name @ '': PASS'' @ NL)) s = Some (Ret (int (length (name @ '': PASS'' @ NL))), t)"
      "since 0 0 (str (name @ '': PASS'' @ NL)) s t" "testable n env t" by auto
  then show "\<exists>t. test s = Some (Ret 0, t) \<and> since 0 0 (str (name @ '': PASS'' @ NL)) s t \<and> testable n env t"
    by (auto simp: assms(1) [OF s] verdict_def)
qed

lemma testable_fds:
  assumes "testable n env s"
  shows "i < 2 \<Longrightarrow> fd_flags (pcb_file (cur_pcb s) ! i) = 1" "2 \<le> i \<Longrightarrow> i < 8 \<Longrightarrow> fd_flags (pcb_file (cur_pcb s) ! i) = 0"
    "fd_op (pcb_file (cur_pcb s) ! 0) = Some Stdin_op" "fd_op (pcb_file (cur_pcb s) ! 1) = Some Stdout_op"
  using assms by (auto simp: testable_def standard_fds_def)

lemma pass_neg_fd: "passes n env (err_neg_fd env buf) (''err_neg_fd: PASS'' @ NL)"
proof -
  have "err_neg_fd env buf s = verdict env ''err_neg_fd'' 0 s" for s
    unfolding err_neg_fd_def by (simp add: expect_refused refused_rw refused_close NEG_FD_def)
  then show ?thesis using passes_verdict [of n env "err_neg_fd env buf" "''err_neg_fd''"] by (simp add: syserr_lits_def)
qed

lemma pass_big_fd: "passes n env (err_big_fd env buf) (''err_big_fd: PASS'' @ NL)"
proof -
  have "err_big_fd env buf s = verdict env ''err_big_fd'' 0 s" for s
    unfolding err_big_fd_def by (simp add: expect_refused refused_rw refused_close BIG_FD_def)
  then show ?thesis using passes_verdict [of n env "err_big_fd env buf" "''err_big_fd''"] by (simp add: syserr_lits_def)
qed

lemma pass_open: "passes n env (err_open env) (''err_open: PASS'' @ NL)"
proof -
  have "err_open env s = verdict env ''err_open'' 0 s" if s: "testable n env s" for s
  proof -
    have z: "0 \<notin> set (str ''helloo'')" "0 \<notin> set (str ''shel'')" "str '''' = []" by (simp_all add: str_def)
    have c: "cstr (mem s) (lit env ''helloo'') (str ''helloo'')" "cstr (mem s) (lit env ''shel'') (str ''shel'')"
        "cstr (mem s) (lit env '''') (str '''')"
      using s by (simp_all add: testable_def syserr_lits_def lit_ok_def)
    have n: "read_dentry_by_name (arr (str ''helloo'')) s = None" "read_dentry_by_name (arr (str ''shel'')) s = None"
      using s by (simp_all add: testable_def)
    have "ece391_open env (lit env ''helloo'') s = Some (Ret (- 1), s)"
        "ece391_open env (lit env ''shel'') s = Some (Ret (- 1), s)" "ece391_open env (lit env '''') s = Some (Ret (- 1), s)"
      using refused_open [OF c(1), of env] refused_open [OF c(2), of env] refused_open [OF c(3), of env]
        lookup_arr [OF c(1) z(1)] lookup_arr [OF c(2) z(2)] n z(3) by simp_all
    then show ?thesis unfolding err_open_def by (simp add: expect_refused)
  qed
  then show ?thesis using passes_verdict [of n env "err_open env" "''err_open''"] by (simp add: syserr_lits_def)
qed

lemma expect_each_refused:
  "(\<And>i. i \<in> set is \<Longrightarrow> call i s = Some (Ret (- 1), s)) \<Longrightarrow> expect_each env call msg is fail s = Some (Ret fail, s)"
  by (induction "is") (simp_all add: expect_refused)

lemma pass_unopened: "passes n env (err_unopened env buf) (''err_unopened: PASS'' @ NL)"
proof -
  have "err_unopened env buf s = verdict env ''err_unopened'' 0 s" if s: "testable n env s" for s
  proof -
    note f = testable_fds [OF s]
    have "expect_each env (\<lambda>i. ece391_close env (int i)) m [0..<8] 0 s = Some (Ret 0, s)"
      "expect_each env (\<lambda>i. ece391_read env (int i) buf 31) m' [2..<8] 0 s = Some (Ret 0, s)"
      "expect_each env (\<lambda>i. ece391_write env (int i) buf 31) m'' [2..<8] 0 s = Some (Ret 0, s)" for m m' m''
      using f(2) by (auto intro!: expect_each_refused refused_close refused_rw)
    then show ?thesis unfolding err_unopened_def by simp
  qed
  then show ?thesis using passes_verdict [of n env "err_unopened env buf" "''err_unopened''"] by (simp add: syserr_lits_def)
qed

lemma pass_vidmap: "passes n env (err_vidmap env) (''err_vidmap: PASS'' @ NL)"
proof -
  have "err_vidmap env s = verdict env ''err_vidmap'' 0 s" if "testable n env s" for s
    using that unfolding err_vidmap_def by (simp add: expect_refused refused_vidmap testable_def)
  then show ?thesis using passes_verdict [of n env "err_vidmap env" "''err_vidmap''"] by (simp add: syserr_lits_def)
qed

lemma pass_stdin_out: "passes n env (err_stdin_out env buf) (''err_stdin_out: PASS'' @ NL)"
proof -
  have "err_stdin_out env buf s = verdict env ''err_stdin_out'' 0 s" if s: "testable n env s" for s
  proof -
    note f = testable_fds [OF s]
    have "ece391_write env 0 buf 31 s = Some (Ret (- 1), s)" "ece391_read env 1 buf 31 s = Some (Ret (- 1), s)"
      using sys_rw_direction(2) [of s 0 buf 31] sys_rw_direction(1) [of s 1] f(3,4)
      by (simp_all add: user_calls returns_def)
    then show ?thesis unfolding err_stdin_out_def by (simp add: expect_refused)
  qed
  then show ?thesis using passes_verdict [of n env "err_stdin_out env buf" "''err_stdin_out''"] by (simp add: syserr_lits_def)
qed

lemma pass_syscall_num: "passes n env (err_syscall_num env) (''err_syscall_num: PASS'' @ NL)"
proof -
  have "err_syscall_num env s = verdict env ''err_syscall_num'' 0 s" for s
    unfolding err_syscall_num_def
    by (simp add: expect_refused call_sys_def refused_number BIG_NUM_def NEG_NUM_def word_less_nat_alt)
  then show ?thesis using passes_verdict [of n env "err_syscall_num env" "''err_syscall_num''"] by (simp add: syserr_lits_def)
qed

section \<open>Opening too many files\<close>

lemma user_close:
  assumes "fd_wf (cur_pcb s)" "cursor_ok s" "2 \<le> fd" "fd < 8"
  shows "\<exists>r t. ece391_close env (int fd) s = Some (Ret r, t) \<and> since 0 0 [] s t \<and> fd_wf (cur_pcb t)
    \<and> fd_flags (pcb_file (cur_pcb t) ! fd) = 0 \<and> (\<forall>i. i \<noteq> fd \<longrightarrow> pcb_file (cur_pcb t) ! i = pcb_file (cur_pcb s) ! i)"
proof -
  let ?f = "pcb_file (cur_pcb s) ! fd"
  have l: "length (pcb_file (cur_pcb s)) = 8" using assms(1) by (simp add: fd_wf_def)
  have ok: "fd_ok ?f" using assms(1,4) l by (simp add: fd_wf_def)
  show ?thesis
  proof (cases "fd_flags ?f = 1")
    case False
    then have "fd_flags ?f = 0" using ok by (simp add: fd_ok_def)
    moreover have "ece391_close env (int fd) s = Some (Ret (- 1), s)" using False assms(4) by (intro refused_close) auto
    ultimately show ?thesis using assms(1) since_refl [OF assms(2)] by blast
  next
    case True
    obtain ops where ops: "fd_op ?f = Some ops" using ok True by (auto simp: fd_ok_def)
    let ?g = "?f\<lparr>fd_flags := 0, fd_inode := 0, fd_pos := 0\<rparr>"
    obtain t where t: "ece391_close env (int fd) s = Some (Ret 0, t)" "since 0 0 [] s t"
        "cur_pcb t = (cur_pcb s)\<lparr>pcb_file := (pcb_file (cur_pcb s))[fd := ?g]\<rparr>"
      using user_close_open [OF assms(2-4) True ops] by blast
    have "fd_wf (cur_pcb t)" unfolding t(3) by (rule fd_wf_update [OF assms(1)]) (simp add: fd_ok_def)
    then show ?thesis using t l assms(4) by auto
  qed
qed

lemma close_each_all:
  assumes "fd_wf (cur_pcb s)" "cursor_ok s" "\<forall>i \<in> set is. 2 \<le> i \<and> i < 8"
  shows "\<exists>t. close_each env is s = Some (Ret 0, t) \<and> since 0 0 [] s t \<and> fd_wf (cur_pcb t)
    \<and> (\<forall>i \<in> set is. fd_flags (pcb_file (cur_pcb t) ! i) = 0)
    \<and> (\<forall>i. i \<notin> set is \<longrightarrow> pcb_file (cur_pcb t) ! i = pcb_file (cur_pcb s) ! i)"
  using assms
proof (induction "is" arbitrary: s)
  case Nil
  then show ?case using since_refl by auto
next
  case (Cons i "is")
  have i: "2 \<le> i" "i < 8" using Cons.prems(3) by auto
  obtain r t where t: "ece391_close env (int i) s = Some (Ret r, t)" "since 0 0 [] s t" "fd_wf (cur_pcb t)"
      "fd_flags (pcb_file (cur_pcb t) ! i) = 0" "\<forall>j. j \<noteq> i \<longrightarrow> pcb_file (cur_pcb t) ! j = pcb_file (cur_pcb s) ! j"
    using user_close [OF Cons.prems(1,2) i] by blast
  have "cursor_ok t" using t(2) by (simp add: since_def)
  from Cons.IH [OF t(3) this] Cons.prems(3) obtain u where
      u: "close_each env is t = Some (Ret 0, u)" "since 0 0 [] t u" "fd_wf (cur_pcb u)"
        "\<forall>j \<in> set is. fd_flags (pcb_file (cur_pcb u) ! j) = 0"
        "\<forall>j. j \<notin> set is \<longrightarrow> pcb_file (cur_pcb u) ! j = pcb_file (cur_pcb t) ! j" by auto
  have "fd_flags (pcb_file (cur_pcb u) ! i) = 0" using t(4) u(4,5) by (cases "i \<in> set is") auto
  then show ?case using t u since_trans [OF t(2) u(2)] by auto
qed

text \<open>All descriptors below \<open>fd\<close> are in use, the others are free.\<close>

definition open_upto :: "pcb_t \<Rightarrow> nat \<Rightarrow> bool" where
  "open_upto p fd \<longleftrightarrow> 2 \<le> fd \<and> fd \<le> 8 \<and> fd_op (pcb_file p ! 0) = Some Stdin_op \<and> fd_op (pcb_file p ! 1) = Some Stdout_op
     \<and> (\<forall>i < fd. fd_flags (pcb_file p ! i) = 1) \<and> (\<forall>i. fd \<le> i \<and> i < 8 \<longrightarrow> fd_flags (pcb_file p ! i) = 0)"

lemma open_upto_standard: "open_upto p 2 = standard_fds p"
  by (auto simp: open_upto_def standard_fds_def)

lemma open_upto_free: "open_upto p fd \<Longrightarrow> fd < 8 \<Longrightarrow> lowest_free p fd"
  by (auto simp: open_upto_def lowest_free_def)

lemma open_upto_next:
  assumes "open_upto p fd" "fd < 8" "length (pcb_file p) = 8"
  shows "open_upto (p\<lparr>pcb_file := (pcb_file p)[fd := fresh_fd ops ino]\<rparr>) (Suc fd)"
  using assms by (auto simp: open_upto_def fresh_fd_def nth_list_update)

lemma dot_refused_full:
  assumes "cstr (mem s) a (str ''.'')" "read_dentry_by_name (at (mem s) a) s = Some d" "file_type d \<noteq> 0"
    and "open_upto (cur_pcb s) 8"
  shows "ece391_open env a s = Some (Ret (- 1), s)"
proof -
  have n: "str ''.'' \<noteq> []" "length (str ''.'') \<le> 32" by (simp_all add: str_def)
  have o: "opened_as (str ''.'') d = Some Dir_op" using assms(3) by (simp add: opened_as_def str_def)
  have "open_slot 6 2 (cur_pcb s) = 8" using open_slot_full [of 2 6 "cur_pcb s"] assms(4) by (simp add: open_upto_def)
  moreover have "first_closed 8 0 (cur_pcb s) = - 1"
    using assms(4) by (intro first_closed_full) (auto simp: open_upto_def)
  ultimately have "sys_open a s = Some (- 1, s)"
    using sys_open_name [OF assms(1) n assms(2)] assms(2)
    by (auto simp: o open_as_def open_dir_def Let_def)
  then show ?thesis by (simp add: user_calls result_of_def returns_def)
qed

lemma open_dots_all:
  assumes "ready n s" "open_upto (cur_pcb s) fd" "lit_ok env 0 0 s ''.''"
    and "read_dentry_by_name (arr (str ''.'')) s = Some d" "file_type d \<noteq> 0"
  shows "\<exists>t. open_dots env (Suc (8 - fd)) cnt s = Some (Ret (cnt + 1), t) \<and> since 0 0 [] s t
    \<and> fd_wf (cur_pcb t) \<and> open_upto (cur_pcb t) 8"
  using assms
proof (induction "8 - fd" arbitrary: fd s cnt)
  case 0
  then have u: "open_upto (cur_pcb s) 8" by (auto simp: open_upto_def dest: le_antisym)
  have c: "cstr (mem s) (lit env ''.'') (str ''.'')" using "0.prems"(3) by (simp add: lit_ok_def)
  have "0 \<notin> set (str ''.'')" by (simp add: str_def)
  then have "ece391_open env (lit env ''.'') s = Some (Ret (- 1), s)"
    using dot_refused_full [OF c _ "0.prems"(5) u] lookup_arr [OF c] "0.prems"(4) by simp
  moreover have "fd_wf (cur_pcb s)" "cursor_ok s" using "0.prems"(1) by (auto simp: ready_def)
  ultimately show ?case using u since_refl "0.hyps" by (auto simp flip: "0.hyps")
next
  case (Suc k)
  have fd: "fd < 8" "k = 8 - Suc fd" using Suc.hyps(2) by auto
  have c: "cstr (mem s) (lit env ''.'') (str ''.'')" "lit env ''.'' \<noteq> 0" using Suc.prems(3) by (auto simp: lit_ok_def)
  have n: "str ''.'' \<noteq> []" "length (str ''.'') \<le> 32" "0 \<notin> set (str ''.'')" by (simp_all add: str_def)
  have o: "opened_as (str ''.'') d = Some Dir_op" using Suc.prems(5) by (simp add: opened_as_def str_def)
  obtain t where t: "ece391_open env (lit env ''.'') s = Some (Ret (int fd), t)" "since 0 0 [] s t"
      "cur_pcb t = (cur_pcb s)\<lparr>pcb_file := (pcb_file (cur_pcb s))[fd := fresh_fd Dir_op 0]\<rparr>"
    using user_open [OF Suc.prems(1) c n(1,2) _ o open_upto_free [OF Suc.prems(2) fd(1)], of env 0 0]
      lookup_arr [OF c(1) n(3)] Suc.prems(4) by auto
  have wf: "fd_wf (cur_pcb s)" "length (pcb_file (cur_pcb s)) = 8" using Suc.prems(1) by (auto simp: ready_def fd_wf_def)
  note od = open_ready [OF wf(1) open_upto_free [OF Suc.prems(2) fd(1)] t(3)]
  have a: "apart 0 0 (boot_block s) n" by (simp add: apart_def)
  have rt: "ready n t" by (rule since_ready [OF t(2) Suc.prems(1) a od(1,2)])
  have dk: "disk n s" "apart VIDEO 4000 (boot_block s) n" using Suc.prems(1) by (auto simp: ready_def)
  have "read_dentry_by_name (arr (str ''.'')) t = Some d"
    using disk_lookup [OF dk(1) since_disk(1) [OF t(2) dk a]] Suc.prems(4) by simp
  moreover have "open_upto (cur_pcb t) (Suc fd)" unfolding t(3) by (rule open_upto_next [OF Suc.prems(2) fd(1) wf(2)])
  ultimately obtain u where "open_dots env (Suc k) cnt t = Some (Ret (cnt + 1), u)" "since 0 0 [] t u"
      "fd_wf (cur_pcb u)" "open_upto (cur_pcb u) 8"
    using Suc.hyps(1) [OF fd(2) rt _ since_lit [OF t(2) Suc.prems(3)] _ Suc.prems(5), of cnt] fd(2) by auto
  moreover have "Suc (8 - fd) = Suc (Suc k)" using Suc.hyps(2) by simp
  ultimately show ?case using t(1) since_trans [OF t(2)] by (auto simp del: open_dots.simps(1))
qed

lemma pass_open_lots: "passes n env (err_open_lots env) (''err_open_lots: PASS'' @ NL)"
  unfolding passes_def
proof (intro allI impI)
  fix s assume s: "testable n env s"
  then obtain d where d: "read_dentry_by_name (arr (str ''.'')) s = Some d" "file_type d \<noteq> 0"
    and h: "ready n s" "open_upto (cur_pcb s) 2" "lit_ok env 0 0 s ''.''"
    by (auto simp: testable_def syserr_lits_def open_upto_standard)
  from open_dots_all [OF h d, of 0] obtain t where t: "open_dots env 7 0 s = Some (Ret 1, t)" "since 0 0 [] s t"
      "fd_wf (cur_pcb t)" "open_upto (cur_pcb t) 8" by auto
  have "cursor_ok t" using t(2) by (simp add: since_def)
  from close_each_all [OF t(3) this, of "[2..<8]" env] obtain u where
      u: "close_each env [2..<8] t = Some (Ret 0, u)" "since 0 0 [] t u" "fd_wf (cur_pcb u)"
        "\<forall>i \<in> set [2..<8]. fd_flags (pcb_file (cur_pcb u) ! i) = 0"
        "\<forall>i. i \<notin> set [2..<8] \<longrightarrow> pcb_file (cur_pcb u) ! i = pcb_file (cur_pcb t) ! i" by auto
  have su: "since 0 0 [] s u" using since_trans [OF t(2) u(2)] by simp
  have "standard_fds (cur_pcb u)" using t(4) u(4,5) by (auto simp: standard_fds_def open_upto_def)
  then have gu: "testable n env u" by (rule testable_since [OF su s u(3)])
  from testable_print [OF gu, of "''err_open_lots: PASS'' @ NL"] obtain v where
      "ece391_fdputs env 1 (lit env (''err_open_lots: PASS'' @ NL)) u = Some (Ret 20, v)"
      "since 0 0 (str (''err_open_lots: PASS'' @ NL)) u v" "testable n env v" by (auto simp: syserr_lits_def)
  then show "\<exists>t. err_open_lots env s = Some (Ret 0, t) \<and> since 0 0 (str (''err_open_lots: PASS'' @ NL)) s t
      \<and> testable n env t"
    using t(1) u(1) since_trans [OF su] unfolding err_open_lots_def by fastforce
qed

section \<open>All tests\<close>

lemma passes_then:
  assumes "passes n env test text" "testable n env s" "since 0 0 x s0 s"
    and "\<And>t. testable n env t \<Longrightarrow> since 0 0 (x @ str text) s0 t \<Longrightarrow> P (rest 0 t)"
  shows "P (andthen (test s) rest)"
proof -
  obtain t where "test s = Some (Ret 0, t)" "since 0 0 (str text) s t" "testable n env t"
    using assms(1,2) unfolding passes_def by blast
  then show ?thesis using assms(4) since_trans [OF assms(3)] by simp
qed

definition syserr_report :: string where
  "syserr_report = ''err_neg_fd: PASS'' @ NL @ ''err_big_fd: PASS'' @ NL @ ''err_open_lots: PASS'' @ NL
     @ ''err_open: PASS'' @ NL @ ''err_unopened: PASS'' @ NL @ ''err_vidmap: PASS'' @ NL
     @ ''err_stdin_out: PASS'' @ NL @ ''err_syscall_num: PASS'' @ NL @ NL @ ''Overall Tests: PASS'' @ NL"

lemma str_append: "str (v @ w) = str v @ str w"
  by (simp add: str_def)

lemma overall:
  assumes "testable n env t" "since 0 0 x s t"
  shows "\<exists>u. andthen (ece391_fdputs env 1 (lit env (NL @ ''Overall Tests: PASS'' @ NL)) t) (\<lambda>_ s. Some (Ret 0, s)) =
      Some (Ret 0, u) \<and> since 0 0 (x @ str (NL @ ''Overall Tests: PASS'' @ NL)) s u \<and> testable n env u"
proof -
  have m: "NL @ ''Overall Tests: PASS'' @ NL \<in> set syserr_lits" by (simp add: syserr_lits_def)
  from testable_print [OF assms(1) m] obtain u k where
      "ece391_fdputs env 1 (lit env (NL @ ''Overall Tests: PASS'' @ NL)) t = Some (Ret k, u)"
      "since 0 0 (str (NL @ ''Overall Tests: PASS'' @ NL)) t u" "testable n env u" by auto
  then show ?thesis using since_trans [OF assms(2)] by (metis andthen_simps(1))
qed

lemma err_all_passes:
  assumes "testable n env s"
  shows "\<exists>t. err_all env bufs s = Some (Ret 0, t) \<and> since 0 0 (str syserr_report) s t \<and> testable n env t"
proof -
  let ?P = "\<lambda>r. \<exists>t. r = Some (Ret 0, t) \<and> since 0 0 (str syserr_report) s t \<and> testable n env t"
  have c: "cursor_ok s" using assms by (simp add: testable_def ready_def)
  note run = passes_then [where P = ?P]
  show ?thesis
    unfolding err_all_def Let_def
  proof (intro run [OF pass_neg_fd assms since_refl [OF c]] run [OF pass_big_fd] run [OF pass_open_lots] run [OF pass_open]
      run [OF pass_unopened] run [OF pass_vidmap] run [OF pass_stdin_out] run [OF pass_syscall_num]; assumption?)
    fix t
    assume "testable n env t" and x: "since 0 0 (((((((([] @ str (''err_neg_fd: PASS'' @ NL)) @ str (''err_big_fd: PASS'' @ NL))
        @ str (''err_open_lots: PASS'' @ NL)) @ str (''err_open: PASS'' @ NL)) @ str (''err_unopened: PASS'' @ NL))
        @ str (''err_vidmap: PASS'' @ NL)) @ str (''err_stdin_out: PASS'' @ NL)) @ str (''err_syscall_num: PASS'' @ NL)) s t"
    from overall [OF this] show "?P (if 0 + 0 + 0 + 0 + 0 + 0 + 0 + 0 \<noteq> (0 :: int)
        then andthen (ece391_fdputs env 1 (lit env (NL @ ''Overall Tests: FAIL'' @ NL)) t)
          (\<lambda>_ s. Some (Ret (0 + 0 + 0 + 0 + 0 + 0 + 0 + 0), s))
        else andthen (ece391_fdputs env 1 (lit env (NL @ ''Overall Tests: PASS'' @ NL)) t)
          (\<lambda>_ s. Some (Ret (0 + 0 + 0 + 0 + 0 + 0 + 0 + 0), s)))"
      by (simp only: syserr_report_def str_append append_assoc append_Nil add_0 if_not_P refl not_not)
  qed
qed

section \<open>Properties\<close>

text \<open>C7: the kernel passes its own test program: started with only the standard descriptors open, choice 0 of
  \<^verbatim>\<open>ece391syserr\<close> makes all its bad calls (descriptors that are negative, too big or not open, too many
  open files, names that do not exist, bad pointers for \<open>vidmap\<close>, writing to standard input, unknown
  call numbers), each fails as the tests expect, it prints PASS eight times and overall, returns 0
  and leaves only the standard descriptors open.\<close>
theorem syserr_passes:
  assumes "testable n env s"
  shows "\<exists>t. err_all env bufs s = Some (Ret 0, t)
    \<and> screen_view t = fold put_char (str syserr_report) (screen_view s) \<and> standard_fds (cur_pcb t)"
  using err_all_passes [OF assms, of bufs] unfolding since_def testable_def by blast

lemma sample_testable: "testable 0x3000 (sample_env syserr_lits) (user_kernel syserr_lits)"
proof -
  have l: "length (lit_bytes syserr_lits) \<le> 0x10000" by (simp add: syserr_lits_def)
  have lits: "lit_ok (sample_env syserr_lits) 0 0 (user_kernel syserr_lits) w" if "w \<in> set syserr_lits" for w
  proof (rule sample_lit [OF that _ l])
    show "0 \<notin> set (str w)" using that by (auto simp: syserr_lits_def str_def)
  qed simp
  note im = user_kernel_image [OF l]
  have none: "read_dentry_by_name (arr (str w)) (user_kernel syserr_lits) = None"
    if w: "w = ''helloo'' \<or> w = ''shel''" for w
  proof -
    have "upto0 (arr (str w)) 0 32 = take 32 (str w)" by (rule upto0_string) (use w in \<open>auto simp: arr_def str_def\<close>)
    then have "upto0 (arr (str w)) 0 32 = str w" using w by (auto simp: str_def)
    moreover have "str w \<noteq> str ''.''" "str w \<noteq> str ''run''" using w by (auto simp: str_def)
    ultimately have "\<not> entry_named (arr (str w)) (user_kernel syserr_lits) i" if "i < 2" for i
      using that im(5,6) by (cases i) (auto simp: entry_named_def less_Suc_eq)
    then show ?thesis using im(2) by (subst root_dir.lookup_None_iff) auto
  qed
  have "file_type (dentry_at user_image 0x400040) \<noteq> 0" by (simp add: dentry_at_def user_words)
  moreover have "standard_fds user_pcb"
    by (auto simp: standard_fds_def user_pcb_def sample_fd_def nth_Cons less_Suc_eq split: nat.split)
  moreover have "ld32 (mem (user_kernel syserr_lits)) 0x400000 \<noteq> 0"
    using user_kernel_ld32 [OF l, of "0x400000"] user_words(1) by simp
  ultimately show ?thesis
    using user_kernel_ready(1) [OF l] lits user_kernel_lookup(2) [OF l] none by (simp add: testable_def)
qed

theorem syserr_passes_witness:
  "\<exists>t. err_all (sample_env syserr_lits) (\<lambda>_. 0x08049000) (user_kernel syserr_lits) = Some (Ret 0, t)
     \<and> standard_fds (cur_pcb t)"
  using syserr_passes [OF sample_testable, of "\<lambda>_. 0x08049000"] by blast

end
