(* ===== verification/Line_Input.thy ===== *)
theory Line_Input
  imports Programs
begin

text \<open>
  Programs that talk to the user: the line they get from the keyboard in terms of the keys typed, and
  what a program needs to print texts and read lines (\<open>dialog_state\<close>).
\<close>

section \<open>Reading a line\<close>

text \<open>The keyboard before a line: nothing typed, the cursor where the line starts.\<close>

definition kb_ready :: "'a kernel_scheme \<Rightarrow> bool" where
  "kb_ready s \<longleftrightarrow> kb_buffer s = replicate 128 0 \<and> kb_buffer_index s = 0 \<and> enter_flag s = 0 \<and> flags_ok s"

text \<open>The user types \<open>ks\<close> and enter: one scan code at each interrupt that comes while the call waits
  (the call has cleared its buffer before), on the row of the cursor.\<close>

definition typing :: "u8 list \<Rightarrow> bool list \<Rightarrow> u32 \<Rightarrow> 'a kernel_scheme \<Rightarrow> bool" where
  "typing ks polls buf s \<longleftrightarrow> (\<exists>ps. polls = ps @ [True] \<and> length (filter id ps) = length ks)
     \<and> keys_come (ks @ [0x1C]) (s\<lparr>mem := clear_bytes 128 buf (mem s)\<rparr>) \<and> (\<forall>k \<in> set ks. line_key k)
     \<and> nat (screen_x s) + length ks < 80"

definition typed :: "u8 list \<Rightarrow> 'a kernel_scheme \<Rightarrow> u8 list" where
  "typed ks s = fold edit_line (edits (cl_flag s) (lshift_flag s) (rshift_flag s) ks) []"

text \<open>What the display shows behind the read: the line at the place of the cursor, and the cursor on the
  next row.\<close>

definition shows_line :: "u8 list \<Rightarrow> tscreen \<Rightarrow> tscreen \<Rightarrow> bool" where
  "shows_line line v w \<longleftrightarrow> (\<exists>u. w = newline u \<and> cy u = cy v
     \<and> take (80 * cy v + cx v + length line) (cells u) = take (80 * cy v + cx v) (cells v) @ line)"

lemma kb_enter_view: "cursor_ok s \<Longrightarrow> screen_view (kb_done (kb_enter s)) = newline (screen_view s)"
proof -
  assume ok: "cursor_ok s"
  have y: "uint (get_screen_y s) = screen_y s" using ok by (simp add: get_screen_y_def cursor_ok_def uint_word_of_int)
  then have "get_screen_y s = 24 \<longleftrightarrow> screen_y s = 24" by (auto simp: word_uint_eq_iff)
  moreover have "uint (get_screen_y s + 1) = screen_y s + 1" if "screen_y s \<noteq> 24"
    using that y ok by (simp add: uint_word_ariths cursor_ok_def)
  moreover have "nat (screen_y s) < 24 \<longleftrightarrow> screen_y s \<noteq> 24" "0 \<le> screen_y s" using ok by (auto simp: cursor_ok_def)
  ultimately show ?thesis
    by (auto simp: screen_view_def newline_def kb_enter_def Let_def set_screen_x_def set_screen_y_def scroll_text_cells
        nat_add_distrib)
qed

lemma kb_enter_within:
  assumes "cursor_ok s"
  shows "within buf 0 s (kb_done (kb_enter s))" "kbd.more (kb_done (kb_enter s)) = kbd.more s"
proof -
  have y: "uint (get_screen_y s) = screen_y s" using assms by (simp add: get_screen_y_def cursor_ok_def uint_word_of_int)
  have y': "uint (get_screen_y s + 1) = screen_y s + 1" if "get_screen_y s \<noteq> 24"
  proof -
    have "screen_y s \<noteq> 24" using that y by (auto simp: word_uint_eq_iff)
    then show ?thesis using y assms by (simp add: uint_word_ariths cursor_ok_def)
  qed
  let ?t = "kb_done (kb_enter s)"
  have kd: "kbd.more (kb_done t) = kbd.more t" "boot_block (kb_done t) = boot_block t" "boot_block_end (kb_done t) = boot_block_end t"
      "data_block_start (kb_done t) = data_block_start t" "len_inodes (kb_done t) = len_inodes t" for t :: "'a kernel_scheme"
    using key_frame_done [of t] by (simp_all add: key_frame_def)
  show m: "kbd.more ?t = kbd.more s"
    by (simp add: kd kb_enter_def Let_def scroll_down_def set_screen_x_def set_screen_y_def
        kbd_more [OF update_cursor_more])
  have "boot_block ?t = boot_block s" "boot_block_end ?t = boot_block_end s" "data_block_start ?t = data_block_start s"
      "len_inodes ?t = len_inodes s"
    by (simp_all add: kd kb_enter_def Let_def scroll_down_def set_screen_x_def set_screen_y_def
        paging_more(2-5) [OF update_cursor_more])
  moreover have "cursor_ok ?t" using assms y'
    by (simp add: kb_enter_def Let_def set_screen_x_def set_screen_y_def cursor_ok_def) (auto simp: word_uint_eq_iff y)
  moreover have "mem ?t p = mem s p" if "\<not> inr VIDEO 4000 p" for p
    using scroll_frame [OF that] by (simp add: kb_enter_def Let_def set_screen_x_def set_screen_y_def)
  moreover have "get_pcb_address ?t = get_pcb_address s" by (rule get_pcb_address_cong) (simp_all add: kernel_more [OF kbd_paging(1) [OF m]])
  ultimately show "within buf 0 s ?t" by (auto simp: within_def)
qed

lemma kb_enter_flags: "flags_ok (kb_enter s) = flags_ok s"
  by (simp add: flags_ok_def kb_enter_def Let_def scroll_down_def set_screen_x_def set_screen_y_def update_cursor_def outb_def)

lemma kbd_still: "kbd.more t = kbd.more s \<Longrightarrow> still s t"
  using kernel_more [OF kbd_paging(1), of t s] kbd_paging [of t s] by (simp add: still_def)

lemma key_frame_within:
  assumes "key_frame s u" "cursor_ok u"
  shows "within buf 0 s u"
proof -
  have m: "kbd.more u = kbd.more s" using assms(1) by (simp add: key_frame_def)
  have "get_pcb_address u = get_pcb_address s" by (rule get_pcb_address_cong) (simp_all add: kernel_more [OF kbd_paging(1) [OF m]])
  then show ?thesis using assms by (auto simp: key_frame_def within_def)
qed

lemma within_none: "within buf 0 s t \<Longrightarrow> within a k s t"
  by (auto simp: within_def)

lemma within_store:
  assumes "cursor_ok s" "length xs \<le> k" "k \<le> 2 ^ 32"
  shows "within buf k s (s\<lparr>mem := wr buf xs (mem s)\<rparr>)"
proof -
  have "wr buf xs (mem s) p = mem s p" if "\<not> inr buf k p" for p
  proof -
    have "\<not> inr buf (length xs) p" "length xs \<le> 2 ^ 32" using that inr_mono [OF _ assms(2)] assms(2,3) by auto
    then show ?thesis by (rule wr_other)
  qed
  then show ?thesis using assms(1) by (auto simp: within_def cursor_ok_def)
qed

lemma text_cells_array:
  assumes "apart buf k VIDEO 4000" "length xs \<le> k" "k \<le> 2 ^ 32"
  shows "text_cells (wr buf xs m) = text_cells m"
proof (rule nth_equalityI)
  fix i assume "i < length (text_cells (wr buf xs m))"
  then have "inr VIDEO 4000 (cell_addr i)" "i < 2000" using cell_in_video by auto
  moreover from this have "\<not> inr buf (length xs) (cell_addr i)"
    using apartD [OF assms(1)] inr_mono [OF _ assms(2)] by blast
  ultimately show "text_cells (wr buf xs m) ! i = text_cells m ! i"
    using wr_other [of buf xs "cell_addr i" m] assms(2,3) by simp
qed simp

lemma user_read_line:
  assumes "ready n s" "array_ok buf 1024 n s" "kb_ready s" "unat (cursor_x s) = nat (screen_x s)"
    and "fd_flags (pcb_file (cur_pcb s) ! 0) = 1" "fd_op (pcb_file (cur_pcb s) ! 0) = Some Stdin_op"
    and "typing ks (polls_at env s) buf s"
  shows "\<exists>t. ece391_read env 0 buf 1023 s = Some (Ret 128, t) \<and> within buf 1024 s t \<and> kbd.more t = kbd.more s
    \<and> kb_ready t \<and> rd (mem t) buf 129 = read_result (padded 128 (typed ks s)) 128 \<and> length (typed ks s) < 80
    \<and> shows_line (typed ks s) (screen_view s) (screen_view t)"
proof -
  let ?s0 = "s\<lparr>mem := clear_bytes 128 buf (mem s)\<rparr>" and ?line = "typed ks s"
  have b: "buf \<noteq> 0" "apart buf 1024 VIDEO 4000" and ok: "cursor_ok s" "0 \<le> screen_x s" "0 \<le> screen_y s"
    using assms(1,2) by (auto simp: array_ok_def ready_def cursor_ok_def)
  have s0: "?s0 = s\<lparr>mem := wr buf (replicate 128 0) (mem s)\<rparr>" by (simp add: clear_bytes_wr)
  have cells: "text_cells (mem ?s0) = text_cells (mem s)"
    using text_cells_array [OF b(2), of "replicate 128 0" "mem s"] by (simp add: s0)
  have w0: "within buf 1024 s ?s0" unfolding s0 by (rule within_store) (use ok(1) in simp_all)
  have sx: "screen_x s = int (unat (cursor_x s))" using assms(4) ok(2) by simp
  have e0: "editing ?s0 []" using assms(3) ok sx by (simp add: editing_def kb_ready_def padded_def cursor_ok_def)
  have f0: "flags_ok ?s0" "enter_flag ?s0 = 0" using assms(3) by (simp_all add: kb_ready_def flags_ok_def)
  obtain ps where ps: "polls_at env s = ps @ [True]" "length (filter id ps) = length ks"
    using assms(7) by (auto simp: typing_def)
  have ty: "keys_come (ks @ [0x1C]) ?s0" "\<forall>k \<in> set ks. line_key k" "unat (cursor_x ?s0) + length [] + length ks < 80"
    using assms(4,7) by (auto simp: typing_def)
  obtain u where u: "kb_wait (ps @ [True]) ?s0 = Some (Ret 0, kb_done (kb_enter u))" "flags_ok u" "key_frame ?s0 u" "editing u ?line"
    using kb_wait_line [OF e0 f0 ty(1,2,3) ps(2)] by (auto simp: typed_def)
  let ?u = "kb_done (kb_enter u)"
  have cu: "cursor_ok u" using u(4) by (simp add: editing_def)
  have kb: "kb_buffer ?u = padded 128 ?line" "length (kb_buffer ?u) = 128"
    using u(4) editing_length [OF u(4)] by (simp_all add: kb_enter_fields editing_def)
  define t where "t = (reset_keyboard ?u)\<lparr>mem := wr buf (read_result (kb_buffer ?u) 128) (mem ?u)\<rparr>"
  have rl: "length (read_result (kb_buffer ?u) 128) = 129" using terminal_read_copy(2) [of 128, OF _ _ kb(2)] by simp
  have tr: "terminal_read (ps @ [True]) 0 buf 1023 s = Some (Ret 128, t)"
    using terminal_read_done [of 1023 buf 128, OF _ b(1) _ u(1) kb(2)] by (simp add: t_def)
  then have r: "ece391_read env 0 buf 1023 s = Some (Ret 128, t)"
    using assms(5,6) b(1) by (simp add: user_calls sys_read_def ps(1))
  have wu: "within buf 1024 s ?u"
    using within_trans [OF w0 within_trans [OF within_none [OF key_frame_within [OF u(3) cu]] within_none [OF kb_enter_within(1) [OF cu]]]] .
  have "within buf 1024 ?u t"
  proof -
    have c: "cursor_ok ?u" using wu by (simp add: within_def)
    have "within buf 1024 ?u (?u\<lparr>mem := wr buf (read_result (kb_buffer ?u) 128) (mem ?u)\<rparr>)"
      by (rule within_store) (use c rl in simp_all)
    then show ?thesis by (simp add: t_def within_def reset_keyboard_def cursor_ok_def get_pcb_address_def get_current_terminal_def Let_def)
  qed
  then have "within buf 1024 s t" by (rule within_trans [OF wu])
  moreover have "kbd.more t = kbd.more s"
    using kb_enter_within(2) [OF cu] u(3) by (simp add: t_def reset_keyboard_def key_frame_def)
  moreover have "kb_ready t" using u(2) kb_enter_flags [of u] by (simp add: t_def kb_ready_def reset_keyboard_def flags_ok_def)
  moreover have "rd (mem t) buf 129 = read_result (padded 128 ?line) 128"
    using rd_wr_same [of "read_result (kb_buffer ?u) 128" buf "mem ?u"] rl kb(1) by (simp add: t_def)
  moreover have "shows_line ?line (screen_view s) (screen_view t)"
  proof -
    have "screen_view t = screen_view ?u"
      using text_cells_array [OF b(2), of "read_result (kb_buffer ?u) 128" "mem ?u"] rl
      by (simp add: t_def screen_view_def reset_keyboard_def)
    then have v: "screen_view t = newline (screen_view u)" by (simp add: kb_enter_view [OF cu])
    have ls: "line_start ?s0 = 80 * nat (screen_y s) + nat (screen_x s)" using assms(4) by (simp add: line_start_def)
    have "line_start u = line_start ?s0" "screen_y u = screen_y s" using u(3) by (simp_all add: key_frame_def line_start_def)
    moreover have "take (line_start ?s0) (text_cells (mem u)) = take (line_start ?s0) (text_cells (mem s))"
      using u(3) cells by (simp add: key_frame_def)
    moreover have "take (length ?line) (drop (line_start u) (text_cells (mem u))) = ?line" using u(4) by (simp add: editing_def)
    ultimately show ?thesis
      unfolding shows_line_def v by (intro exI [of _ "screen_view u"]) (simp add: screen_view_def take_add ls)
  qed
  ultimately show ?thesis using r editing_length [OF u(4)] by blast
qed

section \<open>A dialog\<close>

text \<open>The texts \<open>ws\<close> are constants of the program, standard input is open, nothing is typed yet.\<close>

definition dialog_state :: "string list \<Rightarrow> nat \<Rightarrow> 'a kernel_scheme user_env \<Rightarrow> u32 \<Rightarrow> 'a kernel_scheme \<Rightarrow> bool" where
  "dialog_state ws n env buf s \<longleftrightarrow> ready n s \<and> array_ok buf 1024 n s \<and> kb_ready s
     \<and> fd_flags (pcb_file (cur_pcb s) ! 0) = 1 \<and> fd_op (pcb_file (cur_pcb s) ! 0) = Some Stdin_op
     \<and> (\<forall>w \<in> set ws. lit_ok env buf 1024 s w)"

lemma dialog_lit: "dialog_state ws n env buf s \<Longrightarrow> w \<in> set ws \<Longrightarrow> lit_ok env buf 1024 s w"
  by (simp add: dialog_state_def)

lemma dialog_within:
  assumes "within buf 1024 s t" "dialog_state ws n env buf s" "kb_ready t" "fd_wf (cur_pcb t)"
    and "pcb_file (cur_pcb t) ! 0 = pcb_file (cur_pcb s) ! 0" "pcb_file (cur_pcb t) ! 1 = pcb_file (cur_pcb s) ! 1"
  shows "dialog_state ws n env buf t"
proof -
  have r: "ready n s" "array_ok buf 1024 n s" using assms(2) by (auto simp: dialog_state_def)
  have "ready n t" by (rule array_within [OF assms(1) r assms(4,6)])
  then show ?thesis
    using assms(2,3,5) within_lit [OF assms(1)] within_image(5) [OF assms(1) r] by (auto simp: dialog_state_def)
qed

lemma kb_ready_same: "keys_same s t \<Longrightarrow> kb_ready t = kb_ready s"
  by (simp add: keys_same_def kb_ready_def flags_ok_def)

lemma typed_same: "keys_same s t \<Longrightarrow> typed ks t = typed ks s"
  by (simp add: keys_same_def typed_def)

lemma dialog_since:
  assumes "since buf 1024 x s t" "dialog_state ws n env buf s" "cur_pcb t = cur_pcb s"
  shows "dialog_state ws n env buf t"
  by (rule dialog_within [OF since_within [OF assms(1)] assms(2)])
     (use assms kb_ready_same [of s t] in \<open>simp_all add: dialog_state_def ready_def since_def kept_def\<close>)

lemma dialog_poke:
  assumes "dialog_state ws n env buf s" "i < 1024"
  shows "since buf 1024 [] s (poke (buf + of_nat i) v s)" "dialog_state ws n env buf (poke (buf + of_nat i) v s)"
    "cur_pcb (poke (buf + of_nat i) v s) = cur_pcb s"
proof -
  have b: "cursor_ok s" "apart buf 1024 VIDEO 4000" using assms(1) by (auto simp: dialog_state_def ready_def array_ok_def)
  show p: "since buf 1024 [] s (poke (buf + of_nat i) v s)" by (rule since_poke) (use b assms(2) in simp_all)
  show c: "cur_pcb (poke (buf + of_nat i) v s) = cur_pcb s"
    by (simp add: cur_pcb_def poke_def get_pcb_address_def get_current_terminal_def Let_def)
  show "dialog_state ws n env buf (poke (buf + of_nat i) v s)" by (rule dialog_since [OF p assms(1) c])
qed

text \<open>A text the program prints.\<close>

lemma dialog_puts:
  assumes "dialog_state ws n env buf s" "w \<in> set ws" "w \<noteq> []" "length w < 2 ^ 31"
  shows "\<exists>t. ece391_fdputs env 1 (lit env w) s = Some (Ret (int (length w)), t) \<and> since buf 1024 (str w) s t
    \<and> cur_pcb t = cur_pcb s \<and> keys_same s t \<and> unat (cursor_x t) = nat (screen_x t) \<and> dialog_state ws n env buf t
    \<and> paging.more t = paging.more s \<and> dev t = dev s \<and> acks (out t) = acks (out s)
    \<and> since buf 0 (str w) s t"
proof -
  have r: "ready n s" and l: "lit_ok env buf 1024 s w" "lit_ok env buf 0 s w"
    using assms by (auto simp: dialog_state_def lit_ok_def apart_def)
  obtain t where t: "ece391_fdputs env 1 (lit env w) s = Some (Ret (int (length w)), t)" "since buf 0 (str w) s t"
      "cur_pcb t = cur_pcb s" using user_text [OF r l(2) assms(3,4)] by blast
  have p: "cstr (mem s) (lit env w) (str w)" "apart (lit env w) (Suc (length (str w))) VIDEO 4000" "str w \<noteq> []"
      "length (str w) < 2 ^ 31" "lit env w \<noteq> 0" using l(1) assms(3,4) by (auto simp: lit_ok_def str_def)
  have "cursor_ok t" using t(2) by (simp add: since_def)
  note k = user_puts_keys [OF r p t(1) this]
  note t2 = since_none [OF t(2)]
  show ?thesis using t k t2 dialog_since [OF t2 assms(1) t(3)] by blast
qed

text \<open>The string in the array, printed.\<close>

lemma dialog_shows:
  assumes "dialog_state ws n env buf s" "cstr (mem s) buf xs" "xs \<noteq> []" "length xs < 1024"
  shows "\<exists>t. ece391_fdputs env 1 buf s = Some (Ret (int (length xs)), t) \<and> since buf 1024 xs s t
    \<and> cur_pcb t = cur_pcb s \<and> dialog_state ws n env buf t"
proof -
  have r: "ready n s" "array_ok buf 1024 n s" "buf \<noteq> 0" using assms(1) by (auto simp: dialog_state_def array_ok_def)
  have "apart buf (Suc (length xs)) VIDEO 4000" by (rule array_apart [OF r(2)]) (use assms(4) in simp)
  from user_puts [OF r(1) assms(2) this assms(3) _ r(3), of env buf 1024] obtain t where
      t: "ece391_fdputs env 1 buf s = Some (Ret (int (length xs)), t)" "since buf 1024 xs s t" "cur_pcb t = cur_pcb s"
    using assms(4) by auto
  then show ?thesis using dialog_since [OF t(2) assms(1) t(3)] by blast
qed

text \<open>What the user types when the text has appeared, and what is then on the display.\<close>

definition types_after :: "string \<Rightarrow> u8 list \<Rightarrow> 'a kernel_scheme user_env \<Rightarrow> u32 \<Rightarrow> 'a kernel_scheme \<Rightarrow> bool" where
  "types_after w ks env buf s \<longleftrightarrow>
     (case ece391_fdputs env 1 (lit env w) s of Some (_, t) \<Rightarrow> typing ks (polls_at env t) buf t | None \<Rightarrow> False)"

definition prompted_by :: "string \<Rightarrow> u8 list \<Rightarrow> 'a kernel_scheme \<Rightarrow> 'a kernel_scheme \<Rightarrow> bool" where
  "prompted_by w line s t \<longleftrightarrow> shows_line line (fold put_char (str w) (screen_view s)) (screen_view t)"

text \<open>The characters of the line up to a NUL.\<close>

definition command_typed :: "u8 list \<Rightarrow> 'a kernel_scheme \<Rightarrow> u8 list" where
  "command_typed ks s = takeWhile (\<lambda>c. c \<noteq> 0) (typed ks s)"

lemma dialog_reads:
  assumes "dialog_state ws n env buf s" "w \<in> set ws" "w \<noteq> []" "length w < 2 ^ 31" "types_after w ks env buf s"
  shows "\<exists>t u. ece391_fdputs env 1 (lit env w) s = Some (Ret (int (length w)), t)
    \<and> ece391_read env 0 buf 1023 t = Some (Ret 128, u) \<and> dialog_state ws n env buf u \<and> within buf 1024 s u
    \<and> cur_pcb u = cur_pcb s \<and> paging.more u = paging.more s \<and> still s u
    \<and> rd (mem u) buf 129 = read_result (padded 128 (typed ks s)) 128 \<and> length (typed ks s) < 80
    \<and> prompted_by w (typed ks s) s u"
proof -
  obtain t where t: "ece391_fdputs env 1 (lit env w) s = Some (Ret (int (length w)), t)" "since buf 1024 (str w) s t"
      "cur_pcb t = cur_pcb s" "keys_same s t" "unat (cursor_x t) = nat (screen_x t)" "dialog_state ws n env buf t"
      "paging.more t = paging.more s"
    using dialog_puts [OF assms(1-4)] by auto
  have st: "ready n t" "array_ok buf 1024 n t" "kb_ready t" "fd_flags (pcb_file (cur_pcb t) ! 0) = 1"
      "fd_op (pcb_file (cur_pcb t) ! 0) = Some Stdin_op" using t(6) by (auto simp: dialog_state_def)
  have "typing ks (polls_at env t) buf t" using assms(5) t(1) by (simp add: types_after_def)
  from user_read_line [OF st(1-3) t(5) st(4,5) this] obtain u where
      u: "ece391_read env 0 buf 1023 t = Some (Ret 128, u)" "within buf 1024 t u" "kbd.more u = kbd.more t" "kb_ready u"
        "rd (mem u) buf 129 = read_result (padded 128 (typed ks t)) 128" "length (typed ks t) < 80"
        "shows_line (typed ks t) (screen_view t) (screen_view u)" by blast
  have g: "get_pcb_address u = get_pcb_address t" using u(2) by (simp add: within_def)
  have cp: "cur_pcb u = cur_pcb t" by (simp add: cur_pcb_def g kernel_more [OF kbd_paging(1) [OF u(3)]])
  have "dialog_state ws n env buf u"
    by (rule dialog_within [OF u(2) t(6) u(4)]) (use cp st(1) in \<open>simp_all add: ready_def\<close>)
  moreover have "prompted_by w (typed ks s) s u"
    using u(7) t(2) by (simp add: prompted_by_def since_def typed_same [OF t(4)])
  ultimately show ?thesis
    using t(1,3,7) u(1,5,6) cp kbd_paging(1) [OF u(3)] still_trans [OF _ kbd_still [OF u(3)]] t(2)
      within_trans [OF since_within [OF t(2)] u(2)] typed_same [OF t(4)]
    by (auto simp: since_def kept_def)
qed

text \<open>The line in the array, and the C string in it.\<close>

lemma cstr_cut:
  assumes "rd m a k = padded k xs" "length xs < k" "k \<le> 2 ^ 32"
  shows "cstr m a (takeWhile (\<lambda>c. c \<noteq> 0) xs)"
proof -
  let ?c = "takeWhile (\<lambda>c. c \<noteq> 0) xs"
  have l: "length ?c \<le> length xs" by (rule length_takeWhile_le)
  have "rd m a (length ?c) = take (length ?c) (padded k xs)" using take_rd [of "length ?c" k m a] assms(1,2) l by simp
  also have "\<dots> = ?c" using l by (simp add: padded_def takeWhile_eq_take [symmetric])
  finally have r: "rd m a (length ?c) = ?c" .
  have "m (a + of_nat (length ?c)) = padded k xs ! length ?c" using nth_rd [of "length ?c" k m a] assms(1,2) l by simp
  also have "\<dots> = 0"
  proof (cases "length ?c < length xs")
    case True
    then show ?thesis using nth_length_takeWhile [OF True] by (simp add: padded_def nth_append)
  next
    case False
    then show ?thesis using l assms(2) by (simp add: padded_def nth_append)
  qed
  finally show ?thesis using r l assms(2,3) by (auto simp: cstr_def dest: set_takeWhileD)
qed

lemma line_string:
  assumes "rd (mem s) buf 129 = read_result (padded 128 xs) 128" "length xs < 80"
  shows "cstr (mem s) buf (takeWhile (\<lambda>c. c \<noteq> 0) xs)"
proof (rule cstr_cut [of _ _ 127])
  have "rd (mem s) buf 127 = take 127 (read_result (padded 128 xs) 128)" using take_rd [of 127 129 "mem s" buf] assms(1) by simp
  then show "rd (mem s) buf 127 = padded 127 xs" using assms(2) by (simp add: read_result_def padded_def)
qed (use assms(2) in simp_all)

section \<open>A user at the keyboard\<close>

text \<open>The column behind a short text without line breaks, and behind a line.\<close>

lemma cx_text:
  assumes "\<forall>c \<in> set xs. c \<noteq> 0x0A \<and> c \<noteq> 0x0D" "cx v + length xs < 80"
  shows "cx (fold put_char xs v) = cx v + length xs"
  using assms
proof (induction xs arbitrary: v)
  case (Cons c xs)
  have "cx (put_char c v) = cx v + 1" using Cons.prems by (simp add: put_char_def Let_def)
  then show ?case using Cons.IH [of "put_char c v"] Cons.prems by simp
qed simp

lemma cx_line: "cx (fold put_char (str (w @ NL)) v) = 0"
  by (simp add: str_def put_char_def newline_def Let_def)

lemma typist_types:
  assumes "dialog_state ws n env buf s" "w \<in> set ws" "w \<noteq> []" "length w < 2 ^ 31"
    and "dev s = typist (ks @ [0x1C])" "acks (out s) = 0" "\<forall>k \<in> set ks. plain_key k"
    and "\<And>t. polls_at env t = ps @ [True]" "length (filter id ps) = length ks"
    and "cx (fold put_char (str w) (screen_view s)) + length ks < 80"
  shows "types_after w ks env buf s"
proof -
  obtain t where t: "ece391_fdputs env 1 (lit env w) s = Some (Ret (int (length w)), t)" "since buf 1024 (str w) s t"
      "keys_same s t" "dialog_state ws n env buf t" "dev t = dev s" "acks (out t) = acks (out s)"
    using dialog_puts [OF assms(1-4)] by auto
  have "keys_come (ks @ [0x1C]) (t\<lparr>mem := clear_bytes 128 buf (mem t)\<rparr>)"
    by (rule typist_keys [of _ "[]"])
      (use t(4-6) assms(5-7,10) in \<open>simp_all add: dialog_state_def kb_ready_def flags_ok_def\<close>)
  moreover have "screen_view t = fold put_char (str w) (screen_view s)" using t(2) by (simp add: since_def)
  then have "nat (screen_x t) = cx (fold put_char (str w) (screen_view s))" by (simp flip: \<open>screen_view t = _\<close>) (simp add: screen_view_def)
  moreover have "\<forall>k \<in> set ks. line_key k" using assms(7) by (auto simp: plain_key_def line_key_def)
  ultimately have "typing ks (polls_at env t) buf t"
    using assms(8-10) by (auto simp: typing_def)
  then show ?thesis by (simp add: types_after_def t(1))
qed

text \<open>The sample machine of \<open>Programs\<close> with the texts of a dialog and a keyboard that delivers \<open>ks\<close> and enter.\<close>

definition typing_kernel :: "string list \<Rightarrow> u8 list \<Rightarrow> kernel" where
  "typing_kernel ws ks = (user_kernel ws)\<lparr>dev := typist (ks @ [0x1C])\<rparr>"

definition typing_env :: "string list \<Rightarrow> bool list \<Rightarrow> kernel user_env" where
  "typing_env ws ps = (sample_env ws)\<lparr>polls_at := \<lambda>_. ps\<rparr>"

lemma typing_kernel_state:
  assumes "length (lit_bytes ws) \<le> 0x10000" "\<forall>w \<in> set ws. 0 \<notin> set (str w)"
  shows "dialog_state ws 0x3000 (typing_env ws ps) 0x08049000 (typing_kernel ws ks)" "cur_pcb (typing_kernel ws ks) = user_pcb"
proof -
  let ?s = "user_kernel ws" and ?t = "typing_kernel ws ks" and ?e = "typing_env ws ps"
  have lits: "lit_ok ?e 0x08049000 1024 ?s w" if "w \<in> set ws" for w
    using sample_lit [OF that _ assms(1), of "0x08049000" 1024] assms(2) that by (simp add: lit_ok_def typing_env_def)
  have b: "array_ok 0x08049000 1024 0x3000 ?s" by (simp add: array_ok_def apart_def unat_u32_minus)
  have s: "dialog_state ws 0x3000 ?e 0x08049000 ?s"
    using user_kernel_ready(1) [OF assms(1)] b lits
    by (simp add: dialog_state_def kb_ready_def flags_ok_def user_pcb_def sample_fd_def) (simp add: user_kernel_def sample_kernel_def)
  have w: "within 0x08049000 1024 ?s ?t"
    using user_kernel_ready(1) [OF assms(1)]
    by (simp add: within_def ready_def typing_kernel_def cursor_ok_def get_pcb_address_def get_current_terminal_def Let_def)
  have cp: "cur_pcb ?t = cur_pcb ?s"
    by (simp add: cur_pcb_def typing_kernel_def get_pcb_address_def get_current_terminal_def Let_def)
  then show "cur_pcb ?t = user_pcb" by simp
  show "dialog_state ws 0x3000 ?e 0x08049000 ?t"
    by (rule dialog_within [OF w s])
       (use s cp in \<open>simp_all add: dialog_state_def ready_def kb_ready_def typing_kernel_def flags_ok_def\<close>)
qed

lemma typing_kernel_types:
  assumes "length (lit_bytes ws) \<le> 0x10000" "\<forall>w \<in> set ws. 0 \<notin> set (str w)" "\<forall>k \<in> set ks. plain_key k"
    and "length (filter id ps) = length ks" "w \<in> set ws" "w \<noteq> []" "length w < 2 ^ 31"
    and "cx (fold put_char (str w) (screen_view (typing_kernel ws ks))) + length ks < 80"
  shows "types_after w ks (typing_env ws (ps @ [True])) 0x08049000 (typing_kernel ws ks)"
  by (rule typist_types [OF typing_kernel_state(1) [OF assms(1,2)] assms(5-7), where ps = ps])
     (use assms in \<open>simp_all add: typing_env_def\<close>, simp_all add: typing_kernel_def user_kernel_def sample_kernel_def acks_def)

lemma typing_kernel_cx: "cx (screen_view (typing_kernel ws ks)) = 0"
  by (simp add: screen_view_def typing_kernel_def user_kernel_def sample_kernel_def)

end
