(* ===== verification/Shell.thy ===== *)
theory Shell
  imports Line_Input
begin

text \<open>
  The shell, \<^verbatim>\<open>syscalls/ece391shell.c\<close>: it reads a line from the keyboard and has it executed.  What
  the program it starts does is a parameter, the run of the child from its entry to the
  \<open>halt\<close> that goes on in the shell's frame.
\<close>

section \<open>The program\<close>

text \<open>The call of \<open>execute\<close>, with the run of the child: \<open>halt\<close> continues behind \<open>execute\<close> in the frame
  that \<open>execute\<close> saved, with the status in \<open>eax\<close>.\<close>

definition run_command :: "'a kernel_scheme user_env \<Rightarrow> (u32 \<Rightarrow> 'a kernel_scheme \<Rightarrow> (outcome \<times> 'a kernel_scheme) option)
    \<Rightarrow> u32 \<Rightarrow> 'a kernel_scheme \<Rightarrow> (outcome \<times> 'a kernel_scheme) option" where
  "run_command env child buf s =
     (case ece391_execute env buf s of
        Some (Enter_user entry, t) \<Rightarrow>
          (case child entry t of
             Some (Return_to ebp esp eax, u) \<Rightarrow>
               if ebp = cpu_ebp s \<and> esp = cpu_esp s then Some (Ret (sint eax), u)
               else Some (Return_to ebp esp eax, u)
           | r \<Rightarrow> r)
      | r \<Rightarrow> r)"

definition shell_line :: "u32 \<Rightarrow> int \<Rightarrow> 'a kernel_scheme \<Rightarrow> 'a kernel_scheme" where
  "shell_line buf cnt s =
     (let cnt = (if 0 < cnt \<and> mem s (buf + of_int (cnt - 1)) = 0x0A then cnt - 1 else cnt)
      in poke (buf + of_int cnt) 0 s)"

definition shell_report :: "'a kernel_scheme user_env \<Rightarrow> int \<Rightarrow> 'a kernel_scheme \<Rightarrow> (outcome \<times> 'a kernel_scheme) option" where
  "shell_report env rval s =
     (if rval = - 1 then ece391_fdputs env 1 (lit env (''no such command'' @ NL)) s
      else if rval = 256 then ece391_fdputs env 1 (lit env (''program terminated by exception'' @ NL)) s
      else if rval \<noteq> 0 then ece391_fdputs env 1 (lit env (''program terminated abnormally'' @ NL)) s
      else Some (Ret 0, s))"

partial_function (option) shell_loop :: "'a kernel_scheme user_env
    \<Rightarrow> (u32 \<Rightarrow> 'a kernel_scheme \<Rightarrow> (outcome \<times> 'a kernel_scheme) option) \<Rightarrow> u32 \<Rightarrow> 'a kernel_scheme
    \<Rightarrow> (outcome \<times> 'a kernel_scheme) option" where
  "shell_loop env child buf s =
     andthen (ece391_fdputs env 1 (lit env ''391OS> '') s) (\<lambda>_ s.
     andthen (ece391_read env 0 buf 1023 s) (\<lambda>cnt s.
       if cnt = - 1
       then andthen (ece391_fdputs env 1 (lit env (''read from keyboard failed'' @ NL)) s) (\<lambda>_ s. Some (Ret 3, s))
       else let s = shell_line buf cnt s
            in case ece391_strcmp buf (lit env ''exit'') (mem s) of
                 None \<Rightarrow> None
               | Some r \<Rightarrow>
                   if r = 0 then Some (Ret 0, s)
                   else if mem s buf = 0 then shell_loop env child buf s
                   else andthen (run_command env child buf s) (\<lambda>rval s.
                        andthen (shell_report env rval s) (\<lambda>_ s. shell_loop env child buf s))))"

definition shell_main :: "'a kernel_scheme user_env
    \<Rightarrow> (u32 \<Rightarrow> 'a kernel_scheme \<Rightarrow> (outcome \<times> 'a kernel_scheme) option) \<Rightarrow> u32 \<Rightarrow> 'a kernel_scheme
    \<Rightarrow> (outcome \<times> 'a kernel_scheme) option" where
  "shell_main env child buf s =
     andthen (ece391_fdputs env 1 (lit env (''Starting 391 Shell'' @ NL)) s) (\<lambda>_ s. shell_loop env child buf s)"

section \<open>A round of the shell\<close>

definition shell_texts :: "string list" where
  "shell_texts = [''391OS> '', ''exit'', ''no such command'' @ NL, ''program terminated by exception'' @ NL,
     ''program terminated abnormally'' @ NL]"

text \<open>The state at the prompt, in the terms of a dialog.\<close>

abbreviation shell_state :: "nat \<Rightarrow> 'a kernel_scheme user_env \<Rightarrow> u32 \<Rightarrow> 'a kernel_scheme \<Rightarrow> bool" where
  "shell_state \<equiv> dialog_state shell_texts"

abbreviation types_command :: "u8 list \<Rightarrow> 'a kernel_scheme user_env \<Rightarrow> u32 \<Rightarrow> 'a kernel_scheme \<Rightarrow> bool" where
  "types_command \<equiv> types_after ''391OS> ''"

abbreviation prompted :: "u8 list \<Rightarrow> 'a kernel_scheme \<Rightarrow> 'a kernel_scheme \<Rightarrow> bool" where
  "prompted \<equiv> prompted_by ''391OS> ''"

lemmas shell_state_def = dialog_state_def [where ws = shell_texts]
lemmas shell_lit = dialog_lit [where ws = shell_texts]
lemmas shell_state_within = dialog_within [where ws = shell_texts]

lemma shell_texts_ok: "w \<in> set shell_texts \<Longrightarrow> w \<noteq> [] \<and> length w < 2 ^ 31"
  by (auto simp: shell_texts_def)

lemma shell_puts:
  assumes "shell_state n env buf s" "w \<in> set shell_texts"
  shows "\<exists>t. ece391_fdputs env 1 (lit env w) s = Some (Ret (int (length w)), t) \<and> since buf 1024 (str w) s t
    \<and> cur_pcb t = cur_pcb s \<and> shell_state n env buf t"
  using dialog_puts [OF assms] shell_texts_ok [OF assms(2)] by blast

lemma shell_line_string:
  assumes "rd (mem s) buf 129 = read_result (padded 128 xs) 128" "length xs < 80"
  shows "shell_line buf 128 s = poke (buf + of_nat 127) 0 s"
    "cstr (mem (shell_line buf 128 s)) buf (takeWhile (\<lambda>c. c \<noteq> 0) xs)"
proof -
  let ?p = "padded 128 xs"
  have l: "length ?p = 128" using assms(2) by simp
  have "mem s (buf + of_nat 127) = read_result ?p 128 ! 127" using nth_rd [of 127 129 "mem s" buf] assms(1) by simp
  then have nl: "mem s (buf + of_nat 127) = 0x0A" using l by (simp add: read_result_def nth_append)
  then show sl: "shell_line buf 128 s = poke (buf + of_nat 127) 0 s" by (simp add: shell_line_def Let_def)
  have "rd (mem s) buf 127 = take 127 (read_result ?p 128)" using take_rd [of 127 129 "mem s" buf] assms(1) by simp
  then have "rd (mem s) buf 127 = take 127 ?p" using l by (simp add: read_result_def)
  then have "rd (mem (shell_line buf 128 s)) buf (Suc 127) = take 127 ?p @ [0]"
    unfolding sl poke_def using rd_append_byte [of 127 "mem s" buf 0] by simp
  also have "\<dots> = ?p"
  proof -
    have "?p ! 127 = 0" using assms(2) by (simp add: padded_def nth_append)
    then show ?thesis using l take_Suc_conv_app_nth [of 127 ?p] by simp
  qed
  finally show "cstr (mem (shell_line buf 128 s)) buf (takeWhile (\<lambda>c. c \<noteq> 0) xs)"
    using cstr_cut [of "mem (shell_line buf 128 s)" buf 128 xs] assms(2) by simp
qed

lemma shell_reads:
  assumes "shell_state n env buf s" "types_command ks env buf s"
  defines "cmd \<equiv> command_typed ks s"
  shows "\<exists>t. shell_state n env buf t \<and> within buf 1024 s t \<and> cur_pcb t = cur_pcb s \<and> paging.more t = paging.more s
    \<and> still s t \<and> cstr (mem t) buf cmd \<and> prompted (typed ks s) s t
    \<and> shell_loop env child buf s =
        (if cmd = str ''exit'' then Some (Ret 0, t)
         else if cmd = [] then shell_loop env child buf t
         else andthen (run_command env child buf t) (\<lambda>rval u.
              andthen (shell_report env rval u) (\<lambda>_ u. shell_loop env child buf u)))"
proof -
  have w: "''391OS> '' \<in> set shell_texts" "''391OS> '' \<noteq> []" "length ''391OS> '' < 2 ^ 31" by (simp_all add: shell_texts_def)
  from dialog_reads [OF assms(1) w assms(2)] obtain t u where
      t: "ece391_fdputs env 1 (lit env ''391OS> '') s = Some (Ret 7, t)" and
      u: "ece391_read env 0 buf 1023 t = Some (Ret 128, u)" "shell_state n env buf u" "within buf 1024 s u" "cur_pcb u = cur_pcb s"
        "paging.more u = paging.more s" "still s u" "rd (mem u) buf 129 = read_result (padded 128 (typed ks s)) 128"
        "length (typed ks s) < 80" "prompted (typed ks s) s u"
    by auto
  define v where "v = shell_line buf 128 u"
  note sl = shell_line_string [OF u(7,8)]
  have i: "(127 :: nat) < 1024" by simp
  note pk = dialog_poke [OF u(2) i, of 0, folded sl(1), folded v_def]
  have cv: "cstr (mem v) buf cmd" using sl(2) by (simp add: v_def cmd_def command_typed_def)
  have "''exit'' \<in> set shell_texts" by (simp add: shell_texts_def)
  then have "cstr (mem v) (lit env ''exit'') (str ''exit'')" using shell_lit [OF pk(2)] by (simp add: lit_ok_def)
  from user_strcmp [OF cv this] obtain r where r: "ece391_strcmp buf (lit env ''exit'') (mem v) = Some r" "r = 0 \<longleftrightarrow> cmd = str ''exit''"
    by blast
  have z: "mem v buf = 0 \<longleftrightarrow> cmd = []" using cv cstr_nth [OF cv, of 0] by (cases cmd) (auto simp: cstr_def)
  have pm: "paging.more v = paging.more u" by (simp add: v_def sl(1) poke_def)
  have "prompted (typed ks s) s v"
    using u(9) pk(1) by (simp add: prompted_by_def since_def)
  moreover have "shell_loop env child buf s =
        (if cmd = str ''exit'' then Some (Ret 0, v)
         else if cmd = [] then shell_loop env child buf v
         else andthen (run_command env child buf v) (\<lambda>rval u.
              andthen (shell_report env rval u) (\<lambda>_ u. shell_loop env child buf u)))"
    by (subst shell_loop.simps) (simp add: t u(1) Let_def v_def [symmetric] r z)
  ultimately show ?thesis
    using pk within_trans [OF u(3) since_within [OF pk(1)]] u(4,5) cv pm still_trans [OF u(6)] by (auto simp: since_def kept_def)
qed

section \<open>Commands that are refused\<close>

text \<open>The error \<open>execute\<close> prints before it has read the file.\<close>

definition refusal :: "u8 list \<Rightarrow> 'a kernel_scheme \<Rightarrow> string option" where
  "refusal cmd s =
     (if all_busy (process_state s) \<or> 3 < num_proc (terminals s ! unat (get_current_terminal s))
      then Some (''execute: no available process(es)'' @ NL)
      else if 32 < length (command_name cmd) then Some (''execute error: filename too long'' @ NL)
      else if read_dentry_by_name (arr (command_name cmd)) s = None then Some (''execute error: file not found'' @ NL)
      else None)"

text \<open>What is printed, without what \<open>since\<close> says about the processes.\<close>

definition prints :: "u32 \<Rightarrow> nat \<Rightarrow> u8 list \<Rightarrow> 'a kernel_scheme \<Rightarrow> 'a kernel_scheme \<Rightarrow> bool" where
  "prints buf k x s t \<longleftrightarrow> within buf k s t \<and> screen_view t = fold put_char x (screen_view s)"

lemma since_prints: "since buf k x s t \<Longrightarrow> prints buf k x s t"
  by (simp add: prints_def since_within) (simp add: since_def)

lemma prints_trans [trans]: "prints buf k x s t \<Longrightarrow> prints buf k y t u \<Longrightarrow> prints buf k (x @ y) s u"
  using within_trans [of buf k s t u] by (simp add: prints_def)

lemma print_since:
  fixes s :: "'a kernel_scheme"
  assumes "cursor_ok s"
  shows "since buf k (str w) s (print w s)" "pcbs (print w s) = pcbs s" "keys_same s (print w s)"
proof -
  note m = print_more [of w s]
  show "keys_same s (print w s)" by (rule keys_more [OF m])
  have "get_pcb_address (print w s) = get_pcb_address s" by (rule get_pcb_address_cong) simp_all
  then show "since buf k (str w) s (print w s)"
    using con.ok_text [OF assms] con.view_text [OF assms] con.frame_text [OF assms] paging_more [OF m]
      kept_more [OF m] by (auto simp: since_def print_def)
  show "pcbs (print w s) = pcbs s" by simp
qed

lemma execute_refused:
  fixes s :: "'a kernel_scheme"
  assumes "cursor_ok s" "cmd \<noteq> []" "refusal cmd s = Some msg"
  shows "\<exists>t. execute_cmd cmd s = (Ret (- 1), t) \<and> prints buf k (str msg) s t \<and> pcbs t = pcbs s \<and> keys_same s t"
proof -
  have p: "prints buf k (str w) s (print w s')" "pcbs (print w s') = pcbs s" "keys_same s (print w s')"
    if "s' = s\<lparr>shell_flag := f, process_state := ps, wild := b\<rparr>" for w s' f ps b
    using since_prints [OF print_since(1) [of s' buf k w]] print_since(2,3) [of s' w] assms(1) unfolding that
    by (simp_all add: prints_def within_def cursor_ok_def screen_view_def keys_same_def get_pcb_address_def get_current_terminal_def Let_def)
  have f: "prints buf k x s (free_process p t) = prints buf k x s t" "pcbs (free_process p t) = pcbs t"
      "keys_same s (free_process p t) = keys_same s t" for x p and t :: "'a kernel_scheme"
    by (simp_all add: free_process_def prints_def within_def cursor_ok_def screen_view_def keys_same_def get_pcb_address_def
        get_current_terminal_def Let_def)
  let ?q = "free_pid (process_state s)"
  define s2 where "s2 = (if ?q < 6 then (s\<lparr>shell_flag := 1\<rparr>)\<lparr>process_state := (process_state s)[?q := 1]\<rparr>
    else (s\<lparr>shell_flag := 1\<rparr>)\<lparr>wild := True\<rparr>)"
  have p1: "prints buf k (str w) s (print w (s\<lparr>shell_flag := 1\<rparr>))" "pcbs (print w (s\<lparr>shell_flag := 1\<rparr>)) = pcbs s"
      "keys_same s (print w (s\<lparr>shell_flag := 1\<rparr>))" for w
    by (rule p [where ps = "process_state s" and b = "wild s"], simp)+
  have p2: "prints buf k (str w) s (print w s2)" "pcbs (print w s2) = pcbs s" "keys_same s (print w s2)" for w
    by (rule p [where ps = "if ?q < 6 then (process_state s)[?q := 1] else process_state s"
          and b = "if ?q < 6 then wild s else True" and f = 1], simp add: s2_def)+
  have g: "get_current_terminal (s\<lparr>shell_flag := 1\<rparr>) = get_current_terminal s" by (simp add: get_current_terminal_def)
  have e: "execute_cmd cmd s =
     (if all_busy (process_state s) \<or> 3 < num_proc (terminals s ! unat (get_current_terminal s))
      then (Ret (- 1), print (''execute: no available process(es)'' @ NL) (s\<lparr>shell_flag := 1\<rparr>))
      else if 32 < length (command_name cmd) then (Ret (- 1), print (''execute error: filename too long'' @ NL) s2)
      else execute_load (command_name cmd) (command_args cmd) ?q s2)"
    using assms(2) by (simp add: execute_cmd_def Let_def parse_command_words s2_def g)
  have "read_dentry_by_name f s2 = read_dentry_by_name f s" for f
    by (rule read_dentry_by_name_cong) (simp_all add: s2_def)
  then have l: "execute_load f a p s2 = (Ret (- 1), free_process p (print (''execute error: file not found'' @ NL) s2))"
    if "read_dentry_by_name (arr f) s = None" for f a p using that by (simp add: execute_load_def)
  show ?thesis using assms(3) p1 p2 l unfolding e refusal_def by (auto split: if_splits simp: f)
qed

lemma refusal_same:
  assumes "within buf 1024 s t" "paging.more t = paging.more s" "shell_state n env buf s"
  shows "refusal cmd t = refusal cmd s"
proof -
  have "read_dentry_by_name f t = read_dentry_by_name f s" for f
    using within_image(6) [OF assms(1)] assms(3) unfolding shell_state_def by blast
  then show ?thesis using kernel_more [OF assms(2)] by (simp add: refusal_def get_current_terminal_def)
qed

section \<open>What the shell says\<close>

definition report_text :: "int \<Rightarrow> string" where
  "report_text rval = (if rval = - 1 then ''no such command'' @ NL
     else if rval = 256 then ''program terminated by exception'' @ NL
     else if rval \<noteq> 0 then ''program terminated abnormally'' @ NL else [])"

lemma shell_report_prints:
  assumes "shell_state n env buf s"
  shows "\<exists>q t. shell_report env rval s = Some (Ret q, t) \<and> since buf 1024 (str (report_text rval)) s t
    \<and> cur_pcb t = cur_pcb s \<and> shell_state n env buf t"
proof (cases "rval = 0")
  case True
  have "cursor_ok s" using assms by (simp add: shell_state_def ready_def)
  then show ?thesis using True assms since_refl [of s buf 1024] by (auto simp: shell_report_def report_text_def str_def)
next
  case False
  then have r: "report_text rval \<in> set shell_texts" "shell_report env rval s = ece391_fdputs env 1 (lit env (report_text rval)) s"
    by (auto simp: report_text_def shell_texts_def shell_report_def)
  show ?thesis unfolding r(2) using shell_puts [OF assms r(1)] by blast
qed

text \<open>The kernel refuses the command, the shell says so and prompts again.\<close>

lemma shell_refuses:
  assumes "shell_state n env buf u" "cstr (mem u) buf cmd" "cmd \<noteq> []" "refusal cmd u = Some msg"
  shows "\<exists>t. prints buf 1024 (str (msg @ ''no such command'' @ NL)) u t \<and> shell_state n env buf t
    \<and> andthen (run_command env child buf u) (\<lambda>rval u. andthen (shell_report env rval u) (\<lambda>_ u. f u)) = f t"
proof -
  have b: "buf \<noteq> 0" "cursor_ok u" using assms(1) by (auto simp: shell_state_def array_ok_def ready_def)
  obtain v where v: "execute_cmd cmd u = (Ret (- 1), v)" "prints buf 1024 (str msg) u v" "pcbs v = pcbs u" "keys_same u v"
    using execute_refused [OF b(2) assms(3,4)] by blast
  have "unat (of_nat (length cmd) :: u32) = length cmd" using assms(2) by (simp add: cstr_def unat_u32_of_nat)
  then have "ece391_execute env buf u = Some (Ret (- 1), v)"
    using assms(2) v(1) b(1) strlen_cstr [OF assms(2)] by (simp add: user_calls execute_def cstr_def)
  then have r: "run_command env child buf u = Some (Ret (- 1), v)" by (simp add: run_command_def)
  have cp: "cur_pcb v = cur_pcb u" using v(2,3) by (simp add: cur_pcb_def prints_def within_def)
  have "shell_state n env buf v"
    by (rule shell_state_within [OF conjunct1 [OF v(2) [unfolded prints_def]] assms(1)])
       (use assms(1) cp kb_ready_same [OF v(4)] in \<open>simp_all add: shell_state_def ready_def\<close>)
  from shell_report_prints [OF this, of "- 1"] obtain q t where
      t: "shell_report env (- 1) v = Some (Ret q, t)" "since buf 1024 (str (''no such command'' @ NL)) v t" "shell_state n env buf t"
    by (auto simp: report_text_def)
  have "andthen (run_command env child buf u) (\<lambda>rval u. andthen (shell_report env rval u) (\<lambda>_ u. f u)) = f t"
    by (simp add: r t(1))
  moreover have "prints buf 1024 (str (msg @ ''no such command'' @ NL)) u t"
    using prints_trans [OF v(2) since_prints [OF t(2)]] by (simp add: str_def)
  ultimately show ?thesis using t(3) by blast
qed

section \<open>A user at the sample machine\<close>

text \<open>The keyboard delivers the letter a and, when its interrupt has been acknowledged, enter.\<close>

definition shell_kernel :: kernel where
  "shell_kernel = typing_kernel shell_texts [0x1E]"

definition shell_env :: "kernel user_env" where
  "shell_env = typing_env shell_texts [True, False, True]"

lemma shell_texts_small: "length (lit_bytes shell_texts) \<le> 0x10000" "\<forall>w \<in> set shell_texts. 0 \<notin> set (str w)"
  by (simp_all add: shell_texts_def str_def)

lemma shell_kernel_state: "shell_state 0x3000 shell_env 0x08049000 shell_kernel"
  unfolding shell_env_def shell_kernel_def by (rule typing_kernel_state(1) [OF shell_texts_small])

lemma prompt_cx: "cx v = 0 \<Longrightarrow> cx (fold put_char (str ''391OS> '') v) = 7"
  by (subst cx_text) (simp_all add: str_def)

lemma shell_kernel_types: "types_command [0x1E] shell_env 0x08049000 shell_kernel" "command_typed [0x1E] shell_kernel = [0x61]"
    "typed [0x1E] shell_kernel = [0x61]"
proof -
  let ?s = shell_kernel
  have "''391OS> '' \<in> set shell_texts" by (simp add: shell_texts_def)
  then show "types_command [0x1E] shell_env 0x08049000 ?s"
    using typing_kernel_types [OF shell_texts_small, of "[0x1E]" "[True, False]" "''391OS> ''"]
    by (simp add: shell_kernel_def shell_env_def plain_key_def prompt_cx typing_kernel_cx)
  show "typed [0x1E] ?s = [0x61]"
    by (simp add: typed_def shell_kernel_def typing_kernel_def user_kernel_def sample_kernel_def key_table_def arr_def
        scancode_normal_def keypad_def str_def)
  then show "command_typed [0x1E] ?s = [0x61]" by (simp add: command_typed_def)
qed

lemma shell_kernel_refuses: "refusal [0x61] shell_kernel = Some (''execute error: file not found'' @ NL)"
proof -
  let ?s = "user_kernel shell_texts"
  note im = user_kernel_image [OF shell_texts_small(1)]
  have u: "upto0 (arr [0x61]) 0 32 = [0x61]" by (simp add: upto0_def arr_def upt_rec)
  have "\<not> entry_named (arr [0x61]) ?s i" if "i < dir_size ?s" for i
  proof -
    have "i = 0 \<or> i = 1" using that im(2) by auto
    then show ?thesis using im(5,6) by (auto simp: entry_named_def u str_def)
  qed
  then have "read_dentry_by_name (arr [0x61]) ?s = None" by (simp add: root_dir.lookup_None_iff)
  moreover have "read_dentry_by_name (arr [0x61]) shell_kernel = read_dentry_by_name (arr [0x61]) ?s"
    by (rule read_dentry_by_name_cong) (simp_all add: shell_kernel_def typing_kernel_def)
  ultimately show ?thesis
    by (simp add: refusal_def command_name_def blank_def)
       (simp add: shell_kernel_def typing_kernel_def user_kernel_def sample_kernel_def all_busy_def get_current_terminal_def sample_terminal_def)
qed

section \<open>Properties\<close>

text \<open>C6: a round of the shell: behind the prompt the user types and corrects a line and presses enter; the
  display shows the line, and its characters up to a NUL are the command.  The shell returns 0 for
  \<open>exit\<close>, prompts again for an empty line, and has every other command executed.  When the kernel
  refuses it (no process left, name too long, no such file), its error and the shell's are printed and
  the shell prompts again, in a state in which all this holds for the next line.\<close>
theorem shell_correct:
  assumes "shell_state n env buf s" "types_command ks env buf s"
  shows "let cmd = command_typed ks s in \<exists>u. shell_state n env buf u \<and> prompted (typed ks s) s u
    \<and> (cmd = str ''exit'' \<longrightarrow> shell_loop env child buf s = Some (Ret 0, u))
    \<and> (cmd = [] \<longrightarrow> shell_loop env child buf s = shell_loop env child buf u)
    \<and> (cmd \<noteq> [] \<and> cmd \<noteq> str ''exit'' \<longrightarrow>
         shell_loop env child buf s = andthen (run_command env child buf u) (\<lambda>rval v.
           andthen (shell_report env rval v) (\<lambda>_ v. shell_loop env child buf v))
         \<and> ece391_execute env buf u = Some (execute_cmd cmd u)
         \<and> (\<forall>msg. refusal cmd s = Some msg \<longrightarrow> (\<exists>t. shell_state n env buf t
              \<and> screen_view t = fold put_char (str (msg @ ''no such command'' @ NL)) (screen_view u)
              \<and> shell_loop env child buf s = shell_loop env child buf t)))"
proof -
  let ?cmd = "command_typed ks s"
  obtain u where u: "shell_state n env buf u" "within buf 1024 s u" "paging.more u = paging.more s"
      "cstr (mem u) buf ?cmd" "prompted (typed ks s) s u"
      "shell_loop env child buf s = (if ?cmd = str ''exit'' then Some (Ret 0, u)
         else if ?cmd = [] then shell_loop env child buf u
         else andthen (run_command env child buf u) (\<lambda>rval v.
              andthen (shell_report env rval v) (\<lambda>_ v. shell_loop env child buf v)))"
    using shell_reads [OF assms, of child] by blast
  note rs = refusal_same [OF u(2,3) assms(1)]
  have ne: "[] \<noteq> str ''exit''" by (simp add: str_def)
  have b: "buf \<noteq> 0" using u(1) by (simp add: shell_state_def array_ok_def)
  have "unat (of_nat (length ?cmd) :: u32) = length ?cmd" using u(4) by (simp add: cstr_def unat_u32_of_nat)
  then have x: "ece391_execute env buf u = Some (execute_cmd ?cmd u)"
    using u(4) b strlen_cstr [OF u(4)] by (simp add: user_calls execute_def cstr_def)
  have "\<exists>t. shell_state n env buf t \<and> screen_view t = fold put_char (str (msg @ ''no such command'' @ NL)) (screen_view u)
      \<and> shell_loop env child buf s = shell_loop env child buf t"
    if "refusal ?cmd s = Some msg" "?cmd \<noteq> []" "?cmd \<noteq> str ''exit''" for msg
  proof -
    have "refusal ?cmd u = Some msg" using that(1) by (simp only: rs)
    from shell_refuses [OF u(1,4) that(2) this, of child "shell_loop env child buf"] show ?thesis
      unfolding u(6) prints_def using that(2,3) by auto
  qed
  then show ?thesis unfolding Let_def using u(1,5,6) x ne by (intro exI [of _ u]) auto
qed

theorem shell_correct_witness:
  "\<forall>child. \<exists>u t. screen_view t = fold put_char (str (''execute error: file not found'' @ NL @ ''no such command'' @ NL)) (screen_view u)
     \<and> prompted (str ''a'') shell_kernel u
     \<and> shell_loop shell_env child 0x08049000 shell_kernel = shell_loop shell_env child 0x08049000 t"
proof
  fix child :: "u32 \<Rightarrow> kernel \<Rightarrow> (outcome \<times> kernel) option"
  note sk = shell_kernel_types
  have a: "str ''a'' = [0x61]" by (simp add: str_def)
  have "[0x61] \<noteq> [] \<and> [0x61 :: u8] \<noteq> str ''exit''" by (simp add: str_def)
  then show "\<exists>u t. screen_view t = fold put_char (str (''execute error: file not found'' @ NL @ ''no such command'' @ NL)) (screen_view u)
     \<and> prompted (str ''a'') shell_kernel u
     \<and> shell_loop shell_env child 0x08049000 shell_kernel = shell_loop shell_env child 0x08049000 t"
    using shell_correct [OF shell_kernel_state sk(1), of child, unfolded Let_def sk(2,3)] shell_kernel_refuses
    unfolding a by (auto simp del: append_Cons)
qed

end
