(* ===== verification/Session.thy ===== *)
theory Session
  imports Shell
begin

text \<open>
  A whole command: the shell reads a line, \<open>execute\<close> gives the program a process and a page, the
  program runs and ends with \<open>halt\<close>, which gives the shell its page, its descriptors and its
  keyboard back.  \<open>cat\<close> is run this way from the shell's prompt.
\<close>

section \<open>The page of a process\<close>

text \<open>The page table entry that shows the page of process \<open>p\<close> at 128 MB.\<close>

definition page_entry :: "int \<Rightarrow> u32" where
  "page_entry p = (0x800000 + of_int p * 0x400000) OR 0x87"

lemma page_frames:
  assumes "p \<in> {0, 1, 2, 3, 4, 5}" "q \<in> {0, 1, 2, 3, 4, 5}"
  shows "user_frame (page_entry p) = user_frame (page_entry q) \<longleftrightarrow> p = q"
  using assms by (auto simp: page_entry_def user_frame_def)

text \<open>The state of the pages while process \<open>p\<close> runs.\<close>

definition mapped :: "int \<Rightarrow> 'a paging_scheme \<Rightarrow> bool" where
  "mapped p s \<longleftrightarrow> tlb_user s = page_entry p \<and> 32 < length (page_directory s)"

lemma page_switch:
  assumes "32 < length (page_directory s)" "t = set_process_page (0x800000 + of_int p * 0x400000) s"
  shows "mapped p t" "frames t = (frames s)(user_frame (tlb_user s) := \<lambda>i. mem s (USER + i))"
    "inr USER 0x400000 a \<Longrightarrow> mem t a = frames t (user_frame (page_entry p)) (a - USER)"
    "\<not> inr USER 0x400000 a \<Longrightarrow> mem t a = mem s a"
  using assms(1) unfolding assms(2)
  by (simp_all add: mapped_def page_entry_def set_process_page_def flush_tlb_def Let_def)

section \<open>The start of a program\<close>

text \<open>What lies below the process layer, but for the ghost flag and the interrupt flag.\<close>

definition low :: "'a kernel_scheme \<Rightarrow> paging" where
  "low s = paging.truncate (s\<lparr>wild := False, iflag := False\<rparr>)"

lemma low_get: "low t = low s \<Longrightarrow> (\<And>u. g (low u) = f u) \<Longrightarrow> f t = f s"
  by metis

lemma low_fields:
  fixes s t :: "'a kernel_scheme"
  assumes "low t = low s"
  shows "mem t = mem s" "screen_x t = screen_x s" "screen_y t = screen_y s" "boot_block t = boot_block s"
    "boot_block_end t = boot_block_end s" "data_block_start t = data_block_start s" "len_inodes t = len_inodes s"
    "kb_buffer t = kb_buffer s" "kb_buffer_index t = kb_buffer_index s" "enter_flag t = enter_flag s"
    "cl_flag t = cl_flag s" "lshift_flag t = lshift_flag s" "rshift_flag t = rshift_flag s" "ctrl_flag t = ctrl_flag s"
    "alt_flag t = alt_flag s" "frames t = frames s" "tlb_user t = tlb_user s" "page_directory t = page_directory s"
proof -
  note g = low_get [OF assms]
  show "mem t = mem s" "screen_x t = screen_x s" "screen_y t = screen_y s" "boot_block t = boot_block s"
    "boot_block_end t = boot_block_end s" "data_block_start t = data_block_start s" "len_inodes t = len_inodes s"
    "kb_buffer t = kb_buffer s" "kb_buffer_index t = kb_buffer_index s" "enter_flag t = enter_flag s"
    "cl_flag t = cl_flag s" "lshift_flag t = lshift_flag s" "rshift_flag t = rshift_flag s" "ctrl_flag t = ctrl_flag s"
    "alt_flag t = alt_flag s" "frames t = frames s" "tlb_user t = tlb_user s" "page_directory t = page_directory s"
    by (rule g [of mem] g [of screen_x] g [of screen_y] g [of boot_block] g [of boot_block_end] g [of data_block_start]
        g [of len_inodes] g [of kb_buffer] g [of kb_buffer_index] g [of enter_flag] g [of cl_flag] g [of lshift_flag]
        g [of rshift_flag] g [of ctrl_flag] g [of alt_flag] g [of frames] g [of tlb_user] g [of page_directory],
        simp add: low_def paging.truncate_def)+
qed

lemma low_ops:
  "low (upd_pcb a f s) = low s" "low (upd_term t g s) = low s" "low (s\<lparr>last_shell := l\<rparr>) = low s"
  "low (s\<lparr>wild := w\<rparr>) = low s" "low (claim_slot t p s) = low s" "low (free_process i s) = low s"
  "low (sti s) = low s" "low (s\<lparr>tss_ss0 := x, tss_esp0 := y\<rparr>) = low s"
  by (simp_all add: low_def sti_def upd_pcb_def upd_term_def claim_slot_def free_process_def paging.truncate_def)

lemma low_if: "low (if b then x else y) = (if b then low x else low y)"
  by simp

lemma low_start: "low (start_process f a p (start_pcb q s)) = low s"
  by (simp add: start_process_def start_pcb_def Let_def low_ops low_if)

lemma start_kernel:
  fixes s :: "'a kernel_scheme" and f a :: "u8 list" and p :: nat
  defines "t \<equiv> start_process f a p (start_pcb p s)"
  shows "exception_status t = exception_status s" "cpu_ebp t = cpu_ebp s" "cpu_esp t = cpu_esp s"
    "before_processes t = before_processes s"
proof -
  have c: "exception_status (claim_slot k q u) = exception_status u" "cpu_ebp (claim_slot k q u) = cpu_ebp u"
      "cpu_esp (claim_slot k q u) = cpu_esp u" "before_processes (claim_slot k q u) = before_processes u"
    for k q and u :: "'a kernel_scheme"
    by (simp_all add: claim_slot_def upd_term_def)
  show "exception_status t = exception_status s" "cpu_ebp t = cpu_ebp s" "cpu_esp t = cpu_esp s"
    "before_processes t = before_processes s"
    by (simp_all add: t_def start_process_def start_pcb_def Let_def upd_pcb_def c upd_term_def)
qed

lemma entered:
  fixes s :: "'a kernel_scheme" and p :: nat and n :: u16
  defines "t \<equiv> snd (enter_program p (load_image p n s))"
  shows "screen_x t = screen_x s" "screen_y t = screen_y s" "boot_block t = boot_block s"
    "boot_block_end t = boot_block_end s" "data_block_start t = data_block_start s" "len_inodes t = len_inodes s"
    "kb_buffer t = kb_buffer s" "kb_buffer_index t = kb_buffer_index s" "enter_flag t = enter_flag s"
    "cl_flag t = cl_flag s" "lshift_flag t = lshift_flag s" "rshift_flag t = rshift_flag s" "ctrl_flag t = ctrl_flag s"
    "alt_flag t = alt_flag s" "exception_status t = exception_status s" "last_shell t = last_shell s"
    "before_processes t = before_processes s" "file_data_addr t = file_data_addr s"
    "frames t = (frames s)(user_frame (tlb_user s) := \<lambda>i. mem s (USER + i))"
    "32 < length (page_directory s) \<Longrightarrow> mapped (int p) t"
proof -
  have l: "low t = low (load_image p n s)" by (simp add: t_def enter_program_def Let_def low_ops)
  note f = low_fields [OF l]
  have k: "exception_status t = exception_status (load_image p n s)" "last_shell t = last_shell (load_image p n s)"
      "before_processes t = before_processes (load_image p n s)" "file_data_addr t = file_data_addr (load_image p n s)"
    by (simp_all add: t_def enter_program_def Let_def upd_pcb_def upd_term_def)
  show "screen_x t = screen_x s" "screen_y t = screen_y s" "boot_block t = boot_block s"
    "boot_block_end t = boot_block_end s" "data_block_start t = data_block_start s" "len_inodes t = len_inodes s"
    "kb_buffer t = kb_buffer s" "kb_buffer_index t = kb_buffer_index s" "enter_flag t = enter_flag s"
    "cl_flag t = cl_flag s" "lshift_flag t = lshift_flag s" "rshift_flag t = rshift_flag s" "ctrl_flag t = ctrl_flag s"
    "alt_flag t = alt_flag s" "exception_status t = exception_status s" "last_shell t = last_shell s"
    "before_processes t = before_processes s" "file_data_addr t = file_data_addr s"
    "frames t = (frames s)(user_frame (tlb_user s) := \<lambda>i. mem s (USER + i))"
    unfolding f k load_image_def Let_def by (simp_all add: set_process_page_def flush_tlb_def Let_def)
  show "mapped (int p) t" if "32 < length (page_directory s)"
    unfolding mapped_def f load_image_def Let_def
    using that by (simp add: set_process_page_def flush_tlb_def Let_def page_entry_def)
qed

text \<open>The process that \<open>execute\<close> starts below \<open>q\<close>, with the pid \<open>p\<close>.\<close>

definition child_of :: "nat \<Rightarrow> int \<Rightarrow> nat \<Rightarrow> u8 list \<Rightarrow> 'a kernel_scheme \<Rightarrow> 'a kernel_scheme \<Rightarrow> bool" where
  "child_of n q p args s t \<longleftrightarrow> same_disk n s t \<and> cursor_ok t \<and> screen_view t = screen_view s \<and> keys_same s t
     \<and> cur_term t = cur_term s \<and> get_pcb_address t = get_pcb (of_nat p) \<and> exception_status t = exception_status s
     \<and> (\<forall>a. a \<noteq> get_pcb (of_nat p) \<longrightarrow> pcbs t a = pcbs s a) \<and> last_shell t = last_shell s
     \<and> mapped (int p) t \<and> (\<forall>f. f \<noteq> user_frame (tlb_user s) \<longrightarrow> frames t f = frames s f)
     \<and> (\<forall>a. inr USER 0x400000 a \<longrightarrow> frames t (user_frame (tlb_user s)) (a - USER) = mem s a)
     \<and> fd_wf (cur_pcb t) \<and> fd_flags (pcb_file (cur_pcb t) ! 1) = 1 \<and> fd_op (pcb_file (cur_pcb t) ! 1) = Some Stdout_op
     \<and> (\<forall>i \<ge> 2. pcb_file (cur_pcb t) ! i = pcb_file (pcbs s (get_pcb (of_nat p))) ! i)
     \<and> (\<exists>rest. pcb_arg (cur_pcb t) = args @ [0] @ rest) \<and> parent_pid (cur_pcb t) = q
     \<and> parent_ebp (cur_pcb t) = cpu_ebp s \<and> parent_esp (cur_pcb t) = cpu_esp s"

lemma claim_slot_shell: "first_run (terminals s ! t) = 0 \<Longrightarrow> last_shell (claim_slot t p s) = last_shell s"
  by (simp add: claim_slot_def)

lemma claim_slot_num: "num_proc (terminals (claim_slot t p s) ! k) = num_proc (terminals s ! k)"
proof -
  have u: "num_proc ((terminals s)[j := x] ! k) = num_proc (terminals s ! k)" if "num_proc x = num_proc (terminals s ! j)" for x j
    using that by (cases "j < length (terminals s)"; cases "k = j") (simp_all add: list_update_beyond)
  show ?thesis unfolding claim_slot_def Let_def by (simp add: upd_term_def u)
qed

lemma start_parent:
  fixes s :: "'a kernel_scheme" and p :: nat
  defines "u \<equiv> unat (get_current_terminal s)"
  assumes "first_run (terminals s ! u) = 0" "num_proc (terminals s ! u) \<noteq> 0"
  shows "parent_of u (start_pcb p s) = last_shell s ! u" "last_shell (start_pcb p s) = last_shell s"
proof -
  let ?s = "upd_term u (\<lambda>tm. tm\<lparr>term_proc := get_pcb (of_nat p)\<rparr>) (upd_pcb (get_pcb (of_nat p)) (\<lambda>p'. p'\<lparr>pcb_pid := int p\<rparr>) s)"
  have e: "start_pcb p s = claim_slot u (int p) ?s" by (simp add: start_pcb_def Let_def u_def)
  have f: "first_run (terminals ?s ! u) = 0" "num_proc (terminals ?s ! u) \<noteq> 0"
    using assms(2,3) by (cases "u < length (terminals s)"; simp add: list_update_beyond)+
  then show l: "last_shell (start_pcb p s) = last_shell s"
    unfolding e by (simp add: claim_slot_shell upd_pcb_def)
  show "parent_of u (start_pcb p s) = last_shell s ! u"
    using f(2) l by (simp add: parent_of_def e claim_slot_num)
qed

lemma start_first_run: "procs s gs \<Longrightarrow> gs ! cur_term s \<noteq> [] \<Longrightarrow>
    first_run (terminals s ! cur_term s) = 0 \<and> num_proc (terminals s ! cur_term s) \<noteq> 0"
  using term_of [of s gs "cur_term s"] by (auto simp: procs_def term_ok_def)

lemma setup_files:
  assumes "fd_wf p"
  shows "fd_wf (setup_pcb a q p)" "fd_flags (pcb_file (setup_pcb a q p) ! 1) = 1"
    "fd_op (pcb_file (setup_pcb a q p) ! 1) = Some Stdout_op"
    "2 \<le> i \<Longrightarrow> pcb_file (setup_pcb a q p) ! i = pcb_file p ! i"
proof -
  let ?fs = "(pcb_file p)[0 := (pcb_file p ! 0)\<lparr>fd_flags := 1, fd_op := Some Stdin_op, fd_pos := 0\<rparr>,
    1 := (pcb_file p ! 1)\<lparr>fd_flags := 1, fd_op := Some Stdout_op, fd_pos := 0\<rparr>]"
  have f: "pcb_file (setup_pcb a q p) = ?fs" by (simp add: setup_pcb_def Let_def)
  have l: "length (pcb_file p) = 8" using assms by (simp add: fd_wf_def)
  have "fd_wf (p\<lparr>pcb_file := (pcb_file p)[0 := (pcb_file p ! 0)\<lparr>fd_flags := 1, fd_op := Some Stdin_op, fd_pos := 0\<rparr>]\<rparr>)" (is "fd_wf ?p")
    by (rule fd_wf_update [OF assms]) (simp add: fd_ok_def)
  then have "fd_wf (?p\<lparr>pcb_file := (pcb_file ?p)[1 := (pcb_file p ! 1)\<lparr>fd_flags := 1, fd_op := Some Stdout_op, fd_pos := 0\<rparr>]\<rparr>)"
    by (rule fd_wf_update) (simp add: fd_ok_def)
  then show "fd_wf (setup_pcb a q p)" by (simp add: fd_wf_def f)
  show "fd_flags (pcb_file (setup_pcb a q p) ! 1) = 1" "fd_op (pcb_file (setup_pcb a q p) ! 1) = Some Stdout_op"
    using l by (simp_all add: f)
  show "2 \<le> i \<Longrightarrow> pcb_file (setup_pcb a q p) ! i = pcb_file p ! i" by (simp add: f)
qed

text \<open>A file that can be loaded, and room for it.\<close>

definition program_file :: "u32 \<Rightarrow> 'a kernel_scheme \<Rightarrow> bool" where
  "program_file ino s \<longleftrightarrow> ino < inode_count s \<and> take 4 (contents s ino) = exe_identifier
     \<and> 28 \<le> length (contents s ino) \<and> length (contents s ino) \<le> 0xFFFF
     \<and> length (contents s ino) \<le> unat (len_inodes s)
     \<and> apart (file_data_addr s) (unat (len_inodes s)) USER 0x400000"

lemma program_loadable:
  assumes "program_file ino s" "disk n s" "apart (file_data_addr s) (unat (len_inodes s)) (boot_block s) n"
  shows "loadable ino s"
proof -
  have "unat (len_inodes s) \<le> 2 ^ 32" using unat_u32_less [of "len_inodes s"] by simp
  then show ?thesis using assms disk_buffer(1) [OF assms(2) _ assms(3)] by (simp add: loadable_def program_file_def)
qed

text \<open>What the shell's terminal, its page and the memory must be for the command.\<close>

definition can_run :: "nat \<Rightarrow> int list list \<Rightarrow> int list \<Rightarrow> int \<Rightarrow> u8 list \<Rightarrow> 'a kernel_scheme \<Rightarrow> bool" where
  "can_run n gs g q cmd s \<longleftrightarrow> procs s gs \<and> gs ! cur_term s = g @ [q] \<and> length g < 3 \<and> \<not> all_busy (process_state s)
     \<and> mapped q s \<and> last_shell s ! cur_term s = q \<and> exception_status s \<noteq> 256
     \<and> (\<exists>d. read_dentry_by_name (arr (command_name cmd)) s = Some d \<and> program_file (of_int (inode_num d)) s)
     \<and> command_name cmd \<noteq> [] \<and> length (command_name cmd) \<le> 32 \<and> \<not> is_shell (command_name cmd)
     \<and> apart USER 0x400000 (boot_block s) n \<and> apart (file_data_addr s) (unat (len_inodes s)) (boot_block s) n
     \<and> apart (file_data_addr s) (unat (len_inodes s)) VIDEO 4000
     \<and> fd_wf (pcbs s (get_pcb (of_nat (free_pid (process_state s)))))"

text \<open>The pids and the PCBs of the shell and of the program to come.\<close>

lemma can_run_pids:
  assumes "can_run n gs g q cmd s"
  defines "p \<equiv> free_pid (process_state s)"
  shows "p < 6" "int p \<notin> set (concat gs)" "q \<noteq> int p" "0 \<le> q" "q < 6" "get_pcb_address s = get_pcb (of_int q)"
    "get_pcb (of_nat p) \<noteq> get_pcb (of_int q)"
proof -
  have pr: "procs s gs" "gs ! cur_term s = g @ [q]" "\<not> all_busy (process_state s)" using assms(1) by (auto simp: can_run_def)
  show p6: "p < 6" unfolding p_def by (rule free_pid_exists [OF pr(1,3)])
  then show np: "int p \<notin> set (concat gs)" using take_pid_reserved [OF pr(1)] by (simp add: reserved_def p_def)
  have tl: "cur_term s < length gs" using pr(1) by (simp add: procs_def)
  have qs: "q \<in> set (concat gs)" using pr(2) nth_mem [OF tl] by (auto intro!: bexI [of _ "gs ! cur_term s"])
  then show qr: "0 \<le> q" "q < 6" using pr(1) unfolding procs_def pid_ok_def by blast+
  show ne: "q \<noteq> int p" using qs np by blast
  obtain j where j: "q = int j" "j < 6" using qr by (metis nonneg_int_cases of_nat_less_numeral_iff)
  then show "get_pcb (of_nat p) \<noteq> get_pcb (of_int q)" using get_pcb_inj [OF p6 j(2)] ne by auto
  show "get_pcb_address s = get_pcb (of_int q)" using get_pcb_address_last [OF pr(1)] pr(2) by simp
qed

lemma not_shell_last: "\<not> is_shell f \<Longrightarrow> last_shell (start_process f a p s) = last_shell s"
  by (simp add: start_process_def Let_def upd_pcb_def)

lemma child_starts:
  fixes s :: "'a kernel_scheme"
  assumes "can_run n gs g q cmd s" "ready n s"
  defines "p \<equiv> free_pid (process_state s)"
  shows "\<exists>e t. execute_cmd cmd s = (Enter_user e, t) \<and> child_of n q p (command_args cmd) s t
    \<and> procs t (gs[cur_term s := g @ [q, int p]]) \<and> p < 6 \<and> int p \<notin> set (concat gs)"
proof -
  have pr: "procs s gs" "gs ! cur_term s = g @ [q]" "length (gs ! cur_term s) < 4" "\<not> all_busy (process_state s)"
    and mp: "mapped q s" and ls: "last_shell s ! cur_term s = q"
    and nm: "command_name cmd \<noteq> []" "length (command_name cmd) \<le> 32" "\<not> is_shell (command_name cmd)"
    and ap: "apart USER 0x400000 (boot_block s) n" "apart (file_data_addr s) (unat (len_inodes s)) (boot_block s) n"
      "apart (file_data_addr s) (unat (len_inodes s)) VIDEO 4000"
    and wf: "fd_wf (pcbs s (get_pcb (of_nat p)))"
    using assms(1) by (auto simp: can_run_def p_def)
  have dn: "disk n s" using assms(2) by (simp add: ready_def)
  obtain d where d: "read_dentry_by_name (arr (command_name cmd)) s = Some d" "loadable (of_int (inode_num d)) s"
    using assms(1) program_loadable [OF _ dn ap(2)] by (auto simp: can_run_def)
  note p = can_run_pids(1,2) [OF assms(1), folded p_def]
  define img where "img = contents s (of_int (inode_num d))"
  define s1 where "s1 = (take_pid s)\<lparr>mem := wr (file_data_addr s) img (mem s)\<rparr>"
  define s2 where "s2 = start_process (command_name cmd) (command_args cmd) p (start_pcb p s1)"
  define t where "t = snd (enter_program p (load_image p (of_nat (length img)) s2))"
  from execute_program [OF pr(1,4,3) nm(1,2) d]
  obtain t' where t': "execute_cmd cmd s = (Enter_user (le32 (img ! 24) (img ! 25) (img ! 26) (img ! 27)), t')"
      "procs t' (gs[cur_term s := gs ! cur_term s @ [int p]])"
      "t' = snd (execute_start (command_name cmd) (command_args cmd) p (of_nat (length img)) s1)"
      "\<forall>a. \<not> inr (file_data_addr s) (length img) a \<and> \<not> inr USER 0x400000 a \<longrightarrow> mem t' a = mem s a"
    unfolding img_def p_def s1_def by blast
  have tt: "t' = t" by (simp add: t'(3) t_def s2_def execute_start_def)
  note ex = t'(1) [unfolded tt] and pt = t'(2) [unfolded tt] and mt = t'(4) [unfolded tt]
  have l2: "low s2 = low s1" unfolding s2_def by (rule low_start)
  note f2 = low_fields [OF l2] and en = entered [where p = p and n = "of_nat (length img)" and s = s2, folded t_def]
  have u: "unat (get_current_terminal s1) = cur_term s"
    using procs_current [OF pr(1)] by (simp add: s1_def take_pid_def get_current_terminal_def)
  have ts1: "terminals s1 = terminals s" "pcbs s1 = pcbs s" "cpu_ebp s1 = cpu_ebp s" "cpu_esp s1 = cpu_esp s"
    "last_shell s1 = last_shell s" "exception_status s1 = exception_status s"
    by (simp_all add: s1_def take_pid_def)
  have fr: "first_run (terminals s1 ! cur_term s) = 0" "num_proc (terminals s1 ! cur_term s) \<noteq> 0"
    using start_first_run [OF pr(1)] pr(2) by (simp_all add: ts1)
  note sp = start_parent [where s = s1 and p = p, unfolded u, OF fr, unfolded ts1]
  let ?a = "get_pcb (of_nat p)"
  have pc: "pcbs t a = (if a = ?a then (setup_pcb (command_args cmd) q ((pcbs s ?a)\<lparr>pcb_pid := int p\<rparr>))
      \<lparr>parent_esp := cpu_esp s, parent_ebp := cpu_ebp s\<rparr> else pcbs s a)" for a
    by (simp add: t_def enter_program_fields load_image_fields s2_def start_kernel start_process_fields start_pcb_fields
        ts1 get_current_terminal_def [of "start_pcb p s1"] u [unfolded get_current_terminal_def] sp(1) ls)
  have ct: "cur_term t = cur_term s"
    by (simp add: t_def enter_program_fields load_image_fields s2_def start_process_fields start_pcb_fields s1_def take_pid_def)
  have "gs[cur_term s := gs ! cur_term s @ [int p]] ! cur_term s = g @ [q, int p]"
    using pr(1,2) by (simp add: procs_def)
  then have ga: "get_pcb_address t = ?a" using get_pcb_address_last [OF pt] ct by simp
  have k: "unat (len_inodes s) < 2 ^ 32" by (rule unat_u32_less)
  have li: "length img \<le> unat (len_inodes s)" using d(2) by (simp add: loadable_def img_def)
  have keep: "mem t a = mem s a" if "inr (boot_block s) n a \<or> inr VIDEO 4000 a" for a
  proof -
    have uv: "apart USER 0x400000 VIDEO 4000" by (simp add: apart_def unat_u32_minus)
    have "\<not> inr USER 0x400000 a" "\<not> inr (file_data_addr s) (unat (len_inodes s)) a"
      using that apartD [OF ap(1)] apartD [OF ap(2)] apartD [OF ap(3)] apartD [OF uv] by blast+
    then show ?thesis using mt inr_mono [OF _ li] by blast
  qed
  have sd: "same_disk n s t"
    using keep by (simp add: same_disk_def keeps_def en f2 s1_def take_pid_def)
  have tc: "text_cells (mem t) = text_cells (mem s)"
    by (intro nth_equalityI) (use keep cell_in_video in auto)
  have "cursor_ok s" using assms(2) by (simp add: ready_def)
  then have sv: "cursor_ok t" "screen_view t = screen_view s"
    by (simp_all add: cursor_ok_def screen_view_def tc en f2) (simp_all add: s1_def take_pid_def)
  have ks: "keys_same s t" by (simp add: keys_same_def en f2) (simp add: s1_def take_pid_def)
  have m: "32 < length (page_directory s2)" using mp by (simp add: mapped_def f2 s1_def take_pid_def)
  have fm: "frames t f = frames s f" if "f \<noteq> user_frame (tlb_user s)" for f
    using that by (simp add: en f2) (simp add: s1_def take_pid_def)
  have fu: "frames t (user_frame (tlb_user s)) (a - USER) = mem s a" if "inr USER 0x400000 a" for a
  proof -
    have "apart (file_data_addr s) (unat (len_inodes s)) USER 0x400000" using d(2) by (simp add: loadable_def)
    then have "\<not> inr (file_data_addr s) (length img) a" using that apartD inr_mono [OF _ li] by blast
    then have "mem s1 a = mem s a" using wr_other [of "file_data_addr s" img a "mem s"] li k by (simp add: s1_def)
    moreover have "tlb_user s2 = tlb_user s" by (simp add: f2 s1_def take_pid_def)
    ultimately show ?thesis by (simp add: en f2)
  qed
  let ?pcb = "setup_pcb (command_args cmd) q ((pcbs s ?a)\<lparr>pcb_pid := int p\<rparr>)"
  have cp: "cur_pcb t = ?pcb\<lparr>parent_esp := cpu_esp s, parent_ebp := cpu_ebp s\<rparr>" by (simp add: cur_pcb_def ga pc)
  have "fd_wf ((pcbs s ?a)\<lparr>pcb_pid := int p\<rparr>)" using wf by (simp add: fd_wf_def)
  note sf = setup_files [OF this, where a = "command_args cmd" and q = q]
  have "fd_wf (cur_pcb t)" using sf(1) by (simp add: cp fd_wf_def)
  then have "child_of n q p (command_args cmd) s t"
    unfolding child_of_def
    using sd sv ks ct ga pc en(15,16) fm fu en(20) [OF m] sf(2-4) f2
    by (simp add: cp ts1 start_kernel s2_def not_shell_last [OF nm(3)] sp(2)) (simp add: setup_pcb_def Let_def)
  then show ?thesis using ex pt p pr(2) by (intro exI conjI) auto
qed

section \<open>The end of a program\<close>

lemma halt_fd_parent:
  assumes "get_pcb_address s = b" "a \<noteq> b" "\<forall>i. 2 \<le> i \<and> i < 8 \<longrightarrow> flag_at s b i \<noteq> 1" "k < 8"
  shows "pcbs (halt_fd a k s) b = pcbs s b" "get_pcb_address (halt_fd a k s) = b"
proof -
  have "sys_close (int k) s = (- 1, s)" if "1 < k"
    using assms(1,3) that by (simp add: sys_close_def Let_def)
  then show "pcbs (halt_fd a k s) b = pcbs s b" using assms(2) by (simp add: halt_fd_def Let_def upd_fd_def)
  show "get_pcb_address (halt_fd a k s) = b" using files_only_fields(11) [OF files_only_halt_fd] assms(1) by metis
qed

lemma halt_fds_parent:
  assumes "get_pcb_address s = b" "a \<noteq> b" "\<forall>i. 2 \<le> i \<and> i < 8 \<longrightarrow> flag_at s b i \<noteq> 1" "\<forall>k \<in> set ks. k < 8"
  shows "pcbs (fold (halt_fd a) ks s) b = pcbs s b"
  using assms(1,3,4)
proof (induction ks arbitrary: s)
  case (Cons k ks)
  note p = halt_fd_parent [OF Cons.prems(1) assms(2) Cons.prems(2)]
  show ?case using Cons.IH [OF p(2)] p(1) Cons.prems(2,3) by simp
qed simp

lemma files_only_low: "files_only s t \<Longrightarrow> low t = low s"
  by (auto simp: files_only_def low_def paging.truncate_def)

lemma low_halted: "low (halted s) = low s"
proof -
  have c: "low (cli u) = low u" "low (u\<lparr>exception_status := x\<rparr>) = low u" for u :: "'a kernel_scheme" and x
    by (simp_all add: low_def cli_def paging.truncate_def)
  show ?thesis by (simp add: halted_def remove_process_def Let_def low_ops low_if c)
qed

lemma halted_kernel:
  assumes "exception_status s \<noteq> 256" "last_shell s ! cur_term s \<noteq> pcb_pid (cur_pcb s)"
  shows "exception_status (halted s) = exception_status s" "last_shell (halted s) = last_shell s"
proof -
  have g: "get_pcb_address (cli s) = get_pcb_address s" by (rule get_pcb_address_cong) simp_all
  show "exception_status (halted s) = exception_status s" "last_shell (halted s) = last_shell s"
    using assms by (simp_all add: halted_def remove_process_def Let_def g cur_pcb_def free_process_def upd_term_def)
qed

text \<open>The parts of the machine that a change of the page leaves alone.\<close>

definition page_only :: "'a kernel_scheme \<Rightarrow> 'a kernel_scheme \<Rightarrow> bool" where
  "page_only s t \<longleftrightarrow> screen_x t = screen_x s \<and> screen_y t = screen_y s \<and> boot_block t = boot_block s
     \<and> boot_block_end t = boot_block_end s \<and> data_block_start t = data_block_start s \<and> len_inodes t = len_inodes s
     \<and> keys_same s t \<and> cursor_x t = cursor_x s \<and> (\<forall>a. \<not> inr USER 0x400000 a \<longrightarrow> mem t a = mem s a)"

lemma page_only_low: "low t = low s \<Longrightarrow> page_only s t"
proof -
  assume l: "low t = low s"
  have "cursor_x t = cursor_x s" by (rule low_get [OF l, of cursor_x]) (simp add: low_def paging.truncate_def)
  then show ?thesis by (simp add: page_only_def keys_same_def low_fields [OF l])
qed

lemma page_only_page: "page_only s (set_process_page a s)"
  by (simp add: page_only_def keys_same_def set_process_page_def flush_tlb_def Let_def)

lemma page_only_trans: "page_only s t \<Longrightarrow> page_only t u \<Longrightarrow> page_only s u"
  by (simp add: page_only_def keys_same_def)

text \<open>What the parent \<open>s\<close> finds when its child, which was in state \<open>v\<close> at its end, has halted: its
  page, its PCB and its place in the process table; the display is as the child left it.\<close>

definition back_in :: "int \<Rightarrow> 'a kernel_scheme \<Rightarrow> 'a kernel_scheme \<Rightarrow> 'a kernel_scheme \<Rightarrow> bool" where
  "back_in q s v w \<longleftrightarrow> page_only v w \<and> (\<forall>a. inr USER 0x400000 a \<longrightarrow> mem w a = mem s a) \<and> mapped q w
     \<and> cur_pcb w = cur_pcb s \<and> cur_term w = cur_term s \<and> last_shell w = last_shell s
     \<and> exception_status w = exception_status s"

lemma child_ends:
  fixes s :: "'a kernel_scheme"
  assumes "can_run n gs g q cmd s" "child_of n q p args s t" "procs t (gs[cur_term s := g @ [q, int p]])" "p < 6"
    and "p = free_pid (process_state s)" "kept t v" "\<forall>i. 2 \<le> i \<and> i < 8 \<longrightarrow> fd_flags (pcb_file (cur_pcb s) ! i) \<noteq> 1"
  shows "\<exists>w. halt r v = (Return_to (cpu_ebp s) (cpu_esp s) (ucast r), w) \<and> back_in q s v w \<and> procs w gs"
proof -
  let ?gs = "gs[cur_term s := g @ [q, int p]]" and ?a = "get_pcb (of_nat p)" and ?b = "get_pcb (of_int q)"
  have pr: "procs s gs" "gs ! cur_term s = g @ [q]" and mp: "mapped q s" and ls: "last_shell s ! cur_term s = q"
    and es: "exception_status s \<noteq> 256"
    using assms(1) by (auto simp: can_run_def)
  have c: "cur_term t = cur_term s" "get_pcb_address t = ?a" "\<And>a. a \<noteq> ?a \<Longrightarrow> pcbs t a = pcbs s a" "last_shell t = last_shell s"
      "mapped (int p) t" "\<And>a. inr USER 0x400000 a \<Longrightarrow> frames t (user_frame (tlb_user s)) (a - USER) = mem s a"
      "parent_pid (cur_pcb t) = q" "parent_ebp (cur_pcb t) = cpu_ebp s" "parent_esp (cur_pcb t) = cpu_esp s"
      "exception_status t = exception_status s"
    using assms(2) by (auto simp: child_of_def)
  have k: "frames v = frames t" "tlb_user v = tlb_user t" "page_directory v = page_directory t" "terminals v = terminals t"
      "cur_term v = cur_term t" "process_state v = process_state t" "last_shell v = last_shell t"
      "exception_status v = exception_status t" "\<And>a. a \<noteq> ?a \<Longrightarrow> pcbs v a = pcbs t a"
    using assms(6) by (simp_all add: kept_defs c(2))
  have kp: "pcb_pid (pcbs v a) = pcb_pid (pcbs t a)" "parent_pid (pcbs v a) = parent_pid (pcbs t a)"
      "parent_ebp (pcbs v a) = parent_ebp (pcbs t a)" "parent_esp (pcbs v a) = parent_esp (pcbs t a)" for a
  proof -
    have "(pcbs v a)\<lparr>pcb_file := []\<rparr> = (pcbs t a)\<lparr>pcb_file := []\<rparr>" using assms(6) by (simp add: kept_defs)
    then show "pcb_pid (pcbs v a) = pcb_pid (pcbs t a)" "parent_pid (pcbs v a) = parent_pid (pcbs t a)"
      "parent_ebp (pcbs v a) = parent_ebp (pcbs t a)" "parent_esp (pcbs v a) = parent_esp (pcbs t a)"
      by (metis pcb_t.surjective pcb_t.select_convs pcb_t.update_convs)+
  qed
  have tl: "cur_term s < length gs" using pr(1) by (simp add: procs_def)
  have pv: "procs v ?gs" by (rule procs_cong [OF assms(3)]) (use assms(3) in \<open>simp_all add: k kp procs_def\<close>)
  have gv: "?gs ! cur_term v = (g @ [q]) @ [int p]" using tl by (simp add: k c)
  have ga: "get_pcb_address v = ?a" using get_pcb_address_last [OF pv] gv by simp
  have gs: "?gs[cur_term v := g @ [q]] = gs" using pr(2) by (simp add: k c) (metis list_update_id)
  note ids = can_run_pids [OF assms(1), folded assms(5)]
  note gb = ids(6) and qp = ids(3-5) and ab = ids(7)
  note hp = halted_procs [OF pv gv, unfolded gs]
  define h where "h = fold (halt_fd ?a) [0..<8] (halted v)"
  have fo: "files_only (halted v) h" unfolding h_def by (rule files_only_halt)
  note ff = files_only_fields [OF fo]
  have hb: "get_pcb_address (halted v) = ?b" using get_pcb_address_last [OF hp(1)] pr(2) by (simp add: hp(2) k c)
  have pb: "pcbs (halted v) ?b = pcbs s ?b" using ab by (simp add: hp(3) k(9) c(3))
  have "\<forall>i. 2 \<le> i \<and> i < 8 \<longrightarrow> flag_at (halted v) ?b i \<noteq> 1" using assms(7) by (simp add: pb cur_pcb_def gb)
  then have hb': "pcbs h ?b = pcbs s ?b" unfolding h_def using halt_fds_parent [OF hb ab, of "[0..<8]"] pb by simp
  have "pcb_pid (cur_pcb v) = int p" using hp(9) by (simp add: cur_pcb_def ga)
  then have "last_shell v ! cur_term v \<noteq> pcb_pid (cur_pcb v)" "exception_status v \<noteq> 256"
    using ls qp(1) es by (simp_all add: k c)
  note hk = halted_kernel [OF this(2,1)]
  have pa: "parent_pid (pcbs h ?a) = q" "parent_ebp (pcbs h ?a) = cpu_ebp s" "parent_esp (pcbs h ?a) = cpu_esp s"
    using c(7-9) by (simp_all add: ff hp(3) kp cur_pcb_def c(2))
  have lh: "low h = low v" using files_only_low [OF fo] low_halted by metis
  define w where "w = snd (return_to_parent ?a (ucast r) h)"
  have hv: "halt r v = (Return_to (cpu_ebp s) (cpu_esp s) (ucast r), w)"
    using halt_unfold [OF pv gv, of r] es pa by (simp add: h_def [symmetric] w_def k c prod_eq_iff return_to_parent_fields)
  define x where "x = set_process_page (0x800000 + of_int q * 0x400000) h"
  have wx: "w = sti (x\<lparr>tss_esp0 := 0x800000 - of_int q * 0x2000 - 4\<rparr>)" by (simp add: w_def return_to_parent_def Let_def pa x_def)
  have lx: "low w = low x" by (simp add: wx low_ops low_def sti_def paging.truncate_def)
  have dir: "32 < length (page_directory h)" using c(5) by (simp add: low_fields [OF lh] k mapped_def)
  note pg = page_switch [OF dir x_def]
  have po: "page_only v w"
    using page_only_trans [OF page_only_trans [OF page_only_low [OF lh] page_only_page] page_only_low] lx x_def by metis
  have "p \<in> {0, 1, 2, 3, 4, 5}" using assms(4) by auto
  then have "int p \<in> {0, 1, 2, 3, 4, 5}" by auto
  moreover have "q \<in> {0, 1, 2, 3, 4, 5}" using qp(2,3) by auto
  ultimately have pf: "user_frame (page_entry (int p)) \<noteq> user_frame (page_entry q)" using page_frames qp(1) by metis
  have um: "mem w a = mem s a" if "inr USER 0x400000 a" for a
  proof -
    have "mem w a = frames x (user_frame (page_entry q)) (a - USER)" using pg(3) [OF that] by (simp add: wx)
    also have "\<dots> = frames t (user_frame (page_entry q)) (a - USER)"
      using pf c(5) by (simp add: pg(2) low_fields [OF lh] k mapped_def)
    finally show ?thesis using c(6) [OF that] mp by (simp add: mapped_def)
  qed
  have hl: "last_shell h = last_shell s" "exception_status h = exception_status s"
    using fo hk by (auto simp: files_only_def k c)
  have wk: "cur_term w = cur_term s" "pcbs w = pcbs h" "terminals w = terminals h" "process_state w = process_state h"
      "last_shell w = last_shell s" "exception_status w = exception_status s"
    by (simp_all add: wx x_def ff hl) (simp add: hp(2) k c)
  have "procs w gs"
    by (rule procs_cong [OF procs_files_only [OF hp(1) fo]]) (use procs_files_only [OF hp(1) fo] wk in \<open>simp_all add: procs_def ff hp(2) k c\<close>)
  moreover from this have "get_pcb_address w = ?b" using get_pcb_address_last [of w gs] pr(2) wk(1) by simp
  then have "cur_pcb w = cur_pcb s" by (simp add: cur_pcb_def gb wk(2) hb')
  moreover have "mapped q w" using pg(1) by (simp add: wx mapped_def)
  ultimately have "procs w gs" "back_in q s v w" using po um wk by (simp_all add: back_in_def)
  then show ?thesis using hv by blast
qed

section \<open>A command from the prompt\<close>

definition in_user :: "u32 \<Rightarrow> nat \<Rightarrow> bool" where
  "in_user a k \<longleftrightarrow> (\<forall>p. inr a k p \<longrightarrow> inr USER 0x400000 p)"

text \<open>The shell's array and constants are in its page, and it has no files open.\<close>

definition shell_page :: "'a kernel_scheme user_env \<Rightarrow> u32 \<Rightarrow> 'a kernel_scheme \<Rightarrow> bool" where
  "shell_page env buf s \<longleftrightarrow> (\<forall>w \<in> set shell_texts. in_user (lit env w) (Suc (length w)))
     \<and> (\<forall>i. 2 \<le> i \<and> i < 8 \<longrightarrow> fd_flags (pcb_file (cur_pcb s) ! i) \<noteq> 1)"

lemma same_disk_page:
  assumes "page_only v w" "apart USER 0x400000 (boot_block v) n"
  shows "same_disk n v w"
proof -
  have "mem w a = mem v a" if "inr (boot_block v) n a" for a
    using assms(1) apartD [OF assms(2)] that unfolding page_only_def by blast
  then show ?thesis using assms(1) by (simp add: same_disk_def keeps_def page_only_def)
qed

lemma page_only_view:
  assumes "page_only v w"
  shows "screen_view w = screen_view v"
proof -
  have "apart USER 0x400000 VIDEO 4000" by (simp add: apart_def unat_u32_minus)
  then have "mem w (cell_addr i) = mem v (cell_addr i)" if "i < 2000" for i
    using assms cell_in_video [OF that] apartD unfolding page_only_def by blast
  then have "text_cells (mem w) = text_cells (mem v)" by (intro nth_equalityI) simp_all
  then show ?thesis using assms by (simp add: screen_view_def page_only_def)
qed

lemma child_ready:
  assumes "child_of n q p args s t" "ready n s" "can_run n gs g q cmd s"
  shows "ready n t"
proof -
  have "same_disk n s t" "disk n s" using assms(1,2) by (auto simp: child_of_def ready_def)
  then have "disk n t" "boot_block t = boot_block s" using disk_cong by (auto simp: same_disk_def)
  then show ?thesis using assms(1,2) by (simp add: child_of_def ready_def)
qed

lemma status_value: "sint (ucast (r :: u8) :: u32) = uint r"
proof -
  have "(ucast r :: u32) = of_int (uint r)" by simp
  moreover have "- (2 ^ 31) \<le> uint r" by (rule order_trans [OF _ uint_ge_0]) simp
  moreover have "uint r < 2 ^ 31" using uint_lt2p [of r] by simp
  ultimately show ?thesis using sint_u32_of_int [of "uint r"] by simp
qed

lemma shell_runs:
  assumes "shell_state n env buf s" "can_run n gs g q cmd s" "shell_page env buf s" "cstr (mem s) buf cmd"
    and "\<And>e t. child_of n q (free_pid (process_state s)) (command_args cmd) s t \<Longrightarrow> ready n t \<Longrightarrow>
           \<exists>v. child e t = Some (halt r v) \<and> since b k x t v"
    and "apart b k (boot_block s) n"
  shows "\<exists>w. run_command env child buf s = Some (Ret (uint r), w) \<and> shell_state n env buf w \<and> procs w gs
    \<and> screen_view w = fold put_char x (screen_view s) \<and> cur_pcb w = cur_pcb s \<and> mapped q w"
proof -
  have rs: "ready n s" and bz: "buf \<noteq> 0" using assms(1) by (auto simp: shell_state_def array_ok_def)
  let ?p = "free_pid (process_state s)"
  obtain e t where t: "execute_cmd cmd s = (Enter_user e, t)" "child_of n q ?p (command_args cmd) s t"
      "procs t (gs[cur_term s := g @ [q, int ?p]])" "?p < 6" "int ?p \<notin> set (concat gs)"
    using child_starts [OF assms(2) rs] by blast
  have rt: "ready n t" by (rule child_ready [OF t(2) rs assms(2)])
  obtain v where v: "child e t = Some (halt r v)" "since b k x t v" using assms(5) [OF t(2) rt] by blast
  have kv: "kept t v" using v(2) by (simp add: since_def)
  have fr: "\<forall>i. 2 \<le> i \<and> i < 8 \<longrightarrow> fd_flags (pcb_file (cur_pcb s) ! i) \<noteq> 1" using assms(3) by (simp add: shell_page_def)
  obtain w where w: "halt r v = (Return_to (cpu_ebp s) (cpu_esp s) (ucast r), w)" "back_in q s v w" "procs w gs"
    using child_ends [OF assms(2) t(2-4) refl kv fr] by blast
  have "unat (of_nat (length cmd) :: u32) = length cmd" using assms(4) by (simp add: cstr_def unat_u32_of_nat)
  then have "ece391_execute env buf s = Some (Enter_user e, t)"
    using assms(4) bz strlen_cstr [OF assms(4)] t(1) by (simp add: user_calls execute_def cstr_def)
  then have run: "run_command env child buf s = Some (Ret (uint r), w)"
    using v(1) w(1) by (simp add: run_command_def status_value)
  have co: "same_disk n s t" "screen_view t = screen_view s" "keys_same s t" using t(2) by (simp_all add: child_of_def)
  have bb: "boot_block t = boot_block s" "boot_block v = boot_block t" using co(1) v(2) by (simp_all add: same_disk_def since_def)
  have ap: "apart VIDEO 4000 (boot_block t) n" "apart b k (boot_block t) n" "apart USER 0x400000 (boot_block v) n"
    using rs assms(2,6) by (simp_all add: ready_def can_run_def bb)
  have po: "page_only v w" using w(2) by (simp add: back_in_def)
  have dt: "disk n t" using rt by (simp add: ready_def)
  note sd = since_disk [OF v(2) dt ap(1,2)]
  note sw = same_disk_page [OF po ap(3)]
  have dw: "disk n w" by (rule disk_cong [OF sd(2) sw])
  have bw: "boot_block w = boot_block s" using sw bb by (simp add: same_disk_def)
  have cw: "cursor_ok w" using po v(2) by (simp add: page_only_def cursor_ok_def since_def)
  have cp: "cur_pcb w = cur_pcb s" using w(2) by (simp add: back_in_def)
  have rw: "ready n w" using rs dw cw by (simp add: ready_def cp bw)
  have "keys_same s w" using keys_same_trans [OF co(3)] kv po keys_same_trans by (simp add: kept_def page_only_def) blast
  then have kw: "kb_ready w" using assms(1) kb_ready_same by (simp add: shell_state_def) blast
  have um: "mem w a = mem s a" if "inr USER 0x400000 a" for a using w(2) that by (simp add: back_in_def)
  have lw: "lit_ok env buf 1024 w l" if l: "l \<in> set shell_texts" for l
  proof -
    have ls: "lit_ok env buf 1024 s l" and iu: "in_user (lit env l) (Suc (length l))"
      using assms(1,3) l by (simp_all add: shell_state_def shell_page_def)
    then have c: "cstr (mem s) (lit env l) (str l)" by (simp add: lit_ok_def)
    have "cstr (mem w) (lit env l) (str l)"
    proof (rule cstr_update [OF c])
      fix i assume "i \<le> length (str l)"
      then have "inr (lit env l) (Suc (length l)) (lit env l + of_nat i)"
        using c by (subst inr_offset) (auto simp: cstr_def)
      then show "mem w (lit env l + of_nat i) = mem s (lit env l + of_nat i)" using um iu by (simp add: in_user_def)
    qed
    then show ?thesis using ls by (simp add: lit_ok_def)
  qed
  have "shell_state n env buf w"
    using assms(1) rw kw lw by (simp add: shell_state_def array_ok_def cp bw)
  moreover have "screen_view w = fold put_char x (screen_view s)"
    using page_only_view [OF po] v(2) co(2) by (simp add: since_def)
  ultimately show ?thesis using run w(2,3) cp by (auto simp: back_in_def)
qed

lemma can_run_same:
  assumes "can_run n gs g q cmd s" "within buf 1024 s u" "still s u" "shell_state n env buf s"
  shows "can_run n gs g q cmd u"
proof -
  have r: "ready n s" "array_ok buf 1024 n s" using assms(4) by (auto simp: shell_state_def)
  note im = within_image [OF assms(2) r]
  have b: "boot_block u = boot_block s" "len_inodes u = len_inodes s" using assms(2) by (simp_all add: within_def)
  have k: "tlb_user u = tlb_user s" "page_directory u = page_directory s" "terminals u = terminals s" "cur_term u = cur_term s"
      "process_state u = process_state s" "last_shell u = last_shell s" "exception_status u = exception_status s"
      "file_data_addr u = file_data_addr s"
    using assms(3) by (simp_all add: still_def)
  have f: "program_file ino u = program_file ino s" if "ino < inode_count s" for ino
    using im(1,2) that by (simp add: program_file_def b k)
  have "\<exists>d. read_dentry_by_name (arr (command_name cmd)) u = Some d \<and> program_file (of_int (inode_num d)) u"
    using assms(1) f im(6) by (auto simp: can_run_def program_file_def)
  moreover have p: "pcb_pid (pcbs u a) = pcb_pid (pcbs s a)" for a
  proof -
    have "(pcbs u a)\<lparr>pcb_file := []\<rparr> = (pcbs s a)\<lparr>pcb_file := []\<rparr>" using assms(3) by (simp add: still_def)
    then show ?thesis by (metis pcb_t.surjective pcb_t.select_convs pcb_t.update_convs)
  qed
  moreover have pr: "procs s gs" "gs ! cur_term s = g @ [q]" "\<not> all_busy (process_state s)" using assms(1) by (auto simp: can_run_def)
  then have "procs u gs" by (intro procs_cong [OF pr(1)]) (simp_all add: k p procs_def)
  moreover have "get_pcb (of_nat (free_pid (process_state s))) \<noteq> get_pcb_address s" using can_run_pids(6,7) [OF assms(1)] by simp
  then have "pcbs u (get_pcb (of_nat (free_pid (process_state s)))) = pcbs s (get_pcb (of_nat (free_pid (process_state s))))"
    using assms(3) by (simp add: still_def)
  ultimately show ?thesis using assms(1) by (simp add: can_run_def k b mapped_def)
qed

lemma halt_call: "do_call env 1 (of_int 0) 0 0 s = Some (halt 0 s)"
  by (simp add: do_call_def syscall_handler_def low8_def)

lemma child_image:
  assumes "child_of n q p args s t" "ready n s"
  shows "read_dentry_by_name f t = read_dentry_by_name f s" "inode_count t = inode_count s"
    "ino < inode_count s \<Longrightarrow> contents t ino = contents s ino" "array_ok b k n t = array_ok b k n s"
proof -
  have d: "same_disk n s t" "disk n s" using assms by (auto simp: child_of_def ready_def)
  show "read_dentry_by_name f t = read_dentry_by_name f s" "inode_count t = inode_count s"
    "ino < inode_count s \<Longrightarrow> contents t ino = contents s ino" "array_ok b k n t = array_ok b k n s"
    using disk_lookup [OF d(2,1)] disk_count [OF d(2,1)] disk_contents [OF d(2,1)] d(1)
    by (auto simp: array_ok_def same_disk_def)
qed

lemma shell_cat:
  fixes s :: "'a kernel_scheme" and env' :: "'a kernel_scheme user_env"
  assumes "shell_state n env buf s" "types_command ks env buf s" "command_typed ks s \<noteq> str ''exit''"
    and "can_run n gs g q (command_typed ks s) s" "shell_page env buf s"
    and "command_args (command_typed ks s) = name" "name \<noteq> []" "length name \<le> 32"
    and "read_dentry_by_name (arr name) s = Some d" "opened_as name d = Some File_op" "of_int (inode_num d) < inode_count s"
    and "lowest_free (pcbs s (get_pcb (of_nat (free_pid (process_state s))))) fd" "array_ok b 1024 n s"
  defines "child \<equiv> \<lambda>_. start_program env' (cat_main env' b)"
  shows "\<exists>u t. prompted (typed ks s) s u \<and> screen_view t = fold put_char (contents s (of_int (inode_num d))) (screen_view u)
    \<and> shell_state n env buf t \<and> shell_page env buf t \<and> procs t gs \<and> mapped q t
    \<and> shell_loop env child buf s = shell_loop env child buf t"
proof -
  let ?cmd = "command_typed ks s" and ?ino = "of_int (inode_num d) :: u32"
  obtain u where u: "shell_state n env buf u" "within buf 1024 s u" "cur_pcb u = cur_pcb s" "paging.more u = paging.more s"
      "still s u" "cstr (mem u) buf ?cmd" "prompted (typed ks s) s u"
      "shell_loop env child buf s = (if ?cmd = str ''exit'' then Some (Ret 0, u)
         else if ?cmd = [] then shell_loop env child buf u
         else andthen (run_command env child buf u) (\<lambda>rval v.
              andthen (shell_report env rval v) (\<lambda>_ v. shell_loop env child buf v)))"
    using shell_reads [OF assms(1,2), of child] by blast
  have rs: "ready n s" "array_ok buf 1024 n s" and ru: "ready n u" using assms(1) u(1) by (auto simp: shell_state_def)
  note im = within_image [OF u(2) rs]
  have cu: "can_run n gs g q ?cmd u" by (rule can_run_same [OF assms(4) u(2,5) assms(1)])
  have ne: "?cmd \<noteq> []" using assms(4) by (auto simp: can_run_def command_name_def)
  have pu: "shell_page env buf u" using assms(5) by (simp add: shell_page_def u(3))
  have nz: "0 \<notin> set name"
  proof -
    have "set (command_args ?cmd) \<subseteq> set ?cmd" unfolding command_args_def by (auto dest!: set_dropWhileD)
    moreover have "0 \<notin> set ?cmd" by (auto simp: command_typed_def dest: set_takeWhileD)
    ultimately show ?thesis using assms(6) by blast
  qed
  have bb: "boot_block u = boot_block s" using u(2) by (simp add: within_def)
  have ab: "array_ok b 1024 n u" using assms(13) by (simp add: array_ok_def bb)
  have run: "\<exists>v. child e t = Some (halt 0 v) \<and> since b 1024 (contents s ?ino) t v"
    if co: "child_of n q (free_pid (process_state u)) (command_args ?cmd) u t" and rt: "ready n t" for e t
  proof -
    note ci = child_image [OF co ru]
    obtain rest where arg: "pcb_arg (cur_pcb t) = name @ [0] @ rest" using co assms(6) by (auto simp: child_of_def)
    have at: "array_ok b 1024 n t" using ab ci(4) by simp
    have look: "read_dentry_by_name (arr name) t = Some d" using assms(9) ci(1) im(6) by simp
    have ino: "?ino < inode_count t" using assms(11) ci(2) im(1) by simp
    have c: "contents t ?ino = contents s ?ino" using ci(3) im(1,2) assms(11) by simp
    let ?a = "get_pcb (of_nat (free_pid (process_state s)))"
    have "pcbs u ?a = pcbs s ?a"
      using u(5) can_run_pids(6,7) [OF assms(4)] by (simp add: still_def)
    moreover have "process_state u = process_state s" using u(5) by (simp add: still_def)
    ultimately have "lowest_free (cur_pcb t) fd" using assms(12) co by (simp add: lowest_free_def child_of_def)
    from cat_prints [OF rt at arg nz assms(7,8) look assms(10) ino this, of env'] obtain v where
        v: "cat_main env' b t = Some (Ret 0, v)" "since b 1024 (contents t ?ino) t v" by blast
    then show ?thesis using halt_call by (auto simp: child_def start_program_def c)
  qed
  have "apart b 1024 (boot_block u) n" using ab by (simp add: array_ok_def)
  from shell_runs [where child = child and r = 0 and x = "contents s ?ino" and b = b and k = 1024, OF u(1) cu pu u(6) run this]
  obtain w where w: "run_command env child buf u = Some (Ret 0, w)" "shell_state n env buf w" "procs w gs"
        "screen_view w = fold put_char (contents s ?ino) (screen_view u)" "cur_pcb w = cur_pcb u" "mapped q w"
    by auto
  have "shell_loop env child buf s = shell_loop env child buf w"
    using u(8) assms(3) ne w(1) by (simp add: shell_report_def)
  moreover have "shell_page env buf w" using pu by (simp add: shell_page_def w(5))
  ultimately show ?thesis using u(7) w by blast
qed

section \<open>A session at the sample machine\<close>

text \<open>The shell on the image of \<open>exe_kernel\<close>; the user types \<open>run run\<close>, which prints the file's own bytes
  when the program in it is \<open>cat\<close>.\<close>

definition run_keys :: "u8 list" where
  "run_keys = [0x13, 0x16, 0x31, 0x39, 0x13, 0x16, 0x31]"

definition cat_kernel :: kernel where
  "cat_kernel = exe_kernel\<lparr>mem := wr 0x08050000 (lit_bytes shell_texts) exe_image, pcbs := \<lambda>_. user_pcb,
     tlb_user := page_entry 0, dev := typist (run_keys @ [0x1C])\<rparr>"

definition cat_env :: "kernel user_env" where
  "cat_env = (sample_env shell_texts)\<lparr>polls_at := \<lambda>_. replicate 7 True @ [True]\<rparr>"

lemma cat_fields:
  "boot_block cat_kernel = 0x400000" "boot_block_end cat_kernel = 0x401000" "data_block_start cat_kernel = 0x402000"
  "len_inodes cat_kernel = 4096" "file_data_addr cat_kernel = 0x700000" "tlb_user cat_kernel = page_entry 0"
  "pcbs cat_kernel = (\<lambda>_. user_pcb)" "cur_pcb cat_kernel = user_pcb" "process_state cat_kernel = [1, 0, 0, 0, 0, 0]"
  "cur_term cat_kernel = 0" "last_shell cat_kernel = [0, - 1, - 1]" "exception_status cat_kernel = 0"
  "32 < length (page_directory cat_kernel)" "screen_x cat_kernel = 0" "screen_y cat_kernel = 0"
  by (simp_all add: cat_kernel_def exe_kernel_def sample_kernel_def cur_pcb_def)

lemma exe_disk: "disk 0x3000 exe_kernel"
proof -
  have b: "boot_block exe_kernel = 0x400000" "boot_block_end exe_kernel = 0x401000" "data_block_start exe_kernel = 0x402000"
      "mem exe_kernel = exe_image"
    by (simp_all add: exe_kernel_def sample_kernel_def)
  have "ino = 0" if "ino < 1" for ino :: u32 using that by (simp add: word_less_nat_alt word_unat_eq_iff)
  moreover have "blocks_in 0x3000 0x400000 exe_image 0x401000 0x402000"
    by (auto simp: blocks_in_def file_length_def exe_words block_addr_def intro!: exI [of _ "0x2000"])
  ultimately show ?thesis
    by (auto simp: disk_def inode_count_def dir_size_def dir_count_def inode_addr_def b exe_words)
qed

lemma cat_disk: "same_disk 0x3000 exe_kernel cat_kernel"
proof -
  have l: "length (lit_bytes shell_texts) \<le> 0x10000" by (rule shell_texts_small(1))
  have "wr 0x08050000 (lit_bytes shell_texts) exe_image a = exe_image a" if "inr 0x400000 0x3000 a" for a
  proof (rule wr_other)
    have "\<not> inr 0x08050000 0x10000 a" using that apartD [of "0x400000" "0x3000" "0x08050000" "0x10000"]
      by (simp add: apart_def unat_u32_minus)
    then show "\<not> inr 0x08050000 (length (lit_bytes shell_texts)) a" using inr_mono [OF _ l] by blast
  qed (use l in simp)
  then show ?thesis by (simp add: same_disk_def keeps_def cat_fields) (simp add: cat_kernel_def exe_kernel_def sample_kernel_def)
qed

lemma cat_image:
  "read_dentry_by_name (arr (str ''run'')) cat_kernel = Some (dentry_at exe_image 0x400040)" "contents cat_kernel 0 = elf_bytes"
  "inode_count cat_kernel = 1"
proof -
  have n: "inode_count exe_kernel = 1" by (simp add: inode_count_def exe_kernel_def sample_kernel_def exe_words)
  then show "inode_count cat_kernel = 1" using disk_count(1) [OF exe_disk cat_disk] by simp
  show "read_dentry_by_name (arr (str ''run'')) cat_kernel = Some (dentry_at exe_image 0x400040)"
    using disk_lookup [OF exe_disk cat_disk] exe_lookup by simp
  show "contents cat_kernel 0 = elf_bytes" using disk_contents [OF exe_disk cat_disk, of 0] exe_contents n by simp
qed

lemma cat_kernel_state: "shell_state 0x3000 cat_env 0x08049000 cat_kernel"
proof -
  have lits: "lit_ok cat_env 0x08049000 1024 cat_kernel w" if "w \<in> set shell_texts" for w
    using placed_lit [OF that _ shell_texts_small(1), of "0x08049000" 1024 cat_kernel exe_image] that
    by (auto simp: shell_texts_def str_def lit_ok_def cat_env_def cat_kernel_def)
  have "ready 0x3000 cat_kernel"
    using disk_cong [OF exe_disk cat_disk]
    by (simp add: ready_def cursor_ok_def fd_wf_def user_pcb_def sample_fd_def fd_ok_def cat_fields apart_def unat_u32_minus)
  moreover have "kb_ready cat_kernel" by (simp add: kb_ready_def flags_ok_def cat_kernel_def exe_kernel_def sample_kernel_def)
  moreover have "array_ok 0x08049000 1024 0x3000 cat_kernel" by (simp add: array_ok_def apart_def unat_u32_minus cat_fields)
  ultimately show ?thesis using lits by (simp add: shell_state_def cat_fields user_pcb_def sample_fd_def)
qed

lemma cat_kernel_types:
  "types_command run_keys cat_env 0x08049000 cat_kernel" "command_typed run_keys cat_kernel = str ''run run''"
  "typed run_keys cat_kernel = str ''run run''"
proof -
  show "types_command run_keys cat_env 0x08049000 cat_kernel"
    by (rule typist_types [OF cat_kernel_state, where ps = "replicate 7 True"])
       (simp_all add: shell_texts_def cat_kernel_def exe_kernel_def cat_env_def sample_kernel_def plain_key_def acks_def
         run_keys_def prompt_cx screen_view_def)
  show "typed run_keys cat_kernel = str ''run run''"
    by (simp add: typed_def cat_kernel_def exe_kernel_def sample_kernel_def key_table_def arr_def scancode_normal_def
        keypad_def str_def run_keys_def)
  then show "command_typed run_keys cat_kernel = str ''run run''" by (simp add: command_typed_def str_def)
qed

lemma cat_kernel_runs:
  "can_run 0x3000 [[0], [], []] [] 0 (str ''run run'') cat_kernel" "command_args (str ''run run'') = str ''run''"
proof -
  have cn: "command_name (str ''run run'') = str ''run''" "command_args (str ''run run'') = str ''run''"
    by (simp_all add: command_name_def command_args_def str_def blank_def)
  show "command_args (str ''run run'') = str ''run''" by (rule cn)
  have "procs cat_kernel [[0], [], []]"
    by (rule procs_cong [OF exe_procs])
       (use exe_procs in \<open>simp_all add: procs_def cat_kernel_def exe_kernel_def sample_kernel_def user_pcb_def\<close>)
  moreover have "\<not> all_busy (process_state cat_kernel)" using exe_state(1,4) by (simp add: cat_fields)
  moreover have "of_int (inode_num (dentry_at exe_image 0x400040)) = (0 :: u32)" by (simp add: dentry_at_def exe_words)
  moreover have "program_file 0 cat_kernel"
    by (simp add: program_file_def cat_image cat_fields apart_def unat_u32_minus)
       (simp add: elf_bytes_def exe_identifier_def)
  moreover have "\<not> is_shell (str ''run'')" by (simp add: is_shell_def arr_def str_def)
  moreover have "fd_wf user_pcb" by (simp add: fd_wf_def user_pcb_def sample_fd_def fd_ok_def)
  ultimately show "can_run 0x3000 [[0], [], []] [] 0 (str ''run run'') cat_kernel"
    unfolding can_run_def cn by (simp add: cat_image cat_fields mapped_def apart_def unat_u32_minus) (simp add: str_def)
qed

lemma cat_kernel_page: "shell_page cat_env 0x08049000 cat_kernel"
proof -
  have "in_user (lit cat_env w) (Suc (length w))" if "w \<in> set shell_texts" for w
  proof -
    let ?o = "lit_offset shell_texts w"
    have o: "?o + Suc (length w) \<le> 0x10000" using lit_offset_bound [OF that] shell_texts_small(1) by linarith
    have "inr 0x08000000 0x400000 p" if "inr (0x08000000 + of_nat (0x50000 + ?o)) (Suc (length w)) p" for p
      by (rule inr_sub [OF that]) (use o in simp_all)
    then show ?thesis by (simp add: in_user_def cat_env_def sample_env_def add.commute)
  qed
  then show ?thesis by (auto simp: shell_page_def cat_fields user_pcb_def sample_fd_def nth_Cons split: nat.split)
qed

section \<open>Properties\<close>

text \<open>C5: at the shell's prompt the user types a command line whose name is a program and whose argument is a
  regular file; the program runs and is \<open>cat\<close>.  The display then shows the line and behind it exactly
  the contents of the file, and the shell prompts again, in a state in which its variables, its
  constants, its page and the process table are as they were: \<open>execute\<close> has saved the page and
  loaded the program, \<open>getargs\<close>, \<open>open\<close>, \<open>read\<close>, \<open>write\<close> served it, and \<open>halt\<close> has freed its process
  and brought the shell's page back.\<close>
theorem shell_runs_cat:
  fixes s :: "'a kernel_scheme" and env' :: "'a kernel_scheme user_env"
  assumes "shell_state n env buf s" "types_command ks env buf s" "command_typed ks s \<noteq> str ''exit''"
    and "can_run n gs g q (command_typed ks s) s" "shell_page env buf s"
    and "command_args (command_typed ks s) = name" "name \<noteq> []" "length name \<le> 32"
    and "read_dentry_by_name (arr name) s = Some d" "opened_as name d = Some File_op" "of_int (inode_num d) < inode_count s"
    and "lowest_free (pcbs s (get_pcb (of_nat (free_pid (process_state s))))) fd" "array_ok b 1024 n s"
  shows "\<exists>u t. prompted (typed ks s) s u \<and> screen_view t = fold put_char (contents s (of_int (inode_num d))) (screen_view u)
    \<and> shell_state n env buf t \<and> shell_page env buf t \<and> procs t gs \<and> mapped q t
    \<and> shell_loop env (\<lambda>_. start_program env' (cat_main env' b)) buf s
      = shell_loop env (\<lambda>_. start_program env' (cat_main env' b)) buf t"
  by (rule shell_cat [OF assms])

theorem shell_runs_cat_witness:
  "\<exists>u t. prompted (str ''run run'') cat_kernel u \<and> screen_view t = fold put_char elf_bytes (screen_view u) \<and> procs t [[0], [], []] \<and> mapped 0 t
     \<and> shell_loop cat_env (\<lambda>_. start_program (sample_env []) (cat_main (sample_env []) 0x08049000)) 0x08049000 cat_kernel
       = shell_loop cat_env (\<lambda>_. start_program (sample_env []) (cat_main (sample_env []) 0x08049000)) 0x08049000 t"
proof -
  let ?d = "dentry_at exe_image 0x400040"
  have i: "of_int (inode_num ?d) = (0 :: u32)" by (simp add: dentry_at_def exe_words)
  have o: "opened_as (str ''run'') ?d = Some File_op"
    by (simp add: opened_as_def dentry_at_def exe_words) (simp add: str_def)
  have n: "str ''run run'' \<noteq> str ''exit''" "str ''run'' \<noteq> []" "length (str ''run'') \<le> 32" by (simp_all add: str_def)
  have f: "lowest_free (pcbs cat_kernel (get_pcb (of_nat (free_pid (process_state cat_kernel))))) 2"
    by (simp add: cat_fields lowest_free_def user_pcb_def sample_fd_def)
  have b: "array_ok 0x08049000 1024 0x3000 cat_kernel" by (simp add: array_ok_def apart_def unat_u32_minus cat_fields)
  have c: "(0 :: u32) < inode_count cat_kernel" by (simp add: cat_image)
  note ty = cat_kernel_types
  from shell_runs_cat [OF cat_kernel_state ty(1), unfolded ty(2), OF n(1) cat_kernel_runs(1) cat_kernel_page cat_kernel_runs(2)
      n(2,3) cat_image(1) o _ f b, unfolded i, OF c, of "sample_env []", unfolded cat_image(2)]
  show ?thesis unfolding ty(3) by blast
qed

end
