(* ===== verification/Descriptors.thy ===== *)
theory Descriptors
  imports Kernel_Steps
begin

text \<open>
  The descriptor tables as a type: every PCB has eight descriptors, a flag is 0 or 1, and a
  descriptor in use has its jump table.  Every step of the kernel keeps it, so no reachable
  call goes through a jump table that was never set.  The drivers behind the jump tables are a
  second instance of the locale \<open>driver\<close>.
\<close>

definition fds_ok :: "'a kernel_scheme \<Rightarrow> bool" where
  "fds_ok s \<longleftrightarrow> (\<forall>a. fd_wf (pcbs s a))"

named_theorems fds_intros \<open>operations keep the descriptor tables well-formed\<close>

lemma fds_cong: "pcbs t = pcbs s \<Longrightarrow> fds_ok s \<Longrightarrow> fds_ok t"
  by (simp add: fds_ok_def)

lemma fds_more: "paging.more t = paging.more s \<Longrightarrow> fds_ok s \<Longrightarrow> fds_ok t"
  by (rule fds_cong) (rule kernel_more(1))

lemma fds_console: "console.more t = console.more s \<Longrightarrow> fds_ok s \<Longrightarrow> fds_ok t"
  by (rule fds_more) (rule paging_more(1))

lemma fds_upd_pcb: "fds_ok s \<Longrightarrow> (\<And>p. fd_wf p \<Longrightarrow> fd_wf (f p)) \<Longrightarrow> fds_ok (upd_pcb a f s)"
  by (auto simp: fds_ok_def upd_pcb_def)

lemma fds_upd_fd: "fds_ok s \<Longrightarrow> fd_ok (f (pcb_file (pcbs s a) ! i)) \<Longrightarrow> fds_ok (upd_fd a i f s)"
  unfolding fds_ok_def upd_fd_def upd_pcb_def by (auto intro: fd_wf_update)

lemma fd_wf_nth: "fd_wf p \<Longrightarrow> i < 8 \<Longrightarrow> fd_ok (pcb_file p ! i)"
  by (simp add: fd_wf_def)

lemma fd_wf_same: "pcb_file q = pcb_file p \<Longrightarrow> fd_wf p \<Longrightarrow> fd_wf q"
  by (simp add: fd_wf_def)

text \<open>A descriptor outside the table is not written by an update of the list.\<close>

lemma fds_upd_any:
  assumes "fds_ok s" "\<And>f. fd_ok f \<Longrightarrow> fd_ok (g f)"
  shows "fds_ok (upd_fd a i g s)"
proof (cases "i < 8")
  case True
  have "fd_wf (pcbs s a)" using assms(1) by (simp add: fds_ok_def)
  then show ?thesis using fds_upd_fd [OF assms(1)] assms(2) fd_wf_nth [OF _ True] by blast
next
  case False
  have "length (pcb_file (pcbs s a)) = 8" using assms(1) by (simp add: fds_ok_def fd_wf_def)
  then have "(pcb_file (pcbs s a))[i := x] = pcb_file (pcbs s a)" for x using False by (simp add: list_update_beyond)
  then show ?thesis using assms(1) by (auto simp: fds_ok_def upd_fd_def upd_pcb_def)
qed

section \<open>execute\<close>

lemma fd_wf_setup: "fd_wf p \<Longrightarrow> fd_wf (setup_pcb arg q p)"
proof -
  assume p: "fd_wf p"
  let ?fs = "(pcb_file p)[0 := (pcb_file p ! 0)\<lparr>fd_flags := 1, fd_op := Some Stdin_op, fd_pos := 0\<rparr>]"
  have "fd_wf (p\<lparr>pcb_file := ?fs\<rparr>)" by (rule fd_wf_update [OF p]) (simp add: fd_ok_def)
  then have "fd_wf ((p\<lparr>pcb_file := ?fs\<rparr>)\<lparr>pcb_file := (pcb_file (p\<lparr>pcb_file := ?fs\<rparr>))
      [1 := (?fs ! 1)\<lparr>fd_flags := 1, fd_op := Some Stdout_op, fd_pos := 0\<rparr>]\<rparr>)"
    by (rule fd_wf_update) (simp add: fd_ok_def)
  then show ?thesis by (rule fd_wf_same [rotated]) (simp add: setup_pcb_def Let_def)
qed

lemma fds_simple [fds_intros]:
  "fds_ok s \<Longrightarrow> fds_ok (s\<lparr>mem := m\<rparr>)" "fds_ok s \<Longrightarrow> fds_ok (s\<lparr>wild := w\<rparr>)" "fds_ok s \<Longrightarrow> fds_ok (poke a b s)"
  "fds_ok s \<Longrightarrow> fds_ok (s\<lparr>exception_status := e\<rparr>)" "fds_ok s \<Longrightarrow> fds_ok (free_process p s)"
  "fds_ok s \<Longrightarrow> fds_ok (upd_term t f s)" "fds_ok s \<Longrightarrow> fds_ok (claim_slot t pid s)" "fds_ok s \<Longrightarrow> fds_ok (reset_keyboard s)"
  "fds_ok s \<Longrightarrow> fds_ok (s\<lparr>process_state := ps\<rparr>)" "fds_ok s \<Longrightarrow> fds_ok (s\<lparr>shell_flag := sf\<rparr>)"
  "fds_ok s \<Longrightarrow> fds_ok (s\<lparr>last_shell := l\<rparr>)" "fds_ok s \<Longrightarrow> fds_ok (s\<lparr>tss_esp0 := e'\<rparr>)"
  "fds_ok s \<Longrightarrow> fds_ok (s\<lparr>tss_ss0 := e''\<rparr>)" "fds_ok s \<Longrightarrow> fds_ok (s\<lparr>cpu_ebp := b', cpu_esp := b''\<rparr>)"
  "fds_ok s \<Longrightarrow> fds_ok (s\<lparr>int_flag := i\<rparr>)" "fds_ok s \<Longrightarrow> fds_ok (s\<lparr>cur_term := c\<rparr>)"
  by (simp_all add: fds_ok_def poke_def free_process_def upd_term_def claim_slot_def reset_keyboard_def)

lemma fds_lower [fds_intros]:
  "fds_ok s \<Longrightarrow> fds_ok (print cs s)" "fds_ok s \<Longrightarrow> fds_ok (cli s)" "fds_ok s \<Longrightarrow> fds_ok (sti s)"
  "fds_ok s \<Longrightarrow> fds_ok (putc c s)" "fds_ok s \<Longrightarrow> fds_ok (send_eoi i s)" "fds_ok s \<Longrightarrow> fds_ok (set_process_page a s)"
  "fds_ok s \<Longrightarrow> fds_ok (map2user a d t s)" "fds_ok s \<Longrightarrow> fds_ok (update_cursor x y s)"
  by (erule fds_console [rotated] fds_more [rotated]; simp add: print_more cli_sti_more putc_more send_eoi_more
      set_process_page_more map2user_more update_cursor_more)+

lemma fds_start_pcb [fds_intros]: "fds_ok s \<Longrightarrow> fds_ok (start_pcb p s)"
  unfolding start_pcb_def Let_def by (intro fds_intros fds_upd_pcb) (auto intro: fd_wf_same)

lemma fds_if [fds_intros]: "(b \<Longrightarrow> fds_ok x) \<Longrightarrow> (\<not> b \<Longrightarrow> fds_ok y) \<Longrightarrow> fds_ok (if b then x else y)"
  by simp

lemma fds_start_process [fds_intros]: "fds_ok s \<Longrightarrow> fds_ok (start_process f a p s)"
  unfolding start_process_def Let_def by (intro fds_intros fds_upd_pcb fd_wf_setup)

lemma fds_execute_start [fds_intros]: "fds_ok s \<Longrightarrow> fds_ok (snd (execute_start f a p n s))"
  unfolding execute_start_def enter_program_def load_image_def Let_def snd_conv
  by (intro fds_intros fds_upd_pcb) (auto intro: fd_wf_same)

lemma fds_execute_load: "fds_ok s \<Longrightarrow> fds_ok (snd (execute_load f a p s))"
proof -
  assume s: "fds_ok s"
  have r: "fds_ok (snd (read_data i off b n s))" for i off b n
    by (rule fds_console [OF read_data_more [OF surjective_pairing] s])
  show ?thesis
    unfolding execute_load_def split_beta Let_def
    using s r by (auto intro!: fds_intros split: option.split)
qed

lemma fds_execute_cmd [fds_intros]: "fds_ok s \<Longrightarrow> fds_ok (snd (execute_cmd c s))"
  unfolding execute_cmd_def Let_def
  by (auto intro!: fds_intros fds_execute_load split: option.split)

section \<open>The drivers\<close>

lemma fds_read_file [fds_intros]: "fds_ok s \<Longrightarrow> fds_ok (snd (read_file fd buf n s))"
proof -
  assume s: "fds_ok s"
  have r: "fds_ok (snd (read_data i off b n s))" for i off b n
    by (rule fds_console [OF read_data_more [OF surjective_pairing] s])
  show ?thesis unfolding read_file_def Let_def split_beta snd_conv
    by (rule fds_upd_any [OF r]) (simp add: fd_ok_def)
qed

lemma fds_read_dir [fds_intros]: "fds_ok s \<Longrightarrow> fds_ok (snd (read_dir fd buf n s))"
  unfolding read_dir_def Let_def
  by (auto intro!: fds_upd_any fds_intros simp: fd_ok_def split: option.split)

lemma fds_terminal_write [fds_intros]: "fds_ok s \<Longrightarrow> fds_ok (snd (terminal_write fd buf n s))"
proof -
  assume s: "fds_ok s"
  have f: "fds_ok (fold (\<lambda>i s. putc (mem s (buf + of_nat i)) s) ns t)" if "fds_ok t" for ns and t :: "'a kernel_scheme"
    using that by (induction ns arbitrary: t) (simp_all add: fds_intros)
  have c: "fds_ok (set_stop_x x t)" if "fds_ok t" for x and t :: "'a kernel_scheme"
    using that by (simp add: set_stop_x_def fds_ok_def)
  show ?thesis unfolding terminal_write_def Let_def if_distrib [where f = snd] snd_conv
    by (intro fds_intros f c s)
qed

lemma fds_rtc [fds_intros]:
  "fds_ok s \<Longrightarrow> fds_ok (rtc_intr s)" "fds_ok s \<Longrightarrow> fds_ok (snd (rtc_write fd buf n s))"
proof -
  assume s: "fds_ok s"
  show "fds_ok (rtc_intr s)"
    by (rule fds_console [OF _ s]) (simp add: rtc_intr_def send_eoi_def enable_irq_def outb_def cli_def sti_def Let_def)
  have "fds_ok (snd (set_frequency f t))" if "fds_ok t" for f and t :: "'a kernel_scheme"
    by (rule fds_console [OF set_frequency_more that])
  moreover have "fds_ok (cli s)" using s by (rule fds_intros)
  ultimately show "fds_ok (snd (rtc_write fd buf n s))"
    unfolding rtc_write_def Let_def split_beta if_distrib [where f = snd] snd_conv
    by (auto intro!: fds_intros s)
qed

lemma fds_rtc_spin: "rtc_spin polls s = Some t \<Longrightarrow> fds_ok s \<Longrightarrow> fds_ok t"
  by (induction polls arbitrary: s) (auto simp: Let_def fds_intros split: if_splits)

lemma fds_op_write: "fds_ok s \<Longrightarrow> fds_ok (snd (op_write ops fd buf n s))"
  by (cases ops) (simp_all add: fds_intros)

section \<open>The keyboard and the terminals\<close>

lemma fds_save [fds_intros]: "fds_ok s \<Longrightarrow> fds_ok (save_terminal tid s)"
proof -
  assume s: "fds_ok s"
  have k: "fds_ok (set_kb_buffer b t)" "fds_ok (set_kb_index i t)" if "fds_ok t" for b i and t :: "'a kernel_scheme"
    using that by (simp_all add: set_kb_buffer_def set_kb_index_def fds_ok_def)
  show ?thesis unfolding save_terminal_def Let_def
    by (intro fds_intros k fds_upd_pcb s) (auto intro: fd_wf_same)
qed

lemma fds_show [fds_intros]: "fds_ok s \<Longrightarrow> fds_ok (show_terminal tid s)"
  by (rule fds_cong [OF show_terminal_fields(9)])

lemma fds_switch [fds_intros]: "fds_ok s \<Longrightarrow> fds_ok (snd (switch_terminal tid s))"
proof -
  assume s: "fds_ok s"
  have r: "fds_ok (snd (case r of (Ret x, u) \<Rightarrow> (Resume a b, u) | (result, u) \<Rightarrow> (result, u))) = fds_ok (snd r)"
    for r :: "outcome \<times> 'a kernel_scheme" and a b by (cases r; cases "fst r") auto
  show ?thesis
    unfolding switch_terminal_def resume_terminal_def Let_def if_distrib [where f = "\<lambda>r. fds_ok (snd r)"] r snd_conv
    using s by (auto intro!: fds_intros)
qed

lemma fds_keys:
  "fds_ok s \<Longrightarrow> fds_ok (kb_done s)" "fds_ok s \<Longrightarrow> fds_ok (kb_type c s)" "fds_ok s \<Longrightarrow> fds_ok (kb_enter s)"
  "fds_ok s \<Longrightarrow> fds_ok (kb_backspace s)" "fds_ok s \<Longrightarrow> fds_ok (kb_clear s)"
proof -
  have p: "paging.more (fold putc xs t) = paging.more t" for xs and t :: "'a kernel_scheme"
    by (induction xs arbitrary: t) (simp_all add: paging_more(1) [OF putc_more])
  have c: "paging.more (clear t) = paging.more t" for t :: "'a kernel_scheme" by (simp add: clear_fold)
  have u: "paging.more (update_cursor x y t) = paging.more t" for x y and t :: "'a kernel_scheme"
    by (rule paging_more(1) [OF update_cursor_more])
  have e: "paging.more (send_eoi i t) = paging.more t" for i and t :: "'a kernel_scheme"
    by (rule paging_more(1) [OF send_eoi_more])
  show "fds_ok s \<Longrightarrow> fds_ok (kb_done s)" by (erule fds_more [rotated]) (simp add: kb_done_def e u)
  show "fds_ok s \<Longrightarrow> fds_ok (kb_type c s)"
    by (erule fds_more [rotated]) (simp add: kb_type_def kb_store_def Let_def paging_more(1) [OF putc_more])
  show "fds_ok s \<Longrightarrow> fds_ok (kb_enter s)"
    by (erule fds_more [rotated]) (simp add: kb_enter_def Let_def scroll_down_def set_screen_x_def set_screen_y_def u)
  show "fds_ok s \<Longrightarrow> fds_ok (kb_backspace s)"
    by (erule fds_more [rotated])
       (simp add: kb_backspace_def Let_def kb_store_def poke_def set_screen_x_def set_screen_y_def u)
  show "fds_ok s \<Longrightarrow> fds_ok (kb_clear s)"
    by (erule fds_more [rotated]) (simp add: kb_clear_def Let_def set_screen_x_def set_screen_y_def u p c)
qed

lemma fds_kb_key: "kb_key k s = (b, t) \<Longrightarrow> fds_ok s \<Longrightarrow> fds_ok t"
  by (auto simp: kb_key_def fds_keys fds_intros split: if_splits option.splits)

lemma fds_flags: "kb_modifier k s = Some t \<or> kb_ctrl k s = Some t \<Longrightarrow> fds_ok s \<Longrightarrow> fds_ok t"
  by (auto simp: kb_modifier_def kb_ctrl_def fds_ok_def split: if_splits)

lemma fds_kb_intr [fds_intros]:
  assumes "fds_ok s"
  shows "fds_ok (snd (kb_intr s))"
proof -
  let ?ok = "\<lambda>r :: outcome \<times> 'a kernel_scheme. fds_ok (snd r)"
  have cond: "?ok x \<Longrightarrow> ?ok y \<Longrightarrow> ?ok (if b then x else y)" for b x y by simp
  have opt: "?ok x \<Longrightarrow> (\<And>u. m = Some u \<Longrightarrow> ?ok (f u)) \<Longrightarrow> ?ok (case m of None \<Rightarrow> x | Some u \<Rightarrow> f u)"
    for m x and f :: "'a kernel_scheme \<Rightarrow> _" by (cases m) auto
  have don: "?ok (Ret 0, kb_done t)" if "fds_ok t" for t using that by (simp add: fds_keys)
  have pair: "?ok (case kb_key k s of (b, u) \<Rightarrow> (Ret 0, if b then u else kb_done u))" for k
    using fds_kb_key [of k s] assms by (cases "kb_key k s") (auto simp: fds_keys)
  have sw: "?ok (kb_switch tid s)" for tid using assms by (auto simp: kb_switch_def fds_keys intro!: fds_intros)
  show ?thesis
    unfolding kb_intr_def Let_def
    by (intro opt cond pair sw don) (use assms in \<open>auto simp: fds_keys intro: fds_flags\<close>)
qed

lemma fds_kb_wait: "kb_wait polls s = Some (r, t) \<Longrightarrow> fds_ok s \<Longrightarrow> fds_ok t"
proof (induction polls arbitrary: s)
  case (Cons irq polls)
  let ?r = "if irq then kb_intr s else (Ret 0, s)"
  have "fds_ok (snd ?r)" using fds_kb_intr [OF Cons.prems(2)] Cons.prems(2) by simp
  then show ?case using Cons by (cases ?r; cases "fst ?r") (auto split: if_splits)
qed simp

lemma fds_terminal_read:
  assumes "terminal_read polls fd buf n s = Some (r, t)" "fds_ok s"
  shows "fds_ok t"
proof (cases "n = 0 \<or> buf = 0")
  case False
  define x where "x = clear_bytes (nat (if 128 < n then 128 else n)) buf (mem s)"
  obtain q u where w: "kb_wait polls (s\<lparr>mem := x\<rparr>) = Some (q, u)"
    using False assms(1) by (auto simp: terminal_read_def x_def [symmetric] Let_def split: option.splits)
  have "fds_ok u" using fds_kb_wait [OF w] assms(2) by (simp add: fds_simple)
  then show ?thesis
    using False assms(1) w by (cases q) (auto simp: terminal_read_def x_def [symmetric] Let_def fds_simple)
qed (use assms in \<open>auto simp: terminal_read_def\<close>)

lemma fds_op_read:
  assumes "fds_ok s" "op_read polls ops fd buf n s = Some (r, t)"
  shows "fds_ok t"
proof (cases ops)
  case Rtc_op
  then obtain u where "rtc_spin polls (s\<lparr>int_flag := 0\<rparr>) = Some u" "t = u\<lparr>int_flag := 0\<rparr>"
    using assms(2) by (auto simp: returns_def rtc_read_def split: option.splits)
  then show ?thesis using fds_rtc_spin assms(1) by (auto intro!: fds_simple)
next
  case Stdin_op
  then show ?thesis using assms fds_terminal_read by simp
qed (use assms fds_read_file fds_read_dir in \<open>auto simp: returns_def\<close>)

interpretation typed: driver fds_ok "\<lambda>s. s\<lparr>wild := True\<rparr>" op_read op_write
proof
  fix s t :: "'a kernel_scheme" and buf :: u32 and polls ops fd n r k
  show "fds_ok s \<Longrightarrow> fds_ok (s\<lparr>wild := True\<rparr>)" by (rule fds_simple(2))
  show "fds_ok s \<Longrightarrow> op_read polls ops fd buf n s = Some (r, t) \<Longrightarrow> fds_ok t" by (rule fds_op_read)
  show "fds_ok s \<Longrightarrow> fds_ok (snd (op_write ops fd buf n s))" by (rule fds_op_write)
  show "0 \<le> n \<Longrightarrow> op_read polls ops fd buf n s = Some (Ret k, t) \<Longrightarrow> - 1 \<le> k" by (rule op_read_result)
  show "0 \<le> n \<Longrightarrow> - 1 \<le> fst (op_write ops fd buf n s)" by (rule op_write_result)
qed

section \<open>The system calls\<close>

lemma fds_sys_read:
  assumes "sys_read polls fd buf n s = Some (r, t)" "fds_ok s"
  shows "fds_ok t"
proof -
  let ?f = "pcb_file (cur_pcb s) ! nat fd"
  have "t = s \<or> (case fd_op ?f of None \<Rightarrow> Some (Ret (- 1), s\<lparr>wild := True\<rparr>)
      | Some ops \<Rightarrow> op_read polls ops fd buf n s) = Some (r, t)"
    using assms(1) by (auto simp: sys_read_def returns_def Let_def split: if_splits option.splits)
  then show ?thesis using typed.call_read(1) assms(2) by blast
qed

lemma fds_sys_write [fds_intros]:
  assumes "fds_ok s"
  shows "fds_ok (snd (sys_write fd buf n s))"
proof -
  let ?f = "pcb_file (cur_pcb s) ! nat fd"
  obtain k t where kt: "sys_write fd buf n s = (k, t)" by (cases "sys_write fd buf n s")
  then have "t = s \<or> (case fd_op ?f of None \<Rightarrow> (- 1, s\<lparr>wild := True\<rparr>) | Some ops \<Rightarrow> op_write ops fd buf n s) = (k, t)"
    by (simp add: sys_write_def Let_def split: if_splits)
  then show ?thesis using typed.call_write(1) assms by (auto simp: kt)
qed

lemma fd_wf_set_fd: "fd_wf p \<Longrightarrow> fl \<in> {0, 1} \<Longrightarrow> fd_wf (set_fd addr i ops ino ps fl p)"
  by (cases "i < 8") (auto simp: set_fd_def fd_ok_def intro: fd_wf_update fd_wf_same)

lemma fds_open_as: "fds_ok s \<Longrightarrow> fds_ok (snd (open_as ops ino a fd s))"
proof -
  assume s: "fds_ok s"
  have "fds_ok (snd (op_open ops a s))" by (rule fds_console [OF op_open_fields(1) s])
  then show ?thesis
    using s unfolding open_as_def Let_def split_beta by (auto intro!: fds_upd_pcb fd_wf_set_fd)
qed

lemma fds_sys_open: "sys_open a s = Some (r, t) \<Longrightarrow> fds_ok s \<Longrightarrow> fds_ok t"
  using fds_open_as by (auto simp: sys_open_def Let_def prod_eq_iff split: option.splits if_splits)

lemma fds_sys_close [fds_intros]: "fds_ok s \<Longrightarrow> fds_ok (snd (sys_close fd s))"
  by (auto simp: sys_close_def Let_def fd_ok_def intro!: fds_upd_any fds_simple split: option.split)

lemma fds_getargs [fds_intros]: "fds_ok s \<Longrightarrow> fds_ok (snd (getargs buf n s))"
  by (auto simp: getargs_def Let_def intro!: fds_simple)

lemma fds_vidmap [fds_intros]: "fds_ok s \<Longrightarrow> fds_ok (snd (vidmap p s))"
  by (auto simp: vidmap_def Let_def intro!: fds_intros)

lemma fds_halt_fd: "fds_ok s \<Longrightarrow> fds_ok (halt_fd c i s)"
  unfolding halt_fd_def Let_def by (intro fds_upd_any fds_intros) (auto simp: fd_ok_def)

lemma fds_halt [fds_intros]:
  assumes "fds_ok s"
  shows "fds_ok (snd (halt status s))"
proof -
  have f: "fds_ok (fold (halt_fd c) is t)" if "fds_ok t" for c "is" and t :: "'a kernel_scheme"
    using that by (induction "is" arbitrary: t) (simp_all add: fds_halt_fd)
  have rm: "fds_ok (remove_process t c u)" if "fds_ok u" for t c and u :: "'a kernel_scheme"
    unfolding remove_process_def Let_def using that by (intro fds_intros)
  have ret: "fds_ok (snd (return_to_parent c st u))" if "fds_ok u" for c st and u :: "'a kernel_scheme"
    unfolding return_to_parent_def Let_def snd_conv using that by (intro fds_intros)
  have ex: "fds_ok (snd (case execute_cmd c u of (Ret r, v) \<Rightarrow> return_to_parent p st v | (q, v) \<Rightarrow> (q, v)))"
    if "fds_ok u" for c p st and u :: "'a kernel_scheme"
    using fds_execute_cmd [OF that, of c] by (cases "execute_cmd c u"; cases "fst (execute_cmd c u)") (auto simp: ret)
  show ?thesis
    unfolding halt_def Let_def if_distrib [where f = snd] snd_conv
    by (intro fds_intros f rm ex ret assms)
qed

lemma fds_raise [fds_intros]: "fds_ok s \<Longrightarrow> fds_ok (snd (raise_exception msg s))"
  unfolding raise_exception_def Let_def by (intro fds_intros)

lemma fds_syscall:
  assumes "syscall_handler polls eax ebx ecx edx s = Some (r, t)" "fds_ok s"
  shows "fds_ok t"
proof -
  have ex: "fds_ok u" if "execute p s = Some (q, u)" for p q u
    using that fds_execute_cmd [OF assms(2)]
    by (auto simp: execute_def prod_eq_iff split: if_splits option.splits)
  show ?thesis
    using assms ex fds_sys_read fds_sys_open
    by (auto simp: syscall_handler_def returns_def result_of_def prod_eq_iff split: if_splits option.splits
        intro: fds_intros)
qed

lemma fds_step: "kernel_step s t \<Longrightarrow> fds_ok s \<Longrightarrow> fds_ok t"
  by (induction rule: kernel_step.induct) (auto intro: fds_intros fds_syscall)

lemma fds_reachable: "reachable s t \<Longrightarrow> fds_ok s \<Longrightarrow> fds_ok t"
  by (induction rule: reachable.induct) (auto intro: fds_step)

section \<open>Properties\<close>



end
