(* ===== verification/Grep.thy ===== *)
theory Grep
  imports Line_Input "HOL-Library.Sublist"
begin

text \<open>
  \<^verbatim>\<open>syscalls/ece391grep.c\<close>: for every file of the directory, the lines that contain the text given as argument.
  The file is read in pieces into an array of 1024 bytes (and one for a terminator); the incomplete last
  line of a piece is moved to the front of the array and the next piece read behind it.
\<close>

section \<open>The program\<close>

text \<open>The end of the line that starts at the index given: a newline or the end of the data.\<close>

function line_end :: "mem \<Rightarrow> u32 \<Rightarrow> int \<Rightarrow> int \<Rightarrow> int" where
  "line_end m data lst i =
     (if i < lst \<and> m (data + of_int i) \<noteq> 0x0A then line_end m data lst (i + 1) else i)"
  by auto
termination by (relation "measure (\<lambda>(_, _, lst, i). nat (lst - i))") auto

text \<open>The search for the text in the line.\<close>

function line_has :: "mem \<Rightarrow> u32 \<Rightarrow> int \<Rightarrow> u32 \<Rightarrow> int \<Rightarrow> int \<Rightarrow> bool" where
  "line_has m s s_len data check stop =
     (if check < stop
      then if m s = m (data + of_int check) \<and> ece391_strncmp (data + of_int check) s (of_int s_len) m = 0 then True
           else line_has m s s_len data (check + 1) stop
      else False)"
  by auto
termination by (relation "measure (\<lambda>(_, _, _, _, check, stop). nat (stop - check))") auto

declare line_end.simps [simp del] line_has.simps [simp del]

definition grep_line :: "'a kernel_scheme user_env \<Rightarrow> u32 \<Rightarrow> u32 \<Rightarrow> int \<Rightarrow> u32 \<Rightarrow> int \<Rightarrow> int \<Rightarrow> 'a kernel_scheme
    \<Rightarrow> (outcome \<times> 'a kernel_scheme) option" where
  "grep_line env s fname s_len data start stop st =
     (if line_has (mem st) s s_len data start stop
      then andthen (ece391_fdputs env 1 fname st) (\<lambda>_ st.
           andthen (ece391_fdputs env 1 (lit env '':'') st) (\<lambda>_ st.
           andthen (ece391_fdputs env 1 (data + of_int start) st) (\<lambda>_ st.
           ece391_fdputs env 1 (lit env NL) st)))
      else Some (Ret 0, st))"

text \<open>The inner loop; it returns the new value of \<open>lst\<close> (\<^verbatim>\<open>last\<close>).\<close>

partial_function (option) grep_lines :: "'a kernel_scheme user_env \<Rightarrow> u32 \<Rightarrow> u32 \<Rightarrow> int \<Rightarrow> u32 \<Rightarrow> int \<Rightarrow> int \<Rightarrow> int
    \<Rightarrow> 'a kernel_scheme \<Rightarrow> (outcome \<times> 'a kernel_scheme) option" where
  "grep_lines env s fname s_len data cnt lst start st =
     (let e = line_end (mem st) data lst start
      in if mem st (data + of_int e) \<noteq> 0x0A \<and> cnt \<noteq> 0 \<and> start \<noteq> 0
         then let st = poke (data + of_int e) 0 st
              in case ece391_strcpy data (data + of_int start) (mem st) of
                   None \<Rightarrow> None
                 | Some m \<Rightarrow> Some (Ret (lst - start), st\<lparr>mem := m\<rparr>)
         else let st = poke (data + of_int e) 0 st
              in andthen (grep_line env s fname s_len data start e st) (\<lambda>_ st.
                   if lst \<le> e + 1 then Some (Ret 0, st)
                   else grep_lines env s fname s_len data cnt lst (e + 1) st))"

partial_function (option) grep_chunks :: "'a kernel_scheme user_env \<Rightarrow> int \<Rightarrow> u32 \<Rightarrow> u32 \<Rightarrow> int \<Rightarrow> u32 \<Rightarrow> int
    \<Rightarrow> 'a kernel_scheme \<Rightarrow> (outcome \<times> 'a kernel_scheme) option" where
  "grep_chunks env fd s fname s_len data lst st =
     andthen (ece391_read env fd (data + of_int lst) (1024 - lst) st) (\<lambda>cnt st.
       if cnt = - 1
       then andthen (ece391_fdputs env 1 (lit env (''file read failed'' @ NL)) st) (\<lambda>_ st. Some (Ret (- 1), st))
       else andthen (grep_lines env s fname s_len data cnt (lst + cnt) 0 st) (\<lambda>lst st.
         if cnt = 0
         then andthen (ece391_close env fd st) (\<lambda>r st.
                if r = - 1
                then andthen (ece391_fdputs env 1 (lit env (''file close failed'' @ NL)) st) (\<lambda>_ st. Some (Ret (- 1), st))
                else Some (Ret 0, st))
         else grep_chunks env fd s fname s_len data lst st))"

definition do_one_file :: "'a kernel_scheme user_env \<Rightarrow> u32 \<Rightarrow> u32 \<Rightarrow> u32 \<Rightarrow> 'a kernel_scheme
    \<Rightarrow> (outcome \<times> 'a kernel_scheme) option" where
  "do_one_file env data s fname st =
     (case ece391_strlen (mem st) s of
        None \<Rightarrow> None
      | Some s_len \<Rightarrow>
          andthen (ece391_open env fname st) (\<lambda>fd st.
            if fd = - 1
            then andthen (ece391_fdputs env 1 (lit env (''file open failed'' @ NL)) st) (\<lambda>_ st. Some (Ret (- 1), st))
            else grep_chunks env fd s fname (sint s_len) data 0 st))"

partial_function (option) grep_loop :: "'a kernel_scheme user_env \<Rightarrow> int \<Rightarrow> u32 \<Rightarrow> u32 \<Rightarrow> u32 \<Rightarrow> 'a kernel_scheme
    \<Rightarrow> (outcome \<times> 'a kernel_scheme) option" where
  "grep_loop env fd data buf search st =
     andthen (ece391_read env fd buf 32 st) (\<lambda>cnt st.
       if cnt \<noteq> 0
       then if cnt = - 1
            then andthen (ece391_fdputs env 1 (lit env (''directory entry read failed'' @ NL)) st) (\<lambda>_ st. Some (Ret 3, st))
            else if mem st buf = 0x2E then grep_loop env fd data buf search st
            else andthen (do_one_file env data search buf (poke (buf + of_int cnt) 0 st)) (\<lambda>r st.
                   if r \<noteq> 0 then Some (Ret 3, st) else grep_loop env fd data buf search st)
       else Some (Ret 0, st))"

definition grep_main :: "'a kernel_scheme user_env \<Rightarrow> u32 \<Rightarrow> u32 \<Rightarrow> u32 \<Rightarrow> 'a kernel_scheme
    \<Rightarrow> (outcome \<times> 'a kernel_scheme) option" where
  "grep_main env data buf search st =
     andthen (ece391_getargs env search 1024 st) (\<lambda>r st.
       if r \<noteq> 0
       then andthen (ece391_fdputs env 1 (lit env (''could not read argument'' @ NL)) st) (\<lambda>_ st. Some (Ret 3, st))
       else andthen (ece391_open env (lit env ''.'') st) (\<lambda>fd st.
         if fd = - 1
         then andthen (ece391_fdputs env 1 (lit env (''directory open failed'' @ NL)) st) (\<lambda>_ st. Some (Ret 2, st))
         else grep_loop env fd data buf search st))"

section \<open>What it prints\<close>

fun text_lines :: "u8 list \<Rightarrow> u8 list list" where
  "text_lines [] = [[]]"
| "text_lines (x # xs) = (if x = 0x0A then [] # text_lines xs else (x # hd (text_lines xs)) # tl (text_lines xs))"

definition hit :: "u8 list \<Rightarrow> u8 list \<Rightarrow> u8 list \<Rightarrow> u8 list" where
  "hit fn pat line = (if pat \<noteq> [] \<and> sublist pat line then fn @ str '':'' @ line @ str NL else [])"

definition grep_text :: "u8 list \<Rightarrow> u8 list \<Rightarrow> u8 list \<Rightarrow> u8 list" where
  "grep_text fn pat xs = concat (map (hit fn pat) (text_lines xs))"

text \<open>Texts the program can handle: no line fills its array.\<close>

definition short_lines :: "u8 list \<Rightarrow> bool" where
  "short_lines xs \<longleftrightarrow> (\<forall>line \<in> set (text_lines xs). length line < 1024)"

lemma text_lines_nonempty [simp]: "text_lines xs \<noteq> []"
  by (cases xs) auto

lemma text_lines_cut: "0x0A \<notin> set a \<Longrightarrow> text_lines (a @ 0x0A # b) = a # text_lines b"
  by (induction a) auto

lemma text_lines_one: "0x0A \<notin> set a \<Longrightarrow> text_lines a = [a]"
  by (induction a) auto

lemma text_lines_prefix: "0x0A \<notin> set a \<Longrightarrow> hd (text_lines (a @ b)) = a @ hd (text_lines b)"
  by (induction a) auto

lemma hit_empty [simp]: "hit fn pat [] = []"
  by (simp add: hit_def)

lemma grep_text_simps:
  "0x0A \<notin> set a \<Longrightarrow> grep_text fn pat (a @ 0x0A # b) = hit fn pat a @ grep_text fn pat b"
  "0x0A \<notin> set a \<Longrightarrow> grep_text fn pat a = hit fn pat a" "grep_text fn pat [] = []"
  by (simp_all add: grep_text_def text_lines_cut text_lines_one)

lemma short_lines_cut: "0x0A \<notin> set a \<Longrightarrow> short_lines (a @ 0x0A # b) \<Longrightarrow> short_lines b"
  by (simp add: short_lines_def text_lines_cut)

lemma short_lines_first:
  assumes "0x0A \<notin> set a" "short_lines (a @ b)"
  shows "length a < 1024"
proof -
  have "length (hd (text_lines (a @ b))) < 1024" using assms(2) hd_in_set by (auto simp: short_lines_def)
  then show ?thesis by (simp add: text_lines_prefix [OF assms(1)])
qed

section \<open>Lines in the array\<close>

lemma line_end_index:
  assumes "i \<le> k"
  shows "line_end m data (int k) (int i) = int (i + length (takeWhile (\<lambda>c. c \<noteq> 0x0A) (rd m (data + of_nat i) (k - i))))"
  using assms
proof (induction "k - i" arbitrary: i)
  case 0
  then show ?case by (subst line_end.simps) simp
next
  case (Suc d)
  have d: "d = k - Suc i" "Suc i \<le> k" using Suc.hyps(2) by auto
  have r: "rd m (data + of_nat i) (k - i) = m (data + of_nat i) # rd m (data + of_nat (Suc i)) (k - Suc i)"
    using rd_Suc [of m "data + of_nat i" d] Suc.hyps(2) d(1) by (simp add: ac_simps)
  have s: "int i + 1 = int (Suc i)" by simp
  show ?case
  proof (cases "m (data + of_nat i) = 0x0A")
    case True
    then show ?thesis by (subst line_end.simps) (simp add: r)
  next
    case False
    have "line_end m data (int k) (int i) = line_end m data (int k) (int (Suc i))"
      using False d(2) by (subst line_end.simps) (simp only: s, simp)
    also have "\<dots> = int (Suc i + length (takeWhile (\<lambda>c. c \<noteq> 0x0A) (rd m (data + of_nat (Suc i)) (k - Suc i))))"
      by (rule Suc.hyps(1) [OF d])
    finally show ?thesis using False by (simp add: r)
  qed
qed

lemma line_has_sublist:
  assumes "cstr m s pat" "cstr m (data + of_nat i) line"
  shows "line_has m s (int (length pat)) data (int i) (int (i + length line)) \<longleftrightarrow> pat \<noteq> [] \<and> sublist pat line"
  using assms(2)
proof (induction line arbitrary: i)
  case Nil
  then show ?case by (subst line_has.simps) auto
next
  case (Cons c line)
  have c: "m (data + of_nat i) = c" "c \<noteq> 0" using cstr_nth [OF Cons.prems, of 0] Cons.prems by (auto simp: cstr_def)
  have tl: "cstr m (data + of_nat (Suc i)) line" using Cons.prems by (auto simp: cstr_def rd_Suc ac_simps)
  have u: "unat (of_nat (length pat) :: u32) = length pat" using assms(1) by (simp add: cstr_def unat_u32_of_nat)
  have "ece391_strncmp (data + of_nat i) s (of_nat (length pat)) m = 0 \<longleftrightarrow> take (length pat) (c # line) = pat"
    using user_strncmp [of "data + of_nat i" s "of_nat (length pat)" m] cstrn_cstr [OF Cons.prems] cstrn_cstr [OF assms(1)] u by simp
  moreover have "m s = c \<longleftrightarrow> pat \<noteq> [] \<and> hd pat = c"
    using assms(1) cstr_nth [OF assms(1), of 0] c(2) by (cases pat) (auto simp: cstr_def)
  moreover have "take (length pat) (c # line) = pat \<longleftrightarrow> prefix pat (c # line)"
    by (metis append_take_drop_id prefixI prefixE append_eq_conv_conj)
  moreover have "prefix pat (c # line) \<Longrightarrow> pat \<noteq> [] \<Longrightarrow> hd pat = c" by (cases pat) auto
  ultimately have f: "(m s = m (data + of_nat i) \<and> ece391_strncmp (data + of_nat i) s (of_nat (length pat)) m = 0)
      \<longleftrightarrow> pat \<noteq> [] \<and> prefix pat (c # line)" using c(1) by auto
  have n: "int i + 1 = int (Suc i)" "int (i + length (c # line)) = int (Suc i + length line)" by simp_all
  have "line_has m s (int (length pat)) data (int i) (int (i + length (c # line))) \<longleftrightarrow>
      pat \<noteq> [] \<and> prefix pat (c # line) \<or> line_has m s (int (length pat)) data (int (Suc i)) (int (Suc i + length line))"
    unfolding n(2) using f by (subst line_has.simps) (simp only: n(1), simp)
  then show ?case using Cons.IH [OF tl] by (auto simp: sublist_Cons_right)
qed

section \<open>Printing a line\<close>

text \<open>A string of the program outside of the array.\<close>

definition held :: "u32 \<Rightarrow> u8 list \<Rightarrow> u32 \<Rightarrow> 'a kernel_scheme \<Rightarrow> bool" where
  "held data xs a s \<longleftrightarrow> cstr (mem s) a xs \<and> a \<noteq> 0 \<and> length xs < 2 ^ 31
     \<and> apart a (Suc (length xs)) VIDEO 4000 \<and> apart a (Suc (length xs)) data 1025"

definition grep_state :: "nat \<Rightarrow> 'a kernel_scheme user_env \<Rightarrow> u32 \<Rightarrow> u32 \<Rightarrow> u8 list \<Rightarrow> u32 \<Rightarrow> u8 list \<Rightarrow> 'a kernel_scheme \<Rightarrow> bool" where
  "grep_state n env data s pat fname fn st \<longleftrightarrow> ready n st \<and> array_ok data 1025 n st \<and> unat data + 1025 \<le> 2 ^ 32
     \<and> held data pat s st \<and> held data fn fname st \<and> fn \<noteq> []
     \<and> lit_ok env data 1025 st '':'' \<and> lit_ok env data 1025 st NL"

lemma held_since: "since data 1025 x s t \<Longrightarrow> held data xs a s \<Longrightarrow> held data xs a t"
  using since_cstr [of data 1025 x s t a xs] by (simp add: held_def)

lemma grep_since:
  assumes "since data 1025 x st t" "grep_state n env data s pat fname fn st" "fd_wf (cur_pcb t)"
    and "pcb_file (cur_pcb t) ! 1 = pcb_file (cur_pcb st) ! 1"
  shows "grep_state n env data s pat fname fn t"
proof -
  have r: "ready n st" "array_ok data 1025 n st" using assms(2) by (auto simp: grep_state_def)
  show ?thesis
    using assms(2) array_ready [OF assms(1) r assms(3,4)] since_image(5) [OF assms(1) r] held_since [OF assms(1)]
      since_lit [OF assms(1)]
    by (simp add: grep_state_def)
qed

lemma grep_since_same:
  assumes "since data 1025 x st t" "grep_state n env data s pat fname fn st" "cur_pcb t = cur_pcb st"
  shows "grep_state n env data s pat fname fn t"
  by (rule grep_since [OF assms(1,2)]) (use assms(2,3) in \<open>simp_all add: grep_state_def ready_def\<close>)

text \<open>A string that is not on the screen, printed.\<close>

lemma grep_puts:
  assumes "grep_state n env data s pat fname fn st" "cstr (mem st) a xs" "a \<noteq> 0" "apart a (Suc (length xs)) VIDEO 4000"
    and "xs \<noteq> []" "length xs < 2 ^ 31"
  shows "\<exists>t. ece391_fdputs env 1 a st = Some (Ret (int (length xs)), t) \<and> since data 0 xs st t \<and> cur_pcb t = cur_pcb st
    \<and> grep_state n env data s pat fname fn t"
proof -
  have "ready n st" using assms(1) by (simp add: grep_state_def)
  from user_puts [OF this assms(2,4,5,6,3), of env data 0] obtain t where
      t: "ece391_fdputs env 1 a st = Some (Ret (int (length xs)), t)" "since data 0 xs st t" "cur_pcb t = cur_pcb st" by blast
  then show ?thesis using grep_since_same [OF since_none [OF t(2)] assms(1) t(3)] by blast
qed

lemma array_place:
  assumes "grep_state m env data s pat fname fn st" "i + k \<le> 1025" "i < 1025"
  shows "data + of_nat i \<noteq> 0" "apart (data + of_nat i) k VIDEO 4000" "array_ok (data + of_nat i) k m st"
    "since (data + of_nat i) k x st t \<Longrightarrow> since data 1025 x st t"
proof -
  have ap: "apart data 1025 VIDEO 4000" "apart data 1025 (boot_block st) m" "data \<noteq> 0" "m \<le> 2 ^ 32" "unat data + 1025 \<le> 2 ^ 32"
    using assms(1) by (auto simp: grep_state_def array_ok_def ready_def disk_def)
  have u: "unat (data + of_nat i) = unat data + i" using ap(5) assms(3) by (simp add: unat_u32_plus unat_u32_of_nat)
  have "unat data \<noteq> 0" using ap(3) by (simp add: unat_eq_0)
  then show nz: "data + of_nat i \<noteq> 0" using u by (metis add_is_0 unat_0)
  have s: "apart (data + of_nat i) k b l" if "apart data 1025 b l" "l \<le> 2 ^ 32" for b l
    using apart_sub [of b l data 1025 i k] that assms(2) apart_sym [of data] apart_sym [of "data + of_nat i"] by simp
  show "apart (data + of_nat i) k VIDEO 4000" "array_ok (data + of_nat i) k m st" using s ap nz assms(2) by (simp_all add: array_ok_def)
  show "since (data + of_nat i) k x st t \<Longrightarrow> since data 1025 x st t"
    using inr_sub [OF _ assms(2)] by (auto simp: since_def)
qed

lemma grep_line_prints:
  assumes "grep_state n env data s pat fname fn st" "cstr (mem st) (data + of_nat i) line" "i + length line < 1025"
  shows "\<exists>r t. grep_line env s fname (int (length pat)) data (int i) (int (i + length line)) st = Some (Ret r, t)
    \<and> since data 0 (hit fn pat line) st t \<and> cur_pcb t = cur_pcb st \<and> grep_state n env data s pat fname fn t"
proof (cases "pat \<noteq> [] \<and> sublist pat line")
  case False
  have c: "cstr (mem st) s pat" "cursor_ok st" using assms(1) by (auto simp: grep_state_def held_def ready_def)
  show ?thesis
    using False assms(1) since_refl [OF c(2), of data 0] line_has_sublist [OF c(1) assms(2)] by (auto simp: grep_line_def hit_def)
next
  case True
  have c: "cstr (mem st) s pat" and f: "cstr (mem st) fname fn" "fname \<noteq> 0" "apart fname (Suc (length fn)) VIDEO 4000" "fn \<noteq> []" "length fn < 2 ^ 31"
    using assms(1) by (auto simp: grep_state_def held_def)
  have ln: "line \<noteq> []" "length line < 2 ^ 31" using True assms(3) by auto
  have p: "i + Suc (length line) \<le> 1025" "i < 1025" using assms(3) by simp_all
  note ap = array_place [OF assms(1) p]
  obtain t where t: "ece391_fdputs env 1 fname st = Some (Ret (int (length fn)), t)" "since data 0 fn st t" "cur_pcb t = cur_pcb st"
      "grep_state n env data s pat fname fn t" using grep_puts [OF assms(1) f] by blast
  have lt: "lit_ok env data 1025 t '':''" using t(4) by (simp add: grep_state_def)
  obtain u where u: "ece391_fdputs env 1 (lit env '':'') t = Some (Ret 1, u)" "since data 0 (str '':'') t u" "cur_pcb u = cur_pcb t"
      "grep_state n env data s pat fname fn u"
    using grep_puts [OF t(4), of "lit env '':''" "str '':''"] lt by (auto simp: lit_ok_def str_def)
  have d0: "apart (data + of_nat i) (Suc (length line)) data 0" by (simp add: apart_def)
  have "cstr (mem u) (data + of_nat i) line"
    using since_cstr [OF since_trans [OF t(2) u(2)] assms(2) ap(2) d0] .
  then obtain v where v: "ece391_fdputs env 1 (data + of_nat i) u = Some (Ret (int (length line)), v)" "since data 0 line u v"
      "cur_pcb v = cur_pcb u" "grep_state n env data s pat fname fn v"
    using grep_puts [OF u(4) _ ap(1,2) ln] by blast
  have lv: "lit_ok env data 1025 v NL" using v(4) by (simp add: grep_state_def)
  obtain w where w: "ece391_fdputs env 1 (lit env NL) v = Some (Ret 1, w)" "since data 0 (str NL) v w" "cur_pcb w = cur_pcb v"
      "grep_state n env data s pat fname fn w"
    using grep_puts [OF v(4), of "lit env NL" "str NL"] lv by (auto simp: lit_ok_def str_def)
  have "since data 0 (hit fn pat line) st w"
    using since_trans [OF t(2) since_trans [OF u(2) since_trans [OF v(2) w(2)]]] True by (simp add: hit_def)
  moreover have "grep_line env s fname (int (length pat)) data (int i) (int (i + length line)) st = Some (Ret 1, w)"
    using True line_has_sublist [OF c assms(2)] t(1) u(1) v(1) w(1) by (simp add: grep_line_def)
  ultimately show ?thesis using w(3,4) v(3) u(3) t(3) by auto
qed

section \<open>The lines of a piece\<close>

text \<open>The array holds \<open>xs\<close>, the file goes on with \<open>ys\<close>; then \<open>x\<close> has been printed, and the array holds \<open>rest\<close>.\<close>

definition carries :: "u8 list \<Rightarrow> u8 list \<Rightarrow> u8 list \<Rightarrow> u8 list \<Rightarrow> u8 list \<Rightarrow> u8 list \<Rightarrow> bool" where
  "carries fn pat xs ys x rest \<longleftrightarrow> x @ grep_text fn pat (rest @ ys) = grep_text fn pat (xs @ ys) \<and> 0 \<notin> set rest
     \<and> length rest < 1024 \<and> short_lines (rest @ ys)"

lemma carries_line:
  assumes "0x0A \<notin> set line" "carries fn pat xs ys x rest"
  shows "carries fn pat (line @ 0x0A # xs) ys (hit fn pat line @ x) rest"
  using assms by (simp add: carries_def grep_text_simps)

lemma short_lines_nil: "short_lines []"
  by (simp add: short_lines_def)

text \<open>The last line, when it is complete or when it does not end in the array.\<close>

lemma copy_front:
  assumes "cstr (mem st) (data + of_nat i) xs" "0 < i" "i + length xs \<le> 1024"
  shows "ece391_strcpy data (data + of_nat i) (mem st) = Some (wr data (xs @ [0]) (mem st))"
proof (rule user_strcpy_below [OF assms(1)])
  show "\<not> inr (data + of_nat i) (Suc (length xs)) data"
  proof
    assume "inr (data + of_nat i) (Suc (length xs)) data"
    then obtain j where j: "j < Suc (length xs)" "data = data + of_nat i + of_nat j" by (rule inrE)
    then have "of_nat (i + j) = (0 :: u32)" by (simp add: add.assoc)
    then have "unat (of_nat (i + j) :: u32) = 0" by simp
    then show False using unat_u32_of_nat [of "i + j"] assms(2,3) j(1) by simp
  qed
qed

text \<open>The terminator of the line that starts at \<open>i\<close> is stored.\<close>

lemma line_cut:
  assumes "grep_state n env data s pat fname fn st" "i \<le> k" "k \<le> 1024"
    and "rd (mem st) (data + of_nat i) (k - i) = xs" "0 \<notin> set xs"
  defines "line \<equiv> takeWhile (\<lambda>c. c \<noteq> 0x0A) xs"
  defines "st' \<equiv> poke (data + of_nat (i + length line)) 0 st"
  shows "i + length line \<le> k" "line_end (mem st) data (int k) (int i) = int (i + length line)"
    "since data 1025 [] st st'" "cur_pcb st' = cur_pcb st" "grep_state n env data s pat fname fn st'"
    "cstr (mem st') (data + of_nat i) line"
    "j < 1025 \<Longrightarrow> mem st' (data + of_nat j) = (if j = i + length line then 0 else mem st (data + of_nat j))"
proof -
  let ?e = "i + length line"
  have lx: "length xs = k - i" using assms(4) by auto
  have ll: "length line \<le> k - i" using length_takeWhile_le [of "\<lambda>c. c \<noteq> 0x0A" xs] by (simp add: line_def lx)
  then show e: "?e \<le> k" using assms(2) by simp
  then have e': "?e < 1025" using assms(3) by simp
  show "line_end (mem st) data (int k) (int i) = int ?e"
    using line_end_index [OF assms(2), of "mem st" data] assms(4) by (simp add: line_def)
  have co: "cursor_ok st" "apart data 1025 VIDEO 4000" using assms(1) by (auto simp: grep_state_def ready_def array_ok_def)
  show s1: "since data 1025 [] st st'" unfolding st'_def by (rule since_poke [OF co(1) e' _ co(2)]) simp
  show c1: "cur_pcb st' = cur_pcb st" by (simp add: st'_def cur_pcb_def poke_def get_pcb_address_def get_current_terminal_def Let_def)
  show "grep_state n env data s pat fname fn st'" by (rule grep_since_same [OF s1 assms(1) c1])
  show other: "mem st' (data + of_nat j) = (if j = ?e then 0 else mem st (data + of_nat j))" if "j < 1025" for j
    using that e' unat_u32_of_nat [of j] unat_u32_of_nat [of ?e] by (auto simp: st'_def poke_def)
  have "mem st' (data + of_nat i + of_nat j) = xs ! j" if "j < length line" for j
  proof -
    have "mem st' (data + of_nat (i + j)) = mem st (data + of_nat (i + j))" using that e' other [of "i + j"] by simp
    moreover have "mem st (data + of_nat i + of_nat j) = xs ! j" using that ll assms(4) nth_rd [of j "k - i" "mem st"] by auto
    ultimately show ?thesis by (simp add: add.assoc)
  qed
  then have "rd (mem st') (data + of_nat i) (length line) = take (length line) xs"
    using ll lx by (intro nth_equalityI) auto
  then have "rd (mem st') (data + of_nat i) (length line) = line" unfolding line_def using takeWhile_eq_take [of "\<lambda>c. c \<noteq> 0x0A" xs] by simp
  moreover have "mem st' (data + of_nat i + of_nat (length line)) = 0" using other [of ?e] e' by (simp add: add.assoc)
  moreover have "0 \<notin> set line" using assms(5) by (auto simp: line_def dest: set_takeWhileD)
  ultimately show "cstr (mem st') (data + of_nat i) line" using e' by (simp add: cstr_def)
qed

text \<open>The incomplete line is moved to the front.\<close>

lemma line_moved:
  assumes "grep_state n env data s pat fname fn st" "cstr (mem st) (data + of_nat i) xs" "0 < i" "i + length xs \<le> 1024"
    and "mem st (data + 1024) \<noteq> 0x0A"
  defines "t \<equiv> st\<lparr>mem := wr data (xs @ [0]) (mem st)\<rparr>"
  shows "since data 1025 [] st t" "cur_pcb t = cur_pcb st" "rd (mem t) data (length xs) = xs" "mem t (data + 1024) \<noteq> 0x0A"
proof -
  have l: "length (xs @ [0]) \<le> 1025" "length (xs @ [0]) \<le> 2 ^ 32" using assms(4) by simp_all
  have co: "cursor_ok st" "apart data 1025 VIDEO 4000" using assms(1) by (auto simp: grep_state_def ready_def array_ok_def)
  show "since data 1025 [] st t"
    by (rule since_wr [of st "xs @ [0]"]) (use l co(1) apart_mono [OF co(2) l(1)] in \<open>simp_all add: t_def\<close>)
  show "cur_pcb t = cur_pcb st" by (simp add: t_def cur_pcb_def get_pcb_address_def get_current_terminal_def Let_def)
  show "rd (mem t) data (length xs) = xs"
    using rd_wr_same [OF l(2), of data "mem st"] take_rd [of "length xs" "Suc (length xs)" "mem t" data] by (simp add: t_def)
  have "\<not> inr data (length (xs @ [0])) (data + of_nat 1024)" using assms(3,4) by (subst inr_offset) simp_all
  then show "mem t (data + 1024) \<noteq> 0x0A" using assms(5) wr_other [OF _ l(2), of data "data + of_nat 1024" "mem st"] by (simp add: t_def)
qed

lemma first_line:
  assumes "takeWhile (\<lambda>c. c \<noteq> 0x0A) xs \<noteq> xs"
  defines "line \<equiv> takeWhile (\<lambda>c. c \<noteq> (0x0A :: u8)) xs"
  shows "xs = line @ 0x0A # drop (Suc (length line)) xs" "length line < length xs"
proof -
  show lt: "length line < length xs" using assms(1) length_takeWhile_le [of "\<lambda>c. c \<noteq> 0x0A" xs] takeWhile_eq_take [of "\<lambda>c. c \<noteq> 0x0A" xs]
    by (metis le_neq_implies_less line_def take_all_iff order_refl)
  then have "xs ! length line = 0x0A" using nth_length_takeWhile [of "\<lambda>c. c \<noteq> 0x0A" xs] by (simp add: line_def)
  then show "xs = line @ 0x0A # drop (Suc (length line)) xs"
    using id_take_nth_drop [OF lt] takeWhile_eq_take [of "\<lambda>c. c \<noteq> 0x0A" xs] by (simp add: line_def)
qed

text \<open>One round of the inner loop.\<close>

lemma grep_lines_round:
  assumes "grep_state n env data s pat fname fn st" "i \<le> k" "k \<le> 1024"
    and "rd (mem st) (data + of_nat i) (k - i) = xs" "0 \<notin> set xs" "mem st (data + 1024) \<noteq> 0x0A"
  defines "line \<equiv> takeWhile (\<lambda>c. c \<noteq> 0x0A) xs"
  defines "e \<equiv> i + length line"
  shows "\<exists>u. grep_lines env s fname (int (length pat)) data cnt (int k) (int i) st =
      (if mem st (data + of_nat e) \<noteq> 0x0A \<and> cnt \<noteq> 0 \<and> i \<noteq> 0
       then case ece391_strcpy data (data + of_nat i) (mem (poke (data + of_nat e) 0 st)) of None \<Rightarrow> None
              | Some m \<Rightarrow> Some (Ret (int k - int i), (poke (data + of_nat e) 0 st)\<lparr>mem := m\<rparr>)
       else if k \<le> e + 1 then Some (Ret 0, u)
       else grep_lines env s fname (int (length pat)) data cnt (int k) (int (e + 1)) u)
    \<and> since data 1025 (hit fn pat line) st u \<and> cur_pcb u = cur_pcb st \<and> grep_state n env data s pat fname fn u
    \<and> mem u (data + 1024) \<noteq> 0x0A \<and> (\<forall>j. e < j \<and> j < 1025 \<longrightarrow> mem u (data + of_nat j) = mem st (data + of_nat j))"
proof -
  note cut = line_cut [OF assms(1-5), folded line_def, folded e_def]
  have e: "e < 1025" using cut(1) assms(3) by simp
  define st' where "st' = poke (data + of_nat e) 0 st"
  obtain r u where u: "grep_line env s fname (int (length pat)) data (int i) (int e) st' = Some (Ret r, u)"
      "since data 0 (hit fn pat line) st' u" "cur_pcb u = cur_pcb st'" "grep_state n env data s pat fname fn u"
    using grep_line_prints [OF cut(5,6) e [unfolded e_def], folded e_def] by (auto simp: st'_def)
  have co: "apart data 1025 VIDEO 4000" using assms(1) by (auto simp: grep_state_def array_ok_def)
  have mu: "mem u (data + of_nat j) = (if j = e then 0 else mem st (data + of_nat j))" if "j < 1025" for j
    using since_bytes [OF u(2) co _ that] cut(7) [OF that] by (simp add: apart_def st'_def)
  have "int e + 1 = int (e + 1)" by simp
  then have "grep_lines env s fname (int (length pat)) data cnt (int k) (int i) st =
      (if mem st (data + of_nat e) \<noteq> 0x0A \<and> cnt \<noteq> 0 \<and> i \<noteq> 0
       then case ece391_strcpy data (data + of_nat i) (mem st') of None \<Rightarrow> None
              | Some m \<Rightarrow> Some (Ret (int k - int i), st'\<lparr>mem := m\<rparr>)
       else if k \<le> e + 1 then Some (Ret 0, u)
       else grep_lines env s fname (int (length pat)) data cnt (int k) (int (e + 1)) u)"
    by (subst grep_lines.simps)
       (simp only: cut(2) Let_def of_int_of_nat_eq st'_def [symmetric] u(1) andthen_simps of_nat_eq_0_iff of_nat_le_iff)
  moreover have "since data 1025 (hit fn pat line) st u" using since_trans [OF cut(3)] since_none [OF u(2)] by (simp add: st'_def)
  moreover have "mem u (data + 1024) \<noteq> 0x0A" using mu [of 1024] assms(6) by (auto split: if_splits)
  ultimately show ?thesis using u(3,4) cut(4) mu unfolding st'_def by (intro exI [of _ u]) auto
qed

lemma grep_lines_prints:
  assumes "grep_state n env data s pat fname fn st" "i \<le> k" "k \<le> 1024" "i = 0 \<or> i < k"
    and "rd (mem st) (data + of_nat i) (k - i) = xs" "0 \<notin> set xs" "mem st (data + 1024) \<noteq> 0x0A" "short_lines (xs @ ys)"
    and "cnt = 0 \<or> k < 1024 \<Longrightarrow> ys = []"
  shows "\<exists>x rest t. grep_lines env s fname (int (length pat)) data cnt (int k) (int i) st = Some (Ret (int (length rest)), t)
    \<and> since data 1025 x st t \<and> cur_pcb t = cur_pcb st \<and> grep_state n env data s pat fname fn t \<and> mem t (data + 1024) \<noteq> 0x0A
    \<and> rd (mem t) data (length rest) = rest \<and> carries fn pat xs ys x rest \<and> (cnt = 0 \<longrightarrow> rest = [])"
  using assms
proof (induction "k - i" arbitrary: i st xs rule: less_induct)
  case less
  define line where "line = takeWhile (\<lambda>c. c \<noteq> 0x0A) xs"
  let ?e = "i + length line" and ?call = "grep_lines env s fname (int (length pat)) data cnt (int k) (int i) st"
  have lx: "length xs = k - i" using less.prems(5) by auto
  have nl: "0x0A \<notin> set line" by (auto simp: line_def dest: set_takeWhileD)
  note cut = line_cut [OF less.prems(1-3,5,6), folded line_def]
  let ?move = "mem st (data + of_nat ?e) \<noteq> 0x0A \<and> cnt \<noteq> 0 \<and> i \<noteq> 0" and ?st = "poke (data + of_nat ?e) 0 st"
  obtain u where call: "?call = (if ?move
      then case ece391_strcpy data (data + of_nat i) (mem ?st) of None \<Rightarrow> None
             | Some m \<Rightarrow> Some (Ret (int k - int i), ?st\<lparr>mem := m\<rparr>)
      else if k \<le> ?e + 1 then Some (Ret 0, u)
      else grep_lines env s fname (int (length pat)) data cnt (int k) (int (?e + 1)) u)" and
      u: "since data 1025 (hit fn pat line) st u" "cur_pcb u = cur_pcb st" "grep_state n env data s pat fname fn u"
        "mem u (data + 1024) \<noteq> 0x0A" "\<And>j. ?e < j \<Longrightarrow> j < 1025 \<Longrightarrow> mem u (data + of_nat j) = mem st (data + of_nat j)"
    using grep_lines_round [OF less.prems(1-3,5-7), folded line_def, of cnt] by blast
  have final: ?case if "?call = Some (Ret 0, u)" "carries fn pat xs ys (hit fn pat line) []"
    using that u by (intro exI [of _ "hit fn pat line"] exI [of _ "[]"] exI [of _ u]) simp
  show ?case
  proof (cases "line = xs")
    case True
    then have ek: "?e = k" and nx: "0x0A \<notin> set xs" using lx less.prems(2) nl by simp_all
    show ?thesis
    proof (cases ?move)
      case True
      have i: "0 < i" "i + length xs \<le> 1024" "length xs < 1024" using True lx less.prems(2,3) by auto
      have cx: "cstr (mem ?st) (data + of_nat i) xs" using cut(6) \<open>line = xs\<close> by simp
      have "mem ?st (data + 1024) \<noteq> 0x0A" using cut(7) [of 1024] less.prems(7) by (auto split: if_splits)
      note mv = line_moved [OF cut(5) cx i(1,2) this]
      have "?call = Some (Ret (int (length xs)), ?st\<lparr>mem := wr data (xs @ [0]) (mem ?st)\<rparr>)"
        using call True copy_front [OF cx i(1,2)] lx less.prems(2) by (simp add: of_nat_diff)
      moreover have "carries fn pat xs ys [] xs" using less.prems(6,8) i(3) by (simp add: carries_def)
      moreover have sm: "since data 1025 [] st (?st\<lparr>mem := wr data (xs @ [0]) (mem ?st)\<rparr>)" using since_trans [OF cut(3) mv(1)] by simp
      moreover note grep_since_same [OF sm less.prems(1)] mv(2-4) cut(4) True
      ultimately show ?thesis by (intro exI [of _ "[]"] exI [of _ xs] exI [of _ "?st\<lparr>mem := wr data (xs @ [0]) (mem ?st)\<rparr>"]) simp
    next
      case False
      have "ys = []"
      proof (rule ccontr)
        assume ne: "ys \<noteq> []"
        then have "\<not> (cnt = 0 \<or> k < 1024)" using less.prems(9) by blast
        then have k: "k = 1024" "cnt \<noteq> 0" using less.prems(3) by simp_all
        then have "i = 0" using False ek less.prems(7) by auto
        then have "length xs = 1024" using lx k by simp
        then show False using short_lines_first [OF nx less.prems(8)] by simp
      qed
      then show ?thesis
        using final nx True ek unfolding call if_not_P [OF False] by (simp add: carries_def grep_text_simps short_lines_nil)
    qed
  next
    case False
    define zs where "zs = drop (Suc (length line)) xs"
    have sp: "xs = line @ 0x0A # zs" "length line < length xs"
      using first_line [OF False [unfolded line_def]] by (simp_all add: zs_def line_def)
    have m: "mem st (data + of_nat ?e) = 0x0A"
      using nth_rd [of "length line" "k - i" "mem st" "data + of_nat i"] less.prems(5) sp lx by (simp add: add.assoc nth_append)
    have sl: "short_lines (zs @ ys)" using less.prems(8) short_lines_cut [OF nl] by (simp add: sp(1))
    have lz: "Suc (length line + length zs) = k - i" using lx sp(1) by simp
    show ?thesis
    proof (cases "zs = []")
      case True
      then have "k \<le> ?e + 1" using lz by simp
      then show ?thesis using True final m nl sl unfolding call by (simp add: carries_def sp(1) grep_text_simps)
    next
      case False
      let ?j = "Suc ?e"
      have "0 < length zs" using False by simp
      then have j: "length zs = k - ?j" "?j < k" "k - ?j < k - i" "?j \<le> k" "?j = 0 \<or> ?j < k" using lz by linarith+
      have rz: "rd (mem u) (data + of_nat ?j) (k - ?j) = zs"
      proof (rule nth_equalityI)
        fix q assume "q < length (rd (mem u) (data + of_nat ?j) (k - ?j))"
        then have q: "q < k - ?j" "?e < ?j + q" "?j + q < 1025" "Suc (length line) + q < k - i" using less.prems(3) by auto
        have "rd (mem u) (data + of_nat ?j) (k - ?j) ! q = mem st (data + of_nat (?j + q))" using q(1) u(5) [OF q(2,3)] by (simp add: ac_simps)
        also have "\<dots> = xs ! (Suc (length line) + q)" using nth_rd [OF q(4), of "mem st" "data + of_nat i"] less.prems(5) by (simp add: ac_simps)
        finally show "rd (mem u) (data + of_nat ?j) (k - ?j) ! q = zs ! q" using lx q(4) by (simp add: zs_def)
      qed (simp add: j)
      have z0: "0 \<notin> set zs" using less.prems(6) sp(1) by auto
      obtain x rest t where t: "grep_lines env s fname (int (length pat)) data cnt (int k) (int ?j) u = Some (Ret (int (length rest)), t)"
          "since data 1025 x u t" "cur_pcb t = cur_pcb u" "grep_state n env data s pat fname fn t" "mem t (data + 1024) \<noteq> 0x0A"
          "rd (mem t) data (length rest) = rest" "carries fn pat zs ys x rest" "cnt = 0 \<longrightarrow> rest = []"
        using less.hyps [OF j(3) u(3) j(4) less.prems(3) j(5) rz z0 u(4) sl less.prems(9)] by blast
      have "?call = Some (Ret (int (length rest)), t)" unfolding call using m j(2) t(1) by simp
      moreover have "carries fn pat xs ys (hit fn pat line @ x) rest" unfolding sp(1) by (rule carries_line [OF nl t(7)])
      ultimately show ?thesis
        using since_trans [OF u(1) t(2)] t(3-6,8) u(2) by (intro exI [of _ "hit fn pat line @ x"] exI [of _ rest] exI [of _ t]) simp
    qed
  qed
qed

section \<open>A file\<close>

definition closed_fd :: fd_t where
  "closed_fd = \<lparr>fd_op = Some File_op, fd_inode = 0, fd_pos = 0, fd_flags = 0\<rparr>"

lemma grep_fd:
  assumes "grep_state n env data s pat fname fn st" "2 \<le> fd" "fd < 8" "fd_ok f"
    and "since data 1025 x st t" "cur_pcb t = (cur_pcb st)\<lparr>pcb_file := (pcb_file (cur_pcb st))[fd := f]\<rparr>"
  shows "grep_state n env data s pat fname fn t" "pcb_file (cur_pcb t) ! fd = f"
proof -
  have wf: "fd_wf (cur_pcb st)" "length (pcb_file (cur_pcb st)) = 8" using assms(1) by (auto simp: grep_state_def ready_def fd_wf_def)
  show "grep_state n env data s pat fname fn t"
    by (rule grep_since [OF assms(5,1)]) (use fd_wf_update [OF wf(1) assms(4), of fd] assms(2,6) in simp_all)
  show "pcb_file (cur_pcb t) ! fd = f" using wf(2) assms(3,6) by simp
qed

lemma array_other:
  assumes "j < i \<or> i + k \<le> j" "i + k \<le> 1025" "j < 1025"
  shows "\<not> inr (data + of_nat i) k (data + of_nat j)"
proof
  assume "inr (data + of_nat i) k (data + of_nat j)"
  then obtain q where q: "q < k" "data + of_nat j = data + of_nat i + of_nat q" by (rule inrE)
  then have "of_nat j = (of_nat (i + q) :: u32)" by (simp add: add.assoc)
  then have "unat (of_nat j :: u32) = unat (of_nat (i + q) :: u32)" by simp
  then have "j = i + q" using unat_u32_of_nat [of j] unat_u32_of_nat [of "i + q"] assms(2,3) q(1) by simp
  then show False using q(1) assms by auto
qed

lemma grep_image:
  assumes "grep_state n env data s pat fname fn st" "since data 1025 x st t"
  shows "inode_count t = inode_count st" "ino < inode_count st \<Longrightarrow> contents t ino = contents st ino"
  using since_image [OF assms(2), of n] assms(1) by (auto simp: grep_state_def)

abbreviation file_fd :: "u32 \<Rightarrow> u32 \<Rightarrow> fd_t" where
  "file_fd ino p \<equiv> \<lparr>fd_op = Some File_op, fd_inode = ino, fd_pos = p, fd_flags = 1\<rparr>"

text \<open>The next piece is read behind what is left of the last.\<close>

lemma piece_read:
  assumes "grep_state n env data s pat fname fn st" "2 \<le> fd" "fd < 8" "ino < inode_count st"
    and "pcb_file (cur_pcb st) ! fd = file_fd ino p" "rd (mem st) data (length rest) = rest" "length rest < 1024"
  defines "bytes \<equiv> slice (unat p) (1024 - length rest) (contents st ino)"
  shows "\<exists>t. ece391_read env (int fd) (data + of_nat (length rest)) (int (1024 - length rest)) st = Some (Ret (int (length bytes)), t)
    \<and> since data 1025 [] st t \<and> grep_state n env data s pat fname fn t \<and> mem t (data + 1024) = mem st (data + 1024)
    \<and> rd (mem t) data (length rest + length bytes) = rest @ bytes
    \<and> cur_pcb t = (cur_pcb st)\<lparr>pcb_file := (pcb_file (cur_pcb st))[fd := file_fd ino (p + of_nat (length bytes))]\<rparr>"
proof -
  let ?l = "length rest"
  note g = assms(1)
  have pl: "?l + (1024 - ?l) \<le> 1025" "?l < 1025" using assms(7) by simp_all
  note ap = array_place [OF g pl]
  have r: "ready n st" using g by (simp add: grep_state_def)
  have ba: "buffer_apart (data + of_nat ?l) (nat (int (1024 - ?l))) ino st"
    using array_file [OF r ap(3) assms(4)] by simp
  have lk: "0 \<le> int (1024 - ?l)" "int (1024 - ?l) < 2 ^ 31" "nat (int (1024 - ?l)) \<le> 1024 - ?l" by simp_all
  have av: "apart (data + of_nat ?l) (nat (int (1024 - ?l))) VIDEO 4000" using ap(2) by simp
  obtain t where t: "ece391_read env (int fd) (data + of_nat ?l) (int (1024 - ?l)) st = Some (Ret (int (length bytes)), t)"
      "since (data + of_nat ?l) (1024 - ?l) [] st t" "rd (mem t) (data + of_nat ?l) (length bytes) = bytes"
      "cur_pcb t = (cur_pcb st)\<lparr>pcb_file := (pcb_file (cur_pcb st))[fd := file_fd ino (p + of_nat (length bytes))]\<rparr>"
    using user_read_file [OF r assms(3,5,4) ba ap(1) lk(1,2) av lk(3), of env] by (auto simp: bytes_def)
  have st1: "since data 1025 [] st t" by (rule ap(4) [OF t(2)])
  have "fd_ok (file_fd ino (p + of_nat (length bytes)))" by (simp add: fd_ok_def)
  note gt = grep_fd [OF g assms(2,3) this st1 t(4)]
  have same: "mem t (data + of_nat j) = mem st (data + of_nat j)" if "j < ?l \<or> j = 1024" for j
  proof -
    have "\<not> inr (data + of_nat ?l) (1024 - ?l) (data + of_nat j)" using array_other [of j ?l "1024 - ?l"] that assms(7) by auto
    moreover have "inr data 1025 (data + of_nat j)" using that assms(7) by (subst inr_offset) auto
    then have "\<not> inr VIDEO 4000 (data + of_nat j)" using g apartD by (auto simp: grep_state_def array_ok_def)
    ultimately show ?thesis using t(2) by (auto simp: since_def)
  qed
  have "rd (mem t) data ?l = rest" using assms(6) same by (intro nth_equalityI) (auto, metis nth_rd)
  then show ?thesis using t(1,3,4) st1 gt(1) same [of 1024] by (simp add: rd_add)
qed

text \<open>The rest of the file behind position \<open>p\<close>, with what the array holds.\<close>

lemma grep_chunks_prints:
  assumes "grep_state n env data s pat fname fn st" "2 \<le> fd" "fd < 8" "ino < inode_count st"
    and "pcb_file (cur_pcb st) ! fd = file_fd ino p"
    and "unat p \<le> length (contents st ino)" "rd (mem st) data (length rest) = rest" "length rest < 1024"
    and "0 \<notin> set rest" "0 \<notin> set (contents st ino)" "short_lines (rest @ drop (unat p) (contents st ino))"
    and "mem st (data + 1024) \<noteq> 0x0A"
  shows "\<exists>t. grep_chunks env (int fd) s fname (int (length pat)) data (int (length rest)) st = Some (Ret 0, t)
    \<and> since data 1025 (grep_text fn pat (rest @ drop (unat p) (contents st ino))) st t
    \<and> cur_pcb t = (cur_pcb st)\<lparr>pcb_file := (pcb_file (cur_pcb st))[fd := closed_fd]\<rparr> \<and> grep_state n env data s pat fname fn t
    \<and> mem t (data + 1024) \<noteq> 0x0A"
  using assms
proof (induction "length (contents st ino) - unat p" arbitrary: st p rest rule: less_induct)
  case less
  let ?c = "contents st ino" and ?l = "length rest"
  define bytes where "bytes = slice (unat p) (1024 - ?l) ?c"
  let ?q = "p + of_nat (length bytes)" and ?k = "?l + length bytes"
  note g = less.prems(1)
  obtain t where t: "ece391_read env (int fd) (data + of_nat ?l) (int (1024 - ?l)) st = Some (Ret (int (length bytes)), t)"
      "since data 1025 [] st t" "grep_state n env data s pat fname fn t" "mem t (data + 1024) \<noteq> 0x0A"
      "rd (mem t) (data + of_nat 0) (?k - 0) = rest @ bytes"
      "cur_pcb t = (cur_pcb st)\<lparr>pcb_file := (pcb_file (cur_pcb st))[fd := file_fd ino ?q]\<rparr>"
    using piece_read [OF less.prems(1-5,7,8), folded bytes_def] less.prems(12) by auto
  have ft: "pcb_file (cur_pcb t) ! fd = file_fd ino ?q" using t(3,6) less.prems(3) by (simp add: grep_state_def ready_def fd_wf_def)
  have lb: "length bytes \<le> 1024 - ?l" "unat p + length bytes \<le> length ?c" using slice_bound less.prems(6) by (auto simp: bytes_def)
  have k: "?k \<le> 1024" "0 = (0 :: nat) \<or> (0 :: nat) < ?k" using lb(1) less.prems(8) by simp_all
  define ys where "ys = drop (unat p + length bytes) ?c"
  have split: "drop (unat p) ?c = bytes @ ys" unfolding bytes_def ys_def by (rule slice_drop [OF less.prems(6)])
  have zx: "0 \<notin> set (rest @ bytes)"
    using less.prems(9,10) split set_drop_subset [of "unat p" ?c] by (auto simp del: set_drop_subset)
  have sx: "short_lines ((rest @ bytes) @ ys)" using less.prems(11) split by simp
  have yn: "ys = []" if "int (length bytes) = 0 \<or> ?k < 1024"
    using that less.prems(6,8) by (auto simp: ys_def bytes_def slice_def split: if_splits)
  obtain x rest' u where u: "grep_lines env s fname (int (length pat)) data (int (length bytes)) (int ?k) (int 0) t = Some (Ret (int (length rest')), u)"
      "since data 1025 x t u" "cur_pcb u = cur_pcb t" "grep_state n env data s pat fname fn u" "mem u (data + 1024) \<noteq> 0x0A"
      "rd (mem u) data (length rest') = rest'" "carries fn pat (rest @ bytes) ys x rest'" "int (length bytes) = 0 \<longrightarrow> rest' = []"
    using grep_lines_prints [OF t(3) _ k t(5) zx t(4) sx yn] by blast
  note su = since_trans [OF t(2) u(2), simplified]
  have fu: "pcb_file (cur_pcb u) ! fd = file_fd ino ?q" using ft u(3) by simp
  have x: "x @ grep_text fn pat (rest' @ ys) = grep_text fn pat (rest @ drop (unat p) ?c)" using u(7) split by (simp add: carries_def)
  have call: "grep_chunks env (int fd) s fname (int (length pat)) data (int ?l) st =
      (if length bytes = 0
       then andthen (ece391_close env (int fd) u) (\<lambda>r st.
              if r = - 1
              then andthen (ece391_fdputs env 1 (lit env (''file close failed'' @ NL)) st) (\<lambda>_ st. Some (Ret (- 1), st))
              else Some (Ret 0, st))
       else grep_chunks env (int fd) s fname (int (length pat)) data (int (length rest')) u)"
  proof -
    have a: "1024 - int ?l = int (1024 - ?l)" "int ?l + int (length bytes) = int ?k" "(0 :: int) = int 0"
        "(int (length bytes) = - 1) = False" "(int (length bytes) = int 0) = (length bytes = 0)"
      using less.prems(8) by simp_all
    show ?thesis
      by (subst grep_chunks.simps) (simp only: a(1) of_int_of_nat_eq t(1) andthen_simps a(2) a(4) if_False, simp only: a(3) u(1) andthen_simps a(5))
  qed
  show ?case
  proof (cases "length bytes = 0")
    case True
    have ru: "ready n u" using u(4) by (simp add: grep_state_def)
    obtain v where v: "ece391_close env (int fd) u = Some (Ret 0, v)" "since data 0 [] u v"
        "cur_pcb v = (cur_pcb u)\<lparr>pcb_file := (pcb_file (cur_pcb u))[fd := closed_fd]\<rparr>"
      using user_close_open [OF _ less.prems(2,3), of u File_op env data 0] ru fu by (auto simp: ready_def closed_fd_def)
    note sv = since_none [OF v(2)]
    note gv = grep_fd(1) [OF u(4) less.prems(2,3) _ sv v(3)]
    have co: "apart data 1025 VIDEO 4000" using g by (simp add: grep_state_def array_ok_def)
    have "since data 1025 (grep_text fn pat (rest @ drop (unat p) ?c)) st v"
      using since_trans [OF su sv] x u(8) True yn by (simp add: grep_text_simps)
    moreover have "cur_pcb v = (cur_pcb st)\<lparr>pcb_file := (pcb_file (cur_pcb st))[fd := closed_fd]\<rparr>" using v(3) u(3) t(6) by simp
    moreover have "mem v (data + 1024) \<noteq> 0x0A" using since_bytes [OF v(2) co, of 1024] u(5) by (simp add: apart_def)
    ultimately show ?thesis using call True v(1) gv by (simp add: fd_ok_def closed_fd_def)
  next
    case False
    have q: "unat ?q = unat p + length bytes"
      using lb(2) length_contents [of st ino] by (simp add: unat_u32_plus unat_u32_of_nat)
    note im = grep_image [OF g su]
    have cu: "contents u ino = ?c" by (rule im(2) [OF less.prems(4)])
    have d: "length (contents u ino) - unat ?q < length ?c - unat p" unfolding cu q using False lb(2) by linarith
    have i: "ino < inode_count u" "unat ?q \<le> length (contents u ino)" using less.prems(4) im(1) lb(2) by (simp_all add: cu q)
    have c: "length rest' < 1024" "0 \<notin> set rest'" "0 \<notin> set (contents u ino)" "short_lines (rest' @ drop (unat ?q) (contents u ino))"
      using u(7) less.prems(10) by (simp_all add: carries_def cu q ys_def)
    obtain v where v: "grep_chunks env (int fd) s fname (int (length pat)) data (int (length rest')) u = Some (Ret 0, v)"
        "since data 1025 (grep_text fn pat (rest' @ drop (unat ?q) (contents u ino))) u v"
        "cur_pcb v = (cur_pcb u)\<lparr>pcb_file := (pcb_file (cur_pcb u))[fd := closed_fd]\<rparr>" "grep_state n env data s pat fname fn v"
        "mem v (data + 1024) \<noteq> 0x0A"
      using less.hyps [OF d u(4) less.prems(2,3) i(1) fu i(2) u(6) c u(5)] by blast
    have "since data 1025 (grep_text fn pat (rest @ drop (unat p) ?c)) st v"
      using since_trans [OF su v(2)] x by (simp add: cu q ys_def)
    moreover have "cur_pcb v = (cur_pcb st)\<lparr>pcb_file := (pcb_file (cur_pcb st))[fd := closed_fd]\<rparr>" using v(3) u(3) t(6) by simp
    ultimately show ?thesis using call False v(1,4,5) by simp
  qed
qed

lemma do_one_file_prints:
  assumes "grep_state n env data s pat fname fn st" "lowest_free (cur_pcb st) fd" "length fn \<le> 32"
    and "read_dentry_by_name (arr fn) st = Some d" "opened_as fn d = Some File_op" "of_int (inode_num d) < inode_count st"
    and "0 \<notin> set (contents st (of_int (inode_num d)))" "short_lines (contents st (of_int (inode_num d)))"
    and "mem st (data + 1024) \<noteq> 0x0A"
  shows "\<exists>t. do_one_file env data s fname st = Some (Ret 0, t)
    \<and> since data 1025 (grep_text fn pat (contents st (of_int (inode_num d)))) st t
    \<and> cur_pcb t = (cur_pcb st)\<lparr>pcb_file := (pcb_file (cur_pcb st))[fd := closed_fd]\<rparr> \<and> grep_state n env data s pat fname fn t
    \<and> mem t (data + 1024) \<noteq> 0x0A"
proof -
  let ?ino = "of_int (inode_num d) :: u32"
  have g: "ready n st" "cstr (mem st) s pat" "length pat < 2 ^ 31" "cstr (mem st) fname fn" "fname \<noteq> 0" "fn \<noteq> []" "0 \<notin> set fn"
      "apart data 1025 VIDEO 4000"
    using assms(1) by (auto simp: grep_state_def held_def cstr_def array_ok_def)
  have fd: "2 \<le> fd" "fd < 8" using assms(2) by (auto simp: lowest_free_def)
  have "read_dentry_by_name (at (mem st) fname) st = Some d" using lookup_arr [OF g(4,7)] assms(4) by simp
  from user_open [OF g(1,4,5,6) assms(3) this assms(5,2), of env data 0] obtain u where
      u: "ece391_open env fname st = Some (Ret (int fd), u)" "since data 0 [] st u"
        "cur_pcb u = (cur_pcb st)\<lparr>pcb_file := (pcb_file (cur_pcb st))[fd := fresh_fd File_op ?ino]\<rparr>" by auto
  note su = since_none [OF u(2), of data 1025]
  have ok: "fd_ok (fresh_fd File_op ?ino)" by (simp add: fresh_fd_def fd_ok_def)
  note gu = grep_fd [OF assms(1) fd ok su u(3)]
  note im = grep_image [OF assms(1) su]
  have m: "mem u (data + 1024) \<noteq> 0x0A" using since_bytes [OF u(2) g(8), of 1024] assms(9) by (simp add: apart_def)
  have sl: "ece391_strlen (mem st) s = Some (of_nat (length pat))" using strlen_cstr [OF g(2)] by (simp add: user_strlen)
  have si: "sint (of_nat (length pat) :: u32) = int (length pat)" using sint_u32_of_int [of "int (length pat)"] g(3) by simp
  obtain t where t: "grep_chunks env (int fd) s fname (int (length pat)) data 0 u = Some (Ret 0, t)"
      "since data 1025 (grep_text fn pat (contents u ?ino)) u t"
      "cur_pcb t = (cur_pcb u)\<lparr>pcb_file := (pcb_file (cur_pcb u))[fd := closed_fd]\<rparr>" "grep_state n env data s pat fname fn t"
      "mem t (data + 1024) \<noteq> 0x0A"
    using grep_chunks_prints [OF gu(1) fd, of ?ino 0 "[]"] gu(2) im assms(6-8) m by (auto simp: fresh_fd_def)
  have "do_one_file env data s fname st = Some (Ret 0, t)" using u(1) t(1) by (simp add: do_one_file_def sl si)
  then show ?thesis using since_trans [OF su t(2)] t(3-5) u(3) im(2) [OF assms(6)] by simp
qed

section \<open>The directory\<close>

definition file_text :: "'a kernel_scheme \<Rightarrow> u8 list \<Rightarrow> u8 list" where
  "file_text s fn = (case read_dentry_by_name (arr fn) s of None \<Rightarrow> [] | Some d \<Rightarrow> contents s (of_int (inode_num d)))"

text \<open>A file the program can search: a regular one, without NUL bytes.\<close>

definition searchable :: "'a kernel_scheme \<Rightarrow> u8 list \<Rightarrow> bool" where
  "searchable s fn \<longleftrightarrow> (\<exists>d. read_dentry_by_name (arr fn) s = Some d \<and> opened_as fn d = Some File_op
     \<and> of_int (inode_num d) < inode_count s) \<and> 0 \<notin> set (file_text s fn) \<and> short_lines (file_text s fn)"

definition grep_output :: "u8 list \<Rightarrow> 'a kernel_scheme \<Rightarrow> u8 list list \<Rightarrow> u8 list" where
  "grep_output pat s names =
     concat (map (\<lambda>fn. if hd fn = 0x2E then [] else grep_text fn pat (file_text s fn)) (takeWhile (\<lambda>fn. fn \<noteq> []) names))"

text \<open>The state between two files: the arrays \<open>data\<close>, \<open>buf\<close> and \<open>search\<close> do not overlap.\<close>

definition grep_texts :: "string list" where
  "grep_texts = ['':'', NL]"

definition main_state :: "nat \<Rightarrow> 'a kernel_scheme user_env \<Rightarrow> u32 \<Rightarrow> u32 \<Rightarrow> u32 \<Rightarrow> u8 list \<Rightarrow> 'a kernel_scheme \<Rightarrow> 'a kernel_scheme \<Rightarrow> bool" where
  "main_state n env data buf search pat s st \<longleftrightarrow> ready n st \<and> array_ok data 1025 n st \<and> unat data + 1025 \<le> 2 ^ 32
     \<and> array_ok buf 33 n st \<and> apart data 1025 buf 33 \<and> held data pat search st \<and> apart search (Suc (length pat)) buf 33
     \<and> (\<forall>w \<in> set grep_texts. lit_ok env data 1025 st w \<and> lit_ok env buf 33 st w)
     \<and> disk n s \<and> same_disk n s st \<and> mem st (data + 1024) \<noteq> 0x0A"

lemma same_disk_since:
  assumes "same_disk n s st" "since buf k x st t" "ready n st" "array_ok buf k n st"
  shows "same_disk n s t"
proof -
  have "same_disk n st t" using since_disk(1) [OF assms(2)] assms(3,4) by (auto simp: ready_def array_ok_def)
  then show ?thesis using assms(1) by (simp add: same_disk_def keeps_def)
qed

lemma main_since_name:
  assumes "main_state n env data buf search pat s st" "since buf 33 x st t" "fd_wf (cur_pcb t)"
    and "pcb_file (cur_pcb t) ! 1 = pcb_file (cur_pcb st) ! 1"
  shows "main_state n env data buf search pat s t"
proof -
  have r: "ready n st" "array_ok buf 33 n st" using assms(1) by (auto simp: main_state_def)
  have b: "boot_block t = boot_block st" using assms(2) by (simp add: since_def)
  have l: "lit_ok env data 1025 t w \<and> lit_ok env buf 33 t w" if "w \<in> set grep_texts" for w
  proof -
    have w: "lit_ok env data 1025 st w" "lit_ok env buf 33 st w" using assms(1) that by (auto simp: main_state_def)
    have "cstr (mem t) (lit env w) (str w)" using since_cstr [OF assms(2)] w by (simp add: lit_ok_def)
    then show ?thesis using w by (simp add: lit_ok_def)
  qed
  have "held data pat search t"
    using since_cstr [OF assms(2), of search pat] assms(1) by (simp add: main_state_def held_def)
  moreover have "mem t (data + of_nat 1024) = mem st (data + of_nat 1024)"
    using since_bytes [OF assms(2), of data 1025 1024] assms(1) by (simp add: main_state_def array_ok_def)
  ultimately show ?thesis
    using assms(1) l array_ready [OF assms(2) r assms(3,4)] same_disk_since [OF _ assms(2) r] array_cong [OF b]
    by (simp add: main_state_def)
qed

lemma main_grep_state:
  assumes "main_state n env data buf search pat s st" "cstr (mem st) buf fn" "fn \<noteq> []" "length fn \<le> 32"
  shows "grep_state n env data search pat buf fn st"
proof -
  have "array_ok buf 33 n st" "apart data 1025 buf 33" using assms(1) by (auto simp: main_state_def)
  then have "held data fn buf st"
    using assms(2,4) apart_mono [of buf 33 VIDEO 4000 "Suc (length fn)"] apart_mono [of buf 33 data 1025 "Suc (length fn)"]
    by (simp add: held_def array_ok_def apart_sym)
  then show ?thesis using assms(1,3) by (simp add: main_state_def grep_state_def grep_texts_def)
qed

lemma main_since_data:
  assumes "main_state n env data buf search pat s st" "since data 1025 x st t" "grep_state n env data search pat buf fn t"
    and "mem t (data + 1024) \<noteq> 0x0A"
  shows "main_state n env data buf search pat s t"
proof -
  have r: "ready n st" "array_ok data 1025 n st" using assms(1) by (auto simp: main_state_def)
  have b: "boot_block t = boot_block st" using assms(2) by (simp add: since_def)
  have l: "lit_ok env data 1025 t w \<and> lit_ok env buf 33 t w" if "w \<in> set grep_texts" for w
  proof -
    have w: "lit_ok env data 1025 st w" "lit_ok env buf 33 st w" using assms(1) that by (auto simp: main_state_def)
    have "lit_ok env data 1025 t w" by (rule since_lit [OF assms(2) w(1)])
    then show ?thesis using w by (simp add: lit_ok_def)
  qed
  show ?thesis
    using assms(1,3,4) l same_disk_since [OF _ assms(2) r] array_cong [OF b] by (simp add: main_state_def grep_state_def)
qed

lemma lowest_free_update:
  assumes "lowest_free p fd" "k < length (pcb_file p)" "fd_flags f = 1 \<longleftrightarrow> fd_flags (pcb_file p ! k) = 1"
  shows "lowest_free (p\<lparr>pcb_file := (pcb_file p)[k := f]\<rparr>) fd"
proof -
  have "fd_flags ((pcb_file p)[k := f] ! i) = 1 \<longleftrightarrow> fd_flags (pcb_file p ! i) = 1" for i
    using assms(2,3) by (cases "i = k") simp_all
  then show ?thesis using assms(1) by (simp add: lowest_free_def)
qed

lemma main_image:
  assumes "main_state n env data buf search pat s st"
  shows "read_dentry_by_name f st = read_dentry_by_name f s" "inode_count st = inode_count s" "dir_size st = dir_size s"
    "i < dir_size s \<Longrightarrow> entry_name st i = entry_name s i" "ino < inode_count s \<Longrightarrow> contents st ino = contents s ino"
proof -
  have d: "disk n s" "same_disk n s st" using assms by (auto simp: main_state_def)
  show "read_dentry_by_name f st = read_dentry_by_name f s" "inode_count st = inode_count s" "dir_size st = dir_size s"
    "i < dir_size s \<Longrightarrow> entry_name st i = entry_name s i" "ino < inode_count s \<Longrightarrow> contents st ino = contents s ino"
    using disk_lookup [OF d] disk_count [OF d] disk_entry [OF d] disk_contents [OF d] by auto
qed

text \<open>One file of the directory, with its name in \<open>buf\<close>.\<close>

lemma main_file:
  assumes "main_state n env data buf search pat s st" "cstr (mem st) buf fn" "fn \<noteq> []" "length fn \<le> 32" "searchable s fn"
    and "lowest_free (cur_pcb st) fd"
  shows "\<exists>t. do_one_file env data search buf st = Some (Ret 0, t) \<and> main_state n env data buf search pat s t
    \<and> screen_view t = fold put_char (grep_text fn pat (file_text s fn)) (screen_view st)
    \<and> cur_pcb t = (cur_pcb st)\<lparr>pcb_file := (pcb_file (cur_pcb st))[fd := closed_fd]\<rparr>"
proof -
  obtain d where d: "read_dentry_by_name (arr fn) s = Some d" "opened_as fn d = Some File_op" "of_int (inode_num d) < inode_count s"
      "0 \<notin> set (contents s (of_int (inode_num d)))" "short_lines (contents s (of_int (inode_num d)))"
    using assms(5) by (auto simp: searchable_def file_text_def)
  note im = main_image [OF assms(1)]
  have m: "mem st (data + 1024) \<noteq> 0x0A" using assms(1) by (simp add: main_state_def)
  note g = main_grep_state [OF assms(1-4)]
  obtain t where t: "do_one_file env data search buf st = Some (Ret 0, t)"
      "since data 1025 (grep_text fn pat (contents st (of_int (inode_num d)))) st t"
      "cur_pcb t = (cur_pcb st)\<lparr>pcb_file := (pcb_file (cur_pcb st))[fd := closed_fd]\<rparr>" "grep_state n env data search pat buf fn t"
      "mem t (data + 1024) \<noteq> 0x0A"
    using do_one_file_prints [OF g assms(6,4), of d] d im m by auto
  have "main_state n env data buf search pat s t" by (rule main_since_data [OF assms(1) t(2,4,5)])
  then show ?thesis using t(1,2,3) d(1,3) im(5) by (simp add: since_def file_text_def)
qed

text \<open>Reading the name of the next file.\<close>

lemma main_name:
  assumes "main_state n env data buf search pat s st" "2 \<le> fd" "fd < 8" "i < dir_size s"
    and "pcb_file (cur_pcb st) ! fd = \<lparr>fd_op = Some Dir_op, fd_inode = ino, fd_pos = of_nat i, fd_flags = 1\<rparr>"
    and "lowest_free (cur_pcb st) k"
  defines "fn \<equiv> entry_name s i"
  shows "\<exists>t. ece391_read env (int fd) buf 32 st = Some (Ret (int (length fn)), t) \<and> main_state n env data buf search pat s t
    \<and> screen_view t = screen_view st \<and> cstr (mem t) buf fn \<and> poke (buf + of_nat (length fn)) 0 t = t
    \<and> pcb_file (cur_pcb t) ! fd = \<lparr>fd_op = Some Dir_op, fd_inode = ino, fd_pos = of_nat (Suc i), fd_flags = 1\<rparr>
    \<and> lowest_free (cur_pcb t) k"
proof -
  let ?f = "\<lparr>fd_op = Some Dir_op, fd_inode = ino, fd_pos = of_nat (Suc i), fd_flags = 1\<rparr>"
  have r: "ready n st" "buf \<noteq> 0" "apart buf 33 VIDEO 4000" using assms(1) by (auto simp: main_state_def array_ok_def)
  have e: "entry_name st i = fn" "i < dir_size st" using main_image(3,4) [OF assms(1)] assms(4) by (simp_all add: fn_def)
  from user_read_dir [OF r(1) assms(3,5) e(2) r(2,3), of 33 env] obtain t where
      t: "ece391_read env (int fd) buf 32 st = Some (Ret (int (length fn)), t)" "since buf 33 [] st t"
        "rd (mem t) buf 33 = padded 33 fn" "cur_pcb t = (cur_pcb st)\<lparr>pcb_file := (pcb_file (cur_pcb st))[fd := ?f]\<rparr>"
    by (auto simp: e(1))
  have l: "length fn \<le> 32" "0 \<notin> set fn" by (simp_all add: fn_def entry_name_def length_cstrn cstrn_nonzero)
  have c: "cstr (mem t) buf fn" by (rule cstr_padded [OF t(3)]) (use l in simp_all)
  have wf: "fd_wf (cur_pcb st)" "length (pcb_file (cur_pcb st)) = 8" using r(1) by (auto simp: ready_def fd_wf_def)
  have pt: "fd_wf (cur_pcb t)" "pcb_file (cur_pcb t) ! 1 = pcb_file (cur_pcb st) ! 1" "pcb_file (cur_pcb t) ! fd = ?f"
    using fd_wf_update [OF wf(1), of ?f fd] wf(2) assms(2,3) by (simp_all add: t(4) fd_ok_def)
  have "lowest_free (cur_pcb t) k" unfolding t(4) by (rule lowest_free_update [OF assms(6)]) (use wf(2) assms(3,5) in simp_all)
  moreover have "poke (buf + of_nat (length fn)) 0 t = t" using c by (simp add: poke_def cstr_def fun_upd_idem)
  ultimately show ?thesis using t(1,2) main_since_name [OF assms(1) t(2) pt(1,2)] c pt(3) by (simp add: since_def)
qed

lemma grep_loop_prints:
  assumes "main_state n env data buf search pat s st" "2 \<le> fd" "fd < 8" "i \<le> dir_size s"
    and "pcb_file (cur_pcb st) ! fd = \<lparr>fd_op = Some Dir_op, fd_inode = ino, fd_pos = of_nat i, fd_flags = 1\<rparr>"
    and "lowest_free (cur_pcb st) k"
    and "\<forall>fn \<in> set (takeWhile (\<lambda>fn. fn \<noteq> []) (map (entry_name s) [i..<dir_size s])). hd fn \<noteq> 0x2E \<longrightarrow> searchable s fn"
  shows "\<exists>t. grep_loop env (int fd) data buf search st = Some (Ret 0, t)
    \<and> screen_view t = fold put_char (grep_output pat s (map (entry_name s) [i..<dir_size s])) (screen_view st)"
  using assms
proof (induction "dir_size s - i" arbitrary: st i)
  case 0
  then have i: "i = dir_size st" "i < 2 ^ 32" "buf \<noteq> 0" using main_image(3) [OF "0.prems"(1)]
    by (auto simp: main_state_def array_ok_def dir_size_def unat_u32_bound)
  then have "ece391_read env (int fd) buf 32 st = Some (Ret 0, st)"
    using user_read_dir_end [OF "0.prems"(3,5)] by simp
  then show ?case using "0.hyps" "0.prems"(4) by (subst grep_loop.simps) (simp add: grep_output_def)
next
  case (Suc m)
  let ?fn = "entry_name s i" and ?out = "\<lambda>i. grep_output pat s (map (entry_name s) [i..<dir_size s])"
  have i: "i < dir_size s" "m = dir_size s - Suc i" "Suc i \<le> dir_size s" using Suc.hyps(2) by auto
  have up: "[i..<dir_size s] = i # [Suc i..<dir_size s]" using i(1) by (rule upt_conv_Cons)
  obtain t where t: "ece391_read env (int fd) buf 32 st = Some (Ret (int (length ?fn)), t)" "main_state n env data buf search pat s t"
      "screen_view t = screen_view st" "cstr (mem t) buf ?fn" "poke (buf + of_nat (length ?fn)) 0 t = t"
      "pcb_file (cur_pcb t) ! fd = \<lparr>fd_op = Some Dir_op, fd_inode = ino, fd_pos = of_nat (Suc i), fd_flags = 1\<rparr>"
      "lowest_free (cur_pcb t) k"
    using main_name [OF Suc.prems(1-3) i(1) Suc.prems(5,6)] by blast
  show ?case
  proof (cases "?fn = []")
    case True
    then show ?thesis using t(1,3) by (subst grep_loop.simps) (simp add: up grep_output_def)
  next
    case False
    have h: "mem t buf = hd ?fn" using cstr_nth(1) [OF t(4), of 0] False by (simp add: hd_conv_nth)
    have sr: "\<forall>fn \<in> set (takeWhile (\<lambda>fn. fn \<noteq> []) (map (entry_name s) [Suc i..<dir_size s])). hd fn \<noteq> 0x2E \<longrightarrow> searchable s fn"
      using Suc.prems(7) False by (auto simp: up)
    note IH = Suc.hyps(1) [OF i(2) _ Suc.prems(2,3) i(3) _ _ sr]
    have ne: "int (length ?fn) \<noteq> 0" "int (length ?fn) \<noteq> - 1" using False by auto
    show ?thesis
    proof (cases "hd ?fn = 0x2E")
      case True
      then have "?out i = ?out (Suc i)" using False by (simp add: up grep_output_def)
      then show ?thesis using IH [OF t(2,6,7)] t(1,3) ne h True by (subst grep_loop.simps) simp
    next
      case hd: False
      have l: "length ?fn \<le> 32" by (simp add: entry_name_def length_cstrn)
      have "searchable s ?fn" using Suc.prems(7) False hd by (auto simp: up)
      then obtain u where u: "do_one_file env data search buf t = Some (Ret 0, u)" "main_state n env data buf search pat s u"
          "screen_view u = fold put_char (grep_text ?fn pat (file_text s ?fn)) (screen_view t)"
          "cur_pcb u = (cur_pcb t)\<lparr>pcb_file := (pcb_file (cur_pcb t))[k := closed_fd]\<rparr>"
        using main_file [OF t(2,4) False l _ t(7)] by blast
      have k: "k < length (pcb_file (cur_pcb t))" "fd_flags (pcb_file (cur_pcb t) ! k) \<noteq> 1"
        using t(2,7) by (auto simp: main_state_def ready_def fd_wf_def lowest_free_def)
      have fk: "k \<noteq> fd" using k(2) t(6) by auto
      have lu: "lowest_free (cur_pcb u) k" unfolding u(4) by (rule lowest_free_update [OF t(7) k(1)]) (use k(2) in \<open>simp add: closed_fd_def\<close>)
      have "pcb_file (cur_pcb u) ! fd = \<lparr>fd_op = Some Dir_op, fd_inode = ino, fd_pos = of_nat (Suc i), fd_flags = 1\<rparr>"
        using t(6) fk by (simp add: u(4))
      then obtain v where v: "grep_loop env (int fd) data buf search u = Some (Ret 0, v)"
          "screen_view v = fold put_char (?out (Suc i)) (screen_view u)" using IH [OF u(2) _ lu] by blast
      have "?out i = grep_text ?fn pat (file_text s ?fn) @ ?out (Suc i)" using False hd by (simp add: up grep_output_def)
      then show ?thesis using t(1,3,5) ne h hd u(1,3) v by (subst grep_loop.simps) simp
    qed
  qed
qed

text \<open>The arrays and constants of \<open>main\<close> at its start.\<close>

definition grep_start :: "nat \<Rightarrow> 'a kernel_scheme user_env \<Rightarrow> u32 \<Rightarrow> u32 \<Rightarrow> u32 \<Rightarrow> 'a kernel_scheme \<Rightarrow> bool" where
  "grep_start n env data buf search s \<longleftrightarrow> ready n s
     \<and> array_ok data 1025 n s \<and> array_ok buf 33 n s \<and> array_ok search 1024 n s \<and> unat data + 1025 \<le> 2 ^ 32
     \<and> apart data 1025 buf 33 \<and> apart search 1024 data 1025 \<and> apart search 1024 buf 33
     \<and> (\<forall>w \<in> set (''.'' # grep_texts). lit_ok env data 1025 s w \<and> lit_ok env buf 33 s w \<and> lit_ok env search 1024 s w)
     \<and> mem s (data + 1024) \<noteq> 0x0A \<and> fd_flags (pcb_file (cur_pcb s) ! 2) \<noteq> 1 \<and> fd_flags (pcb_file (cur_pcb s) ! 3) \<noteq> 1"

lemma grep_opens:
  assumes "grep_start n env data buf search s" "pcb_arg (cur_pcb s) = pat @ [0] @ rest" "0 \<notin> set pat" "pat \<noteq> []" "length pat < 1024"
    and "read_dentry_by_name (arr (str ''.'')) s = Some d" "file_type d \<noteq> 0"
  shows "\<exists>t u. ece391_getargs env search 1024 s = Some (Ret 0, t) \<and> ece391_open env (lit env ''.'') t = Some (Ret 2, u)
    \<and> main_state n env data buf search pat s u \<and> screen_view u = screen_view s
    \<and> pcb_file (cur_pcb u) ! 2 = fresh_fd Dir_op 0 \<and> lowest_free (cur_pcb u) 3"
proof -
  have r: "ready n s" "array_ok search 1024 n s" "search \<noteq> 0" "apart search (nat 1024) VIDEO 4000" and dd: "disk n s"
    using assms(1) by (auto simp: grep_start_def array_ok_def ready_def)
  from user_getargs [OF r(1) assms(2,3,4) r(3) _ _ r(4), of env] obtain t where
      t: "ece391_getargs env search 1024 s = Some (Ret 0, t)" "since search 1024 [] s t" "cur_pcb t = cur_pcb s"
        "rd (mem t) search 1024 = padded 1024 pat" using assms(5) by auto
  have rt: "ready n t" by (rule array_ready [OF t(2) r(1,2)]) (use t(3) r(1) in \<open>simp_all add: ready_def\<close>)
  have c: "cstr (mem t) search pat" by (rule cstr_padded [OF t(4)]) (use assms(3,5) in simp_all)
  have lt: "lit_ok env search 1024 t w" if "w \<in> set (''.'' # grep_texts)" for w
    by (rule since_lit [OF t(2)]) (use assms(1) that in \<open>unfold grep_start_def, blast\<close>)
  have a: "cstr (mem t) (lit env ''.'') (str ''.'')" "lit env ''.'' \<noteq> 0" using lt [of "''.''"] by (auto simp: lit_ok_def)
  have n: "str ''.'' \<noteq> []" "length (str ''.'') \<le> 32" "0 \<notin> set (str ''.'')" by (simp_all add: str_def)
  have "opened_as (str ''.'') d = Some Dir_op" using assms(7) by (simp add: opened_as_def str_def)
  moreover have "read_dentry_by_name (at (mem t) (lit env ''.'')) t = Some d"
    using lookup_arr [OF a(1) n(3)] since_image(6) [OF t(2) r(1,2)] assms(6) by simp
  moreover have l2: "lowest_free (cur_pcb t) 2" using assms(1) t(3) by (auto simp: lowest_free_def grep_start_def)
  ultimately obtain u where u: "ece391_open env (lit env ''.'') t = Some (Ret (int 2), u)" "since data 0 [] t u"
      "cur_pcb u = (cur_pcb t)\<lparr>pcb_file := (pcb_file (cur_pcb t))[2 := fresh_fd Dir_op 0]\<rparr>"
    using user_open [OF rt a n(1,2), of d Dir_op 2 env data 0] by auto
  have wf: "fd_wf (cur_pcb t)" "length (pcb_file (cur_pcb t)) = 8" using rt by (auto simp: ready_def fd_wf_def)
  note od = open_ready [OF wf(1) l2 u(3)]
  note su = since_none [OF u(2), of search 1024]
  have ru: "ready n u" by (rule array_ready [OF su rt since_image(5) [OF t(2) r(1,2)] od(1,2)])
  have s: "since search 1024 [] s u" using since_trans [OF t(2) su] by simp
  have "fd_flags (pcb_file (cur_pcb u) ! 3) \<noteq> 1" using assms(1) t(3) by (simp add: u(3) grep_start_def)
  moreover have "fd_flags (pcb_file (cur_pcb u) ! i) = 1" if "2 \<le> i" "i < 3" for i
  proof -
    have "i = 2" using that by simp
    then show ?thesis using od(3) by (simp add: fresh_fd_def)
  qed
  ultimately have l3: "lowest_free (cur_pcb u) 3" by (simp add: lowest_free_def)
  have b: "boot_block u = boot_block s" using s by (simp add: since_def)
  have lits: "lit_ok env data 1025 u w \<and> lit_ok env buf 33 u w" if w: "w \<in> set grep_texts" for w
  proof -
    have "lit_ok env search 1024 u w" by (rule since_lit [OF su]) (use lt w in simp)
    then show ?thesis using assms(1) w by (simp add: lit_ok_def grep_start_def)
  qed
  have "cstr (mem u) search pat" by (rule since_cstr [OF u(2) c]) (use r(4) assms(5) apart_mono [OF r(4)] in \<open>simp_all add: apart_def [of _ _ data 0]\<close>)
  then have "held data pat search u" "apart search (Suc (length pat)) buf 33"
    using assms(1,5) r apart_mono [of search 1024 _ _ "Suc (length pat)"] by (simp_all add: held_def grep_start_def)
  moreover have "mem u (data + of_nat 1024) = mem s (data + of_nat 1024)"
    by (rule since_bytes [OF s, of _ 1025]) (use assms(1) in \<open>simp_all add: grep_start_def array_ok_def apart_sym\<close>)
  moreover have "same_disk n s u" by (rule same_disk_since [OF same_disk_refl s r(1,2)])
  ultimately have "main_state n env data buf search pat s u"
    using assms(1) ru lits dd array_cong [OF b] by (simp add: main_state_def grep_start_def)
  then show ?thesis using t(1) u(1) s od(3) l3 by (simp add: since_def)
qed

lemma grep_prints:
  assumes "grep_start n env data buf search s" "pcb_arg (cur_pcb s) = pat @ [0] @ rest" "0 \<notin> set pat" "pat \<noteq> []" "length pat < 1024"
    and "read_dentry_by_name (arr (str ''.'')) s = Some d" "file_type d \<noteq> 0"
    and "\<forall>fn \<in> set (takeWhile (\<lambda>fn. fn \<noteq> []) (map (entry_name s) [0..<dir_size s])). hd fn \<noteq> 0x2E \<longrightarrow> searchable s fn"
  shows "\<exists>t. grep_main env data buf search s = Some (Ret 0, t)
    \<and> screen_view t = fold put_char (grep_output pat s (map (entry_name s) [0..<dir_size s])) (screen_view s)"
proof -
  obtain t u where u: "ece391_getargs env search 1024 s = Some (Ret 0, t)" "ece391_open env (lit env ''.'') t = Some (Ret 2, u)"
      "main_state n env data buf search pat s u" "screen_view u = screen_view s"
      "pcb_file (cur_pcb u) ! 2 = \<lparr>fd_op = Some Dir_op, fd_inode = 0, fd_pos = of_nat 0, fd_flags = 1\<rparr>" "lowest_free (cur_pcb u) 3"
    using grep_opens [OF assms(1-7)] by (auto simp: fresh_fd_def)
  have "\<exists>v. grep_loop env (int 2) data buf search u = Some (Ret 0, v)
      \<and> screen_view v = fold put_char (grep_output pat s (map (entry_name s) [0..<dir_size s])) (screen_view u)"
    by (rule grep_loop_prints [OF u(3) _ _ _ u(5,6) assms(8)]) simp_all
  then show ?thesis using u(1,2,4) by (auto simp: grep_main_def)
qed

section \<open>A search on the sample machine\<close>

definition grep_kernel :: kernel where
  "grep_kernel = (user_kernel (''.'' # grep_texts))\<lparr>pcbs := \<lambda>_. user_pcb\<lparr>pcb_arg := str ''i'' @ [0] @ replicate 127 0\<rparr>\<rparr>"

lemma grep_texts_small: "length (lit_bytes (''.'' # grep_texts)) \<le> 0x10000"
  by (simp add: grep_texts_def)

lemma grep_kernel_start: "grep_start 0x3000 (sample_env (''.'' # grep_texts)) 0x08049000 0x0804A000 0x0804B000 grep_kernel"
proof -
  let ?ws = "''.'' # grep_texts"
  let ?s = "user_kernel ?ws" and ?e = "sample_env ?ws"
  note l = grep_texts_small
  have lits: "lit_ok ?e 0x08049000 1025 grep_kernel w \<and> lit_ok ?e 0x0804A000 33 grep_kernel w \<and> lit_ok ?e 0x0804B000 1024 grep_kernel w"
    if "w \<in> set ?ws" for w
  proof -
    have z: "0 \<notin> set (str w)" using that by (auto simp: grep_texts_def str_def)
    show ?thesis
      using sample_lit [OF that z l, of "0x08049000" 1025] sample_lit [OF that z l, of "0x0804A000" 33]
        sample_lit [OF that z l, of "0x0804B000" 1024] by (simp add: lit_ok_def grep_kernel_def)
  qed
  have w: "within 0x08049000 0 ?s grep_kernel"
    using user_kernel_ready(1) [OF l]
    by (simp add: within_def ready_def grep_kernel_def cursor_ok_def get_pcb_address_def get_current_terminal_def Let_def)
  have cp: "cur_pcb grep_kernel = user_pcb\<lparr>pcb_arg := str ''i'' @ [0] @ replicate 127 0\<rparr>" by (simp add: grep_kernel_def cur_pcb_def)
  have b: "boot_block grep_kernel = 0x400000" by (simp add: grep_kernel_def)
  have "array_ok 0x08049000 0 0x3000 ?s" by (simp add: array_ok_def apart_def)
  then have "ready 0x3000 grep_kernel"
    by (rule array_within [OF w user_kernel_ready(1) [OF l]]) (simp_all add: cp fd_wf_def user_pcb_def sample_fd_def fd_ok_def)
  moreover have "mem grep_kernel 0x08049400 = 0" using user_kernel_low [OF l, of "0x08049400"] by (simp add: grep_kernel_def user_image_def)
  ultimately show ?thesis
    using lits unfolding grep_start_def by (simp add: array_ok_def b cp apart_def unat_u32_minus user_pcb_def sample_fd_def)
qed

lemma grep_kernel_image:
  "dir_size grep_kernel = 2" "entry_name grep_kernel 0 = str ''.''" "entry_name grep_kernel 1 = str ''run''"
  "read_dentry_by_name (arr (str ''.'')) grep_kernel = Some (dentry_at user_image 0x400040)"
  "read_dentry_by_name (arr (str ''run'')) grep_kernel = Some (dentry_at user_image 0x400080)"
  "contents grep_kernel 0 = str (''hi'' @ NL)" "inode_count grep_kernel = 1"
proof -
  let ?s = "user_kernel (''.'' # grep_texts)"
  note im = user_kernel_image [OF grep_texts_small] and lu = user_kernel_lookup [OF grep_texts_small]
  have "ready 0x3000 ?s" by (rule user_kernel_ready(1) [OF grep_texts_small])
  then have d: "disk 0x3000 ?s" by (simp add: ready_def)
  have s: "same_disk 0x3000 ?s grep_kernel" by (simp add: same_disk_def keeps_def grep_kernel_def)
  show "dir_size grep_kernel = 2" "entry_name grep_kernel 0 = str ''.''" "entry_name grep_kernel 1 = str ''run''"
    "read_dentry_by_name (arr (str ''.'')) grep_kernel = Some (dentry_at user_image 0x400040)"
    "read_dentry_by_name (arr (str ''run'')) grep_kernel = Some (dentry_at user_image 0x400080)"
    "contents grep_kernel 0 = str (''hi'' @ NL)" "inode_count grep_kernel = 1"
    using disk_count [OF d s] disk_entry(1) [OF d s, of 0] disk_entry(1) [OF d s, of 1] disk_lookup [OF d s] disk_contents [OF d s, of 0] im lu
    by simp_all
qed

lemma grep_kernel_run:
  "file_text grep_kernel (str ''run'') = str (''hi'' @ NL)" "searchable grep_kernel (str ''run'')"
  "map (entry_name grep_kernel) [0..<dir_size grep_kernel] = [str ''.'', str ''run'']"
  "grep_output (str ''i'') grep_kernel [str ''.'', str ''run''] = str (''run:hi'' @ NL)"
proof -
  note im = grep_kernel_image
  let ?d = "dentry_at user_image 0x400080"
  have i: "of_int (inode_num ?d) = (0 :: u32)" by (simp add: dentry_at_def user_words)
  show f: "file_text grep_kernel (str ''run'') = str (''hi'' @ NL)" by (simp add: file_text_def im i)
  have o: "opened_as (str ''run'') ?d = Some File_op" by (simp add: opened_as_def dentry_at_def user_words) (simp add: str_def)
  have t: "text_lines (str (''hi'' @ NL)) = [str ''hi'', []]" by (simp add: str_def)
  show "searchable grep_kernel (str ''run'')"
    unfolding searchable_def f short_lines_def t using im(5,7) o i by (simp add: str_def)
  have "[0..<2] = [0, 1 :: nat]" by (simp add: upt_rec)
  then show "map (entry_name grep_kernel) [0..<dir_size grep_kernel] = [str ''.'', str ''run'']" using im(1-3) by simp
  have "sublist (str ''i'') (str ''hi'')" by (simp add: str_def sublist_Cons_right)
  then have "grep_text (str ''run'') (str ''i'') (str (''hi'' @ NL)) = str (''run:hi'' @ NL)"
    unfolding grep_text_def t by (simp add: hit_def) (simp add: str_def)
  then show "grep_output (str ''i'') grep_kernel [str ''.'', str ''run''] = str (''run:hi'' @ NL)"
    by (simp add: grep_output_def f) (simp add: str_def)
qed

section \<open>Properties\<close>



end
