(* ===== verification/Dialogs.thy ===== *)
theory Dialogs
  imports Line_Input
begin

text \<open>
  Programs that ask the user for a line: \<^verbatim>\<open>syscalls/ece391counter.c\<close>, which prints the numbers up to the
  bound chosen, and \<^verbatim>\<open>ece391hello.c\<close>.  The kernel delivers the line as a C string without the newline
  (which stands at the end of the 128 bytes of the line buffer), and the programs take what is in front
  of the first NUL.
\<close>

section \<open>counter\<close>

partial_function (option) counter_loop :: "'a kernel_scheme user_env \<Rightarrow> u32 \<Rightarrow> u32 \<Rightarrow> u32 \<Rightarrow> 'a kernel_scheme
    \<Rightarrow> (outcome \<times> 'a kernel_scheme) option" where
  "counter_loop env buf i bound s =
     (if i < bound
      then case ece391_itoa (i + 1) buf 10 (mem s) of
             None \<Rightarrow> None
           | Some m \<Rightarrow>
               andthen (ece391_fdputs env 1 buf (s\<lparr>mem := m\<rparr>)) (\<lambda>_ s.
               andthen (ece391_fdputs env 1 (lit env NL) s) (\<lambda>_ s. counter_loop env buf (i + 1) bound s))
      else Some (Ret 0, s))"

definition counter_bound :: "u8 \<Rightarrow> u32" where
  "counter_bound c = (if c = 0x30 then 100 else if c = 0x31 then 10000 else if c = 0x32 then 100000 else 0)"

definition counter_prompt :: string where
  "counter_prompt = ''Enter the Test Number: (0): 100, (1): 10000, (2): 100000'' @ NL"

definition counter_main :: "'a kernel_scheme user_env \<Rightarrow> u32 \<Rightarrow> 'a kernel_scheme \<Rightarrow> (outcome \<times> 'a kernel_scheme) option" where
  "counter_main env buf s =
     andthen (ece391_fdputs env 1 (lit env counter_prompt) s) (\<lambda>_ s.
     andthen (ece391_read env 0 buf 1023 s) (\<lambda>cnt s.
       if cnt = - 1
       then andthen (ece391_fdputs env 1 (lit env (''Can't read the number from keyboard.'' @ NL)) s)
              (\<lambda>_ s. Some (Ret 3, s))
       else let s = poke (buf + of_int cnt) 0 s
            in case ece391_strlen (mem s) buf of
                 None \<Rightarrow> None
               | Some len \<Rightarrow>
                   if 2 < len \<or> len = 2 \<and> (mem s buf < 0x30 \<or> 0x32 < mem s buf)
                   then andthen (ece391_fdputs env 1 (lit env (''Wrong Choice!'' @ NL)) s) (\<lambda>_ s. Some (Ret 0, s))
                   else counter_loop env buf 0 (counter_bound (mem s buf)) s))"

section \<open>What they print\<close>

definition numbers :: "nat \<Rightarrow> nat \<Rightarrow> u8 list" where
  "numbers i k = concat (map (\<lambda>j. itoa_str (Suc j) 10 @ [0x0A]) [i..<k])"

definition counter_answer :: "u8 list \<Rightarrow> u8 list" where
  "counter_answer cmd =
     (if 2 < length cmd \<or> length cmd = 2 \<and> \<not> (0x30 \<le> hd cmd \<and> hd cmd \<le> 0x32) then str (''Wrong Choice!'' @ NL)
      else numbers 0 (if cmd = [] then 0 else unat (counter_bound (hd cmd))))"

definition counter_texts :: "string list" where
  "counter_texts = [counter_prompt, ''Wrong Choice!'' @ NL, NL]"

lemma dialog_store:
  assumes "dialog_state ws n env buf s" "length xs \<le> 1024"
  shows "since buf 1024 [] s (s\<lparr>mem := wr buf xs (mem s)\<rparr>)" "dialog_state ws n env buf (s\<lparr>mem := wr buf xs (mem s)\<rparr>)"
    "cur_pcb (s\<lparr>mem := m\<rparr>) = cur_pcb s"
proof -
  have b: "cursor_ok s" "array_ok buf 1024 n s" using assms(1) by (auto simp: dialog_state_def ready_def)
  show "since buf 1024 [] s (s\<lparr>mem := wr buf xs (mem s)\<rparr>)"
    by (rule since_wr [of s xs]) (use b(1) assms(2) array_apart [OF b(2) assms(2)] in simp_all)
  then show "dialog_state ws n env buf (s\<lparr>mem := wr buf xs (mem s)\<rparr>)"
    by (rule dialog_since [OF _ assms(1)]) (simp add: cur_pcb_def get_pcb_address_def get_current_terminal_def Let_def)
  show "cur_pcb (s\<lparr>mem := m\<rparr>) = cur_pcb s"
    by (simp add: cur_pcb_def get_pcb_address_def get_current_terminal_def Let_def)
qed

lemma counter_loop_prints:
  assumes "dialog_state ws n env buf s" "NL \<in> set ws" "i \<le> unat bound"
  shows "\<exists>t. counter_loop env buf (of_nat i) bound s = Some (Ret 0, t) \<and> since buf 1024 (numbers i (unat bound)) s t
    \<and> dialog_state ws n env buf t"
  using assms
proof (induction "unat bound - i" arbitrary: i s)
  case 0
  then have i: "i = unat bound" by simp
  have "cursor_ok s" using "0.prems"(1) by (simp add: dialog_state_def ready_def)
  then show ?case using "0.prems"(1) since_refl [of s buf 1024] i by (simp add: counter_loop.simps numbers_def)
next
  case (Suc d)
  have i: "i < unat bound" "Suc i < 2 ^ 32" using Suc.hyps(2) unat_u32_less [of bound] by auto
  let ?x = "itoa_str (Suc i) 10" and ?v = "of_nat i + 1 :: u32"
  have v: "unat ?v = Suc i" using i(2) unat_u32_of_nat [of "Suc i"] by (simp add: add.commute)
  have lx: "length ?x \<le> 10" by (rule itoa_str_length) (use i(2) in simp_all)
  have x: "?x \<noteq> []" "0 \<notin> set ?x" using itoa_str_nonzero [of 10 "Suc i"] by (auto simp: itoa_str_def to_digits.simps [of 10 "Suc i"])
  have it: "ece391_itoa ?v buf 10 (mem s) = Some (wr buf (?x @ [0]) (mem s))"
    using itoa_wr [of 10 ?v buf "mem s"] v by (simp add: user_itoa)
  let ?s = "s\<lparr>mem := wr buf (?x @ [0]) (mem s)\<rparr>"
  have "length (?x @ [0]) \<le> 1024" using lx by simp
  note st = dialog_store [OF Suc.prems(1) this]
  have c: "cstr (mem ?s) buf ?x" using cstr_wr [of ?x buf "mem s"] x lx by simp
  obtain t where t: "ece391_fdputs env 1 buf ?s = Some (Ret (int (length ?x)), t)" "since buf 1024 ?x ?s t" "dialog_state ws n env buf t"
    using dialog_shows [OF st(2) c x(1)] lx by auto
  have nl: "NL \<noteq> []" "length NL < 2 ^ 31" "str NL = [0x0A]" by (simp_all add: str_def)
  obtain u where u: "ece391_fdputs env 1 (lit env NL) t = Some (Ret (int (length NL)), u)" "since buf 1024 [0x0A] t u"
      "dialog_state ws n env buf u"
    using dialog_puts [OF t(3) Suc.prems(2) nl(1,2)] nl(3) by auto
  have d: "d = unat bound - Suc i" "Suc i \<le> unat bound" using Suc.hyps(2) by auto
  obtain w where w: "counter_loop env buf (of_nat (Suc i)) bound u = Some (Ret 0, w)" "since buf 1024 (numbers (Suc i) (unat bound)) u w"
      "dialog_state ws n env buf w"
    using Suc.hyps(1) [OF d(1) u(3) Suc.prems(2) d(2)] by blast
  have "of_nat i < bound" using i unat_u32_of_nat [of i] by (simp add: word_less_nat_alt)
  then have r: "counter_loop env buf (of_nat i) bound s = Some (Ret 0, w)"
    using w(1) it t(1) u(1) by (subst counter_loop.simps) (simp add: add.commute)
  have n: "numbers i (unat bound) = [] @ ?x @ [0x0A] @ numbers (Suc i) (unat bound)" using i(1) by (simp add: numbers_def upt_rec)
  have "since buf 1024 (numbers i (unat bound)) s w"
    unfolding n by (rule since_trans [OF st(1) since_trans [OF t(2) since_trans [OF u(2) w(2)]]])
  then show ?case using r w(3) by blast
qed

text \<open>The line in the array, with the byte the program puts behind it.\<close>

lemma dialog_line:
  assumes "dialog_state ws n env buf u" "rd (mem u) buf 129 = read_result (padded 128 xs) 128" "length xs < 80"
  defines "v \<equiv> poke (buf + 128) 0 u"
  shows "since buf 1024 [] u v" "dialog_state ws n env buf v" "cstr (mem v) buf (takeWhile (\<lambda>c. c \<noteq> 0) xs)" "cur_pcb v = cur_pcb u"
proof -
  have i: "(128 :: nat) < 1024" by simp
  note pk = dialog_poke [OF assms(1) i, of 0, simplified, folded v_def]
  show "since buf 1024 [] u v" "dialog_state ws n env buf v" "cur_pcb v = cur_pcb u" by (rule pk)+
  have "mem v (buf + of_nat i) = mem u (buf + of_nat i)" if "i \<le> length (takeWhile (\<lambda>c. c \<noteq> 0) xs)" for i
  proof -
    have "i < 80" using that length_takeWhile_le [of "\<lambda>c. c \<noteq> 0" xs] assms(3) by linarith
    then have "(of_nat i :: u32) \<noteq> 128" using unat_u32_of_nat [of i] by auto
    then show ?thesis by (simp add: v_def poke_def)
  qed
  then show "cstr (mem v) buf (takeWhile (\<lambda>c. c \<noteq> 0) xs)"
    by (rule cstr_update [OF line_string [OF assms(2,3)]])
qed

lemma counter_prints:
  assumes "dialog_state counter_texts n env buf s" "types_after counter_prompt ks env buf s"
  shows "\<exists>u t. prompted_by counter_prompt (typed ks s) s u \<and> counter_main env buf s = Some (Ret 0, t)
    \<and> since buf 1024 (counter_answer (command_typed ks s)) u t"
proof -
  let ?cmd = "command_typed ks s"
  have w: "counter_prompt \<in> set counter_texts" "counter_prompt \<noteq> []" "length counter_prompt < 2 ^ 31"
    by (simp_all add: counter_texts_def counter_prompt_def)
  from dialog_reads [OF assms(1) w assms(2)] obtain r t u where
      t: "ece391_fdputs env 1 (lit env counter_prompt) s = Some (Ret r, t)" and
      u: "ece391_read env 0 buf 1023 t = Some (Ret 128, u)" "dialog_state counter_texts n env buf u"
        "rd (mem u) buf 129 = read_result (padded 128 (typed ks s)) 128"
        "length (typed ks s) < 80" "prompted_by counter_prompt (typed ks s) s u"
    by blast
  define v where "v = poke (buf + 128) 0 u"
  note dl = dialog_line [OF u(2-4), folded v_def, folded command_typed_def]
  have pv: "prompted_by counter_prompt (typed ks s) s v" using u(5) dl(1) by (simp add: prompted_by_def since_def)
  have l: "length ?cmd < 80" using u(4) length_takeWhile_le [of "\<lambda>c. c \<noteq> 0" "typed ks s"] by (simp add: command_typed_def)
  have sl: "ece391_strlen (mem v) buf = Some (of_nat (length ?cmd))" using dl(3) by (simp add: user_strlen strlen_cstr)
  have ul: "unat (of_nat (length ?cmd) :: u32) = length ?cmd" using l by (simp add: unat_u32_of_nat)
  have len: "(2 < (of_nat (length ?cmd) :: u32)) = (2 < length ?cmd)" "((of_nat (length ?cmd) :: u32) = 2) = (length ?cmd = 2)"
    by (simp_all add: word_less_nat_alt word_unat_eq_iff ul)
  have h: "mem v buf = (if ?cmd = [] then 0 else hd ?cmd)"
    using dl(3) cstr_nth [OF dl(3), of 0] by (auto simp: cstr_def hd_conv_nth)
  let ?wrong = "2 < length ?cmd \<or> length ?cmd = 2 \<and> \<not> (0x30 \<le> hd ?cmd \<and> hd ?cmd \<le> 0x32)"
  have m: "counter_main env buf s =
      (if ?wrong then andthen (ece391_fdputs env 1 (lit env (''Wrong Choice!'' @ NL)) v) (\<lambda>_ s. Some (Ret 0, s))
       else counter_loop env buf 0 (counter_bound (mem v buf)) v)"
  proof -
    have "2 < length ?cmd \<or> length ?cmd = 2 \<and> (mem v buf < 0x30 \<or> 0x32 < mem v buf) \<longleftrightarrow> ?wrong" using h by (auto simp: not_le)
    moreover have "poke (buf + of_int 128) 0 u = v" by (simp add: v_def)
    moreover have "((128 :: int) = - 1) = False" by simp
    ultimately show ?thesis
      unfolding counter_main_def t andthen_simps u(1) Let_def by (simp only: if_False sl option.case len)
  qed
  show ?thesis
  proof (cases ?wrong)
    case True
    have "''Wrong Choice!'' @ NL \<in> set counter_texts" by (simp add: counter_texts_def)
    from dialog_puts [OF dl(2) this] obtain q w where
        "ece391_fdputs env 1 (lit env (''Wrong Choice!'' @ NL)) v = Some (Ret q, w)" "since buf 1024 (str (''Wrong Choice!'' @ NL)) v w"
      by auto
    moreover have "counter_answer ?cmd = str (''Wrong Choice!'' @ NL)" using True by (simp add: counter_answer_def)
    ultimately show ?thesis using pv m True by auto
  next
    case False
    have "NL \<in> set counter_texts" by (simp add: counter_texts_def)
    from counter_loop_prints [OF dl(2) this, of 0 "counter_bound (mem v buf)"] obtain w where
        w: "counter_loop env buf 0 (counter_bound (mem v buf)) v = Some (Ret 0, w)"
          "since buf 1024 (numbers 0 (unat (counter_bound (mem v buf)))) v w" by auto
    have "counter_bound 0 = 0" by (simp add: counter_bound_def)
    then have "numbers 0 (unat (counter_bound (mem v buf))) = counter_answer ?cmd" using False h by (auto simp: counter_answer_def)
    then show ?thesis using pv m False w by auto
  qed
qed

section \<open>hello\<close>

definition hello_texts :: "string list" where
  "hello_texts = [''Hi, what's your name? '', ''Hello, '']"

lemma hello_prints:
  assumes "dialog_state hello_texts n env buf s" "types_after ''Hi, what's your name? '' ks env buf s" "command_typed ks s \<noteq> []"
  shows "\<exists>u t. prompted_by ''Hi, what's your name? '' (typed ks s) s u \<and> hello_main env buf s = Some (Ret 0, t)
    \<and> since buf 1024 (str ''Hello, '' @ command_typed ks s) u t"
proof -
  let ?cmd = "command_typed ks s" and ?hi = "''Hi, what's your name? ''" and ?ho = "''Hello, ''"
  have w: "?hi \<in> set hello_texts" "?hi \<noteq> []" "length ?hi < 2 ^ 31" and w': "?ho \<in> set hello_texts" "?ho \<noteq> []" "length ?ho < 2 ^ 31"
    by (simp_all add: hello_texts_def)
  from dialog_reads [OF assms(1) w assms(2)] obtain r t u where
      t: "ece391_fdputs env 1 (lit env ?hi) s = Some (Ret r, t)" and
      u: "ece391_read env 0 buf 1023 t = Some (Ret 128, u)" "dialog_state hello_texts n env buf u"
        "rd (mem u) buf 129 = read_result (padded 128 (typed ks s)) 128"
        "length (typed ks s) < 80" "prompted_by ?hi (typed ks s) s u"
    by blast
  define v where "v = poke (buf + 128) 0 u"
  note dl = dialog_line [OF u(2-4), folded v_def, folded command_typed_def]
  have pv: "prompted_by ?hi (typed ks s) s v" using u(5) dl(1) by (simp add: prompted_by_def since_def)
  obtain q x where x: "ece391_fdputs env 1 (lit env ?ho) v = Some (Ret q, x)" "since buf 1024 (str ?ho) v x"
      "dialog_state hello_texts n env buf x" "since buf 0 (str ?ho) v x"
    using dialog_puts [OF dl(2) w'] by blast
  have l: "length ?cmd < 80" using u(4) length_takeWhile_le [of "\<lambda>c. c \<noteq> 0" "typed ks s"] by (simp add: command_typed_def)
  have "array_ok buf 1024 n v" using dl(2) by (simp add: dialog_state_def)
  then have "apart buf (Suc (length ?cmd)) VIDEO 4000" by (rule array_apart) (use l in simp)
  then have c: "cstr (mem x) buf ?cmd" by (rule since_cstr [OF x(4) dl(3)]) (simp add: apart_def)
  obtain y where y: "ece391_fdputs env 1 buf x = Some (Ret (int (length ?cmd)), y)" "since buf 1024 ?cmd x y"
    using dialog_shows [OF x(3) c assms(3)] l by auto
  have "poke (buf + of_int 128) 0 u = v" by (simp add: v_def)
  then have "hello_main env buf s = Some (Ret 0, y)"
    unfolding hello_main_def t andthen_simps u(1) Let_def by (simp only: x(1) y(1) andthen_simps) simp
  then show ?thesis using pv since_trans [OF x(2) y(2)] by blast
qed

section \<open>Properties\<close>

text \<open>\<open>counter\<close> asks for a number and prints, each on its own line and in decimal, the numbers from 1 to
  100, 10000 or 100000 for a line that starts with 0, 1 or 2 (and has at most two characters); it answers
  a longer line, or one of two characters that starts with something else, with its message; for any other
  line it prints nothing, and it returns 0.\<close>
theorem counter_correct:
  assumes "dialog_state counter_texts n env buf s" "types_after counter_prompt ks env buf s"
  shows "\<exists>u t. prompted_by counter_prompt (typed ks s) s u \<and> counter_main env buf s = Some (Ret 0, t)
    \<and> screen_view t = fold put_char (counter_answer (command_typed ks s)) (screen_view u)"
  using counter_prints [OF assms] by (auto simp: since_def)

theorem counter_correct_witness:
  "\<exists>u t. prompted_by counter_prompt (str ''0'') (typing_kernel counter_texts [0x0B]) u
     \<and> counter_main (typing_env counter_texts [True, True]) 0x08049000 (typing_kernel counter_texts [0x0B]) = Some (Ret 0, t)
     \<and> screen_view t = fold put_char (numbers 0 100) (screen_view u)"
proof -
  let ?s = "typing_kernel counter_texts [0x0B]"
  have ws: "length (lit_bytes counter_texts) \<le> 0x10000" "\<forall>w \<in> set counter_texts. 0 \<notin> set (str w)"
    by (simp_all add: counter_texts_def counter_prompt_def str_def)
  have w: "counter_prompt \<in> set counter_texts" "counter_prompt \<noteq> []" "length counter_prompt < 2 ^ 31"
    by (simp_all add: counter_texts_def counter_prompt_def)
  have "cx (fold put_char (str counter_prompt) v) = 0" for v unfolding counter_prompt_def by (rule cx_line)
  then have ty: "types_after counter_prompt [0x0B] (typing_env counter_texts [True, True]) 0x08049000 ?s"
    using typing_kernel_types [OF ws, of "[0x0B]" "[True]" counter_prompt] w by (simp add: plain_key_def)
  have t: "typed [0x0B] ?s = str ''0''"
    by (simp add: typed_def typing_kernel_def user_kernel_def sample_kernel_def key_table_def arr_def
        scancode_normal_def keypad_def str_def)
  then have "counter_answer (command_typed [0x0B] ?s) = numbers 0 100"
    by (simp add: command_typed_def counter_answer_def counter_bound_def str_def)
  then show ?thesis
    using counter_correct [OF typing_kernel_state(1) [OF ws, of "[True, True]" "[0x0B]"] ty] by (simp only: t)
qed

end
