(* ===== verification/Blink.thy ===== *)
theory Blink
  imports Prelude
begin

text \<open>
  The blinking characters of the \<open>fish\<close> program: \<^verbatim>\<open>fish/blink.S\<close> keeps a linked list of 16-byte
  records in memory, which \<open>mp1_ioctl\<close> changes and \<open>mp1_rtc_tasklet\<close> counts down; the records come from
  the array, the allocator and the copying functions of \<^verbatim>\<open>fish/fish.c\<close>.  The assembly is modelled
  instruction by instruction on the bytes of memory and shown to implement operations on a list of records.
  Its frames on the stack are not memory of the model, except for the copies whose address is passed on.
\<close>

section \<open>The data\<close>

text \<open>The offsets of \<^verbatim>\<open>struct mp1_blink_struct\<close>.\<close>

abbreviation (input) LOCATION :: u32 where "LOCATION \<equiv> 0"
abbreviation (input) ON_CHAR :: u32 where "ON_CHAR \<equiv> 2"
abbreviation (input) OFF_CHAR :: u32 where "OFF_CHAR \<equiv> 3"
abbreviation (input) ON_LENGTH :: u32 where "ON_LENGTH \<equiv> 4"
abbreviation (input) OFF_LENGTH :: u32 where "OFF_LENGTH \<equiv> 6"
abbreviation (input) COUNTDOWN :: u32 where "COUNTDOWN \<equiv> 8"
abbreviation (input) STATUS :: u32 where "STATUS \<equiv> 10"
abbreviation (input) NEXT :: u32 where "NEXT \<equiv> 12"

text \<open>Where the linker puts the variables, and the frame of \<open>mp1_ioctl\<close>.\<close>

record blink_vars =
  blink_array :: u32
  mp1_list_head :: u32
  vmem_base_addr :: u32
  ebp :: u32

text \<open>Loads and stores of 16 bits.\<close>

definition le16 :: "u8 \<Rightarrow> u8 \<Rightarrow> u16" where
  "le16 b0 b1 = ucast b0 OR push_bit 8 (ucast b1)"

definition bytes16 :: "u16 \<Rightarrow> u8 list" where
  "bytes16 w = [ucast w, ucast (drop_bit 8 w)]"

definition ld16 :: "mem \<Rightarrow> u32 \<Rightarrow> u16" where
  "ld16 m a = le16 (m a) (m (a + 1))"

definition st16 :: "u32 \<Rightarrow> u16 \<Rightarrow> mem \<Rightarrow> mem" where
  "st16 a w m = wr a (bytes16 w) m"

section \<open>The functions of fish.c\<close>

function ece391_memset_from :: "int \<Rightarrow> u32 \<Rightarrow> u8 \<Rightarrow> int \<Rightarrow> mem \<Rightarrow> mem" where
  "ece391_memset_from i memory c n m =
     (if i < n then ece391_memset_from (i + 1) memory c n (m(memory + of_int i := c)) else m)"
  by auto
termination by (relation "measure (\<lambda>(i, _, _, n, _). nat (n - i))") auto

definition ece391_memset :: "u32 \<Rightarrow> u8 \<Rightarrow> int \<Rightarrow> mem \<Rightarrow> mem" where
  "ece391_memset memory c n m = ece391_memset_from 0 memory c n m"

function ece391_memcpy_from :: "int \<Rightarrow> u32 \<Rightarrow> u32 \<Rightarrow> int \<Rightarrow> mem \<Rightarrow> mem" where
  "ece391_memcpy_from i d s n m =
     (if i < n then ece391_memcpy_from (i + 1) d s n (m(d + of_int i := m (s + of_int i))) else m)"
  by auto
termination by (relation "measure (\<lambda>(i, _, _, n, _). nat (n - i))") auto

definition ece391_memcpy :: "u32 \<Rightarrow> u32 \<Rightarrow> int \<Rightarrow> mem \<Rightarrow> int \<times> mem" where
  "ece391_memcpy dest src n m = (0, ece391_memcpy_from 0 dest src n m)"

function mp1_malloc_from :: "int \<Rightarrow> blink_vars \<Rightarrow> mem \<Rightarrow> u32" where
  "mp1_malloc_from i v m =
     (if i < 80 * 25
      then if ld16 m (blink_array v + of_int (16 * i) + LOCATION) = 0 then blink_array v + of_int (16 * i)
           else mp1_malloc_from (i + 1) v m
      else 0)"
  by auto
termination by (relation "measure (\<lambda>(i, _, _). nat (2000 - i))") auto

definition mp1_malloc :: "blink_vars \<Rightarrow> mem \<Rightarrow> u32" where
  "mp1_malloc v m = mp1_malloc_from 0 v m"

definition mp1_free :: "u32 \<Rightarrow> mem \<Rightarrow> mem" where
  "mp1_free memory m = ece391_memset memory 0 16 m"

declare ece391_memset_from.simps [simp del] ece391_memcpy_from.simps [simp del] mp1_malloc_from.simps [simp del]

section \<open>blink.S\<close>

definition mp1_poke :: "blink_vars \<Rightarrow> u8 \<Rightarrow> u32 \<Rightarrow> mem \<Rightarrow> mem" where
  "mp1_poke v cl eax m = m(ld32 m (vmem_base_addr v) + eax := cl)"

text \<open>The body of the loop, up to \<open>next_loop\<close>.\<close>

definition blink_one :: "blink_vars \<Rightarrow> u32 \<Rightarrow> mem \<Rightarrow> mem" where
  "blink_one v ebx m =
     (let m = st16 (ebx + COUNTDOWN) (ld16 m (ebx + COUNTDOWN) - 1) m
      in if 0 < sint (ld16 m (ebx + COUNTDOWN)) then m
         else let eax = push_bit 1 (ucast (ld16 m (ebx + LOCATION)));
                  off = (ld16 m (ebx + STATUS) AND 1 = 0);
                  m = mp1_poke v (m (ebx + (if off then ON_CHAR else OFF_CHAR))) eax m;
                  dx = ld16 m (ebx + (if off then ON_LENGTH else OFF_LENGTH));
                  m = st16 (ebx + COUNTDOWN) dx m
              in st16 (ebx + STATUS) (ld16 m (ebx + STATUS) XOR 1) m)"

partial_function (option) tasklet_loop :: "blink_vars \<Rightarrow> u32 \<Rightarrow> mem \<Rightarrow> mem option" where
  "tasklet_loop v ebx m =
     (if ebx = 0 then Some m
      else let m = blink_one v ebx m in tasklet_loop v (ld32 m (ebx + NEXT)) m)"

definition mp1_rtc_tasklet :: "blink_vars \<Rightarrow> mem \<Rightarrow> mem option" where
  "mp1_rtc_tasklet v m = tasklet_loop v (ld32 m (mp1_list_head v)) m"

partial_function (option) find_loop :: "u16 \<Rightarrow> u32 \<Rightarrow> mem \<Rightarrow> u32 option" where
  "find_loop ax ebx m =
     (if ebx = 0 then Some 0
      else if ld16 m (ebx + LOCATION) = ax then Some ebx
      else find_loop ax (ld32 m (ebx + NEXT)) m)"

definition mp1_find_helper :: "blink_vars \<Rightarrow> u32 \<Rightarrow> mem \<Rightarrow> u32 option" where
  "mp1_find_helper v arg m = find_loop (ucast arg) (ld32 m (mp1_list_head v)) m"

definition mp1_ioctl_add :: "blink_vars \<Rightarrow> u32 \<Rightarrow> mem \<Rightarrow> int \<times> mem" where
  "mp1_ioctl_add v arg m =
     (let ebx = ebp v - 16;
          (eax, m) = ece391_memcpy ebx arg 16 m
      in if eax \<noteq> 0 then (- 1, m)
         else if 80 * 25 \<le> ld16 m (ebx + LOCATION) then (- 1, m)
         else let m = st16 (ebx + STATUS) 1 m;
                  m = st16 (ebx + COUNTDOWN) (ld16 m (ebx + ON_LENGTH)) m;
                  edx = mp1_malloc v m
              in if edx = 0 then (- 1, m)
                 else let m = snd (ece391_memcpy edx ebx 16 m);
                          m = st32 (edx + NEXT) (ld32 m (mp1_list_head v)) m;
                          m = st32 (mp1_list_head v) edx m
                      in (0, mp1_poke v (m (edx + ON_CHAR)) (push_bit 1 (ucast (ld16 m (edx + LOCATION)))) m))"

partial_function (option) remove_find_prev :: "u32 \<Rightarrow> u32 \<Rightarrow> mem \<Rightarrow> u32 option" where
  "remove_find_prev eax edx m =
     (if ld32 m edx = eax then Some edx else remove_find_prev eax (ld32 m edx + NEXT) m)"

definition mp1_ioctl_remove :: "blink_vars \<Rightarrow> u32 \<Rightarrow> mem \<Rightarrow> (int \<times> mem) option" where
  "mp1_ioctl_remove v arg m =
     (case mp1_find_helper v arg m of
        None \<Rightarrow> None
      | Some eax \<Rightarrow>
          if eax = 0 then Some (- 1, m)
          else case remove_find_prev eax (mp1_list_head v) m of
                 None \<Rightarrow> None
               | Some edx \<Rightarrow> Some (0, mp1_free eax (st32 edx (ld32 m (eax + NEXT)) m)))"

text \<open>\<open>testb\<close> clears the overflow flag, so \<open>cmovl\<close> moves when the result has its top bit set.\<close>

definition mp1_ioctl_sync :: "blink_vars \<Rightarrow> u32 \<Rightarrow> mem \<Rightarrow> (int \<times> mem) option" where
  "mp1_ioctl_sync v arg m =
     (case mp1_find_helper v (drop_bit 16 arg) m of
        None \<Rightarrow> None
      | Some esi \<Rightarrow>
          if esi = 0 then Some (- 1, m)
          else case mp1_find_helper v (arg AND 0xFFFF) m of
                 None \<Rightarrow> None
               | Some edi \<Rightarrow>
                   if edi = 0 then Some (- 1, m)
                   else let m = st16 (edi + ON_LENGTH) (ld16 m (esi + ON_LENGTH)) m;
                            m = st16 (edi + OFF_LENGTH) (ld16 m (esi + OFF_LENGTH)) m;
                            m = st16 (edi + COUNTDOWN) (ld16 m (esi + COUNTDOWN)) m;
                            m = st16 (edi + STATUS) (ld16 m (esi + STATUS)) m;
                            sf = bit (m (edi + STATUS) AND 1) 7;
                            cl = (if sf then m (edi + ON_CHAR) else m (edi + OFF_CHAR))
                        in Some (0, mp1_poke v cl (push_bit 1 (ucast (ld16 m (edi + LOCATION)))) m))"

definition mp1_ioctl_find :: "blink_vars \<Rightarrow> u32 \<Rightarrow> mem \<Rightarrow> (int \<times> mem) option" where
  "mp1_ioctl_find v arg m =
     (let (eax, m) = ece391_memcpy (ebp v - 2) arg 2 m
      in if eax \<noteq> 0 then Some (- 1, m)
         else case mp1_find_helper v (ucast (ld16 m (ebp v - 2))) m of
                None \<Rightarrow> None
              | Some eax \<Rightarrow>
                  if eax = 0 then Some (- 1, m)
                  else let (r, m) = ece391_memcpy arg eax 16 m in Some (if r = 0 then 0 else - 1, m))"

text \<open>\<open>mp1_ioctl\<close> jumps through its table without a test of the command; nothing is known of the jump
  for a command that is not in the table.\<close>

definition mp1_ioctl :: "blink_vars \<Rightarrow> u32 \<Rightarrow> u32 \<Rightarrow> mem \<Rightarrow> (int \<times> mem) option" where
  "mp1_ioctl v arg cmd m =
     (if cmd = 0 then Some (mp1_ioctl_add v arg m)
      else if cmd = 1 then mp1_ioctl_remove v arg m
      else if cmd = 2 then mp1_ioctl_find v arg m
      else if cmd = 3 then mp1_ioctl_sync v arg m
      else None)"

section \<open>Loads behind stores\<close>

lemma le16_bytes [simp]: "le16 (ucast w) (ucast (drop_bit 8 w)) = w"
proof (rule bit_word_eqI)
  fix n assume "n < LENGTH(16)"
  then have "n < 8 \<or> 8 \<le> n \<and> n < 16" by auto
  then show "bit (le16 (ucast w) (ucast (drop_bit 8 w))) n = bit w n"
    by (auto simp: le16_def bit_simps)
qed

lemma length_bytes16 [simp]: "length (bytes16 w) = 2"
  by (simp add: bytes16_def)

lemma apart_off:
  "apart (a + i) n (a + j) k = apart i n j k" "apart a n (a + j) k = apart 0 n j k"
  "apart (a + i) n a k = apart i n 0 k"
  by (simp_all add: apart_def)

lemma inr_off: "inr (a + i) n (a + j) = inr i n j" "inr a n (a + j) = inr 0 n j" "inr (a + i) n a = inr i n 0"
  by (simp_all add: inr_def)

lemma ld16_rd: "ld16 m a = le16 (rd m a 2 ! 0) (rd m a 2 ! 1)"
  by (simp add: ld16_def)

lemma ld16_cong: "rd m a 2 = rd m' b 2 \<Longrightarrow> ld16 m a = ld16 m' b"
  by (simp add: ld16_rd)

lemma ld16_st16 [simp]: "ld16 (st16 a w m) a = w"
  using rd_wr_same [of "bytes16 w" a m] by (simp add: ld16_rd st16_def) (simp add: bytes16_def)

lemma st16_other:
  "\<not> inr a 2 p \<Longrightarrow> st16 a w m p = m p" "apart a 2 b 2 \<Longrightarrow> ld16 (st16 a w m) b = ld16 m b"
  "apart a 2 b 4 \<Longrightarrow> ld32 (st16 a w m) b = ld32 m b"
  by (auto simp: st16_def wr_other intro!: ld16_cong ld32_cong rd_wr_apart)

lemma st32_other:
  "\<not> inr a 4 p \<Longrightarrow> st32 a w m p = m p" "apart a 4 b 2 \<Longrightarrow> ld16 (st32 a w m) b = ld16 m b"
  "apart a 4 b 4 \<Longrightarrow> ld32 (st32 a w m) b = ld32 m b"
  by (auto simp: st32_def wr_other intro!: ld16_cong ld32_cong rd_wr_apart)

lemma byte_other:
  "\<not> inr b 2 a \<Longrightarrow> ld16 (m(a := x)) b = ld16 m b" "\<not> inr b 4 a \<Longrightarrow> ld32 (m(a := x)) b = ld32 m b"
  by (auto intro!: ld16_cong ld32_cong rd_cong)

lemmas field_simps16 = st16_other st32_other byte_other apart_off inr_off

text \<open>A change confined to a set of addresses.\<close>

definition only :: "(u32 \<Rightarrow> bool) \<Rightarrow> mem \<Rightarrow> mem \<Rightarrow> bool" where
  "only A m m' \<longleftrightarrow> (\<forall>p. m' p \<noteq> m p \<longrightarrow> A p)"

lemma only_refl [simp]: "only A m m"
  by (simp add: only_def)

lemma only_trans: "only A m m' \<Longrightarrow> only A m' m'' \<Longrightarrow> only A m m''"
  by (metis only_def)

lemma only_mono: "only A m m' \<Longrightarrow> (\<And>p. A p \<Longrightarrow> B p) \<Longrightarrow> only B m m'"
  by (auto simp: only_def)

lemma only_wr: "length xs \<le> 2 ^ 32 \<Longrightarrow> only (inr a (length xs)) m (wr a xs m)"
  by (auto simp: only_def wr_apply)

lemma only_rd: "only A m m' \<Longrightarrow> (\<And>p. inr a n p \<Longrightarrow> \<not> A p) \<Longrightarrow> n \<le> 2 ^ 32 \<Longrightarrow> rd m' a n = rd m a n"
  by (rule rd_cong) (auto simp: only_def)

section \<open>The loops of fish.c\<close>

lemma memset_from_wr:
  "i \<le> n \<Longrightarrow> ece391_memset_from (int i) a c (int n) m = wr (a + of_nat i) (replicate (n - i) c) m"
proof (induction "n - i" arbitrary: i m)
  case 0
  then show ?case by (simp add: ece391_memset_from.simps)
next
  case (Suc d)
  then have d: "d = n - Suc i" "Suc i \<le> n" "n - i = Suc (n - Suc i)" by auto
  have s: "int i + 1 = int (Suc i)" by simp
  have "ece391_memset_from (int i) a c (int n) m = ece391_memset_from (int (Suc i)) a c (int n) (m(a + of_nat i := c))"
    using d(2) by (subst ece391_memset_from.simps) (simp only: s, simp)
  also have "\<dots> = wr (a + of_nat (Suc i)) (replicate (n - Suc i) c) (m(a + of_nat i := c))"
    by (rule Suc.hyps(1) [OF d(1,2)])
  finally show ?case using d(3) by (simp add: ac_simps)
qed

lemma user_memset_wr: "ece391_memset a c (int n) m = wr a (replicate n c) m"
  using memset_from_wr [of 0 n] by (simp add: ece391_memset_def)

lemma memcpy_from_wr:
  assumes "apart d n s n" "n \<le> 2 ^ 32" "i \<le> n"
  shows "ece391_memcpy_from (int i) d s (int n) m = wr (d + of_nat i) (rd m (s + of_nat i) (n - i)) m"
  using assms(3)
proof (induction "n - i" arbitrary: i m)
  case 0
  then show ?case by (simp add: ece391_memcpy_from.simps)
next
  case (Suc k)
  then have d: "k = n - Suc i" "Suc i \<le> n" "n - i = Suc (n - Suc i)" by auto
  have s: "int i + 1 = int (Suc i)" by simp
  let ?m = "m(d + of_nat i := m (s + of_nat i))"
  have "inr d n (d + of_nat i)" using d(2) assms(2) by (simp del: of_nat_add)
  then have "\<not> inr s n (d + of_nat i)" by (rule apartD [OF assms(1)])
  then have "\<not> inr (s + of_nat (Suc i)) (n - Suc i) (d + of_nat i)"
    using inr_sub [of s "Suc i" "n - Suc i" _ n] d(2) assms(2) by auto
  then have r: "rd ?m (s + of_nat (Suc i)) (n - Suc i) = rd m (s + of_nat (Suc i)) (n - Suc i)"
    using assms(2) by (intro rd_cong) auto
  have "ece391_memcpy_from (int i) d s (int n) m = ece391_memcpy_from (int (Suc i)) d s (int n) ?m"
    using d(2) by (subst ece391_memcpy_from.simps) (simp only: s, simp)
  also have "\<dots> = wr (d + of_nat (Suc i)) (rd ?m (s + of_nat (Suc i)) (n - Suc i)) ?m"
    by (rule Suc.hyps(1) [OF d(1,2)])
  finally show ?case unfolding r d(3) rd_Suc by (simp add: ac_simps)
qed

lemma user_memcpy_wr:
  "apart d n s n \<Longrightarrow> n \<le> 2 ^ 32 \<Longrightarrow> ece391_memcpy d s (int n) m = (0, wr d (rd m s n) m)"
  using memcpy_from_wr [of d n s 0 m] by (simp add: ece391_memcpy_def)

section \<open>The list of records\<close>

record blink =
  location :: u16
  on_char :: u8
  off_char :: u8
  on_length :: u16
  off_length :: u16
  countdown :: u16
  status :: u16

definition blink_at :: "mem \<Rightarrow> u32 \<Rightarrow> blink" where
  "blink_at m a = \<lparr>location = ld16 m a, on_char = m (a + ON_CHAR), off_char = m (a + OFF_CHAR),
     on_length = ld16 m (a + ON_LENGTH), off_length = ld16 m (a + OFF_LENGTH),
     countdown = ld16 m (a + COUNTDOWN), status = ld16 m (a + STATUS)\<rparr>"

fun chain :: "mem \<Rightarrow> u32 \<Rightarrow> u32 list \<Rightarrow> bool" where
  "chain m p [] = (p = 0)"
| "chain m p (a # as) = (p = a \<and> a \<noteq> 0 \<and> chain m (ld32 m (a + NEXT)) as)"

text \<open>The entries of the array, the memory the functions use, and the characters on the screen.\<close>

definition slot :: "blink_vars \<Rightarrow> nat \<Rightarrow> u32" where
  "slot v i = blink_array v + of_nat (16 * i)"

definition slots :: "blink_vars \<Rightarrow> u32 set" where
  "slots v = slot v ` {..<2000}"

definition vmem :: "blink_vars \<Rightarrow> mem \<Rightarrow> u32" where
  "vmem v m = ld32 m (vmem_base_addr v)"

definition regions :: "blink_vars \<Rightarrow> u32 \<Rightarrow> (u32 \<times> nat) list" where
  "regions v w = [(blink_array v, 32000), (mp1_list_head v, 4), (ebp v - 16, 16), (w, 4000), (vmem_base_addr v, 4)]"

definition laid_out :: "blink_vars \<Rightarrow> u32 \<Rightarrow> bool" where
  "laid_out v w \<longleftrightarrow> blink_array v \<noteq> 0 \<and> unat (blink_array v) + 32000 \<le> 2 ^ 32
     \<and> sorted_wrt (\<lambda>(a, n) (b, k). apart a n b k) (regions v w)"

definition screen :: "blink_vars \<Rightarrow> mem \<Rightarrow> u8 list" where
  "screen v m = map (\<lambda>i. m (vmem v m + of_nat (2 * i))) [0..<2000]"

definition listed :: "blink_vars \<Rightarrow> mem \<Rightarrow> u32 list \<Rightarrow> bool" where
  "listed v m ps \<longleftrightarrow> laid_out v (vmem v m) \<and> chain m (ld32 m (mp1_list_head v)) ps \<and> distinct ps
     \<and> set ps = {a \<in> slots v. location (blink_at m a) \<noteq> 0} \<and> (\<forall>a \<in> set ps. location (blink_at m a) < 2000)"

definition holds :: "blink_vars \<Rightarrow> mem \<Rightarrow> blink list \<Rightarrow> bool" where
  "holds v m bs \<longleftrightarrow> (\<exists>ps. listed v m ps \<and> bs = map (blink_at m) ps)"

definition blink_mem :: "blink_vars \<Rightarrow> u32 \<Rightarrow> u32 \<Rightarrow> bool" where
  "blink_mem v w p \<longleftrightarrow> inr (blink_array v) 32000 p \<or> inr (mp1_list_head v) 4 p \<or> inr (ebp v - 16) 16 p \<or> inr w 4000 p"

subsection \<open>Records\<close>

lemma rd_byte: "rd m a n = rd m' b n \<Longrightarrow> i < n \<Longrightarrow> m (a + of_nat i) = m' (b + of_nat i)"
  by (metis nth_rd)

lemma record_cong:
  assumes "rd m a 16 = rd m' b 16"
  shows "blink_at m a = blink_at m' b" "ld32 m (a + NEXT) = ld32 m' (b + NEXT)"
proof -
  note e = rd_byte [OF assms]
  show "blink_at m a = blink_at m' b"
    using e [of 0] e [of 1] e [of 2] e [of 3] e [of 4] e [of 5] e [of 6] e [of 7] e [of 8] e [of 9] e [of 10] e [of 11]
    by (simp add: blink_at_def ld16_def add.assoc)
  show "ld32 m (a + NEXT) = ld32 m' (b + NEXT)"
    using e [of 12] e [of 13] e [of 14] e [of 15] by (simp add: ld32_def add.assoc)
qed

lemma chain_cong:
  assumes "\<And>a. a \<in> set as \<Longrightarrow> ld32 m' (a + NEXT) = ld32 m (a + NEXT)"
  shows "chain m' p as = chain m p as"
  using assms by (induction as arbitrary: p) auto

lemma chain_nonzero: "chain m p as \<Longrightarrow> a \<in> set as \<Longrightarrow> a \<noteq> 0"
  by (induction as arbitrary: p) auto

subsection \<open>The layout\<close>

lemma laid_outD:
  assumes "laid_out v w"
  shows "apart (blink_array v) 32000 (mp1_list_head v) 4" "apart (blink_array v) 32000 (ebp v - 16) 16"
    "apart (blink_array v) 32000 w 4000" "apart (blink_array v) 32000 (vmem_base_addr v) 4"
    "apart (mp1_list_head v) 4 (ebp v - 16) 16" "apart (mp1_list_head v) 4 w 4000"
    "apart (mp1_list_head v) 4 (vmem_base_addr v) 4" "apart (ebp v - 16) 16 w 4000"
    "apart (ebp v - 16) 16 (vmem_base_addr v) 4" "apart w 4000 (vmem_base_addr v) 4"
  using assms by (simp_all add: laid_out_def regions_def)

lemma slot_range:
  assumes "i < 2000"
  shows "inr (slot v i) 16 p \<Longrightarrow> inr (blink_array v) 32000 p"
  using assms inr_sub [of "blink_array v" "16 * i" 16 p 32000] by (simp add: slot_def)

lemma slot_unat:
  assumes "laid_out v w" "i < 2000"
  shows "unat (slot v i) = unat (blink_array v) + 16 * i"
proof -
  have "unat (of_nat (16 * i) :: u32) = 16 * i" using assms(2) by (intro unat_u32_of_nat) simp
  then show ?thesis using assms by (simp add: slot_def laid_out_def unat_u32_plus)
qed

lemma slot_nonzero: "laid_out v w \<Longrightarrow> a \<in> slots v \<Longrightarrow> a \<noteq> 0"
proof
  assume l: "laid_out v w" and "a \<in> slots v" "a = 0"
  then obtain i where i: "i < 2000" "slot v i = 0" by (auto simp: slots_def)
  then have "unat (blink_array v) = 0" using slot_unat [OF l i(1)] by simp
  then show False using l by (simp add: laid_out_def unat_eq_0)
qed

lemma slot_apart:
  assumes "laid_out v w" "a \<in> slots v" "b \<in> slots v" "a \<noteq> b"
  shows "apart a 16 b 16"
proof -
  obtain i j where ij: "i < 2000" "j < 2000" "a = slot v i" "b = slot v j" using assms(2,3) by (auto simp: slots_def)
  then have "i \<noteq> j" using assms(4) by auto
  then show ?thesis
    using ij slot_unat [OF assms(1) ij(1)] slot_unat [OF assms(1) ij(2)] assms(1)
    by (auto simp: apart_def unat_u32_minus laid_out_def)
qed

lemma slot_regions:
  assumes "laid_out v w" "a \<in> slots v"
  shows "apart a 16 (mp1_list_head v) 4" "apart a 16 (ebp v - 16) 16" "apart a 16 w 4000" "apart a 16 (vmem_base_addr v) 4"
proof -
  obtain i where i: "i < 2000" "a = slot v i" using assms(2) by (auto simp: slots_def)
  have r: "apart (blink_array v) 32000 b k \<Longrightarrow> k \<le> 2 ^ 32 \<Longrightarrow> apart a 16 b k" for b k
    by (rule apartI) (auto simp: i(2) dest!: slot_range [OF i(1)] dest: apartD)
  show "apart a 16 (mp1_list_head v) 4" "apart a 16 (ebp v - 16) 16" "apart a 16 w 4000" "apart a 16 (vmem_base_addr v) 4"
    using laid_outD [OF assms(1)] by (auto intro: r)
qed

lemma card_slots: "laid_out v w \<Longrightarrow> card (slots v) = 2000"
proof -
  assume l: "laid_out v w"
  have "inj_on (slot v) {..<2000}"
  proof (rule inj_onI)
    fix i j assume ij: "i \<in> {..<2000 :: nat}" "j \<in> {..<2000}" "slot v i = slot v j"
    then have "unat (blink_array v) + 16 * i = unat (blink_array v) + 16 * j"
      using slot_unat [OF l, of i] slot_unat [OF l, of j] by (metis lessThan_iff)
    then show "i = j" by simp
  qed
  then show ?thesis by (simp add: slots_def card_image)
qed

lemma inr_sub16: "inr (a + of_nat i) n p \<Longrightarrow> i + n \<le> 16 \<Longrightarrow> inr a 16 p"
  by (rule inr_sub) simp_all

lemma cell_apart:
  assumes "apart b n w 4000" "i < 2000" "n \<le> 2 ^ 32"
  shows "\<not> inr b n (w + of_nat (2 * i))"
proof
  assume "inr b n (w + of_nat (2 * i))"
  moreover have "inr w 4000 (w + of_nat (2 * i))"
    using inr_offset [of "2 * i" w 4000] assms(2) by (simp del: inr_offset of_nat_mult)
  ultimately show False using apartD [OF assms(1)] by blast
qed

section \<open>The tasklet\<close>

definition tick :: "blink \<Rightarrow> blink" where
  "tick b = (if 0 < sint (countdown b - 1) then b\<lparr>countdown := countdown b - 1\<rparr>
     else b\<lparr>countdown := (if status b AND 1 = 0 then on_length b else off_length b), status := status b XOR 1\<rparr>)"

definition tick_shows :: "blink \<Rightarrow> u8 list \<Rightarrow> u8 list" where
  "tick_shows b scr = (if 0 < sint (countdown b - 1) then scr
     else scr[unat (location b) := (if status b AND 1 = 0 then on_char b else off_char b)])"

text \<open>Memory outside of an entry.\<close>

lemma off_slot:
  assumes "\<not> inr a 16 q"
  shows "\<not> inr a 2 q" "\<not> inr (a + 4) 2 q" "\<not> inr (a + 6) 2 q" "\<not> inr (a + 8) 2 q" "\<not> inr (a + 10) 2 q"
    "\<not> inr (a + 12) 4 q" "a + 2 \<noteq> q" "a + 3 \<noteq> q" "a \<noteq> q"
proof -
  have r: "\<not> inr (a + of_nat i) n q" if "i + n \<le> 16" for i n using inr_sub16 [of a i n q] that assms by blast
  have b: "a + of_nat i \<noteq> q" if "i < 16" for i using r [of i 1] that by auto
  show "\<not> inr a 2 q" "\<not> inr (a + 4) 2 q" "\<not> inr (a + 6) 2 q" "\<not> inr (a + 8) 2 q" "\<not> inr (a + 10) 2 q"
    "\<not> inr (a + 12) 4 q" "a + 2 \<noteq> q" "a + 3 \<noteq> q" "a \<noteq> q"
    using r [of 0 2] r [of 4 2] r [of 6 2] r [of 8 2] r [of 10 2] r [of 12 4] b [of 2] b [of 3] b [of 0] by auto
qed

lemma only_st16: "i + 2 \<le> 16 \<Longrightarrow> only (inr a 16) m (st16 (a + of_nat i) w m)"
  unfolding st16_def
  by (rule only_mono [OF only_wr]) (auto intro: inr_sub16)

lemmas only_fields = only_st16 [of 4] only_st16 [of 6] only_st16 [of 8] only_st16 [of 10]

lemma only_upd: "A q \<Longrightarrow> only A m (m(q := x))"
  by (simp add: only_def)

lemma vmem_only: "only A m m' \<Longrightarrow> (\<And>p. inr (vmem_base_addr v) 4 p \<Longrightarrow> \<not> A p) \<Longrightarrow> vmem v m' = vmem v m"
  unfolding vmem_def by (rule ld32_cong) (rule only_rd, simp_all)

lemma screen_only:
  assumes "only A m m'" "vmem v m' = vmem v m" "\<And>p. inr (vmem v m) 4000 p \<Longrightarrow> \<not> A p"
  shows "screen v m' = screen v m"
proof -
  have "m' (vmem v m + of_nat (2 * i)) = m (vmem v m + of_nat (2 * i))" if "i < 2000" for i
  proof -
    have "inr (vmem v m) 4000 (vmem v m + of_nat (2 * i))"
      using that inr_offset [of "2 * i" "vmem v m" 4000] by (simp del: inr_offset of_nat_mult)
    then show ?thesis using assms(1,3) by (auto simp: only_def)
  qed
  then show ?thesis by (simp add: screen_def assms(2) del: of_nat_mult)
qed

lemma cell_address: "push_bit 1 (ucast (l :: u16)) = (of_nat (2 * unat l) :: u32)"
proof -
  have "(of_nat (2 * unat l) :: u32) = 2 * ucast l" by (simp add: unsigned_def)
  then show ?thesis by (simp only: push_bit_eq_mult power_one_right mult.commute)
qed

lemma poke_cell: "mp1_poke v c (push_bit 1 (ucast (l :: u16))) m = m(vmem v m + of_nat (2 * unat l) := c)"
  by (simp only: mp1_poke_def cell_address vmem_def)

lemma poke_screen:
  assumes "laid_out v (vmem v m)" "(l :: u16) < 2000"
  defines "q \<equiv> vmem v m + of_nat (2 * unat l)"
  shows "inr (vmem v m) 4000 q" "vmem v (m(q := c)) = vmem v m" "screen v (m(q := c)) = (screen v m)[unat l := c]"
proof -
  have l: "unat l < 2000" using assms(2) by (simp add: word_less_nat_alt)
  show q: "inr (vmem v m) 4000 q"
    using l inr_offset [of "2 * unat l" "vmem v m" 4000] by (simp add: q_def del: inr_offset of_nat_mult)
  have u: "only (inr (vmem v m) 4000) m (m(q := c))" by (rule only_upd) (rule q)
  show w: "vmem v (m(q := c)) = vmem v m"
    by (rule vmem_only [OF u]) (use laid_outD(10) [OF assms(1)] in \<open>auto dest: apartD\<close>)
  show "screen v (m(q := c)) = (screen v m)[unat l := c]"
  proof (rule nth_equalityI)
    fix i assume "i < length (screen v (m(q := c)))"
    then have i: "i < 2000" by (simp add: screen_def)
    then have "(of_nat (2 * i) = (of_nat (2 * unat l) :: u32)) = (i = unat l)"
      using u32_of_nat_inj [of "2 * i" "2 * unat l"] l by (simp del: u32_of_nat_inj of_nat_mult)
    then show "screen v (m(q := c)) ! i = (screen v m)[unat l := c] ! i"
      using i l w by (simp add: screen_def nth_list_update q_def del: of_nat_mult)
  qed (simp add: screen_def)
qed

lemma blink_one_tick:
  assumes "laid_out v (vmem v m)" "a \<in> slots v" "location (blink_at m a) < 2000"
  defines "m' \<equiv> blink_one v a m"
  shows "blink_at m' a = tick (blink_at m a)" "ld32 m' (a + NEXT) = ld32 m (a + NEXT)"
    "only (\<lambda>p. inr a 16 p \<or> inr (vmem v m) 4000 p) m m'" "screen v m' = tick_shows (blink_at m a) (screen v m)"
proof -
  let ?w = "vmem v m" and ?l = "ld16 m a"
  let ?q = "?w + of_nat (2 * unat ?l)" and ?m1 = "st16 (a + 8) (ld16 m (a + 8) - 1) m"
  note sr = slot_regions [OF assms(1,2)]
  have l: "?l < 2000" using assms(3) by (simp add: blink_at_def)
  have o1: "only (inr a 16) m ?m1" using only_fields(3) by simp
  have w1: "vmem v ?m1 = ?w" by (rule vmem_only [OF o1]) (use sr(4) in \<open>auto dest: apartD\<close>)
  have s1: "screen v ?m1 = screen v m" by (rule screen_only [OF o1 w1]) (use sr(3) in \<open>auto dest: apartD\<close>)
  note pk = poke_screen [OF _ l, of v ?m1, unfolded w1, OF assms(1)]
  have q: "\<not> inr a 16 ?q" using pk(1) sr(3) by (auto dest: apartD)
  note oq = off_slot [OF q]
  note d = m'_def [unfolded blink_one_def Let_def add_0_right poke_cell]
  have f1: "ld16 ?m1 a = ?l" "ld16 ?m1 (a + 4) = ld16 m (a + 4)" "ld16 ?m1 (a + 6) = ld16 m (a + 6)"
    "ld16 ?m1 (a + 10) = ld16 m (a + 10)" "ld32 ?m1 (a + 12) = ld32 m (a + 12)" "?m1 (a + 2) = m (a + 2)" "?m1 (a + 3) = m (a + 3)"
    by (simp_all add: field_simps16 apart_def inr_def)
  let ?run = "0 < sint (ld16 m (a + 8) - 1)" and ?off = "ld16 m (a + 10) AND 1 = 0"
  let ?c = "m (a + (if ?off then 2 else 3))" and ?d = "ld16 m (a + (if ?off then 4 else 6))"
  let ?m2 = "?m1(?q := ?c)"
  have m': "m' = (if ?run then ?m1 else st16 (a + 10) (ld16 m (a + 10) XOR 1) (st16 (a + 8) ?d ?m2))"
    unfolding d using f1 oq w1 by (auto simp: field_simps16 apart_def inr_def)
  show "blink_at m' a = tick (blink_at m a)" "ld32 m' (a + NEXT) = ld32 m (a + NEXT)"
    unfolding m' using f1 oq by (auto simp: blink_at_def tick_def field_simps16 apart_def inr_def)
  have s: "only (inr a 16) ?m2 (st16 (a + 10) w (st16 (a + 8) w' ?m2))" for w w'
    using only_trans [OF only_fields(3) only_fields(4)] by simp
  have ws: "vmem v (st16 (a + 10) w (st16 (a + 8) w' ?m2)) = ?w" for w w'
    by (rule trans [OF vmem_only [OF s] pk(2)]) (use sr(4) in \<open>auto dest: apartD\<close>)
  show "only (\<lambda>p. inr a 16 p \<or> inr ?w 4000 p) m m'"
    using only_trans [OF only_trans [OF only_mono [OF o1] only_upd] only_mono [OF s]] only_mono [OF o1] pk(1)
    by (simp add: m')
  have "screen v (st16 (a + 10) w (st16 (a + 8) w' ?m2)) = screen v ?m2" for w w'
    by (rule screen_only [OF s]) (simp only: ws pk(2), use pk(2) sr(3) in \<open>auto dest: apartD\<close>)
  then show "screen v m' = tick_shows (blink_at m a) (screen v m)"
    using pk(3) s1 by (simp add: m' tick_shows_def blink_at_def)
qed

text \<open>What changes in one entry and on the screen leaves the other entries alone.\<close>

lemma only_entry:
  assumes "only A m m'" "\<And>p. inr b 16 p \<Longrightarrow> \<not> A p"
  shows "blink_at m' b = blink_at m b" "ld32 m' (b + NEXT) = ld32 m (b + NEXT)"
  by (rule record_cong, rule only_rd [OF assms], simp, simp)+

lemma tick_location [simp]: "location (tick b) = location b"
  by (simp add: tick_def)

lemma tasklet_loop_ticks:
  assumes "laid_out v (vmem v m)" "chain m p ps" "distinct ps" "set ps \<subseteq> slots v"
    "\<forall>a \<in> set ps. location (blink_at m a) < 2000"
  shows "\<exists>m'. tasklet_loop v p m = Some m' \<and> map (blink_at m') ps = map tick (map (blink_at m) ps) \<and> chain m' p ps
    \<and> only (\<lambda>q. (\<exists>a \<in> set ps. inr a 16 q) \<or> inr (vmem v m) 4000 q) m m'
    \<and> screen v m' = fold tick_shows (map (blink_at m) ps) (screen v m)"
  using assms
proof (induction ps arbitrary: p m)
  case Nil
  then show ?case by (simp add: tasklet_loop.simps)
next
  case (Cons a ps)
  let ?m = "blink_one v a m"
  have a: "a \<in> slots v" "p = a" "a \<noteq> 0" using Cons.prems(2,4) by auto
  note st = blink_one_tick [OF Cons.prems(1) a(1)]
  have st: "blink_at ?m a = tick (blink_at m a)" "ld32 ?m (a + NEXT) = ld32 m (a + NEXT)"
    "only (\<lambda>p. inr a 16 p \<or> inr (vmem v m) 4000 p) m ?m" "screen v ?m = tick_shows (blink_at m a) (screen v m)"
    using st Cons.prems(5) by auto
  have ot: "blink_at ?m b = blink_at m b" "ld32 ?m (b + NEXT) = ld32 m (b + NEXT)" if "b \<in> set ps" for b
  proof -
    have b: "b \<in> slots v" "a \<noteq> b" using that Cons.prems(3,4) by auto
    have "inr b 16 p \<Longrightarrow> \<not> (inr a 16 p \<or> inr (vmem v m) 4000 p)" for p
      using slot_apart [OF Cons.prems(1) a(1) b] slot_regions(3) [OF Cons.prems(1) b(1)] by (auto dest: apartD)
    then show "blink_at ?m b = blink_at m b" "ld32 ?m (b + NEXT) = ld32 m (b + NEXT)"
      using only_entry [OF st(3)] by auto
  qed
  have w: "vmem v ?m = vmem v m"
    by (rule vmem_only [OF st(3)])
      (use slot_regions(4) [OF Cons.prems(1) a(1)] laid_outD(10) [OF Cons.prems(1)] in \<open>auto dest: apartD\<close>)
  have "chain ?m (ld32 ?m (a + NEXT)) ps" using Cons.prems(2) ot(2) chain_cong [of ps ?m m] st(2) by simp
  from Cons.IH [OF _ this] obtain m' where
      m': "tasklet_loop v (ld32 ?m (a + NEXT)) ?m = Some m'" "map (blink_at m') ps = map tick (map (blink_at ?m) ps)"
        "chain m' (ld32 ?m (a + NEXT)) ps" "only (\<lambda>q. (\<exists>a \<in> set ps. inr a 16 q) \<or> inr (vmem v m) 4000 q) ?m m'"
        "screen v m' = fold tick_shows (map (blink_at ?m) ps) (screen v ?m)"
    using Cons.prems ot(1) w by auto
  have "inr a 16 p \<Longrightarrow> \<not> ((\<exists>b \<in> set ps. inr b 16 p) \<or> inr (vmem v m) 4000 p)" for p
    using slot_apart [OF Cons.prems(1) a(1)] slot_regions(3) [OF Cons.prems(1) a(1)] Cons.prems(3,4)
    by (auto dest: apartD)
  note ea = only_entry [OF m'(4) this]
  have mp: "map (blink_at ?m) ps = map (blink_at m) ps" using ot(1) by simp
  have t: "tasklet_loop v p m = Some m'" using a m'(1) by (subst tasklet_loop.simps) (simp add: Let_def)
  have r: "map (blink_at m') (a # ps) = map tick (map (blink_at m) (a # ps))"
    using m'(2) ea(1) st(1) unfolding mp by simp
  have c: "chain m' p (a # ps)" using a m'(3) ea(2) st(2) by simp
  have o: "only (\<lambda>q. (\<exists>b \<in> set (a # ps). inr b 16 q) \<or> inr (vmem v m) 4000 q) m m'"
    by (rule only_trans [OF only_mono [OF st(3)] only_mono [OF m'(4)]]) auto
  have s: "screen v m' = fold tick_shows (map (blink_at m) (a # ps)) (screen v m)" using m'(5) st(4) unfolding mp by simp
  show ?case by (intro exI [of _ m'] conjI t r c o s)
qed

lemma slots_array: "a \<in> slots v \<Longrightarrow> inr a 16 p \<Longrightarrow> inr (blink_array v) 32000 p"
  using slot_range by (auto simp: slots_def)

theorem tasklet_ticks:
  assumes "holds v m bs"
  shows "\<exists>m'. mp1_rtc_tasklet v m = Some m' \<and> holds v m' (map tick bs) \<and> vmem v m' = vmem v m
    \<and> screen v m' = fold tick_shows bs (screen v m) \<and> only (blink_mem v (vmem v m)) m m'"
proof -
  obtain ps where ps: "listed v m ps" "bs = map (blink_at m) ps" using assms by (auto simp: holds_def)
  have l: "laid_out v (vmem v m)" "chain m (ld32 m (mp1_list_head v)) ps" "distinct ps" "set ps \<subseteq> slots v"
      "\<forall>a \<in> set ps. location (blink_at m a) < 2000" "set ps = {a \<in> slots v. location (blink_at m a) \<noteq> 0}"
    using ps(1) by (auto simp: listed_def)
  obtain m' where m': "tasklet_loop v (ld32 m (mp1_list_head v)) m = Some m'" "map (blink_at m') ps = map tick bs"
      "chain m' (ld32 m (mp1_list_head v)) ps" "only (\<lambda>q. (\<exists>a \<in> set ps. inr a 16 q) \<or> inr (vmem v m) 4000 q) m m'"
      "screen v m' = fold tick_shows bs (screen v m)"
    using tasklet_loop_ticks [OF l(1-5)] unfolding ps(2) by blast
  note rg = slot_regions [OF l(1)] and ld = laid_outD [OF l(1)]
  have w: "vmem v m' = vmem v m" by (rule vmem_only [OF m'(4)]) (use rg(4) ld(10) l(4) in \<open>auto dest: apartD\<close>)
  have h: "ld32 m' (mp1_list_head v) = ld32 m (mp1_list_head v)"
  proof (rule ld32_cong, rule only_rd [OF m'(4)])
    show "inr (mp1_list_head v) 4 p \<Longrightarrow> \<not> ((\<exists>a \<in> set ps. inr a 16 p) \<or> inr (vmem v m) 4000 p)" for p
      using rg(1) ld(6) l(4) by (auto dest: apartD)
  qed simp
  have b: "blink_at m' b = blink_at m b" if "b \<in> slots v" "b \<notin> set ps" for b
  proof (rule only_entry(1) [OF m'(4)])
    show "inr b 16 p \<Longrightarrow> \<not> ((\<exists>a \<in> set ps. inr a 16 p) \<or> inr (vmem v m) 4000 p)" for p
      using slot_apart [OF l(1) that(1)] rg(3) [OF that(1)] that l(4) by (auto dest: apartD)
  qed
  have t: "blink_at m' a = tick (blink_at m a)" if "a \<in> set ps" for a using m'(2) that by (simp add: ps(2))
  have "{a \<in> slots v. location (blink_at m' a) \<noteq> 0} = set ps"
    using b t l(4,6) by (force simp: set_eq_iff)
  then have "listed v m' ps" using l(1,3,5) m'(3) t by (simp add: listed_def w h)
  then have "holds v m' (map tick bs)" using m'(2) by (auto simp: holds_def)
  moreover have "only (blink_mem v (vmem v m)) m m'"
    by (rule only_mono [OF m'(4)]) (use l(4) slots_array in \<open>auto simp: blink_mem_def\<close>)
  ultimately show ?thesis using m'(1,5) w by (simp add: mp1_rtc_tasklet_def)
qed

section \<open>Finding and allocating\<close>

lemma find_loop_finds:
  "chain m p ps \<Longrightarrow>
    find_loop x p m = Some (case find (\<lambda>a. location (blink_at m a) = x) ps of None \<Rightarrow> 0 | Some a \<Rightarrow> a)"
  by (induction ps arbitrary: p) (auto simp: find_loop.simps blink_at_def)

lemma malloc_from:
  "i \<le> 2000 \<Longrightarrow> (\<exists>j. i \<le> j \<and> j < 2000 \<and> mp1_malloc_from (int i) v m = slot v j \<and> location (blink_at m (slot v j)) = 0)
    \<or> mp1_malloc_from (int i) v m = 0 \<and> (\<forall>j. i \<le> j \<and> j < 2000 \<longrightarrow> location (blink_at m (slot v j)) \<noteq> 0)"
proof (induction "2000 - i" arbitrary: i)
  case 0
  have "mp1_malloc_from 2000 v m = 0" by (subst mp1_malloc_from.simps) simp
  then show ?case using 0 by auto
next
  case (Suc d)
  then have d: "d = 2000 - Suc i" "Suc i \<le> 2000" by auto
  have s: "int i + 1 = int (Suc i)" by simp
  have a: "blink_array v + of_int (16 * int i) = slot v i" by (simp add: slot_def)
  have u: "mp1_malloc_from (int i) v m =
      (if location (blink_at m (slot v i)) = 0 then slot v i else mp1_malloc_from (int (Suc i)) v m)"
    using d(2) by (subst mp1_malloc_from.simps) (simp only: s a, simp add: blink_at_def)
  have e: "i \<le> j \<longleftrightarrow> j = i \<or> Suc i \<le> j" for j by auto
  show ?case
  proof (cases "location (blink_at m (slot v i)) = 0")
    case True
    then show ?thesis using u d(2) by (intro disjI1 exI [of _ i]) simp
  next
    case False
    then show ?thesis using u Suc.hyps(1) [OF d] unfolding e by auto
  qed
qed

lemma malloc_slot:
  "mp1_malloc v m \<in> slots v \<and> location (blink_at m (mp1_malloc v m)) = 0
    \<or> mp1_malloc v m = 0 \<and> (\<forall>a \<in> slots v. location (blink_at m a) \<noteq> 0)"
  using malloc_from [of 0 v m] by (auto simp: mp1_malloc_def slots_def)

lemma listed_length:
  assumes "listed v m ps"
  shows "length ps \<le> 2000" "length ps < 2000 \<longleftrightarrow> (\<exists>a \<in> slots v. location (blink_at m a) = 0)"
proof -
  have l: "laid_out v (vmem v m)" "distinct ps" "set ps = {a \<in> slots v. location (blink_at m a) \<noteq> 0}"
    using assms by (auto simp: listed_def)
  have f: "finite (slots v)" by (simp add: slots_def)
  have c: "length ps = card (set ps)" using l(2) by (simp add: distinct_card)
  have s: "set ps \<subseteq> slots v" using l(3) by auto
  show "length ps \<le> 2000" using c card_mono [OF f s] card_slots [OF l(1)] by simp
  show "length ps < 2000 \<longleftrightarrow> (\<exists>a \<in> slots v. location (blink_at m a) = 0)"
  proof
    assume "length ps < 2000"
    then have "set ps \<noteq> slots v" using c card_slots [OF l(1)] by auto
    then show "\<exists>a \<in> slots v. location (blink_at m a) = 0" using l(3) by blast
  next
    assume "\<exists>a \<in> slots v. location (blink_at m a) = 0"
    then have "set ps \<subset> slots v" using l(3) by blast
    then show "length ps < 2000" using c psubset_card_mono [OF f] card_slots [OF l(1)] by metis
  qed
qed

section \<open>Adding\<close>

definition add_blink :: "blink \<Rightarrow> blink list \<Rightarrow> int \<times> blink list" where
  "add_blink b bs = (if location b < 2000 \<and> length bs < 2000
     then (0, b\<lparr>countdown := on_length b, status := 1\<rparr> # bs) else (- 1, bs))"

text \<open>The copy in the frame.\<close>

lemma frame_copy:
  fixes m :: mem and v :: blink_vars
  assumes "apart (ebp v - 16) 16 arg 16"
  defines "t \<equiv> ebp v - 16"
  defines "m1 \<equiv> snd (ece391_memcpy t arg 16 m)"
  defines "m3 \<equiv> st16 (t + COUNTDOWN) (ld16 (st16 (t + STATUS) 1 m1) (t + ON_LENGTH)) (st16 (t + STATUS) 1 m1)"
  shows "ece391_memcpy t arg 16 m = (0, m1)" "ld16 m1 (t + LOCATION) = location (blink_at m arg)"
    "only (inr t 16) m m1" "only (inr t 16) m m3"
    "blink_at m3 t = (blink_at m arg)\<lparr>countdown := on_length (blink_at m arg), status := 1\<rparr>"
proof -
  have c: "ece391_memcpy t arg 16 m = (0, wr t (rd m arg 16) m)"
    using user_memcpy_wr [OF assms(1), of m] by (simp add: t_def)
  have m1: "m1 = wr t (rd m arg 16) m" by (simp add: m1_def c)
  then show "ece391_memcpy t arg 16 m = (0, m1)" by (simp add: c)
  have r: "rd m1 t 16 = rd m arg 16" using rd_wr_same [of "rd m arg 16" t m] by (simp add: m1)
  note b = record_cong(1) [OF r]
  show "ld16 m1 (t + LOCATION) = location (blink_at m arg)" using b by (simp add: blink_at_def)
  show o: "only (inr t 16) m m1" using only_wr [of "rd m arg 16" t m] by (simp add: m1)
  show "only (inr t 16) m m3"
    unfolding m3_def using only_trans [OF o only_trans [OF only_fields(4) only_fields(3)]] by simp
  have "blink_at m3 t = (blink_at m1 t)\<lparr>countdown := on_length (blink_at m1 t), status := 1\<rparr>"
    unfolding m3_def by (simp add: blink_at_def field_simps16 apart_def inr_def)
  then show "blink_at m3 t = (blink_at m arg)\<lparr>countdown := on_length (blink_at m arg), status := 1\<rparr>" by (simp only: b)
qed

text \<open>A change of the frame and the screen.\<close>

lemma frame_entries:
  assumes "laid_out v (vmem v m)" "only (\<lambda>p. inr (ebp v - 16) 16 p \<or> inr (vmem v m) 4000 p) m m'"
  shows "vmem v m' = vmem v m" "a \<in> slots v \<Longrightarrow> blink_at m' a = blink_at m a"
    "a \<in> slots v \<Longrightarrow> ld32 m' (a + NEXT) = ld32 m (a + NEXT)"
    "ld32 m' (mp1_list_head v) = ld32 m (mp1_list_head v)"
proof -
  note rg = slot_regions [OF assms(1)] and ld = laid_outD [OF assms(1)]
  show w: "vmem v m' = vmem v m" by (rule vmem_only [OF assms(2)]) (use ld(9,10) in \<open>auto dest: apartD\<close>)
  have d: "inr a 16 p \<Longrightarrow> \<not> (inr (ebp v - 16) 16 p \<or> inr (vmem v m) 4000 p)" if "a \<in> slots v" for p
    using rg(2,3) [OF that] by (auto dest: apartD)
  show "a \<in> slots v \<Longrightarrow> blink_at m' a = blink_at m a" "a \<in> slots v \<Longrightarrow> ld32 m' (a + NEXT) = ld32 m (a + NEXT)"
    using only_entry [OF assms(2) d] by auto
  show "ld32 m' (mp1_list_head v) = ld32 m (mp1_list_head v)"
    by (rule ld32_cong, rule only_rd [OF assms(2)]) (use ld(5,6) in \<open>auto dest: apartD\<close>)
qed

lemma listed_only:
  assumes "listed v m ps" "only (\<lambda>p. inr (ebp v - 16) 16 p \<or> inr (vmem v m) 4000 p) m m'"
  shows "vmem v m' = vmem v m" "listed v m' ps" "map (blink_at m') ps = map (blink_at m) ps"
proof -
  have l: "laid_out v (vmem v m)" "chain m (ld32 m (mp1_list_head v)) ps" "distinct ps"
      "\<forall>a \<in> set ps. location (blink_at m a) < 2000" "set ps = {a \<in> slots v. location (blink_at m a) \<noteq> 0}"
    using assms(1) by (auto simp: listed_def)
  note fe = frame_entries [OF l(1) assms(2)]
  show "vmem v m' = vmem v m" by (rule fe(1))
  have "chain m' (ld32 m (mp1_list_head v)) ps" using l(2,5) fe(3) chain_cong [of ps m' m] by auto
  then show "listed v m' ps" "map (blink_at m') ps = map (blink_at m) ps"
    using l fe(2) by (auto simp: listed_def fe(1,4))
qed

text \<open>A record put into an entry at the head of the list.\<close>

lemma linked_in:
  assumes "laid_out v (vmem v m)" "a \<in> slots v" "apart a 16 t 16"
  defines "m1 \<equiv> snd (ece391_memcpy a t 16 m)"
  defines "m' \<equiv> st32 (mp1_list_head v) a (st32 (a + NEXT) (ld32 m1 (mp1_list_head v)) m1)"
  shows "blink_at m' a = blink_at m t" "ld32 m' (a + NEXT) = ld32 m (mp1_list_head v)" "ld32 m' (mp1_list_head v) = a"
    "x \<in> slots v \<Longrightarrow> x \<noteq> a \<Longrightarrow> blink_at m' x = blink_at m x"
    "x \<in> slots v \<Longrightarrow> x \<noteq> a \<Longrightarrow> ld32 m' (x + NEXT) = ld32 m (x + NEXT)"
    "vmem v m' = vmem v m" "screen v m' = screen v m" "only (blink_mem v (vmem v m)) m m'"
proof -
  let ?h = "ld32 m (mp1_list_head v)"
  note rg = slot_regions [OF assms(1)] and ld = laid_outD [OF assms(1)]
  have m1: "m1 = wr a (rd m t 16) m" using user_memcpy_wr [OF assms(3), of m] by (simp add: m1_def)
  have o1: "only (inr a 16) m m1" using only_wr [of "rd m t 16" a m] by (simp add: m1)
  have ah: "inr a 16 p \<Longrightarrow> \<not> inr (mp1_list_head v) 4 p" for p using rg(1) [OF assms(2)] by (auto dest: apartD)
  have "ld32 m1 (mp1_list_head v) = ?h" by (rule ld32_cong, rule only_rd [OF o1]) (auto dest: ah)
  then have m': "m' = st32 (mp1_list_head v) a (st32 (a + NEXT) ?h m1)" by (simp add: m'_def)
  have o2: "only (inr a 16) m1 (st32 (a + NEXT) ?h m1)"
    unfolding st32_def by (rule only_mono [OF only_wr]) (use inr_sub16 [of a 12 4] in auto)
  have o3: "only (inr (mp1_list_head v) 4) (st32 (a + NEXT) ?h m1) m'"
    unfolding m' st32_def [of "mp1_list_head v"] using only_wr [of "bytes32 a"] by simp
  have o: "only (\<lambda>p. inr a 16 p \<or> inr (mp1_list_head v) 4 p) m m'"
    by (rule only_trans [OF only_mono [OF only_trans [OF o1 o2]] only_mono [OF o3]]) auto
  then show "only (blink_mem v (vmem v m)) m m'"
    by (rule only_mono) (use slots_array [OF assms(2)] in \<open>auto simp: blink_mem_def\<close>)
  show w: "vmem v m' = vmem v m"
    by (rule vmem_only [OF o]) (use rg(4) [OF assms(2)] ld(7) in \<open>auto dest: apartD\<close>)
  show "screen v m' = screen v m"
    by (rule screen_only [OF o w]) (use rg(3) [OF assms(2)] ld(6) in \<open>auto dest: apartD\<close>)
  show "ld32 m' (mp1_list_head v) = a" by (simp add: m' ld32_st32)
  have r1: "rd m1 a 16 = rd m t 16" using rd_wr_same [of "rd m t 16" a m] by (simp add: m1)
  have e3: "blink_at m' a = blink_at (st32 (a + NEXT) ?h m1) a" "ld32 m' (a + NEXT) = ld32 (st32 (a + NEXT) ?h m1) (a + NEXT)"
    using only_entry [OF o3 ah] by auto
  show "blink_at m' a = blink_at m t" "ld32 m' (a + NEXT) = ?h"
    using record_cong(1) [OF r1] unfolding e3
    by (simp_all add: ld32_st32 blink_at_def field_simps16 apart_def inr_def)
  show "x \<in> slots v \<Longrightarrow> x \<noteq> a \<Longrightarrow> blink_at m' x = blink_at m x"
    "x \<in> slots v \<Longrightarrow> x \<noteq> a \<Longrightarrow> ld32 m' (x + NEXT) = ld32 m (x + NEXT)"
  proof -
    assume x: "x \<in> slots v" "x \<noteq> a"
    have "inr x 16 p \<Longrightarrow> \<not> (inr a 16 p \<or> inr (mp1_list_head v) 4 p)" for p
      using slot_apart [OF assms(1,2) x(1)] rg(1) [OF x(1)] x(2) by (auto dest: apartD)
    then show "blink_at m' x = blink_at m x" "ld32 m' (x + NEXT) = ld32 m (x + NEXT)" using only_entry [OF o] by auto
  qed
qed

lemma frame_only: "only (inr (ebp v - 16) 16) m m' \<Longrightarrow> only (\<lambda>p. inr (ebp v - 16) 16 p \<or> inr w 4000 p) m m'"
  by (erule only_mono) simp

lemma frame_screen: "laid_out v (vmem v m) \<Longrightarrow> only (inr (ebp v - 16) 16) m m' \<Longrightarrow> screen v m' = screen v m"
  by (rule screen_only, assumption, erule frame_entries(1) [OF _ frame_only])
    (auto dest!: laid_outD(8) dest: apartD)

lemma blink_fields:
  "m (a + ON_CHAR) = on_char (blink_at m a)" "m (a + OFF_CHAR) = off_char (blink_at m a)"
  "ld16 m a = location (blink_at m a)"
  by (simp_all add: blink_at_def)

lemma malloc_cong:
  assumes "\<And>a. a \<in> slots v \<Longrightarrow> location (blink_at m' a) = location (blink_at m a)"
  shows "mp1_malloc v m' = mp1_malloc v m"
proof -
  have "mp1_malloc_from (int i) v m' = mp1_malloc_from (int i) v m" if "i \<le> 2000" for i
    using that
  proof (induction "2000 - i" arbitrary: i)
    case 0
    then show ?case by (subst (1 2) mp1_malloc_from.simps) simp
  next
    case (Suc d)
    then have d: "d = 2000 - Suc i" "Suc i \<le> 2000" by auto
    have s: "int i + 1 = int (Suc i)" by simp
    have "slot v i \<in> slots v" using d(2) by (auto simp: slots_def)
    then have "ld16 m' (slot v i) = ld16 m (slot v i)" using assms [of "slot v i"] by (simp only: blink_fields)
    moreover have "blink_array v + of_int (16 * int i) = slot v i" by (simp add: slot_def)
    ultimately show ?case
      using Suc.hyps(1) [OF d] by (subst (1 2) mp1_malloc_from.simps) (simp only: s add_0_right)
  qed
  from this [of 0] show ?thesis by (simp add: mp1_malloc_def)
qed

text \<open>What \<open>mp1_ioctl_add\<close> does to memory, when it refuses and when it finds an entry.\<close>

lemma add_memory:
  fixes m :: mem and v :: blink_vars
  assumes "laid_out v (vmem v m)" "apart (ebp v - 16) 16 arg 16"
  defines "b \<equiv> blink_at m arg" and "e \<equiv> mp1_malloc v m"
  shows "2000 \<le> location b \<or> e = 0 \<Longrightarrow> \<exists>m'. mp1_ioctl_add v arg m = (- 1, m') \<and> only (inr (ebp v - 16) 16) m m'"
    "location b < 2000 \<Longrightarrow> e \<in> slots v \<Longrightarrow> \<exists>m'. mp1_ioctl_add v arg m = (0, m')
      \<and> blink_at m' e = b\<lparr>countdown := on_length b, status := 1\<rparr> \<and> ld32 m' (e + NEXT) = ld32 m (mp1_list_head v)
      \<and> ld32 m' (mp1_list_head v) = e
      \<and> (\<forall>x \<in> slots v. x \<noteq> e \<longrightarrow> blink_at m' x = blink_at m x \<and> ld32 m' (x + NEXT) = ld32 m (x + NEXT))
      \<and> vmem v m' = vmem v m \<and> screen v m' = (screen v m)[unat (location b) := on_char b]
      \<and> only (blink_mem v (vmem v m)) m m'"
proof -
  let ?t = "ebp v - 16"
  define m1 where "m1 = snd (ece391_memcpy ?t arg 16 m)"
  define m3 where "m3 = st16 (?t + COUNTDOWN) (ld16 (st16 (?t + STATUS) 1 m1) (?t + ON_LENGTH)) (st16 (?t + STATUS) 1 m1)"
  note fc = frame_copy [OF assms(2), of m, folded m1_def, folded m3_def b_def]
  note fe = frame_entries [OF assms(1) frame_only [OF fc(4)]]
  have e: "mp1_malloc v m3 = e" unfolding e_def by (rule malloc_cong) (simp only: fe(2))
  define m5 where "m5 = snd (ece391_memcpy e ?t 16 m3)"
  define m6 where "m6 = st32 (mp1_list_head v) e (st32 (e + NEXT) (ld32 m5 (mp1_list_head v)) m5)"
  have add: "mp1_ioctl_add v arg m =
      (if 2000 \<le> location b then (- 1, m1) else if e = 0 then (- 1, m3)
       else (0, mp1_poke v (m6 (e + ON_CHAR)) (push_bit 1 (ucast (ld16 m6 (e + LOCATION)))) m6))"
    unfolding mp1_ioctl_add_def Let_def fc(1) prod.case fc(2) m3_def [symmetric] e m5_def [symmetric] m6_def [symmetric]
    by simp
  show "2000 \<le> location b \<or> e = 0 \<Longrightarrow> \<exists>m'. mp1_ioctl_add v arg m = (- 1, m') \<and> only (inr ?t 16) m m'"
    using add fc(3,4) by (cases "2000 \<le> location b") auto
  assume b: "location b < 2000" and es: "e \<in> slots v"
  have l3: "laid_out v (vmem v m3)" using assms(1) fe(1) by simp
  note li = linked_in [OF l3 es slot_regions(2) [OF l3 es], folded m5_def, folded m6_def, unfolded fc(5) fe(1,4)]
  have f6: "m6 (e + ON_CHAR) = on_char b" "ld16 m6 (e + LOCATION) = location b"
    using li(1) by (simp_all add: blink_fields)
  define q where "q = vmem v m6 + of_nat (2 * unat (location b))"
  let ?m = "m6(q := on_char b)"
  have r: "mp1_ioctl_add v arg m = (0, ?m)"
    unfolding add f6 poke_cell q_def using b slot_nonzero [OF assms(1) es] by (simp add: not_le)
  have l6: "laid_out v (vmem v m6)" using assms(1) li(6) by simp
  note pk = poke_screen [OF l6 b, folded q_def]
  have oq: "only (\<lambda>p. inr ?t 16 p \<or> inr (vmem v m6) 4000 p) m6 ?m" using pk(1) by (intro only_upd) simp
  note fq = frame_entries [OF l6 oq]
  have "only (blink_mem v (vmem v m)) m ?m"
    by (rule only_trans [OF only_trans [OF only_mono [OF fc(4)] li(8)] only_mono [OF oq]]) (auto simp: blink_mem_def li(6))
  moreover have "screen v ?m = (screen v m)[unat (location b) := on_char b]"
    using pk(3) li(7) frame_screen [OF assms(1) fc(4)] by simp
  moreover have "\<forall>x \<in> slots v. x \<noteq> e \<longrightarrow> blink_at ?m x = blink_at m x \<and> ld32 ?m (x + NEXT) = ld32 m (x + NEXT)"
    using fq(2,3) li(4,5) fe(2,3) by simp
  ultimately show "\<exists>m'. mp1_ioctl_add v arg m = (0, m')
      \<and> blink_at m' e = b\<lparr>countdown := on_length b, status := 1\<rparr> \<and> ld32 m' (e + NEXT) = ld32 m (mp1_list_head v)
      \<and> ld32 m' (mp1_list_head v) = e
      \<and> (\<forall>x \<in> slots v. x \<noteq> e \<longrightarrow> blink_at m' x = blink_at m x \<and> ld32 m' (x + NEXT) = ld32 m (x + NEXT))
      \<and> vmem v m' = vmem v m \<and> screen v m' = (screen v m)[unat (location b) := on_char b]
      \<and> only (blink_mem v (vmem v m)) m m'"
    using r fq(1) fq(2,3) [OF es] fq(4) li(1-3,6) by (intro exI [of _ ?m]) simp
qed

theorem add_adds:
  fixes m :: mem and v :: blink_vars
  assumes "holds v m bs" "apart (ebp v - 16) 16 arg 16" "location (blink_at m arg) \<noteq> 0"
  defines "b \<equiv> blink_at m arg"
  shows "\<exists>m'. mp1_ioctl_add v arg m = (fst (add_blink b bs), m') \<and> holds v m' (snd (add_blink b bs))
    \<and> vmem v m' = vmem v m \<and> only (blink_mem v (vmem v m)) m m'
    \<and> screen v m' = (if fst (add_blink b bs) = 0 then (screen v m)[unat (location b) := on_char b] else screen v m)"
proof -
  obtain ps where ps: "listed v m ps" "bs = map (blink_at m) ps" using assms(1) by (auto simp: holds_def)
  have l: "laid_out v (vmem v m)" "chain m (ld32 m (mp1_list_head v)) ps" "distinct ps"
      "\<forall>a \<in> set ps. location (blink_at m a) < 2000" "set ps = {a \<in> slots v. location (blink_at m a) \<noteq> 0}"
    using ps(1) by (auto simp: listed_def)
  let ?e = "mp1_malloc v m"
  have free: "if length bs < 2000 then ?e \<in> slots v \<and> location (blink_at m ?e) = 0 else ?e = 0"
    using listed_length(2) [OF ps(1)] malloc_slot [of v m] ps(2) by auto
  note am = add_memory [OF l(1) assms(2), folded b_def]
  show ?thesis
  proof (cases "location b < 2000 \<and> length bs < 2000")
    case False
    then have "2000 \<le> location b \<or> ?e = 0" using free by (auto simp: not_less split: if_splits)
    from am(1) [OF this] obtain m' where m': "mp1_ioctl_add v arg m = (- 1, m')" "only (inr (ebp v - 16) 16) m m'" by blast
    note lo = listed_only [OF ps(1) frame_only [OF m'(2)]]
    have "holds v m' bs" using lo(2,3) ps(2) by (auto simp: holds_def)
    moreover have "only (blink_mem v (vmem v m)) m m'" by (rule only_mono [OF m'(2)]) (simp add: blink_mem_def)
    moreover have "add_blink b bs = (- 1, bs)" using False by (auto simp: add_blink_def)
    ultimately show ?thesis using m'(1) lo(1) frame_screen [OF l(1) m'(2)] by simp
  next
    case True
    then have e: "?e \<in> slots v" "location (blink_at m ?e) = 0" using free by auto
    let ?b = "b\<lparr>countdown := on_length b, status := 1\<rparr>"
    obtain m' where r: "mp1_ioctl_add v arg m = (0, m')" and b: "blink_at m' ?e = ?b"
      and n: "ld32 m' (?e + NEXT) = ld32 m (mp1_list_head v)" and h: "ld32 m' (mp1_list_head v) = ?e"
      and o: "\<And>x. x \<in> slots v \<Longrightarrow> x \<noteq> ?e \<Longrightarrow> blink_at m' x = blink_at m x"
        "\<And>x. x \<in> slots v \<Longrightarrow> x \<noteq> ?e \<Longrightarrow> ld32 m' (x + NEXT) = ld32 m (x + NEXT)"
      and w: "vmem v m' = vmem v m" and s: "screen v m' = (screen v m)[unat (location b) := on_char b]"
      and k: "only (blink_mem v (vmem v m)) m m'"
      using am(2) [OF conjunct1 [OF True] e(1)] by blast
    have ne: "x \<in> slots v" "x \<noteq> ?e" if "x \<in> set ps" for x using that l(5) e(2) by auto
    have "chain m' (ld32 m' (mp1_list_head v)) (?e # ps)"
      using l(2) chain_cong [of ps m' m, OF o(2) [OF ne]] slot_nonzero [OF l(1) e(1)] by (simp add: h n)
    moreover have "set (?e # ps) = {x \<in> slots v. location (blink_at m' x) \<noteq> 0}"
    proof (rule set_eqI)
      fix x
      have le: "location (blink_at m' ?e) \<noteq> 0" unfolding b using assms(3) by (simp add: b_def)
      have lx: "x \<in> set ps \<longleftrightarrow> x \<in> slots v \<and> location (blink_at m x) \<noteq> 0" unfolding l(5) by simp
      show "x \<in> set (?e # ps) \<longleftrightarrow> x \<in> {x \<in> slots v. location (blink_at m' x) \<noteq> 0}"
      proof (cases "x = ?e")
        case True
        then show ?thesis using le e(1) by simp
      next
        case False
        have "x \<in> slots v \<Longrightarrow> blink_at m' x = blink_at m x" using o(1) False by blast
        then have "x \<in> set ps \<longleftrightarrow> x \<in> slots v \<and> location (blink_at m' x) \<noteq> 0" unfolding lx by auto
        then show ?thesis using False by simp
      qed
    qed
    moreover have "location (blink_at m' x) < 2000" if "x \<in> set (?e # ps)" for x
    proof (cases "x = ?e")
      case False
      then have "x \<in> set ps" using that by simp
      then show ?thesis using l(4) o(1) [OF ne] by metis
    qed (use b True in simp)
    moreover have "distinct (?e # ps)" using l(3) ne(2) by auto
    ultimately have "listed v m' (?e # ps)" using l(1) unfolding listed_def w by blast
    moreover have "map (blink_at m') ps = bs" unfolding ps(2) by (rule map_cong [OF refl o(1) [OF ne]])
    then have "map (blink_at m') (?e # ps) = ?b # bs" using b by simp
    ultimately have "holds v m' (?b # bs)" unfolding holds_def by metis
    then show ?thesis using r w s k True by (simp add: add_blink_def)
  qed
qed

section \<open>Removing\<close>

fun remove_blink :: "u16 \<Rightarrow> blink list \<Rightarrow> blink list" where
  "remove_blink x [] = []"
| "remove_blink x (b # bs) = (if location b = x then bs else b # remove_blink x bs)"

lemma remove_blink_map:
  "\<forall>a \<in> set as. location (f a) \<noteq> x \<Longrightarrow> location (f e) = x \<Longrightarrow>
    remove_blink x (map f (as @ e # cs)) = map f (as @ cs)"
  by (induction as) auto

lemma chain_zero [simp]: "chain m 0 ps = (ps = [])"
  by (cases ps) auto

lemma find_prev:
  "chain m (ld32 m h) (as @ e # cs) \<Longrightarrow> e \<notin> set as \<Longrightarrow>
    remove_find_prev e h m = Some (if as = [] then h else last as + NEXT)"
proof (induction as arbitrary: h)
  case Nil
  then show ?case by (subst remove_find_prev.simps) simp
next
  case (Cons a as)
  then have "remove_find_prev e h m = remove_find_prev e (a + NEXT) m"
    by (subst remove_find_prev.simps) auto
  then show ?case using Cons by simp
qed

lemma chain_splice:
  assumes "chain m p (as @ a # e # cs)" "\<And>x. x \<in> set as \<union> set cs \<Longrightarrow> ld32 m' (x + NEXT) = ld32 m (x + NEXT)"
    and "ld32 m' (a + NEXT) = ld32 m (e + NEXT)"
  shows "chain m' p (as @ a # cs)"
  using assms(1,2)
proof (induction as arbitrary: p)
  case Nil
  then show ?case using assms(3) chain_cong [of cs m' m] by simp
qed simp

lemma next_store:
  "blink_at (st32 (a + NEXT) k m) a = blink_at m a" "ld32 (st32 (a + NEXT) k m) (a + NEXT) = k"
  by (simp_all add: blink_at_def ld32_st32 field_simps16 apart_def inr_def)

text \<open>An entry taken out behind the pointer at \<open>h\<close>, and cleared.\<close>

lemma unlinked:
  assumes "listed v m (as @ e # cs)"
  defines "h \<equiv> (if as = [] then mp1_list_head v else last as + NEXT)"
  defines "m' \<equiv> mp1_free e (st32 h (ld32 m (e + NEXT)) m)"
  shows "listed v m' (as @ cs)" "map (blink_at m') (as @ cs) = map (blink_at m) (as @ cs)" "vmem v m' = vmem v m"
    "only (blink_mem v (vmem v m)) m m'" "screen v m' = screen v m"
proof -
  let ?k = "ld32 m (e + NEXT)" and ?ps = "as @ e # cs"
  have l: "laid_out v (vmem v m)" "chain m (ld32 m (mp1_list_head v)) ?ps" "distinct ?ps"
      "\<forall>a \<in> set ?ps. location (blink_at m a) < 2000" "set ?ps = {a \<in> slots v. location (blink_at m a) \<noteq> 0}"
    using assms(1) by (auto simp: listed_def)
  note rg = slot_regions [OF l(1)] and ld = laid_outD [OF l(1)]
  have sl: "x \<in> slots v" if "x \<in> set ?ps" for x using l(5) that by blast
  have e: "e \<in> slots v" by (rule sl) simp
  let ?m1 = "st32 h ?k m"
  have m': "m' = wr e (replicate 16 0) ?m1" using user_memset_wr [of e 0 16] by (simp add: m'_def mp1_free_def)
  have o1: "only (inr h 4) m ?m1" unfolding st32_def using only_wr [of "bytes32 ?k" h m] by simp
  have o2: "only (inr e 16) ?m1 m'" unfolding m' using only_wr [of "replicate 16 0" e ?m1] by simp
  define A where "A p \<longleftrightarrow> (if as = [] then inr (mp1_list_head v) 4 p else inr (last as) 16 p)" for p
  have hA: "inr h 4 p \<Longrightarrow> A p" for p using inr_sub16 [of "last as" 12 4 p] by (auto simp: h_def A_def)
  have la: "last as \<in> slots v" if "as \<noteq> []" by (rule sl) (use that in simp)
  have o: "only (\<lambda>p. A p \<or> inr e 16 p) m m'"
    by (rule only_trans [OF only_mono [OF o1] only_mono [OF o2]]) (auto simp: hA)
  have dA: "inr b n p \<Longrightarrow> \<not> (A p \<or> inr e 16 p)"
    if "apart (mp1_list_head v) 4 b n" "\<And>a. a \<in> slots v \<Longrightarrow> apart a 16 b n" for b n p
    using that(1) that(2) [OF e] that(2) [OF la] by (auto simp: A_def dest: apartD)
  show w: "vmem v m' = vmem v m" by (rule vmem_only [OF o dA]) (use ld(7) rg(4) in auto)
  show "screen v m' = screen v m" by (rule screen_only [OF o w dA]) (use ld(6) rg(3) in auto)
  show "only (blink_mem v (vmem v m)) m m'"
    by (rule only_mono [OF o]) (use slots_array [OF e] slots_array [OF la] in \<open>auto simp: A_def blink_mem_def split: if_splits\<close>)
  have ne: "inr x 16 p \<Longrightarrow> \<not> inr e 16 p" if "x \<in> slots v" "x \<noteq> e" for x p
    using slot_apart [OF l(1) that(1) e that(2)] by (auto dest: apartD)
  have nh: "inr x 16 p \<Longrightarrow> \<not> inr (mp1_list_head v) 4 p" if "x \<in> slots v" for x p
    using rg(1) [OF that] by (auto dest: apartD)
  have e2: "blink_at m' x = blink_at ?m1 x" "ld32 m' (x + NEXT) = ld32 ?m1 (x + NEXT)" if "x \<in> slots v" "x \<noteq> e" for x
    using only_entry [OF o2 ne [OF that]] by auto
  have e1: "blink_at ?m1 x = blink_at m x" "ld32 ?m1 (x + NEXT) = ld32 m (x + NEXT)"
    if "x \<in> slots v" "as \<noteq> [] \<longrightarrow> x \<noteq> last as" for x
  proof -
    have "inr x 16 p \<Longrightarrow> \<not> A p" for p
      using nh [OF that(1)] slot_apart [OF l(1) that(1) la] that(2) by (auto simp: A_def dest: apartD)
    then show "blink_at ?m1 x = blink_at m x" "ld32 ?m1 (x + NEXT) = ld32 m (x + NEXT)"
      using only_entry [OF only_mono [OF o1 hA]] by auto
  qed
  have el: "blink_at ?m1 (last as) = blink_at m (last as)" "ld32 ?m1 (last as + NEXT) = ?k" if "as \<noteq> []"
    using that by (simp_all add: h_def next_store)
  have b: "blink_at m' x = blink_at m x" if "x \<in> slots v" "x \<noteq> e" for x
    using e2(1) [OF that] e1(1) [OF that(1)] el(1) by metis
  have n: "ld32 m' (x + NEXT) = ld32 m (x + NEXT)" if "x \<in> slots v" "x \<noteq> e" "as \<noteq> [] \<longrightarrow> x \<noteq> last as" for x
    using e2(2) [OF that(1,2)] e1(2) [OF that(1,3)] by simp
  have z: "location (blink_at m' e) = 0"
  proof -
    have "rd m' e 16 = replicate 16 0" using rd_wr_same [of "replicate 16 0" e ?m1] by (simp add: m')
    moreover have "rd (\<lambda>_. 0) e 16 = replicate 16 0" by (simp add: rd_def map_replicate_const)
    ultimately have "rd m' e 16 = rd (\<lambda>_. 0) e 16" by simp
    from record_cong(1) [OF this] show ?thesis by (simp add: blink_at_def ld16_def le16_def)
  qed
  have eh: "ld32 m' (mp1_list_head v) = ld32 ?m1 (mp1_list_head v)"
    by (rule ld32_cong, rule only_rd [OF o2]) (use rg(1) [OF e] in \<open>auto dest: apartD\<close>)
  have c: "chain m' (ld32 m' (mp1_list_head v)) (as @ cs)"
  proof (cases as rule: rev_cases)
    case Nil
    then have "ld32 m' (mp1_list_head v) = ?k" unfolding eh by (simp add: h_def ld32_st32)
    moreover have "chain m ?k cs" using l(2) Nil by simp
    moreover have "ld32 m' (x + NEXT) = ld32 m (x + NEXT)" if "x \<in> set cs" for x
      by (rule n) (use that sl l(3) Nil in auto)
    ultimately show ?thesis using Nil chain_cong [of cs m' m] by simp
  next
    case (snoc bs a)
    then have a: "last as = a" "as \<noteq> []" "a \<in> slots v" "a \<noteq> e" using la l(3) by auto
    have "ld32 ?m1 (mp1_list_head v) = ld32 m (mp1_list_head v)"
      by (rule ld32_cong, rule only_rd [OF only_mono [OF o1 hA]])
        (use rg(1) [OF a(3)] a in \<open>auto simp: A_def dest: apartD\<close>)
    moreover have "chain m' (ld32 m (mp1_list_head v)) (bs @ a # cs)"
    proof (rule chain_splice)
      show "chain m (ld32 m (mp1_list_head v)) (bs @ a # e # cs)" using l(2) snoc by simp
      show "ld32 m' (a + NEXT) = ?k" using e2(2) [OF a(3,4)] el(2) a by simp
      show "ld32 m' (x + NEXT) = ld32 m (x + NEXT)" if "x \<in> set bs \<union> set cs" for x
        by (rule n) (use that sl l(3) snoc in auto)
    qed
    ultimately show ?thesis using snoc eh by simp
  qed
  show mp: "map (blink_at m') (as @ cs) = map (blink_at m) (as @ cs)" using b sl l(3) by auto
  have "set (as @ cs) = {a \<in> slots v. location (blink_at m' a) \<noteq> 0}"
  proof (rule set_eqI)
    fix x show "x \<in> set (as @ cs) \<longleftrightarrow> x \<in> {a \<in> slots v. location (blink_at m' a) \<noteq> 0}"
      using b [of x] z l(3) l(5) [unfolded set_eq_iff, rule_format, of x] by (cases "x = e") auto
  qed
  moreover have "location (blink_at m' x) < 2000" if "x \<in> set (as @ cs)" for x
  proof -
    have "x \<noteq> e" "x \<in> set ?ps" using that l(3) by auto
    then show ?thesis using b [of x] sl [of x] l(4) by simp
  qed
  ultimately show "listed v m' (as @ cs)" using l(1,3) c unfolding listed_def w by auto
qed

lemma find_split: "\<forall>a \<in> set as. \<not> P a \<Longrightarrow> P e \<Longrightarrow> find P (as @ e # cs) = Some e"
  by (induction as) auto

theorem remove_removes:
  fixes m :: mem and v :: blink_vars
  assumes "holds v m bs"
  shows "\<exists>m'. mp1_ioctl_remove v arg m = Some (if ucast arg \<in> location ` set bs then 0 else - 1, m')
    \<and> holds v m' (remove_blink (ucast arg) bs) \<and> vmem v m' = vmem v m \<and> screen v m' = screen v m
    \<and> only (blink_mem v (vmem v m)) m m'"
proof -
  let ?x = "ucast arg :: u16"
  obtain ps where ps: "listed v m ps" "bs = map (blink_at m) ps" using assms by (auto simp: holds_def)
  have c: "chain m (ld32 m (mp1_list_head v)) ps" "distinct ps" using ps(1) by (auto simp: listed_def)
  have f: "mp1_find_helper v arg m = Some (case find (\<lambda>a. location (blink_at m a) = ?x) ps of None \<Rightarrow> 0 | Some a \<Rightarrow> a)"
    unfolding mp1_find_helper_def by (rule find_loop_finds [OF c(1)])
  show ?thesis
  proof (cases "\<exists>a \<in> set ps. location (blink_at m a) = ?x")
    case False
    have "remove_blink ?x bs = bs" using False unfolding ps(2) by (induction ps) auto
    moreover have "find (\<lambda>a. location (blink_at m a) = ?x) ps = None" using False by (auto simp: find_None_iff)
    ultimately show ?thesis using False assms f ps(2) by (auto simp: mp1_ioctl_remove_def)
  next
    case True
    then obtain as e cs where e: "ps = as @ e # cs" "location (blink_at m e) = ?x" "\<forall>a \<in> set as. location (blink_at m a) \<noteq> ?x"
      using split_list_first_prop [of ps "\<lambda>a. location (blink_at m a) = ?x"] by blast
    have en: "e \<noteq> 0" using chain_nonzero [OF c(1)] e(1) by auto
    have fd: "mp1_find_helper v arg m = Some e" using e(2,3) unfolding f e(1) by (simp add: find_split)
    have "remove_find_prev e (mp1_list_head v) m = Some (if as = [] then mp1_list_head v else last as + NEXT)"
      using find_prev [of m "mp1_list_head v" as e cs] c e(1) by auto
    then have r: "mp1_ioctl_remove v arg m = Some (0, mp1_free e
        (st32 (if as = [] then mp1_list_head v else last as + NEXT) (ld32 m (e + NEXT)) m))"
      using fd en by (simp add: mp1_ioctl_remove_def)
    note un = unlinked [OF ps(1) [unfolded e(1)]]
    have "remove_blink ?x bs = map (blink_at m) (as @ cs)"
      unfolding ps(2) e(1) by (rule remove_blink_map) (use e(2,3) in auto)
    moreover have "?x \<in> location ` set bs" using e(1,2) ps(2) by force
    ultimately show ?thesis using r un by (auto simp: holds_def)
  qed
qed

section \<open>Synchronising\<close>

fun update_blink :: "u16 \<Rightarrow> (blink \<Rightarrow> blink) \<Rightarrow> blink list \<Rightarrow> blink list" where
  "update_blink x f [] = []"
| "update_blink x f (b # bs) = (if location b = x then f b # bs else b # update_blink x f bs)"

lemma update_blink_map:
  "\<forall>a \<in> set as. location (f a) \<noteq> x \<Longrightarrow> location (f e) = x \<Longrightarrow>
    update_blink x g (map f (as @ e # cs)) = map f as @ g (f e) # map f cs"
  by (induction as) auto

definition in_step :: "blink \<Rightarrow> blink \<Rightarrow> blink" where
  "in_step a b = b\<lparr>on_length := on_length a, off_length := off_length a, countdown := countdown a, status := status a\<rparr>"

text \<open>The synchronised character is shown in its off state, whatever its status.\<close>

definition sync_blink :: "u16 \<Rightarrow> u16 \<Rightarrow> blink list \<Rightarrow> blink list option" where
  "sync_blink x y bs = (case (find (\<lambda>b. location b = x) bs, find (\<lambda>b. location b = y) bs) of
     (Some a, Some b) \<Rightarrow> Some (update_blink y (in_step a) bs) | _ \<Rightarrow> None)"

lemma find_map: "find P (map f xs) = map_option f (find (P \<circ> f) xs)"
  by (induction xs) auto

lemma find_helper_finds:
  assumes "listed v m ps"
  shows "mp1_find_helper v arg m = Some (case find (\<lambda>a. location (blink_at m a) = ucast arg) ps of None \<Rightarrow> 0 | Some a \<Rightarrow> a)"
    "find (\<lambda>b. location b = ucast arg) (map (blink_at m) ps) =
      map_option (blink_at m) (find (\<lambda>a. location (blink_at m a) = ucast arg) ps)"
    "find (\<lambda>a. location (blink_at m a) = ucast arg) ps = Some a \<Longrightarrow>
      a \<in> slots v \<and> a \<in> set ps \<and> a \<noteq> 0 \<and> location (blink_at m a) = ucast arg \<and> location (blink_at m a) < 2000"
proof -
  have c: "chain m (ld32 m (mp1_list_head v)) ps" using assms by (simp add: listed_def)
  show "mp1_find_helper v arg m = Some (case find (\<lambda>a. location (blink_at m a) = ucast arg) ps of None \<Rightarrow> 0 | Some a \<Rightarrow> a)"
    unfolding mp1_find_helper_def by (rule find_loop_finds [OF c])
  show "find (\<lambda>b. location b = ucast arg) (map (blink_at m) ps) =
      map_option (blink_at m) (find (\<lambda>a. location (blink_at m a) = ucast arg) ps)"
    by (simp add: find_map comp_def)
  show "find (\<lambda>a. location (blink_at m a) = ucast arg) ps = Some a \<Longrightarrow>
      a \<in> slots v \<and> a \<in> set ps \<and> a \<noteq> 0 \<and> location (blink_at m a) = ucast arg \<and> location (blink_at m a) < 2000"
    using assms chain_nonzero [OF c, of a] nth_mem by (auto simp: find_Some_iff listed_def)
qed

text \<open>One entry changed in place.\<close>

lemma entry_changed:
  assumes "listed v m ps" "e \<in> set ps" "only (\<lambda>p. inr e 16 p \<or> inr (vmem v m) 4000 p) m m'"
    and "location (blink_at m' e) = location (blink_at m e)" "ld32 m' (e + NEXT) = ld32 m (e + NEXT)"
  shows "listed v m' ps" "map (blink_at m') ps = map (\<lambda>a. if a = e then blink_at m' e else blink_at m a) ps"
    "vmem v m' = vmem v m" "only (blink_mem v (vmem v m)) m m'"
proof -
  have l: "laid_out v (vmem v m)" "chain m (ld32 m (mp1_list_head v)) ps" "distinct ps"
      "\<forall>a \<in> set ps. location (blink_at m a) < 2000" "set ps = {a \<in> slots v. location (blink_at m a) \<noteq> 0}"
    using assms(1) by (auto simp: listed_def)
  have e: "e \<in> slots v" using assms(2) l(5) by blast
  note rg = slot_regions [OF l(1)] and ld = laid_outD [OF l(1)]
  show w: "vmem v m' = vmem v m" by (rule vmem_only [OF assms(3)]) (use rg(4) [OF e] ld(10) in \<open>auto dest: apartD\<close>)
  have h: "ld32 m' (mp1_list_head v) = ld32 m (mp1_list_head v)"
    by (rule ld32_cong, rule only_rd [OF assms(3)]) (use rg(1) [OF e] ld(6) in \<open>auto dest: apartD\<close>)
  have b: "blink_at m' x = blink_at m x" "ld32 m' (x + NEXT) = ld32 m (x + NEXT)" if "x \<in> slots v" "x \<noteq> e" for x
  proof -
    have "inr x 16 p \<Longrightarrow> \<not> (inr e 16 p \<or> inr (vmem v m) 4000 p)" for p
      using slot_apart [OF l(1) that(1) e that(2)] rg(3) [OF that(1)] by (auto dest: apartD)
    then show "blink_at m' x = blink_at m x" "ld32 m' (x + NEXT) = ld32 m (x + NEXT)"
      using only_entry [OF assms(3)] by auto
  qed
  have lo: "location (blink_at m' x) = location (blink_at m x)" if "x \<in> slots v" for x
    using b(1) [OF that] assms(4) by (cases "x = e") auto
  have sl: "x \<in> slots v" if "x \<in> set ps" for x using that l(5) by blast
  have "ld32 m' (x + NEXT) = ld32 m (x + NEXT)" if "x \<in> set ps" for x
    using b(2) [OF sl [OF that]] assms(5) by (cases "x = e") auto
  then have "chain m' (ld32 m' (mp1_list_head v)) ps" using l(2) chain_cong [of ps m' m] by (simp add: h)
  moreover have "set ps = {a \<in> slots v. location (blink_at m' a) \<noteq> 0}" using l(5) lo by auto
  moreover have "\<forall>a \<in> set ps. location (blink_at m' a) < 2000" using l(4) lo sl by simp
  ultimately show "listed v m' ps" using l(1,3) unfolding listed_def w by blast
  show "map (blink_at m') ps = map (\<lambda>a. if a = e then blink_at m' e else blink_at m a) ps"
    using b(1) sl by simp
  show "only (blink_mem v (vmem v m)) m m'"
    by (rule only_mono [OF assms(3)]) (use slots_array [OF e] in \<open>auto simp: blink_mem_def\<close>)
qed

lemma low_word: "ucast ((arg :: u32) AND 0xFFFF) = (ucast arg :: u16)"
proof (rule bit_word_eqI)
  fix n assume "n < LENGTH(16)"
  have m: "(0xFFFF :: u32) = mask 16" by (simp add: mask_eq_exp_minus_1)
  show "bit (ucast (arg AND 0xFFFF) :: u16) n = bit (ucast arg :: u16) n"
    using \<open>n < LENGTH(16)\<close> unfolding m by (auto simp: bit_simps)
qed

text \<open>\<open>cmovl\<close> behind the test of the status never moves.\<close>

lemma status_sign: "\<not> bit ((x :: u8) AND 1) 7"
  by (simp add: bit_simps)

text \<open>Two entries, or the same one.\<close>

lemma two_entries:
  assumes "a = b \<or> apart a 16 b 16"
  shows "ld16 (st16 (b + 4) w m) (a + 6) = ld16 m (a + 6)" "ld16 (st16 (b + 4) w m) (a + 8) = ld16 m (a + 8)"
    "ld16 (st16 (b + 4) w m) (a + 10) = ld16 m (a + 10)" "ld16 (st16 (b + 6) w m) (a + 8) = ld16 m (a + 8)"
    "ld16 (st16 (b + 6) w m) (a + 10) = ld16 m (a + 10)" "ld16 (st16 (b + 8) w m) (a + 10) = ld16 m (a + 10)"
proof -
  have o: "ld16 (st16 (b + of_nat i) w m) (a + of_nat j) = ld16 m (a + of_nat j)"
    if "apart a 16 b 16" "i + 2 \<le> 16" "j + 2 \<le> 16" for i j w m
  proof (rule st16_other(2))
    have "apart a 16 (b + of_nat i) 2" by (rule apart_sub [OF that(1,2)]) simp_all
    then have "apart (b + of_nat i) 2 a 16" by (subst apart_sym)
    then show "apart (b + of_nat i) 2 (a + of_nat j) 2" by (rule apart_sub) (use that(3) in simp_all)
  qed
  show "ld16 (st16 (b + 4) w m) (a + 6) = ld16 m (a + 6)" "ld16 (st16 (b + 4) w m) (a + 8) = ld16 m (a + 8)"
    "ld16 (st16 (b + 4) w m) (a + 10) = ld16 m (a + 10)" "ld16 (st16 (b + 6) w m) (a + 8) = ld16 m (a + 8)"
    "ld16 (st16 (b + 6) w m) (a + 10) = ld16 m (a + 10)" "ld16 (st16 (b + 8) w m) (a + 10) = ld16 m (a + 10)"
    using assms o [of 4 6] o [of 4 8] o [of 4 10] o [of 6 8] o [of 6 10] o [of 8 10]
    by (auto simp: field_simps16 apart_def)
qed

lemma off_char_on_length: "st16 (a + ON_LENGTH) w m (a + OFF_CHAR) = m (a + OFF_CHAR)"
  by (rule st16_other(1)) (simp add: inr_def mask_eq_exp_minus_1 unsigned_minus_1_eq_mask)

theorem sync_syncs:
  fixes m :: mem and v :: blink_vars
  assumes "holds v m bs"
  shows "case sync_blink (ucast (drop_bit 16 arg)) (ucast arg) bs of
      None \<Rightarrow> mp1_ioctl_sync v arg m = Some (- 1, m)
    | Some bs' \<Rightarrow> \<exists>m'. mp1_ioctl_sync v arg m = Some (0, m') \<and> holds v m' bs' \<and> vmem v m' = vmem v m
        \<and> only (blink_mem v (vmem v m)) m m'
        \<and> (\<exists>b \<in> set bs. location b = ucast arg \<and> screen v m' = (screen v m)[unat (location b) := off_char b])"
proof -
  let ?x = "ucast (drop_bit 16 arg) :: u16" and ?y = "ucast arg :: u16"
  obtain ps where ps: "listed v m ps" "bs = map (blink_at m) ps" using assms by (auto simp: holds_def)
  have l: "laid_out v (vmem v m)" using ps(1) by (simp add: listed_def)
  note fx = find_helper_finds [OF ps(1), of "drop_bit 16 arg"]
    and fy = find_helper_finds [OF ps(1), of "arg AND 0xFFFF", unfolded low_word]
  let ?fx = "find (\<lambda>a. location (blink_at m a) = ?x) ps" and ?fy = "find (\<lambda>a. location (blink_at m a) = ?y) ps"
  show ?thesis
  proof (cases "?fx = None \<or> ?fy = None")
    case True
    have "a \<noteq> 0" if "?fx = Some a" for a using fx(3) [OF that] by simp
    then have "mp1_ioctl_sync v arg m = Some (- 1, m)"
      using True fx(1) fy(1) by (auto simp: mp1_ioctl_sync_def split: option.splits)
    moreover have "sync_blink ?x ?y bs = None"
      unfolding sync_blink_def ps(2) using True fx(2) fy(2) by (auto split: option.splits)
    ultimately show ?thesis by simp
  next
    case False
    then obtain a e where ae: "?fx = Some a" "?fy = Some e" by auto
    note a = fx(3) [OF ae(1)] and e = fy(3) [OF ae(2)]
    have ap: "a = e \<or> apart a 16 e 16" using slot_apart [OF l, of a e] a e by auto
    note te = two_entries [OF ap]
    define m4 where "m4 = st16 (e + STATUS) (ld16 m (a + STATUS)) (st16 (e + COUNTDOWN) (ld16 m (a + COUNTDOWN))
      (st16 (e + OFF_LENGTH) (ld16 m (a + OFF_LENGTH)) (st16 (e + ON_LENGTH) (ld16 m (a + ON_LENGTH)) m)))"
    have o4: "only (inr e 16) m m4"
      unfolding m4_def
      using only_trans [OF only_trans [OF only_trans [OF only_fields(1) only_fields(2)] only_fields(3)] only_fields(4)] by simp
    have b4: "blink_at m4 e = in_step (blink_at m a) (blink_at m e)" "ld32 m4 (e + NEXT) = ld32 m (e + NEXT)"
      unfolding m4_def by (simp_all add: off_char_on_length blink_at_def in_step_def field_simps16 apart_def inr_def)
    have s: "mp1_ioctl_sync v arg m = Some (0, mp1_poke v (m4 (e + OFF_CHAR)) (push_bit 1 (ucast (ld16 m4 e))) m4)"
      unfolding mp1_ioctl_sync_def fx(1) fy(1) ae option.case Let_def te m4_def using a e by (simp add: status_sign)
    have f4: "m4 (e + OFF_CHAR) = off_char (blink_at m e)" "ld16 m4 e = location (blink_at m e)"
      using b4(1) by (simp_all add: blink_fields in_step_def)
    define q where "q = vmem v m4 + of_nat (2 * unat (location (blink_at m e)))"
    have r: "mp1_ioctl_sync v arg m = Some (0, m4(q := off_char (blink_at m e)))"
      unfolding s f4 poke_cell q_def ..
    have w4: "vmem v m4 = vmem v m"
      by (rule vmem_only [OF o4]) (use slot_regions(4) [OF l] e in \<open>auto dest: apartD\<close>)
    have s4: "screen v m4 = screen v m"
      by (rule screen_only [OF o4 w4]) (use slot_regions(3) [OF l] e in \<open>auto dest: apartD\<close>)
    have lv: "laid_out v (vmem v m4)" "location (blink_at m e) < 2000" using l w4 e by auto
    note pk = poke_screen [OF lv, folded q_def]
    let ?m = "m4(q := off_char (blink_at m e))"
    have o: "only (\<lambda>p. inr e 16 p \<or> inr (vmem v m) 4000 p) m ?m"
      by (rule only_trans [OF only_mono [OF o4] only_upd]) (use pk(1) w4 in auto)
    have nq: "\<not> inr e 16 q" using slot_regions(3) [OF l] e pk(1) w4 by (auto dest: apartD)
    have "inr e 16 p \<Longrightarrow> p \<noteq> q" for p using nq by auto
    then have be: "blink_at ?m e = blink_at m4 e" "ld32 ?m (e + NEXT) = ld32 m4 (e + NEXT)"
      using only_entry [of "\<lambda>p. p = q" m4 ?m e] by (auto simp: only_def)
    have es: "e \<in> set ps" using e by simp
    have bm: "blink_at ?m e = in_step (blink_at m a) (blink_at m e)" by (simp only: be b4)
    have "location (blink_at ?m e) = location (blink_at m e)" "ld32 ?m (e + NEXT) = ld32 m (e + NEXT)"
      unfolding be b4 by (simp_all add: in_step_def)
    note ec = entry_changed [OF ps(1) es o this]
    obtain as e' cs where sp: "ps = as @ e' # cs" "location (blink_at m e') = ?y" "\<forall>x \<in> set as. location (blink_at m x) \<noteq> ?y"
      using split_list_first_prop [of ps "\<lambda>x. location (blink_at m x) = ?y"] e by blast
    have "?fy = Some e'" unfolding sp(1) by (rule find_split) (use sp(2,3) in auto)
    then have sp: "ps = as @ e # cs" "\<forall>x \<in> set as. location (blink_at m x) \<noteq> ?y" using sp ae(2) by auto
    have "distinct ps" using ps(1) by (simp add: listed_def)
    then have "map (\<lambda>z. if z = e then blink_at ?m e else blink_at m z) ps =
        map (blink_at m) as @ in_step (blink_at m a) (blink_at m e) # map (blink_at m) cs"
      unfolding bm sp(1) by auto
    also have "\<dots> = update_blink ?y (in_step (blink_at m a)) bs"
      unfolding ps(2) sp(1) by (rule update_blink_map [symmetric]) (use sp(2) e in auto)
    finally have "holds v ?m (update_blink ?y (in_step (blink_at m a)) bs)" using ec(1,2) by (auto simp: holds_def)
    moreover have "sync_blink ?x ?y bs = Some (update_blink ?y (in_step (blink_at m a)) bs)"
      unfolding sync_blink_def ps(2) fx(2) fy(2) ae by simp
    moreover have "blink_at m e \<in> set bs" "location (blink_at m e) = ?y" using e ps(2) by auto
    ultimately show ?thesis using r ec(3,4) pk(3) s4 by auto
  qed
qed

section \<open>Looking up\<close>

lemma ucast_ucast16 [simp]: "ucast (ucast (x :: u16) :: u32) = x"
  by (rule bit_word_eqI) (auto simp: bit_simps)

lemma find_finds:
  fixes m :: mem and v :: blink_vars
  assumes "holds v m bs" "apart (ebp v - 16) 16 arg 16" "\<And>p. inr arg 16 p \<Longrightarrow> \<not> blink_mem v (vmem v m) p"
    and "apart arg 16 (vmem_base_addr v) 4"
  shows "\<exists>m'. holds v m' bs \<and> vmem v m' = vmem v m \<and> screen v m' = screen v m
    \<and> only (\<lambda>p. inr (ebp v - 16) 16 p \<or> inr arg 16 p) m m'
    \<and> (case find (\<lambda>b. location b = ld16 m arg) bs of
         None \<Rightarrow> mp1_ioctl_find v arg m = Some (- 1, m')
       | Some b \<Rightarrow> mp1_ioctl_find v arg m = Some (0, m') \<and> blink_at m' arg = b)"
proof -
  obtain ps where ps: "listed v m ps" "bs = map (blink_at m) ps" using assms(1) by (auto simp: holds_def)
  have l: "laid_out v (vmem v m)" using ps(1) by (simp add: listed_def)
  let ?t = "ebp v - 2"
  have tt: "ebp v - 2 = ebp v - 16 + of_nat 14" by simp
  have ts: "inr ?t 2 p \<Longrightarrow> inr (ebp v - 16) 16 p" for p
    using inr_sub16 [of "ebp v - 16" 14 2 p, folded tt] by simp
  have ap: "apart ?t 2 arg 2" by (rule apartI) (auto dest!: ts dest: apartD [OF assms(2)] inr_mono [of arg 2 _ 16])
  define m1 where "m1 = wr ?t (rd m arg 2) m"
  have c1: "ece391_memcpy ?t arg 2 m = (0, m1)" using user_memcpy_wr [OF ap, of m] by (simp add: m1_def)
  have o1: "only (inr (ebp v - 16) 16) m m1"
    by (rule only_mono [OF only_wr [of "rd m arg 2" ?t m, folded m1_def]]) (auto dest: ts)
  have x: "ld16 m1 ?t = ld16 m arg" using rd_wr_same [of "rd m arg 2" ?t m] by (intro ld16_cong) (simp add: m1_def)
  note l1 = listed_only [OF ps(1) frame_only [OF o1]] and s1 = frame_screen [OF l o1]
  note f = find_helper_finds [OF l1(2), of "ucast (ld16 m arg)", unfolded ucast_ucast16]
  have bs: "bs = map (blink_at m1) ps" using l1(3) ps(2) by simp
  show ?thesis
  proof (cases "find (\<lambda>a. location (blink_at m1 a) = ld16 m arg) ps")
    case None
    then have "find (\<lambda>b. location b = ld16 m arg) bs = None" unfolding bs f(2) by simp
    moreover have "mp1_ioctl_find v arg m = Some (- 1, m1)" using c1 x f(1) None by (simp add: mp1_ioctl_find_def)
    moreover have "holds v m1 bs" using l1(2) bs by (auto simp: holds_def)
    moreover have "only (\<lambda>p. inr (ebp v - 16) 16 p \<or> inr arg 16 p) m m1" by (rule only_mono [OF o1]) simp
    ultimately show ?thesis using l1(1) s1 by (intro exI [of _ m1]) simp
  next
    case (Some a)
    note a = f(3) [OF Some]
    have fb: "find (\<lambda>b. location b = ld16 m arg) bs = Some (blink_at m1 a)" unfolding bs f(2) using Some by simp
    have aa: "apart arg 16 a 16"
      by (rule apartI) (use a slots_array in \<open>auto dest!: assms(3) simp: blink_mem_def\<close>)
    define m2 where "m2 = wr arg (rd m1 a 16) m1"
    have c2: "ece391_memcpy arg a 16 m1 = (0, m2)" using user_memcpy_wr [OF aa, of m1] by (simp add: m2_def)
    have r: "mp1_ioctl_find v arg m = Some (0, m2)" using c1 x f(1) Some c2 a by (simp add: mp1_ioctl_find_def)
    have "rd m2 arg 16 = rd m1 a 16" using rd_wr_same [of "rd m1 a 16" arg m1] by (simp add: m2_def)
    then have b: "blink_at m2 arg = blink_at m1 a" by (rule record_cong(1))
    have o2: "only (inr arg 16) m1 m2" using only_wr [of "rd m1 a 16" arg m1] by (simp add: m2_def)
    have w2: "vmem v m2 = vmem v m1" by (rule vmem_only [OF o2]) (use assms(4) in \<open>auto dest: apartD\<close>)
    have s2: "screen v m2 = screen v m1"
      by (rule screen_only [OF o2 w2]) (use l1(1) in \<open>auto dest!: assms(3) simp: blink_mem_def\<close>)
    have e: "blink_at m2 z = blink_at m1 z" "ld32 m2 (z + NEXT) = ld32 m1 (z + NEXT)" if "z \<in> slots v" for z
    proof -
      have "inr z 16 p \<Longrightarrow> \<not> inr arg 16 p" for p using slots_array [OF that] by (auto dest!: assms(3) simp: blink_mem_def)
      then show "blink_at m2 z = blink_at m1 z" "ld32 m2 (z + NEXT) = ld32 m1 (z + NEXT)" using only_entry [OF o2] by auto
    qed
    have h: "ld32 m2 (mp1_list_head v) = ld32 m1 (mp1_list_head v)"
      by (rule ld32_cong, rule only_rd [OF o2]) (auto dest!: assms(3) simp: blink_mem_def)
    have sl: "z \<in> slots v" if "z \<in> set ps" for z using l1(2) that by (auto simp: listed_def)
    have "chain m2 (ld32 m1 (mp1_list_head v)) ps"
    proof -
      have "chain m1 (ld32 m1 (mp1_list_head v)) ps" using l1(2) by (simp only: listed_def)
      then show ?thesis using chain_cong [of ps m2 m1, OF e(2) [OF sl]] by blast
    qed
    moreover have "{a \<in> slots v. location (blink_at m2 a) \<noteq> 0} = {a \<in> slots v. location (blink_at m1 a) \<noteq> 0}"
      using e(1) by auto
    moreover have "location (blink_at m2 a) = location (blink_at m1 a)" if "a \<in> set ps" for a
      by (simp only: e(1) [OF sl [OF that]])
    ultimately have "listed v m2 ps" using l1(2) unfolding listed_def w2 h by metis
    moreover have "bs = map (blink_at m2) ps" using bs e(1) sl by simp
    ultimately have "holds v m2 bs" by (auto simp: holds_def)
    moreover have "only (\<lambda>p. inr (ebp v - 16) 16 p \<or> inr arg 16 p) m m2"
      by (rule only_trans [OF only_mono [OF o1] only_mono [OF o2]]) auto
    ultimately show ?thesis using r fb b w2 s2 l1(1) s1 by (intro exI [of _ m2]) simp
  qed
qed

section \<open>The location 0\<close>

text \<open>The allocator takes the location 0 for a free entry, so a second record with that location gets the
  entry of the first one, which is then behind itself in the list.\<close>

lemma tasklet_cycle:
  assumes "laid_out v (vmem v m)" "e \<in> slots v" "ld32 m (e + NEXT) = e" "location (blink_at m e) < 2000"
  shows "tasklet_loop v e m = None"
proof (rule ccontr)
  define C where "C w x n \<longleftrightarrow> w = v \<and> x = e \<and> laid_out v (vmem v n) \<and> ld32 n (e + NEXT) = e \<and> location (blink_at n e) < 2000"
    for w x n
  have step: "C w x n \<Longrightarrow> x \<noteq> 0 \<and> C w (ld32 (blink_one w x n) (x + NEXT)) (blink_one w x n)" for w x n
  proof -
    assume a: "C w x n"
    let ?n = "blink_one v e n"
    have l: "laid_out v (vmem v n)" "location (blink_at n e) < 2000" using a by (auto simp: C_def)
    note bt = blink_one_tick [OF l(1) assms(2) l(2)]
    have "vmem v ?n = vmem v n"
      by (rule vmem_only [OF bt(3)])
        (use slot_regions(4) [OF l(1) assms(2)] laid_outD(10) [OF l(1)] in \<open>auto dest: apartD\<close>)
    moreover have "e \<noteq> 0" by (rule slot_nonzero [OF l(1) assms(2)])
    ultimately show ?thesis using a bt(1,2) by (auto simp: C_def)
  qed
  assume "tasklet_loop v e m \<noteq> None"
  then obtain y where y: "tasklet_loop v e m = Some y" by auto
  have "\<not> C v e m"
    by (rule tasklet_loop.raw_induct [where P = "\<lambda>w x n z. \<not> C w x n", OF _ y])
      (metis (no_types, lifting) step)
  then show False using assms by (simp add: C_def)
qed

lemma zero_cycle:
  fixes m :: mem and v :: blink_vars
  assumes "holds v m bs" "length bs < 2000" "apart (ebp v - 16) 16 arg 16"
    "\<And>p. inr arg 16 p \<Longrightarrow> \<not> blink_mem v (vmem v m) p" "location (blink_at m arg) = 0"
  shows "\<exists>m1 m2. mp1_ioctl_add v arg m = (0, m1) \<and> mp1_ioctl_add v arg m1 = (0, m2) \<and> mp1_rtc_tasklet v m2 = None"
proof -
  obtain ps where ps: "listed v m ps" "bs = map (blink_at m) ps" using assms(1) by (auto simp: holds_def)
  have l: "laid_out v (vmem v m)" using ps(1) by (simp add: listed_def)
  let ?e = "mp1_malloc v m"
  have e: "?e \<in> slots v" "location (blink_at m ?e) = 0"
    using listed_length(2) [OF ps(1)] malloc_slot [of v m] ps(2) assms(2) by auto
  have lt: "location (blink_at m arg) < 2000" using assms(5) by simp
  obtain m1 where r1: "mp1_ioctl_add v arg m = (0, m1)" and h1: "ld32 m1 (mp1_list_head v) = ?e"
    and b1: "location (blink_at m1 ?e) = 0" "\<And>x. x \<in> slots v \<Longrightarrow> x \<noteq> ?e \<Longrightarrow> blink_at m1 x = blink_at m x"
    and w1: "vmem v m1 = vmem v m" and k1: "only (blink_mem v (vmem v m)) m m1"
    using add_memory(2) [OF l assms(3) lt e(1)] assms(5) by auto
  have a1: "blink_at m1 arg = blink_at m arg" by (rule only_entry(1) [OF k1 assms(4)])
  have "location (blink_at m1 x) = location (blink_at m x)" if "x \<in> slots v" for x
    using b1 e that by (cases "x = ?e") auto
  then have e1: "mp1_malloc v m1 = ?e" by (rule malloc_cong)
  have l1: "laid_out v (vmem v m1)" using l w1 by simp
  obtain m2 where r2: "mp1_ioctl_add v arg m1 = (0, m2)" and h2: "ld32 m2 (mp1_list_head v) = ?e"
    and n2: "ld32 m2 (?e + NEXT) = ?e" and b2: "location (blink_at m2 ?e) = 0" and w2: "vmem v m2 = vmem v m1"
    using add_memory(2) [OF l1 assms(3), unfolded a1 e1 h1, OF lt e(1)] assms(5) by auto
  have "tasklet_loop v ?e m2 = None" by (rule tasklet_cycle) (use l1 w2 e(1) n2 b2 in simp_all)
  then show ?thesis using r1 r2 h2 by (auto simp: mp1_rtc_tasklet_def)
qed

section \<open>Blinking\<close>

fun tasklets :: "nat \<Rightarrow> blink_vars \<Rightarrow> mem \<Rightarrow> mem option" where
  "tasklets 0 v m = Some m"
| "tasklets (Suc n) v m = (case mp1_rtc_tasklet v m of None \<Rightarrow> None | Some m \<Rightarrow> tasklets n v m)"

fun ticked :: "nat \<Rightarrow> blink list \<Rightarrow> u8 list \<Rightarrow> u8 list" where
  "ticked 0 bs scr = scr"
| "ticked (Suc n) bs scr = ticked n (map tick bs) (fold tick_shows bs scr)"

lemma tasklets_tick:
  "holds v m bs \<Longrightarrow> \<exists>m'. tasklets n v m = Some m' \<and> holds v m' (map (tick ^^ n) bs) \<and> screen v m' = ticked n bs (screen v m)"
proof (induction n arbitrary: m bs)
  case (Suc n)
  from tasklet_ticks [OF Suc.prems] obtain m' where
      m': "mp1_rtc_tasklet v m = Some m'" "holds v m' (map tick bs)" "screen v m' = fold tick_shows bs (screen v m)"
    by blast
  from Suc.IH [OF m'(2)] show ?case using m'(1,3) by (simp add: funpow_Suc_right comp_def del: funpow.simps)
qed simp

text \<open>The state a record goes to when its countdown ends, and the character shown then.\<close>

definition next_char :: "blink \<Rightarrow> u8" where
  "next_char b = (if status b AND 1 = 0 then on_char b else off_char b)"

definition switch_blink :: "blink \<Rightarrow> blink" where
  "switch_blink b = b\<lparr>countdown := (if status b AND 1 = 0 then on_length b else off_length b), status := status b XOR 1\<rparr>"

lemma tick_counts:
  assumes "countdown b = of_nat (Suc n)" "n < 2 ^ 15"
  shows "0 < sint (countdown b - 1) \<longleftrightarrow> 0 < n" "tick b = (if n = 0 then switch_blink b else b\<lparr>countdown := of_nat n\<rparr>)"
proof -
  have c: "countdown b - 1 = of_nat n" using assms(1) by simp
  have "sint (of_nat n :: u16) = int n" using assms(2) by (simp add: signed_of_nat signed_take_bit_int_eq_self)
  then have p: "0 < sint (of_nat n :: u16) \<longleftrightarrow> 0 < n" by simp
  show "0 < sint (countdown b - 1) \<longleftrightarrow> 0 < n" unfolding c by (rule p)
  show "tick b = (if n = 0 then switch_blink b else b\<lparr>countdown := of_nat n\<rparr>)"
    unfolding tick_def c p by (simp add: switch_blink_def)
qed

lemma length_tick_shows [simp]: "length (tick_shows b scr) = length scr"
  by (simp add: tick_shows_def)

lemma tick_shows_other: "location a \<noteq> location b \<Longrightarrow> tick_shows a scr ! unat (location b) = scr ! unat (location b)"
  by (simp add: tick_shows_def nth_list_update_neq word_unat_eq_iff)

lemma fold_shows_other:
  "location b \<notin> location ` set bs \<Longrightarrow> fold tick_shows bs scr ! unat (location b) = scr ! unat (location b)"
  by (induction bs arbitrary: scr) (auto simp: tick_shows_other)

lemma fold_shows:
  assumes "distinct (map location bs)" "b \<in> set bs" "unat (location b) < length scr"
  shows "fold tick_shows bs scr ! unat (location b) =
    (if 0 < sint (countdown b - 1) then scr ! unat (location b) else next_char b)"
  using assms
proof (induction bs arbitrary: scr)
  case (Cons a bs)
  show ?case
  proof (cases "a = b")
    case True
    then have "location b \<notin> location ` set bs" using Cons.prems(1) by simp
    then have "fold tick_shows (a # bs) scr ! unat (location b) = tick_shows b scr ! unat (location b)"
      using True fold_shows_other [of b bs] by simp
    also have "\<dots> = (if 0 < sint (countdown b - 1) then scr ! unat (location b) else next_char b)"
      using Cons.prems(3) by (simp add: tick_shows_def next_char_def)
    finally show ?thesis .
  next
    case False
    then have "b \<in> set bs" "location a \<noteq> location b" using Cons.prems(1,2) by auto
    then show ?thesis using Cons by (simp add: tick_shows_other)
  qed
qed simp

lemma length_fold_shows [simp]: "length (fold tick_shows bs scr) = length scr"
  by (induction bs arbitrary: scr) simp_all

lemma ticked_cell:
  assumes "distinct (map location bs)" "b \<in> set bs" "countdown b = of_nat (Suc n)" "n < 2 ^ 15"
    "unat (location b) < length scr"
  shows "(tick ^^ Suc n) b = switch_blink b" "ticked (Suc n) bs scr ! unat (location b) = next_char b"
    "k \<le> n \<Longrightarrow> ticked k bs scr ! unat (location b) = scr ! unat (location b)"
proof -
  have "(tick ^^ Suc n) b = switch_blink b \<and> ticked (Suc n) bs scr ! unat (location b) = next_char b"
    using assms
  proof (induction n arbitrary: b bs scr)
    case 0
    then show ?case using tick_counts [OF 0(3)] fold_shows [OF 0(1,2,5)] by simp
  next
    case (Suc n)
    have t: "tick b = b\<lparr>countdown := of_nat (Suc n)\<rparr>" using tick_counts(2) [OF Suc.prems(3,4)] by simp
    have "distinct (map location (map tick bs))" using Suc.prems(1) by (simp add: comp_def)
    moreover have "tick b \<in> set (map tick bs)" using Suc.prems(2) by simp
    moreover have "countdown (tick b) = of_nat (Suc n)" "n < 2 ^ 15" "unat (location (tick b)) < length (fold tick_shows bs scr)"
      using t Suc.prems(4,5) by simp_all
    ultimately have "(tick ^^ Suc n) (tick b) = switch_blink (tick b)"
        "ticked (Suc n) (map tick bs) (fold tick_shows bs scr) ! unat (location (tick b)) = next_char (tick b)"
      using Suc.IH by blast+
    moreover have "switch_blink (tick b) = switch_blink b" "next_char (tick b) = next_char b"
      unfolding t by (simp_all add: switch_blink_def next_char_def)
    ultimately show ?case by (simp only: funpow_Suc_right comp_apply ticked.simps tick_location)
  qed
  then show "(tick ^^ Suc n) b = switch_blink b" "ticked (Suc n) bs scr ! unat (location b) = next_char b" by auto
  show "k \<le> n \<Longrightarrow> ticked k bs scr ! unat (location b) = scr ! unat (location b)"
    using assms
  proof (induction k arbitrary: n b bs scr)
    case (Suc k)
    then obtain j where j: "n = Suc j" by (cases n) auto
    have t: "tick b = b\<lparr>countdown := of_nat (Suc j)\<rparr>" "0 < sint (countdown b - 1)"
      using tick_counts [OF Suc.prems(4,5)] by (simp_all add: j)
    have "distinct (map location (map tick bs))" using Suc.prems(2) by (simp add: comp_def)
    moreover have "tick b \<in> set (map tick bs)" using Suc.prems(3) by simp
    moreover have "k \<le> j" "countdown (tick b) = of_nat (Suc j)" "j < 2 ^ 15"
        "unat (location (tick b)) < length (fold tick_shows bs scr)"
      using t Suc.prems(1,5,6) j by simp_all
    ultimately have "ticked k (map tick bs) (fold tick_shows bs scr) ! unat (location (tick b)) =
        fold tick_shows bs scr ! unat (location (tick b))" using Suc.IH by blast
    then show ?case using fold_shows [OF Suc.prems(2,3,6)] t(2) by simp
  qed simp
qed

lemma holds_locations: "holds v m bs \<Longrightarrow> b \<in> set bs \<Longrightarrow> unat (location b) < length (screen v m)"
  by (auto simp: holds_def listed_def screen_def word_less_nat_alt)

section \<open>The commands\<close>

definition ioctl_blinks :: "blink \<Rightarrow> u32 \<Rightarrow> u32 \<Rightarrow> blink list \<Rightarrow> int \<times> blink list" where
  "ioctl_blinks b arg cmd bs =
     (if cmd = 0 then add_blink b bs
      else if cmd = 1 then (if ucast arg \<in> location ` set bs then 0 else - 1, remove_blink (ucast arg) bs)
      else if cmd = 2 then (if location b \<in> location ` set bs then 0 else - 1, bs)
      else (case sync_blink (ucast (drop_bit 16 arg)) (ucast arg) bs of None \<Rightarrow> (- 1, bs) | Some bs \<Rightarrow> (0, bs)))"

section \<open>A sample\<close>

definition fish_vars :: blink_vars where
  "fish_vars = \<lparr>blink_array = 0x0804A000, mp1_list_head = 0x08049F00, vmem_base_addr = 0x08049F10, ebp = 0x083FFFE0\<rparr>"

text \<open>A record that the program has filled in, with its list still empty.\<close>

definition fish_record :: "u16 \<Rightarrow> u8 list" where
  "fish_record l = [ucast l, ucast (drop_bit 8 l), 0x49, 0x4D, 3, 0, 2, 0, 0, 0, 0, 0, 0, 0, 0, 0]"

definition fish_mem :: "u16 \<Rightarrow> mem" where
  "fish_mem l = wr 0x08300000 (fish_record l) (st32 0x08049F10 0x08800000 (\<lambda>_. 0))"

lemma length_fish_record [simp]: "length (fish_record l) = 16"
  by (simp add: fish_record_def)

lemma fish_mem_holds:
  "holds fish_vars (fish_mem l) []" "vmem fish_vars (fish_mem l) = 0x08800000"
  "blink_at (fish_mem l) 0x08300000 = \<lparr>location = l, on_char = 0x49, off_char = 0x4D, on_length = 3, off_length = 2,
     countdown = 0, status = 0\<rparr>"
proof -
  let ?m = "fish_mem l" and ?a = "0x08300000 :: u32" and ?v = "0x08049F10 :: u32" and ?z = "\<lambda>_. 0 :: u8"
  have o: "only (\<lambda>p. inr ?a 16 p \<or> inr ?v 4 p) ?z ?m"
    unfolding fish_mem_def st32_def
    by (rule only_trans [OF only_mono [OF only_wr] only_mono [OF only_wr]]) simp_all
  have "ld32 ?m ?v = ld32 (st32 ?v 0x08800000 ?z) ?v"
    unfolding fish_mem_def by (rule ld32_cong, rule rd_wr_apart) (simp_all add: apart_def)
  then show w: "vmem fish_vars ?m = 0x08800000" by (simp add: vmem_def fish_vars_def ld32_st32)
  show "blink_at ?m ?a = \<lparr>location = l, on_char = 0x49, off_char = 0x4D, on_length = 3, off_length = 2, countdown = 0, status = 0\<rparr>"
    by (simp add: blink_at_def ld16_def fish_mem_def fish_record_def) (simp add: le16_def)
  have l: "laid_out fish_vars 0x08800000" by (simp add: laid_out_def regions_def fish_vars_def apart_def)
  have h: "ld32 ?m (mp1_list_head fish_vars) = 0"
  proof -
    have "rd ?m 0x08049F00 4 = rd ?z 0x08049F00 4"
    proof (rule only_rd [OF o])
      show "inr 0x08049F00 4 p \<Longrightarrow> \<not> (inr ?a 16 p \<or> inr ?v 4 p)" for p
        using apartD [of "0x08049F00" 4 ?a 16 p] apartD [of "0x08049F00" 4 ?v 4 p] by (simp add: apart_def)
    qed simp
    from ld32_cong [OF this] show ?thesis by (simp add: fish_vars_def ld32_def le32_def)
  qed
  have "location (blink_at ?m x) = 0" if "x \<in> slots fish_vars" for x
  proof -
    have "inr x 16 p \<Longrightarrow> \<not> (inr ?a 16 p \<or> inr ?v 4 p)" for p
      using slots_array [OF that] apartD [of "0x0804A000" 32000 ?a 16 p] apartD [of "0x0804A000" 32000 ?v 4 p]
      by (simp add: fish_vars_def apart_def)
    from only_entry(1) [OF o this] show ?thesis by (simp add: blink_at_def ld16_def le16_def)
  qed
  then have "listed fish_vars ?m []" using l w h by (auto simp: listed_def)
  then show "holds fish_vars ?m []" by (auto simp: holds_def)
qed

text \<open>A record of the caller that is not in the memory the functions use.\<close>

definition own_record :: "blink_vars \<Rightarrow> mem \<Rightarrow> u32 \<Rightarrow> bool" where
  "own_record v m arg = list_all (\<lambda>(a, n). apart a n arg 16) (regions v (vmem v m))"

lemma own_recordD:
  assumes "own_record v m arg"
  shows "apart (ebp v - 16) 16 arg 16" "apart arg 16 (vmem_base_addr v) 4" "inr arg 16 p \<Longrightarrow> \<not> blink_mem v (vmem v m) p"
proof -
  have a: "apart (blink_array v) 32000 arg 16" "apart (mp1_list_head v) 4 arg 16" "apart (ebp v - 16) 16 arg 16"
      "apart (vmem v m) 4000 arg 16" "apart (vmem_base_addr v) 4 arg 16"
    using assms by (simp_all add: own_record_def regions_def)
  then show "apart (ebp v - 16) 16 arg 16" "apart arg 16 (vmem_base_addr v) 4" by (simp_all add: apart_sym [of arg])
  show "inr arg 16 p \<Longrightarrow> \<not> blink_mem v (vmem v m) p" using a by (auto simp: blink_mem_def dest: apartD)
qed

lemma fish_mem_record: "own_record fish_vars (fish_mem l) 0x08300000"
  by (simp add: own_record_def regions_def fish_mem_holds) (simp add: fish_vars_def apart_def)

lemma fish_mem_add:
  "l < 2000 \<Longrightarrow> l \<noteq> 0 \<Longrightarrow> holds fish_vars (snd (mp1_ioctl_add fish_vars 0x08300000 (fish_mem l)))
    [\<lparr>location = l, on_char = 0x49, off_char = 0x4D, on_length = 3, off_length = 2, countdown = 3, status = 1\<rparr>]"
  using add_adds [OF fish_mem_holds(1) own_recordD(1) [OF fish_mem_record], of l] by (auto simp: fish_mem_holds add_blink_def)

section \<open>Properties\<close>





text \<open>C38: a record with the location 0 is accepted, but the allocator takes its entry for a free one: a second such
  record is put into the same entry, which then has itself for its successor, and \<open>mp1_rtc_tasklet\<close> never
  returns.\<close>
theorem second_zero_hangs:
  fixes m :: mem and v :: blink_vars
  assumes "holds v m bs" "length bs < 2000" "own_record v m arg" "location (blink_at m arg) = 0"
  shows "\<exists>m1 m2. mp1_ioctl v arg 0 m = Some (0, m1) \<and> mp1_ioctl v arg 0 m1 = Some (0, m2) \<and> mp1_rtc_tasklet v m2 = None"
  using zero_cycle [OF assms(1,2) own_recordD(1,3) [OF assms(3)] assms(4)] by (auto simp: mp1_ioctl_def)

theorem second_zero_hangs_witness:
  "\<exists>m1 m2. mp1_ioctl fish_vars 0x08300000 0 (fish_mem 0) = Some (0, m1)
     \<and> mp1_ioctl fish_vars 0x08300000 0 m1 = Some (0, m2) \<and> mp1_rtc_tasklet fish_vars m2 = None"
  by (rule second_zero_hangs [OF fish_mem_holds(1) _ fish_mem_record]) (simp_all add: fish_mem_holds)

end
