(* ===== verification/Spec2Isabelle.thy ===== *)
theory Spec2Isabelle
  imports Boot Syserr Session Descriptors Grep Dialogs Blink
begin

text \<open>
  A verification library for the lmaOS kernel, a 32-bit x86 teaching kernel in C
  (\<^verbatim>\<open>student-distrib/\<close>): three text terminals, at most six processes, a read-only file
  system image, four devices (keyboard, real-time clock, interval timer, display) and ten system
  calls; and the user programs that come with it (\<^verbatim>\<open>syscalls/\<close>).

  \<^bold>\<open>The state.\<close>  One extensible record grows with the components.  \<open>machine\<close> has the
  memory (\<open>mem\<close>, a byte at each address, as the kernel sees it through its pointers), the log of port
  writes (\<open>out\<close>), the answers of the devices to port reads as a function of the log (\<open>dev\<close>), the
  interrupt flag, and the ghost flag \<open>wild\<close> (an access outside the objects the code may touch, or
  a call through a pointer never set).
  \<open>console\<close>, \<open>pic\<close>, \<open>rtc\<close>, \<open>fs\<close>, \<open>kbd\<close>, \<open>paging\<close> and \<open>kernel\<close> add the static variables of
  \<^verbatim>\<open>lib.c\<close>, \<^verbatim>\<open>i8259.c\<close>, \<^verbatim>\<open>rtc.c\<close>, \<^verbatim>\<open>filesys.c\<close>, \<^verbatim>\<open>keyboard.c\<close>, \<^verbatim>\<open>paging.c\<close> and
  \<^verbatim>\<open>syscall.c\<close> with \<^verbatim>\<open>terminal.c\<close> and \<^verbatim>\<open>scheduling.c\<close>.  Machine integers are words of their
  width; \<open>int32_t\<close> is \<open>int\<close> where the values are small or checked, with the conversions of the
  code written out.  The PCBs, terminal records and descriptors are records found by address.
  A function that does not come back to its caller (\<open>execute\<close>, \<open>halt\<close>, a switch of terminals)
  returns an \<open>outcome\<close>: a result, the entry into a user program, the return into a parent's
  frame, or the resumption of saved registers.

  \<^bold>\<open>The theories, in the order of the code's layers.\<close>
  \<^item> \<open>Prelude\<close>: types, memory reads and writes, C strings, collections of simplification rules.
    \<open>Machine\<close>: \<^verbatim>\<open>lib.h\<close> (ports, interrupt flag).
  \<^item> \<open>Mem_Lib\<close>, \<open>Str_Lib\<close>, \<open>Console\<close>: \<^verbatim>\<open>lib.c\<close>.  The assembly of \<open>memcpy\<close>, \<open>memset\<close>,
    \<open>memmove\<close> equals byte-wise copies; the string functions are equal to list functions, those
    that may not end are partial functions into \<open>option\<close>; \<open>putc\<close> refines a terminal of 2000
    cells (locale \<open>char_sink\<close>, whose client is \<open>puts\<close> and \<open>terminal_write\<close>).  \<open>Printf\<close>: what
    \<open>printf\<close> prints, as a list.
  \<^item> \<open>Pic\<close>, \<open>Rtc\<close>: \<^verbatim>\<open>i8259.c\<close>, \<^verbatim>\<open>rtc.c\<close>.  The two interrupt controllers as sixteen lines
    (locale \<open>irq_lines\<close>); rates; waiting for the clock as a loop over the schedule of interrupts.
  \<^item> \<open>Filesys\<close>: \<^verbatim>\<open>filesys.c\<close>, first half.  Directory lookup (locale \<open>directory\<close>) and \<open>read_data\<close>
    refine an abstract directory and the abstract contents of a file.  \<open>Disk\<close>: the image as one
    range of memory; stores elsewhere leave the directory and the files as they are.
  \<^item> \<open>Keyboard\<close>: key maps and line buffer of \<^verbatim>\<open>keyboard.c\<close>, with an abstract line as reference.
  \<^item> \<open>Paging\<close>: \<^verbatim>\<open>paging.c\<close>, with the processor's page walk as documented.
  \<^item> \<open>Process\<close>: PCBs, terminals and global variables; the invariant \<open>procs s gs\<close> relates the state
    to the abstract table \<open>gs\<close>, the list of the processes of each terminal.
  \<^item> \<open>File_Ops\<close>: the operations behind the jump tables, \<^verbatim>\<open>filesys.c\<close>, second half.
  \<^item> \<open>Execute\<close>, \<open>Terminal\<close>, \<open>Kb_Handler\<close>, \<open>Syscall\<close>, \<open>Halt\<close>: \<^verbatim>\<open>syscall.c\<close>, \<^verbatim>\<open>terminal.c\<close> and
    the handler of \<^verbatim>\<open>keyboard.c\<close>.  On the table, \<open>execute\<close> appends a process to the displayed
    terminal's list and \<open>halt\<close> removes the last one; reading a line is related to the keys
    typed, opening and reading to the contents of the file.
  \<^item> \<open>Idt\<close>: \<^verbatim>\<open>idt.c\<close> and the descriptor format of \<^verbatim>\<open>x86_desc.h\<close>.
  \<^item> \<open>Scheduling\<close>: \<^verbatim>\<open>scheduling.c\<close>.
  \<^item> \<open>Kernel_Steps\<close>: the system call entry of \<^verbatim>\<open>intr_handler.S\<close> and the kernel as a transition
    relation (system calls, exceptions, interrupts, user computations), with the invariant of
    the process table in every reachable state (locale \<open>driver\<close> for the calls through jump
    tables).  \<open>Descriptors\<close>: in every reachable state the descriptors are well-formed, so no
    call goes through a pointer that was not set (a second instance of the locale).
  \<^item> \<open>Boot\<close>: \<^verbatim>\<open>kernel.c\<close>, with the structures of \<^verbatim>\<open>multiboot.h\<close> and the segment descriptors of
    \<^verbatim>\<open>x86_desc.h\<close>: from the boot loader to the first shell, where the transition relation starts.
  \<^item> \<open>User_Lib\<close>, \<open>User_Frame\<close>: the library and the system call wrappers of the user programs
    (\<^verbatim>\<open>syscalls/ece391support.c\<close>, \<^verbatim>\<open>ece391syscall.S\<close>), and what each call does to the screen, the
    memory and the descriptors of the program that makes it.
  \<^item> \<open>Programs\<close>, \<open>Syserr\<close>, \<open>Shell\<close>: user programs, as functions that make their calls of the kernel: \<open>cat\<close>
    prints the file, \<open>ls\<close> the directory, the kernel passes the tests of \<^verbatim>\<open>ece391syserr.c\<close>, and the
    shell has the line executed that the user typed.
  \<^item> \<open>Line_Input\<close>, \<open>Dialogs\<close>: programs that read a line, in terms of the keys typed (the shell,
    \<^verbatim>\<open>ece391counter.c\<close>, \<^verbatim>\<open>ece391hello.c\<close>).  \<open>Grep\<close>: \<^verbatim>\<open>ece391grep.c\<close>, whose buffer of pieces and incomplete
    lines implements the search of the file's lines (\<open>carries\<close> relates the array to the rest of the text).
  \<^item> \<open>Session\<close>: a whole command, composed of all these: from the line the user types at the prompt
    through \<open>execute\<close>, the program with its page and its descriptors, and \<open>halt\<close>, back to the prompt.
    \<open>child_of\<close> is what the program finds when it starts, \<open>back_in\<close> what its parent finds when it has
    ended (\<open>child_starts\<close>, \<open>child_ends\<close>); \<open>shell_runs\<close> holds for every program that only prints.
  \<^item> \<open>Blink\<close>: the linked list of blinking characters of \<^verbatim>\<open>fish/blink.S\<close> with its allocator in \<^verbatim>\<open>fish.c\<close>,
    on the bytes of memory; \<open>holds v m bs\<close> says that the array holds the list \<open>bs\<close> of records, and the
    commands and the tasklet implement operations on it.  The video window is memory of its own at
    the address in \<^verbatim>\<open>vmem_base_addr\<close>.

  \<^bold>\<open>Bounds.\<close>  No fuel: the loops are structural or over lists the code's bounds give.  The
  functions that wait for an interrupt (\<open>rtc_read\<close>, \<open>terminal_read\<close>) take the interrupts that
  arrive at each poll as a list; \<open>None\<close> means that the list ended first, and their properties
  say for which lists they return.

  \<^bold>\<open>Hypotheses on the environment.\<close>  The page walk of the processor (\<open>walk\<close>) and the meaning of
  the writes to the controllers and the clock are as documented; the answers of devices, the
  addresses the linker chooses (page tables, interrupt handlers) and the file system image in
  memory are arbitrary.  \<open>mem\<close> shows the page of the current process at 128 MB, \<open>frames\<close> keeps the
  pages of the others.

  \<^bold>\<open>Not modelled.\<close>  The start-up code and descriptor tables in assembler (\<^verbatim>\<open>boot.S\<close>,
  \<^verbatim>\<open>x86_desc.S\<close>), the tests (\<^verbatim>\<open>tests.c\<close>, whose entry is empty), and the other user programs:
  \<^verbatim>\<open>main\<close> and \<^verbatim>\<open>add_frames\<close> of \<^verbatim>\<open>fish/fish.c\<close>, \<^verbatim>\<open>ece391pingpong.c\<close>, \<^verbatim>\<open>ece391sigtest.c\<close> (for signals, which the kernel does not have), and
  \<^verbatim>\<open>ece391emulate.c\<close>, which runs programs on Linux instead of on the kernel.
  In \<open>scheduling\<close>, the code behind the store through a null pointer.
\<close>

end
